(* ===== verification/Prelude.thy ===== *)
theory Prelude
  imports Main "HOL-Library.Word"
begin

text \<open>
  Shared vocabulary of the development: the machine types the C++ code uses, the faults a
  C++ operation can end in, the result type of fallible operations, little-endian bytes, and
  the generic lemmas the component theories share.
\<close>

unbundle bit_operations_syntax

section \<open>Machine types\<close>

type_synonym byte = "8 word"        \<comment> \<open>char, uint8\<close>
type_synonym uint16 = "16 word"     \<comment> \<open>short (read with sint) and unsigned short\<close>
type_synonym uint32 = "32 word"     \<comment> \<open>int (read with sint) and uint32\<close>
type_synonym size_t = "64 word"

section \<open>Faults and results\<close>

text \<open>
  What an operation can end in other than a value: undefined behaviour of the C++ abstract
  machine (a null dereference, an access outside an object, signed overflow, a division by
  zero, a memcpy between overlapping ranges) or an exception that leaves the function, with its type and message.
\<close>

datatype fault =
    Null_Deref
  | Out_Of_Bounds
  | Signed_Overflow
  | Div_By_Zero
  | Use_After_Free
  | Overlapping_Copy
  | Exception string string

type_synonym 'a result = "fault + 'a"

definition bindR :: "'a result \<Rightarrow> ('a \<Rightarrow> 'b result) \<Rightarrow> 'b result" where
  "bindR m f = (case m of Inl e \<Rightarrow> Inl e | Inr x \<Rightarrow> f x)"

lemma bindR_simps [simp]:
  "bindR (Inl e) f = Inl e"
  "bindR (Inr x) f = f x"
  by (simp_all add: bindR_def)

lemma bindR_Inr_iff: "bindR m f = Inr y \<longleftrightarrow> (\<exists>x. m = Inr x \<and> f x = Inr y)"
  by (cases m) auto

lemma bindR_cong [fundef_cong]:
  "m = m' \<Longrightarrow> (\<And>x. m' = Inr x \<Longrightarrow> f x = f' x) \<Longrightarrow> bindR m f = bindR m' f'"
  by (cases m') auto

section \<open>Little-endian bytes\<close>

text \<open>
  The code copies integers in and out of byte buffers with memcpy; on the little-endian
  targets it is built for, byte \<open>i\<close> of the object is bits \<open>8 * i\<close> and up of the value.
\<close>

fun le_nat :: "byte list \<Rightarrow> nat" where
  "le_nat [] = 0"
| "le_nat (b # bs) = unat b + 256 * le_nat bs"

fun nat_le :: "nat \<Rightarrow> nat \<Rightarrow> byte list" where
  "nat_le 0 v = []"
| "nat_le (Suc k) v = of_nat (v mod 256) # nat_le k (v div 256)"

lemma length_nat_le [simp]: "length (nat_le k v) = k"
  by (induction k arbitrary: v) auto

lemma unat_byte_of_nat: "unat (of_nat (v mod 256) :: byte) = v mod 256"
  by (simp add: unat_of_nat)

lemma le_nat_nat_le: "le_nat (nat_le k v) = v mod 256 ^ k"
proof (induction k arbitrary: v)
  case 0
  then show ?case by simp
next
  case (Suc k)
  have "v mod (256 * 256 ^ k) = v mod 256 + 256 * (v div 256 mod 256 ^ k)"
    by (simp add: mod_mult2_eq)
  with Suc show ?case by (simp add: unat_byte_of_nat)
qed

lemma le_nat_bound: "le_nat bs < 256 ^ length bs"
proof (induction bs)
  case Nil
  then show ?case by simp
next
  case (Cons b bs)
  have "unat b < 256" using unsigned_less [of b] by simp
  moreover have "256 * le_nat bs + 256 \<le> 256 * 256 ^ length bs"
    using Cons by simp
  ultimately show ?case by simp
qed

section \<open>Words and powers of two\<close>

lemma word_of_nat_unat: "of_nat (unat w) = w" for w :: "'a::len word"
  by simp

lemma unat_and_mask_mod:
  fixes w :: size_t
  assumes "k \<le> 63"
  shows "unat (w AND (of_nat (2 ^ k) - 1)) = unat w mod 2 ^ k"
proof -
  have "(of_nat (2 ^ k) - 1 :: size_t) = mask k"
    by (simp add: mask_eq_exp_minus_1)
  then have "unat (w AND (of_nat (2 ^ k) - 1)) = unat (take_bit k w)"
    by (simp add: take_bit_eq_mask)
  also have "\<dots> = take_bit k (unat w)"
    by (rule unsigned_take_bit_eq)
  finally show ?thesis
    by (simp add: take_bit_eq_mod)
qed

lemma pow2_dvd_2_64: "k \<le> 63 \<Longrightarrow> (2::nat) ^ k dvd 2 ^ 64"
  by (rule le_imp_power_dvd) simp

lemma unat_add_mod_pow2:
  fixes w v :: size_t
  assumes "k \<le> 63"
  shows "unat (w + v) mod 2 ^ k = (unat w + unat v) mod 2 ^ k"
proof -
  have "unat (w + v) = (unat w + unat v) mod 2 ^ 64"
    by (simp add: unat_word_ariths)
  with pow2_dvd_2_64 [OF assms] show ?thesis
    by (simp add: mod_mod_cancel)
qed

lemma mod_add_neq:
  fixes a i j n :: nat
  assumes "i < j" "j < i + n"
  shows "(a + i) mod n \<noteq> (a + j) mod n"
proof
  assume "(a + i) mod n = (a + j) mod n"
  then have "n dvd (a + j) - (a + i)"
    using assms(1) mod_eq_dvd_iff_nat [of "a + i" "a + j" n] by simp
  then have "n dvd j - i" by simp
  moreover have "0 < j - i" "j - i < n" using assms by auto
  ultimately show False by (auto dest: dvd_imp_le)
qed

text \<open>Lists of a numeral length, unfolded one by one.\<close>

lemma replicate_numeral: "replicate (numeral k) x = x # replicate (pred_numeral k) x"
  by (simp add: numeral_eq_Suc)

end
