(* ===== verification/Asio_Error.thy ===== *)
theory Asio_Error
  imports Prelude
begin

text \<open>
  Error codes of the bundled asio (error.hpp): a value and its category, with the numbers of Linux for
  the errors the code compares with.
\<close>

datatype category = System_Category | Misc_Category

type_synonym error_code = "category \<times> int"

definition system_error :: "int \<Rightarrow> error_code" where
  "system_error errno = (System_Category, errno)"

definition no_error :: error_code where
  "no_error = system_error 0"

text \<open>\<open>basic_errors\<close>.\<close>

definition interrupted :: error_code where "interrupted = system_error 4"
definition bad_descriptor :: error_code where "bad_descriptor = system_error 9"
definition try_again :: error_code where "try_again = system_error 11"
definition would_block :: error_code where "would_block = system_error 11"
definition invalid_argument :: error_code where "invalid_argument = system_error 22"
definition operation_not_supported :: error_code where "operation_not_supported = system_error 95"
definition connection_aborted :: error_code where "connection_aborted = system_error 103"
definition no_buffer_space :: error_code where "no_buffer_space = system_error 105"
definition in_progress :: error_code where "in_progress = system_error 115"
definition operation_aborted :: error_code where "operation_aborted = system_error 125"

text \<open>\<open>misc_errors\<close>.\<close>

definition already_open :: error_code where "already_open = (Misc_Category, 1)"
definition eof :: error_code where "eof = (Misc_Category, 2)"
definition not_found :: error_code where "not_found = (Misc_Category, 3)"

text \<open>\<open>error_code::operator bool\<close>: any value but 0, of whichever category.\<close>

definition is_error :: "error_code \<Rightarrow> bool" where
  "is_error ec \<longleftrightarrow> snd ec \<noteq> 0"

lemmas error_codes = system_error_def no_error_def interrupted_def bad_descriptor_def try_again_def
  would_block_def invalid_argument_def operation_not_supported_def connection_aborted_def
  no_buffer_space_def in_progress_def operation_aborted_def already_open_def eof_def not_found_def
  is_error_def

end
