(* ===== verification/Asio_Object_Pool.thy ===== *)
theory Asio_Object_Pool
  imports Prelude
begin

text \<open>
  The pool of objects in which the reactor of the bundled asio keeps the states of its descriptors
  (detail/object\_pool.hpp): two lists through the links \<open>next_\<close> and \<open>prev_\<close> of the objects, which are
  named by their addresses. The lemmas on doubly linked lists are shared with the list of all strands.
\<close>

section \<open>Doubly linked lists\<close>

type_synonym ptr = "nat option"

record links2 =
  next_of :: "nat \<Rightarrow> ptr"
  prev_of :: "nat \<Rightarrow> ptr"

text \<open>The list from \<open>p\<close> on, whose first element's predecessor is \<open>b\<close>.\<close>

fun dlist :: "links2 \<Rightarrow> ptr \<Rightarrow> ptr \<Rightarrow> nat list \<Rightarrow> bool" where
  "dlist l b p [] \<longleftrightarrow> p = None"
| "dlist l b p (x # xs) \<longleftrightarrow> p = Some x \<and> prev_of l x = b \<and> dlist l (Some x) (next_of l x) xs"

definition last_ptr :: "ptr \<Rightarrow> nat list \<Rightarrow> ptr" where
  "last_ptr b xs = (if xs = [] then b else Some (last xs))"

lemma last_ptr_simps [simp]:
  "last_ptr b [] = b"
  "last_ptr b (x # xs) = last_ptr (Some x) xs"
  by (simp_all add: last_ptr_def)

lemma last_ptr_append [simp]: "last_ptr b (xs @ ys) = last_ptr (last_ptr b xs) ys"
  by (induction xs arbitrary: b) auto

text \<open>A segment ends in front of \<open>q\<close>.\<close>

fun dseg :: "links2 \<Rightarrow> ptr \<Rightarrow> ptr \<Rightarrow> nat list \<Rightarrow> ptr \<Rightarrow> bool" where
  "dseg l b p [] q \<longleftrightarrow> p = q"
| "dseg l b p (x # xs) q \<longleftrightarrow> p = Some x \<and> prev_of l x = b \<and> dseg l (Some x) (next_of l x) xs q"

lemma dlist_append: "dlist l b p (xs @ ys) \<longleftrightarrow> (\<exists>q. dseg l b p xs q \<and> dlist l (last_ptr b xs) q ys)"
  by (induction xs arbitrary: b p) auto

lemma dlist_cong:
  "(\<And>x. x \<in> set xs \<Longrightarrow> next_of l x = next_of l' x \<and> prev_of l x = prev_of l' x) \<Longrightarrow>
    dlist l b p xs = dlist l' b p xs"
  by (induction xs arbitrary: b p) auto

lemma dlist_hd: "dlist l b p xs \<Longrightarrow> p = (case xs of [] \<Rightarrow> None | x # _ \<Rightarrow> Some x)"
  by (cases xs) auto

text \<open>Only the first \<open>prev_\<close> and the last \<open>next_\<close> refer to the neighbours.\<close>

lemma dlist_new_prev:
  assumes "dlist l b p (x # xs)" "x \<notin> set xs" "prev_of l' = (prev_of l)(x := b')" "next_of l' = next_of l"
  shows "dlist l' b' p (x # xs)"
proof -
  have "dlist l (Some x) (next_of l x) xs = dlist l' (Some x) (next_of l x) xs"
    by (rule dlist_cong) (use assms in auto)
  with assms show ?thesis by simp
qed

lemma dseg_cong:
  "(\<And>x. x \<in> set xs \<Longrightarrow> next_of l x = next_of l' x \<and> prev_of l x = prev_of l' x) \<Longrightarrow>
    dseg l b p xs q = dseg l' b p xs q"
  by (induction xs arbitrary: b p) auto

lemma dseg_snoc: "dseg l b p (xs @ [x]) q \<longleftrightarrow>
    dseg l b p xs (Some x) \<and> prev_of l x = last_ptr b xs \<and> next_of l x = q"
  by (induction xs arbitrary: b p) auto

lemma dseg_hd: "dseg l b p xs q \<Longrightarrow> xs \<noteq> [] \<Longrightarrow> p = Some (hd xs)"
  by (cases xs) auto

section \<open>Inserting and removing\<close>

text \<open>An object becomes the first one.\<close>

definition link_front :: "nat \<Rightarrow> links2 \<times> ptr \<Rightarrow> links2 \<times> ptr" where
  "link_front o' lh = (case lh of (l, head) \<Rightarrow>
     (let l1 = l\<lparr>next_of := (next_of l)(o' := head)\<rparr>;
          l2 = l1\<lparr>prev_of := (prev_of l1)(o' := None)\<rparr>;
          l3 = (case head of None \<Rightarrow> l2 | Some h \<Rightarrow> l2\<lparr>prev_of := (prev_of l2)(h := Some o')\<rparr>)
      in (l3, Some o')))"

text \<open>An object is taken out.\<close>

definition unlink_object :: "nat \<Rightarrow> links2 \<times> ptr \<Rightarrow> links2 \<times> ptr" where
  "unlink_object o' lh = (case lh of (l, head) \<Rightarrow>
     (let head1 = (if head = Some o' then next_of l o' else head);
          l1 = (case prev_of l o' of None \<Rightarrow> l
                  | Some p \<Rightarrow> l\<lparr>next_of := (next_of l)(p := next_of l o')\<rparr>);
          l2 = (case next_of l1 o' of None \<Rightarrow> l1
                  | Some n \<Rightarrow> l1\<lparr>prev_of := (prev_of l1)(n := prev_of l1 o')\<rparr>)
      in (l2, head1)))"

lemma dlist_link_front:
  assumes "dlist l None head xs" "distinct (x # xs)" "link_front x (l, head) = (l', head')"
  shows "dlist l' None head' (x # xs)"
proof (cases xs)
  case Nil
  with assms show ?thesis by (auto simp: link_front_def Let_def)
next
  case (Cons y ys)
  then have h: "head = Some y" using assms(1) by simp
  have l': "next_of l' = (next_of l)(x := Some y)" "prev_of l' = (prev_of l)(x := None, y := Some x)"
    "head' = Some x"
    using assms(3) h by (auto simp: link_front_def Let_def)
  have "dlist l (Some y) (next_of l y) ys = dlist l' (Some y) (next_of l y) ys"
    by (rule dlist_cong) (use assms(2) Cons l' in auto)
  with assms(1,2) Cons l' h show ?thesis by auto
qed

lemma link_front_others:
  "link_front x (l, head) = (l', head') \<Longrightarrow> z \<noteq> x \<Longrightarrow> head \<noteq> Some z \<Longrightarrow>
    next_of l' z = next_of l z \<and> prev_of l' z = prev_of l z"
  by (auto simp: link_front_def Let_def split: option.splits)

lemma dlist_unlink:
  assumes l: "dlist l None head (as @ x # bs)" and d: "distinct (as @ x # bs)"
    and u: "unlink_object x (l, head) = (l', head')"
  shows "dlist l' None head' (as @ bs)"
proof -
  have as: "dseg l None head as (Some x)" and px: "prev_of l x = last_ptr None as"
    and bs: "dlist l (Some x) (next_of l x) bs"
    using l by (auto simp: dlist_append)
  define l1 where "l1 = (case prev_of l x of None \<Rightarrow> l
                  | Some p \<Rightarrow> l\<lparr>next_of := (next_of l)(p := next_of l x)\<rparr>)"
  have nx: "next_of l1 x = next_of l x" "prev_of l1 = prev_of l"
    using px d by (auto simp: l1_def last_ptr_def split: option.splits if_splits)
  have head': "head' = (if head = Some x then next_of l x else head)"
    using u by (auto simp: unlink_object_def Let_def)
  have l': "l' = (case next_of l x of None \<Rightarrow> l1
                  | Some n \<Rightarrow> l1\<lparr>prev_of := (prev_of l)(n := prev_of l x)\<rparr>)"
  proof -
    have "l' = (case next_of l1 x of None \<Rightarrow> l1
        | Some n \<Rightarrow> l1\<lparr>prev_of := (prev_of l1)(n := prev_of l1 x)\<rparr>)"
      using u unfolding unlink_object_def Let_def l1_def by simp
    then show ?thesis by (simp only: nx)
  qed
  have next': "next_of l' = next_of l1" using l' by (auto split: option.splits)
  have seg: "dseg l' None head' as (next_of l x)"
  proof (cases as rule: rev_cases)
    case Nil
    then show ?thesis using as head' by auto
  next
    case (snoc as' y)
    have y: "next_of l' = (next_of l)(y := next_of l x)"
      unfolding next' using px snoc by (simp add: l1_def)
    have "head \<noteq> Some x" using dseg_hd [OF as] d snoc hd_in_set [of as] by auto
    moreover have "dseg l' None head as' (Some y) = dseg l None head as' (Some y)"
    proof (rule dseg_cong)
      fix z assume z: "z \<in> set as'"
      have "next_of l x \<noteq> Some z" using bs z d snoc by (cases bs) auto
      then show "next_of l' z = next_of l z \<and> prev_of l' z = prev_of l z"
        using z d snoc y l' nx by (auto split: option.splits)
    qed
    ultimately show ?thesis
      using as snoc head' y l' nx d bs
      by (auto simp: dseg_snoc split: option.splits list.splits dest!: dlist_hd)
  qed
  have "dlist l' (last_ptr None as) (next_of l x) bs"
  proof (cases bs)
    case Nil
    then show ?thesis using bs by simp
  next
    case (Cons z zs)
    have z: "next_of l x = Some z" "prev_of l' = (prev_of l)(z := last_ptr None as)"
      using bs Cons l' px by auto
    have same: "next_of l' y = next_of l y" if "y \<in> set bs" for y
    proof -
      have "prev_of l x \<noteq> Some y"
        using that d px last_in_set [of as] by (auto simp: last_ptr_def disjoint_iff split: if_splits)
      then show ?thesis by (auto simp: next' l1_def split: option.splits)
    qed
    have "dlist l (Some z) (next_of l z) zs = dlist l' (Some z) (next_of l z) zs"
      by (rule dlist_cong) (use d Cons z same in auto)
    then show ?thesis using bs Cons z same by simp
  qed
  with seg show ?thesis by (auto simp: dlist_append)
qed

lemma unlink_others:
  "unlink_object x (l, head) = (l', head') \<Longrightarrow> prev_of l x \<noteq> Some z \<Longrightarrow> next_of l x \<noteq> Some z \<Longrightarrow>
    next_of l' z = next_of l z \<and> prev_of l' z = prev_of l z"
  by (auto simp: unlink_object_def Let_def split: option.splits if_splits)

section \<open>The pool\<close>

text \<open>\<open>made\<close> are the objects that exist, \<open>next_new\<close> is the address the next one gets.\<close>

record object_pool =
  pool_links :: links2
  live_list :: ptr
  free_list :: ptr
  made :: nat

definition pool_new :: object_pool where
  "pool_new = \<lparr>pool_links = \<lparr>next_of = (\<lambda>_. None), prev_of = (\<lambda>_. None)\<rparr>,
     live_list = None, free_list = None, made = 0\<rparr>"

definition pool_first :: "object_pool \<Rightarrow> ptr" where
  "pool_first p = live_list p"

definition pool_alloc :: "object_pool \<Rightarrow> object_pool \<times> nat" where
  "pool_alloc p =
     (let (o', p1) = (case free_list p of
                Some x \<Rightarrow> (x, p\<lparr>free_list := next_of (pool_links p) x\<rparr>)
              | None \<Rightarrow> (made p, p\<lparr>made := made p + 1\<rparr>));
          (l, head) = link_front o' (pool_links p1, live_list p1)
      in (p1\<lparr>pool_links := l, live_list := head\<rparr>, o'))"

definition pool_free :: "nat \<Rightarrow> object_pool \<Rightarrow> object_pool" where
  "pool_free o' p =
     (let (l, head) = unlink_object o' (pool_links p, live_list p);
          l1 = l\<lparr>next_of := (next_of l)(o' := free_list p)\<rparr>;
          l2 = l1\<lparr>prev_of := (prev_of l1)(o' := None)\<rparr>
      in p\<lparr>pool_links := l2, live_list := head, free_list := Some o'\<rparr>)"

text \<open>The loop of the destructor over one of the lists, with what it destroys.\<close>

partial_function (option) destroy_list :: "links2 \<Rightarrow> ptr \<Rightarrow> nat list option" where
  "destroy_list l p =
     (case p of None \<Rightarrow> Some []
      | Some x \<Rightarrow> Option.bind (destroy_list l (next_of l x)) (\<lambda>xs. Some (x # xs)))"

text \<open>Live objects are a doubly linked list, free ones a list through \<open>next_\<close>; together they are all.\<close>

fun slist :: "links2 \<Rightarrow> ptr \<Rightarrow> nat list \<Rightarrow> bool" where
  "slist l p [] \<longleftrightarrow> p = None"
| "slist l p (x # xs) \<longleftrightarrow> p = Some x \<and> slist l (next_of l x) xs"

definition pool_rep :: "object_pool \<Rightarrow> nat list \<Rightarrow> nat list \<Rightarrow> bool" where
  "pool_rep p live free \<longleftrightarrow>
     dlist (pool_links p) None (live_list p) live \<and> slist (pool_links p) (free_list p) free \<and>
     distinct (live @ free) \<and> set (live @ free) = {..<made p}"

lemma slist_cong: "(\<And>x. x \<in> set xs \<Longrightarrow> next_of l x = next_of l' x) \<Longrightarrow> slist l p xs = slist l' p xs"
  by (induction xs arbitrary: p) auto

lemma destroys_slist: "slist l p xs \<Longrightarrow> destroy_list l p = Some xs"
proof (induction xs arbitrary: p)
  case Nil
  then show ?case by (subst destroy_list.simps) simp
next
  case (Cons x xs)
  then show ?case by (subst destroy_list.simps) simp
qed

lemma dlist_slist: "dlist l b p xs \<Longrightarrow> slist l p xs"
  by (induction xs arbitrary: b p) auto

lemma pool_rep_new: "pool_rep pool_new [] []"
  by (auto simp: pool_rep_def pool_new_def)

lemma dlist_next_in: "dlist l b p xs \<Longrightarrow> x \<in> set xs \<Longrightarrow> next_of l x = Some z \<Longrightarrow> z \<in> set xs"
proof (induction xs arbitrary: b p)
  case (Cons y ys)
  then show ?case by (cases ys) auto
qed simp

lemma dlist_prev_in: "dlist l b p xs \<Longrightarrow> x \<in> set xs \<Longrightarrow> prev_of l x = Some z \<Longrightarrow> z \<in> set xs \<or> b = Some z"
  by (induction xs arbitrary: b p) auto

lemma pool_alloc_fresh:
  "free_list p = None \<Longrightarrow> link_front (made p) (pool_links p, live_list p) = (l, head) \<Longrightarrow>
    pool_alloc p = (p\<lparr>made := made p + 1, pool_links := l, live_list := head\<rparr>, made p)"
  by (simp add: pool_alloc_def)

lemma pool_alloc_reused:
  "free_list p = Some y \<Longrightarrow> link_front y (pool_links p, live_list p) = (l, head) \<Longrightarrow>
    pool_alloc p = (p\<lparr>free_list := next_of (pool_links p) y, pool_links := l, live_list := head\<rparr>, y)"
  by (simp add: pool_alloc_def)

lemma pool_rep_alloc:
  assumes rep: "pool_rep p live free" and a: "pool_alloc p = (p', x)"
  shows "pool_rep p' (x # live) (remove1 x free) \<and> x \<notin> set live"
proof -
  note r = rep [unfolded pool_rep_def]
  have xy: "x = (case free of [] \<Rightarrow> made p | y # _ \<Rightarrow> y)"
  proof (cases free)
    case Nil
    then have "free_list p = None" using r by simp
    then show ?thesis using pool_alloc_fresh [of p] a Nil
      by (cases "link_front (made p) (pool_links p, live_list p)") simp
  next
    case (Cons y ys)
    then have "free_list p = Some y" using r by simp
    then show ?thesis using pool_alloc_reused [of p y] a Cons
      by (cases "link_front y (pool_links p, live_list p)") simp
  qed
  obtain l head where lh: "link_front x (pool_links p, live_list p) = (l, head)" by (rule prod.exhaust)
  have p': "p' = (case free of [] \<Rightarrow> p\<lparr>made := made p + 1, pool_links := l, live_list := head\<rparr>
      | y # _ \<Rightarrow> p\<lparr>free_list := next_of (pool_links p) y, pool_links := l, live_list := head\<rparr>)"
  proof (cases free)
    case Nil
    then have "free_list p = None" using r by simp
    then show ?thesis using pool_alloc_fresh [of p l head] a lh xy Nil by simp
  next
    case (Cons y ys)
    then have "free_list p = Some y" using r by simp
    then show ?thesis using pool_alloc_reused [of p y l head] a lh xy Cons by simp
  qed
  have objs: "distinct (live @ free)" "set (live @ free) = {..<made p}" using r by simp_all
  have x: "x \<notin> set live"
  proof (cases free)
    case Nil
    then show ?thesis using objs(2) xy by auto
  next
    case (Cons y ys)
    then show ?thesis using objs(1) xy by auto
  qed
  then have "dlist l None head (x # live)"
    using dlist_link_front [OF _ _ lh, of live] r by (simp del: dlist.simps)
  moreover have "slist l (free_list p') (remove1 x free)"
  proof (cases free)
    case Nil
    then show ?thesis using r p' by simp
  next
    case (Cons y ys)
    have "next_of l z = next_of (pool_links p) z" if "z \<in> set ys" for z
    proof -
      have "live_list p \<noteq> Some z" using that r Cons by (cases live) auto
      moreover have "z \<noteq> x" using that r Cons xy by auto
      ultimately show ?thesis using link_front_others [OF lh] by blast
    qed
    then have "slist (pool_links p) (next_of (pool_links p) y) ys = slist l (next_of (pool_links p) y) ys"
      by (intro slist_cong) simp
    then show ?thesis using r Cons p' xy by simp
  qed
  moreover have "distinct ((x # live) @ remove1 x free) \<and> set ((x # live) @ remove1 x free) = {..<made p'}"
  proof (cases free)
    case Nil
    then show ?thesis using objs x p' xy by (auto simp: lessThan_Suc)
  next
    case (Cons y ys)
    then show ?thesis using objs p' xy by auto
  qed
  moreover have "pool_links p' = l \<and> live_list p' = head" using p' by (cases free) simp_all
  ultimately show ?thesis using x by (simp add: pool_rep_def)
qed

lemma pool_rep_free:
  assumes rep: "pool_rep p live free" and x: "x \<in> set live"
  shows "pool_rep (pool_free x p) (remove1 x live) (x # free)"
proof -
  note r = rep [unfolded pool_rep_def]
  obtain as bs where live: "live = as @ x # bs" using x by (auto simp: in_set_conv_decomp)
  have notin: "x \<notin> set as" "x \<notin> set bs" using r live by auto
  obtain l head where lh: "unlink_object x (pool_links p, live_list p) = (l, head)" by (rule prod.exhaust)
  have "dlist l None head (as @ bs)"
    by (rule dlist_unlink [OF _ _ lh]) (use r live in auto)
  then have "dlist (l\<lparr>next_of := (next_of l)(x := free_list p), prev_of := (prev_of l)(x := None)\<rparr>)
      None head (as @ bs)"
    using notin by (subst dlist_cong [of _ _ l]) auto
  moreover have "next_of l z = next_of (pool_links p) z" if "z \<in> set free" for z
    using unlink_others [OF lh, of z] dlist_next_in [of "pool_links p" None "live_list p" live x z]
      dlist_prev_in [of "pool_links p" None "live_list p" live x z] r x that by auto
  then have "slist (pool_links p) (free_list p) free =
      slist (l\<lparr>next_of := (next_of l)(x := free_list p), prev_of := (prev_of l)(x := None)\<rparr>)
        (free_list p) free"
    using r live by (intro slist_cong) auto
  ultimately show ?thesis
    using r live notin lh by (auto simp: pool_rep_def pool_free_def Let_def remove1_append)
qed

text \<open>The destructor destroys every object once.\<close>

lemma pool_destroys_all:
  assumes "pool_rep p live free"
  shows "destroy_list (pool_links p) (live_list p) = Some live \<and>
    destroy_list (pool_links p) (free_list p) = Some free \<and>
    distinct (live @ free) \<and> set (live @ free) = {..<made p}"
  using assms destroys_slist dlist_slist unfolding pool_rep_def by blast

end
