(* ===== verification/Asio_Epoll.thy ===== *)
theory Asio_Epoll
  imports Asio_Error Asio_Object_Pool
begin

text \<open>
  The reactor of the bundled asio on Linux (detail/epoll\_reactor.hpp, detail/impl/epoll\_reactor.ipp,
  detail/reactor\_op.hpp): descriptors with their waiting operations, how an operation is tried, made
  to wait, performed when the system reports events, and cancelled. What an operation does to its
  descriptor and the system's \<open>epoll_ctl\<close> are parameters, functions of the world they work on. Calls of
  the scheduler are results, in order. The timers of the reactor are in \<open>Epoll_Timers\<close>.
\<close>

section \<open>Operations and descriptors\<close>

record reactor_op =
  op_id :: nat
  op_ec :: error_code
  op_bytes :: nat

datatype status = Not_Done | Done | Done_And_Exhausted

abbreviation (input) read_op :: nat where "read_op \<equiv> 0"
abbreviation (input) write_op :: nat where "write_op \<equiv> 1"
abbreviation (input) except_op :: nat where "except_op \<equiv> 2"

definition max_ops :: nat where "max_ops = 3"

definition EPOLLIN :: uint32 where "EPOLLIN = 1"
definition EPOLLPRI :: uint32 where "EPOLLPRI = 2"
definition EPOLLOUT :: uint32 where "EPOLLOUT = 4"
definition EPOLLERR :: uint32 where "EPOLLERR = 8"
definition EPOLLHUP :: uint32 where "EPOLLHUP = 16"
definition EPOLLET :: uint32 where "EPOLLET = 2147483648"

lemmas epoll_flags = EPOLLIN_def EPOLLPRI_def EPOLLOUT_def EPOLLERR_def EPOLLHUP_def EPOLLET_def

record descriptor_state =
  descriptor :: int
  registered_events :: uint32
  op_queues :: "reactor_op list list"
  try_speculative :: "bool list"
  state_shutdown :: bool
  task_result :: uint32

text \<open>A new object; its constructor leaves the plain fields open, which are set before they are read.\<close>

definition descriptor_state_new :: descriptor_state where
  "descriptor_state_new = \<lparr>descriptor = - 1, registered_events = 0, op_queues = replicate max_ops [],
     try_speculative = replicate max_ops False, state_shutdown = False, task_result = 0\<rparr>"

definition set_ready_events :: "uint32 \<Rightarrow> descriptor_state \<Rightarrow> descriptor_state" where
  "set_ready_events events d = d\<lparr>task_result := events\<rparr>"

definition add_ready_events :: "uint32 \<Rightarrow> descriptor_state \<Rightarrow> descriptor_state" where
  "add_ready_events events d = d\<lparr>task_result := task_result d OR events\<rparr>"

text \<open>The functions outside: an operation's \<open>perform\<close>, and \<open>epoll_ctl\<close>, which returns \<open>errno\<close> or 0.\<close>

datatype ctl = Ctl_Add | Ctl_Mod | Ctl_Del

record 'w reactor_os =
  perform_func :: "'w \<Rightarrow> reactor_op \<Rightarrow> status \<times> error_code \<times> nat \<times> 'w"
  epoll_ctl :: "'w \<Rightarrow> ctl \<Rightarrow> int \<Rightarrow> uint32 \<Rightarrow> int \<times> 'w"

text \<open>\<open>reactor_op::perform\<close>; an operation sets its own error and its number of bytes.\<close>

definition perform :: "'w reactor_os \<Rightarrow> 'w \<Rightarrow> reactor_op \<Rightarrow> status \<times> reactor_op \<times> 'w" where
  "perform os w op =
     (case perform_func os w op of (status, ec, n, w') \<Rightarrow> (status, op\<lparr>op_ec := ec, op_bytes := n\<rparr>, w'))"

datatype sched_call =
    Post_Immediate reactor_op bool
  | Post_Deferred "reactor_op list"
  | Work_Started
  | Compensating_Work_Started
  | Abandon "reactor_op list"

section \<open>Starting an operation\<close>

type_synonym 'w started = "descriptor_state \<times> sched_call list \<times> 'w"

definition complete_now :: "descriptor_state \<Rightarrow> reactor_op \<Rightarrow> bool \<Rightarrow> 'w \<Rightarrow> 'w started" where
  "complete_now d op is_continuation w = (d, [Post_Immediate op is_continuation], w)"

definition wait_op :: "descriptor_state \<Rightarrow> nat \<Rightarrow> reactor_op \<Rightarrow> 'w \<Rightarrow> 'w started" where
  "wait_op d op_type op w =
     (d\<lparr>op_queues := (op_queues d)[op_type := op_queues d ! op_type @ [op]]\<rparr>, [Work_Started], w)"

text \<open>The part of \<open>start_op\<close> that may try the operation at once.\<close>

definition start_speculative :: "'w reactor_os \<Rightarrow> nat \<Rightarrow> int \<Rightarrow> descriptor_state \<Rightarrow> reactor_op \<Rightarrow> bool \<Rightarrow> 'w \<Rightarrow>
    'w started" where
  "start_speculative os op_type desc d op is_continuation w =
     (case (if try_speculative d ! op_type then perform os w op else (Not_Done, op, w)) of
        (status, op1, w1) \<Rightarrow>
          if status \<noteq> Not_Done
          then complete_now
                 (if status = Done_And_Exhausted \<and> registered_events d \<noteq> 0
                  then d\<lparr>try_speculative := (try_speculative d)[op_type := False]\<rparr> else d)
                 op1 is_continuation w1
          else if registered_events d = 0
          then complete_now d (op1\<lparr>op_ec := operation_not_supported\<rparr>) is_continuation w1
          else if op_type = write_op \<and> registered_events d AND EPOLLOUT = 0
          then (case epoll_ctl os w1 Ctl_Mod desc (registered_events d OR EPOLLOUT) of
                  (errno, w2) \<Rightarrow>
                    if errno = 0
                    then wait_op (d\<lparr>registered_events := registered_events d OR (registered_events d OR EPOLLOUT)\<rparr>)
                           op_type op1 w2
                    else complete_now d (op1\<lparr>op_ec := system_error errno\<rparr>) is_continuation w2)
          else wait_op d op_type op1 w1)"

definition start_op :: "'w reactor_os \<Rightarrow> nat \<Rightarrow> int \<Rightarrow> descriptor_state \<Rightarrow> reactor_op \<Rightarrow> bool \<Rightarrow> bool \<Rightarrow> 'w \<Rightarrow>
    'w started" where
  "start_op os op_type desc d op is_continuation allow_speculative w =
     (if state_shutdown d then complete_now d op is_continuation w
      else if op_queues d ! op_type = []
      then if allow_speculative \<and> (op_type \<noteq> read_op \<or> op_queues d ! except_op = [])
           then start_speculative os op_type desc d op is_continuation w
           else if registered_events d = 0
           then complete_now d (op\<lparr>op_ec := operation_not_supported\<rparr>) is_continuation w
           else (let d1 = (if op_type = write_op then d\<lparr>registered_events := registered_events d OR EPOLLOUT\<rparr> else d);
                     (_, w1) = epoll_ctl os w Ctl_Mod desc (registered_events d1)
                 in wait_op d1 op_type op w1)
      else wait_op d op_type op w)"

text \<open>Without a registration of the descriptor.\<close>

definition start_op_unregistered :: "reactor_op \<Rightarrow> bool \<Rightarrow> sched_call list" where
  "start_op_unregistered op is_continuation = [Post_Immediate (op\<lparr>op_ec := bad_descriptor\<rparr>) is_continuation]"

section \<open>Performing operations\<close>

text \<open>The loop over one queue: what is left of it, the operations that are done, and whether the last
  of them has exhausted the descriptor.\<close>

fun perform_queue :: "'w reactor_os \<Rightarrow> reactor_op list \<Rightarrow> 'w \<Rightarrow> reactor_op list \<times> reactor_op list \<times> bool \<times> 'w" where
  "perform_queue os [] w = ([], [], False, w)"
| "perform_queue os (op # q) w =
     (case perform os w op of
        (status, op1, w1) \<Rightarrow>
          (case status of
             Not_Done \<Rightarrow> (op1 # q, [], False, w1)
           | Done_And_Exhausted \<Rightarrow> (q, [op1], True, w1)
           | Done \<Rightarrow> (case perform_queue os q w1 of
                       (q', ops, exhausted, w2) \<Rightarrow> (q', op1 # ops, exhausted, w2))))"

definition flag :: "nat \<Rightarrow> uint32" where
  "flag j = [EPOLLIN, EPOLLOUT, EPOLLPRI] ! j"

text \<open>The loop of \<open>perform_io\<close> over the types, from exceptions down to reads.\<close>

fun perform_types :: "'w reactor_os \<Rightarrow> uint32 \<Rightarrow> nat \<Rightarrow> descriptor_state \<Rightarrow> 'w \<Rightarrow>
    descriptor_state \<times> reactor_op list \<times> 'w" where
  "perform_types os events 0 d w = (d, [], w)"
| "perform_types os events (Suc j) d w =
     (if events AND (flag j OR EPOLLERR OR EPOLLHUP) = 0 then perform_types os events j d w
      else (case perform_queue os (op_queues d ! j) w of
         (q, ops, exhausted, w1) \<Rightarrow>
           (case perform_types os events j
                   (d\<lparr>op_queues := (op_queues d)[j := q], try_speculative := (try_speculative d)[j := \<not> exhausted]\<rparr>) w1 of
              (d', more_ops, w2) \<Rightarrow> (d', ops @ more_ops, w2))))"

text \<open>The first operation is returned, the others are posted behind it.\<close>

definition perform_io :: "'w reactor_os \<Rightarrow> uint32 \<Rightarrow> descriptor_state \<Rightarrow> 'w \<Rightarrow>
    descriptor_state \<times> reactor_op option \<times> sched_call list \<times> 'w" where
  "perform_io os events d w =
     (case perform_types os events max_ops d w of
        (d', ops, w') \<Rightarrow>
          (case ops of
             [] \<Rightarrow> (d', None, [Compensating_Work_Started], w')
           | op # rest \<Rightarrow> (d', Some op, (if rest = [] then [] else [Post_Deferred rest]), w')))"

text \<open>\<open>do_complete\<close> of a descriptor, whose events are its task result; without an owner it is destroyed.\<close>

definition descriptor_complete :: "'w reactor_os \<Rightarrow> bool \<Rightarrow> descriptor_state \<Rightarrow> 'w \<Rightarrow>
    descriptor_state \<times> reactor_op option \<times> sched_call list \<times> 'w" where
  "descriptor_complete os has_owner d w =
     (if has_owner then perform_io os (task_result d) d w else (d, None, [], w))"

section \<open>Cancelling\<close>

text \<open>The loops that take all operations from the queues, with the error they end in.\<close>

definition abort_op :: "reactor_op \<Rightarrow> reactor_op" where
  "abort_op op = op\<lparr>op_ec := operation_aborted\<rparr>"

definition all_ops :: "descriptor_state \<Rightarrow> reactor_op list" where
  "all_ops d = concat (op_queues d)"

definition clear_queues :: "descriptor_state \<Rightarrow> descriptor_state" where
  "clear_queues d = d\<lparr>op_queues := replicate max_ops []\<rparr>"

definition cancel_ops :: "descriptor_state \<Rightarrow> descriptor_state \<times> sched_call list" where
  "cancel_ops d = (clear_queues d, [Post_Deferred (map abort_op (all_ops d))])"

text \<open>\<open>deregister_descriptor\<close>; the last result tells whether the caller keeps its pointer.\<close>

definition deregister_descriptor :: "'w reactor_os \<Rightarrow> int \<Rightarrow> bool \<Rightarrow> descriptor_state \<Rightarrow> 'w \<Rightarrow>
    descriptor_state \<times> sched_call list \<times> 'w \<times> bool" where
  "deregister_descriptor os desc closing d w =
     (if state_shutdown d then (d, [], w, False)
      else (let w1 = (if closing then w
                      else if registered_events d \<noteq> 0 then snd (epoll_ctl os w Ctl_Del desc 0) else w)
            in ((clear_queues d)\<lparr>descriptor := - 1, state_shutdown := True\<rparr>,
                [Post_Deferred (map abort_op (all_ops d))], w1, True)))"

text \<open>\<open>deregister_internal_descriptor\<close> destroys the operations instead.\<close>

definition deregister_internal_descriptor :: "'w reactor_os \<Rightarrow> int \<Rightarrow> descriptor_state \<Rightarrow> 'w \<Rightarrow>
    descriptor_state \<times> reactor_op list \<times> 'w \<times> bool" where
  "deregister_internal_descriptor os desc d w =
     (if state_shutdown d then (d, [], w, False)
      else ((clear_queues d)\<lparr>descriptor := - 1, state_shutdown := True\<rparr>, all_ops d,
            snd (epoll_ctl os w Ctl_Del desc 0), True))"

section \<open>Registering\<close>

text \<open>What registering does to the object of the pool: its queues and its events are not touched.\<close>

definition prepare_state :: "int \<Rightarrow> descriptor_state \<Rightarrow> descriptor_state" where
  "prepare_state desc d = d\<lparr>descriptor := desc, state_shutdown := False, try_speculative := replicate max_ops True\<rparr>"

definition first_events :: uint32 where
  "first_events = EPOLLIN OR EPOLLERR OR EPOLLHUP OR EPOLLPRI OR EPOLLET"

text \<open>\<open>EPERM\<close>, 1, means a file that cannot be waited for.\<close>

definition register_state :: "'w reactor_os \<Rightarrow> int \<Rightarrow> descriptor_state \<Rightarrow> 'w \<Rightarrow> descriptor_state \<times> int \<times> 'w" where
  "register_state os desc d w =
     (let d1 = (prepare_state desc d)\<lparr>registered_events := first_events\<rparr>
      in case epoll_ctl os w Ctl_Add desc first_events of
           (errno, w1) \<Rightarrow>
             if errno = 0 then (d1, 0, w1)
             else if errno = 1 then (d1\<lparr>registered_events := 0\<rparr>, 0, w1)
             else (d1, errno, w1))"

definition register_internal_state :: "'w reactor_os \<Rightarrow> nat \<Rightarrow> int \<Rightarrow> reactor_op \<Rightarrow> descriptor_state \<Rightarrow> 'w \<Rightarrow>
    descriptor_state \<times> int \<times> 'w" where
  "register_internal_state os op_type desc op d w =
     (let d1 = prepare_state desc d;
          d2 = d1\<lparr>op_queues := (op_queues d1)[op_type := op_queues d1 ! op_type @ [op]], registered_events := first_events\<rparr>
      in case epoll_ctl os w Ctl_Add desc first_events of (errno, w1) \<Rightarrow> (d2, errno, w1))"

section \<open>The reactor\<close>

text \<open>\<open>enqueued\<close> are the descriptors that are in a queue of the scheduler, in order: the pending link
  of an operation tells whether it is.\<close>

record reactor =
  states :: "nat \<Rightarrow> descriptor_state"
  registered_descriptors :: object_pool
  enqueued :: "nat list"

definition reactor_new :: reactor where
  "reactor_new = \<lparr>states = (\<lambda>_. descriptor_state_new), registered_descriptors = pool_new, enqueued = []\<rparr>"

definition allocate_descriptor_state :: "reactor \<Rightarrow> reactor \<times> nat" where
  "allocate_descriptor_state r =
     (case pool_alloc (registered_descriptors r) of (p, x) \<Rightarrow> (r\<lparr>registered_descriptors := p\<rparr>, x))"

definition free_descriptor_state :: "nat \<Rightarrow> reactor \<Rightarrow> reactor" where
  "free_descriptor_state x r = r\<lparr>registered_descriptors := pool_free x (registered_descriptors r)\<rparr>"

definition register_descriptor :: "'w reactor_os \<Rightarrow> int \<Rightarrow> reactor \<Rightarrow> 'w \<Rightarrow> reactor \<times> nat \<times> int \<times> 'w" where
  "register_descriptor os desc r w =
     (case allocate_descriptor_state r of
        (r1, x) \<Rightarrow>
          (case register_state os desc (states r1 x) w of
             (d, errno, w1) \<Rightarrow> (r1\<lparr>states := (states r1)(x := d)\<rparr>, x, errno, w1)))"

definition register_internal_descriptor :: "'w reactor_os \<Rightarrow> nat \<Rightarrow> int \<Rightarrow> reactor_op \<Rightarrow> reactor \<Rightarrow> 'w \<Rightarrow>
    reactor \<times> nat \<times> int \<times> 'w" where
  "register_internal_descriptor os op_type desc op r w =
     (case allocate_descriptor_state r of
        (r1, x) \<Rightarrow>
          (case register_internal_state os op_type desc op (states r1 x) w of
             (d, errno, w1) \<Rightarrow> (r1\<lparr>states := (states r1)(x := d)\<rparr>, x, errno, w1)))"

text \<open>\<open>cleanup_descriptor_data\<close> and \<open>move_descriptor\<close>, on the pointers of the callers.\<close>

definition cleanup_descriptor_data :: "ptr \<Rightarrow> reactor \<Rightarrow> reactor \<times> ptr" where
  "cleanup_descriptor_data data r =
     (case data of None \<Rightarrow> (r, None) | Some x \<Rightarrow> (free_descriptor_state x r, None))"

definition move_descriptor :: "ptr \<Rightarrow> ptr \<Rightarrow> ptr \<times> ptr" where
  "move_descriptor target source = (source, None)"

text \<open>The part of \<open>run\<close> that hands descriptors with events to the scheduler.\<close>

fun dispatch_events :: "(nat \<times> uint32) list \<Rightarrow> reactor \<Rightarrow> reactor" where
  "dispatch_events [] r = r"
| "dispatch_events ((x, events) # es) r =
     dispatch_events es
       (if x \<notin> set (enqueued r)
        then r\<lparr>states := (states r)(x := set_ready_events events (states r x)), enqueued := enqueued r @ [x]\<rparr>
        else r\<lparr>states := (states r)(x := add_ready_events events (states r x))\<rparr>)"

text \<open>The loop of \<open>shutdown\<close> over the live descriptors: it ends when none is left.\<close>

partial_function (option) shutdown_states :: "reactor \<Rightarrow> reactor_op list \<Rightarrow> (reactor \<times> reactor_op list) option" where
  "shutdown_states r ops =
     (case pool_first (registered_descriptors r) of
        None \<Rightarrow> Some (r, ops)
      | Some x \<Rightarrow>
          shutdown_states
            (free_descriptor_state x
              (r\<lparr>states := (states r)(x := (clear_queues (states r x))\<lparr>state_shutdown := True\<rparr>)\<rparr>))
            (ops @ all_ops (states r x)))"

end
