(* ===== verification/Asio_Buffer.thy ===== *)
theory Asio_Buffer
  imports Prelude
begin

text \<open>
  The buffers of the bundled asio, buffer.hpp, detail/consuming\_buffers.hpp, completion\_condition.hpp:
  a buffer is a range of memory, a sequence of buffers stands for the addresses of its ranges one
  after another, \<open>buffer_copy\<close> copies between sequences, and \<open>consuming_buffers\<close> is what is left of a sequence
  while it is transferred piece by piece, in its four forms. The locale \<open>consuming\<close> is what the
  composed operations need of them.
\<close>

section \<open>Buffers\<close>

text \<open>\<open>mutable_buffer\<close> and \<open>const_buffer\<close>.\<close>

record buffer =
  buf_data :: nat
  buf_size :: nat

definition empty_buffer :: buffer where
  "empty_buffer = \<lparr>buf_data = 0, buf_size = 0\<rparr>"

definition buffer_plus :: "buffer \<Rightarrow> nat \<Rightarrow> buffer" where
  "buffer_plus b n =
     (let offset = (if n < buf_size b then n else buf_size b)
      in \<lparr>buf_data = buf_data b + offset, buf_size = buf_size b - offset\<rparr>)"

text \<open>\<open>asio::buffer\<close> of a buffer and a maximal size.\<close>

definition buffer_limit :: "buffer \<Rightarrow> nat \<Rightarrow> buffer" where
  "buffer_limit b max_size = \<lparr>buf_data = buf_data b, buf_size = (if buf_size b < max_size then buf_size b else max_size)\<rparr>"

definition add_size :: "nat \<Rightarrow> nat \<Rightarrow> nat" where
  "add_size a b = (a + b) mod 2 ^ 64"

definition buffers_size :: "buffer list \<Rightarrow> nat" where
  "buffers_size bs = fold (\<lambda>b total. add_size total (buf_size b)) bs 0"

text \<open>What they stand for.\<close>

definition addresses :: "buffer \<Rightarrow> nat list" where
  "addresses b = [buf_data b ..< buf_data b + buf_size b]"

definition all_addresses :: "buffer list \<Rightarrow> nat list" where
  "all_addresses bs = concat (map addresses bs)"

lemma all_addresses_simps [simp]:
  "all_addresses [] = []" "all_addresses (b # bs) = addresses b @ all_addresses bs"
  "all_addresses (as @ bs) = all_addresses as @ all_addresses bs"
  by (simp_all add: all_addresses_def)

lemma length_addresses [simp]: "length (addresses b) = buf_size b"
  by (simp add: addresses_def)

lemma addresses_plus [simp]: "addresses (buffer_plus b n) = drop n (addresses b)"
  by (simp add: addresses_def buffer_plus_def Let_def)

lemma addresses_limit [simp]: "addresses (buffer_limit b n) = take n (addresses b)"
  by (simp add: addresses_def buffer_limit_def take_upt)

lemma size_plus [simp]: "buf_size (buffer_plus b n) = buf_size b - n"
  by (simp add: buffer_plus_def Let_def)

lemma size_limit [simp]: "buf_size (buffer_limit b n) = min (buf_size b) n"
  by (simp add: buffer_limit_def min_def)

lemma plus_0 [simp]: "buffer_plus b 0 = b"
  by (simp add: buffer_plus_def)

lemma buffers_size_fold:
  "a + length (all_addresses bs) < 2 ^ 64 \<Longrightarrow>
     fold (\<lambda>b total. add_size total (buf_size b)) bs a = a + length (all_addresses bs)"
  by (induction bs arbitrary: a) (simp_all add: add_size_def add.assoc)

lemma buffers_size_eq: "length (all_addresses bs) < 2 ^ 64 \<Longrightarrow> buffers_size bs = length (all_addresses bs)"
  using buffers_size_fold [of 0 bs] by (simp add: buffers_size_def)

section \<open>Completion conditions\<close>

text \<open>The most a condition lets the next operation transfer; 0 ends the transfer.\<close>

definition default_max_transfer_size :: nat where
  "default_max_transfer_size = 65536"

definition adapt_bool :: "bool \<Rightarrow> nat" where
  "adapt_bool result = (if result then 0 else default_max_transfer_size)"

definition transfer_all :: "'e option \<Rightarrow> nat \<Rightarrow> nat" where
  "transfer_all err bytes = (if err \<noteq> None then 0 else default_max_transfer_size)"

definition transfer_at_least :: "nat \<Rightarrow> 'e option \<Rightarrow> nat \<Rightarrow> nat" where
  "transfer_at_least minimum err bytes =
     (if err \<noteq> None \<or> bytes \<ge> minimum then 0 else default_max_transfer_size)"

definition transfer_exactly :: "nat \<Rightarrow> 'e option \<Rightarrow> nat \<Rightarrow> nat" where
  "transfer_exactly sz err bytes =
     (if err \<noteq> None \<or> bytes \<ge> sz then 0
      else if sz - bytes < default_max_transfer_size then sz - bytes else default_max_transfer_size)"

section \<open>What is left of a sequence\<close>

text \<open>
  The four forms of \<open>consuming_buffers\<close>: of any sequence, of one buffer, of two buffers, and of
  \<open>null_buffers\<close>. The most buffers that are prepared at once, \<open>max_buffers\<close>, depends on the type of
  the sequence.
\<close>

record consuming_buffers =
  whole_buffers :: "buffer list"
  total_size :: nat
  total_consumed :: nat
  next_elem :: nat
  next_elem_offset :: nat

definition prepared_max :: "nat \<Rightarrow> nat" where
  "prepared_max MaxBuffers = (if MaxBuffers < 16 then MaxBuffers else 16)"

definition consuming_new :: "buffer list \<Rightarrow> consuming_buffers" where
  "consuming_new bs = \<lparr>whole_buffers = bs, total_size = buffers_size bs, total_consumed = 0, next_elem = 0, next_elem_offset = 0\<rparr>"

definition consuming_empty :: "consuming_buffers \<Rightarrow> bool" where
  "consuming_empty c \<longleftrightarrow> total_consumed c \<ge> total_size c"

fun prepare_loop :: "nat \<Rightarrow> buffer list \<Rightarrow> nat \<Rightarrow> nat \<Rightarrow> buffer list \<Rightarrow> buffer list" where
  "prepare_loop max_buffers [] elem_offset max_size result = result"
| "prepare_loop max_buffers (b # bs) elem_offset max_size result =
     (if max_size > 0 \<and> length result < max_buffers
      then (let elem = buffer_limit (buffer_plus b elem_offset) max_size
            in prepare_loop max_buffers bs 0 (max_size - buf_size elem)
                 (if buf_size elem > 0 then result @ [elem] else result))
      else result)"

definition consuming_prepare :: "nat \<Rightarrow> consuming_buffers \<Rightarrow> nat \<Rightarrow> buffer list" where
  "consuming_prepare MaxBuffers c max_size =
     prepare_loop (prepared_max MaxBuffers) (drop (next_elem c) (whole_buffers c)) (next_elem_offset c) max_size []"

fun consume_loop :: "buffer list \<Rightarrow> nat \<Rightarrow> nat \<Rightarrow> nat \<Rightarrow> nat \<times> nat" where
  "consume_loop [] sz elem offset = (elem, offset)"
| "consume_loop (b # bs) sz elem offset =
     (if sz > 0
      then (let next_buf = buffer_plus b offset
            in if sz < buf_size next_buf then (elem, offset + sz)
               else consume_loop bs (sz - buf_size next_buf) (elem + 1) 0)
      else (elem, offset))"

definition consuming_consume :: "consuming_buffers \<Rightarrow> nat \<Rightarrow> consuming_buffers" where
  "consuming_consume c sz =
     (case consume_loop (drop (next_elem c) (whole_buffers c)) sz (next_elem c) (next_elem_offset c) of
        (elem, offset) \<Rightarrow> c\<lparr>total_consumed := add_size (total_consumed c) sz, next_elem := elem, next_elem_offset := offset\<rparr>)"

record consuming_single =
  single_buffer :: buffer
  single_consumed :: nat

definition single_new :: "buffer \<Rightarrow> consuming_single" where
  "single_new b = \<lparr>single_buffer = b, single_consumed = 0\<rparr>"

definition single_empty :: "consuming_single \<Rightarrow> bool" where
  "single_empty c \<longleftrightarrow> single_consumed c \<ge> buf_size (single_buffer c)"

definition single_prepare :: "consuming_single \<Rightarrow> nat \<Rightarrow> buffer list" where
  "single_prepare c max_size = [buffer_limit (buffer_plus (single_buffer c) (single_consumed c)) max_size]"

definition single_consume :: "consuming_single \<Rightarrow> nat \<Rightarrow> consuming_single" where
  "single_consume c sz = c\<lparr>single_consumed := add_size (single_consumed c) sz\<rparr>"

record consuming_pair =
  pair_first :: buffer
  pair_second :: buffer
  pair_consumed :: nat

definition pair_new :: "buffer \<Rightarrow> buffer \<Rightarrow> consuming_pair" where
  "pair_new b0 b1 = \<lparr>pair_first = b0, pair_second = b1, pair_consumed = 0\<rparr>"

definition pair_empty :: "consuming_pair \<Rightarrow> bool" where
  "pair_empty c \<longleftrightarrow> pair_consumed c \<ge> add_size (buf_size (pair_first c)) (buf_size (pair_second c))"

definition pair_prepare :: "consuming_pair \<Rightarrow> nat \<Rightarrow> buffer list" where
  "pair_prepare c max_size =
     (let buffer0_size = buf_size (pair_first c);
          result0 = buffer_limit (buffer_plus (pair_first c) (pair_consumed c)) max_size;
          result1 = buffer_limit
                      (buffer_plus (pair_second c)
                        (if pair_consumed c < buffer0_size then 0 else pair_consumed c - buffer0_size))
                      (max_size - buf_size result0)
      in [result0, result1])"

definition pair_consume :: "consuming_pair \<Rightarrow> nat \<Rightarrow> consuming_pair" where
  "pair_consume c sz = c\<lparr>pair_consumed := add_size (pair_consumed c) sz\<rparr>"

definition null_empty :: "unit \<Rightarrow> bool" where
  "null_empty c = False"

definition null_prepare :: "unit \<Rightarrow> nat \<Rightarrow> buffer list" where
  "null_prepare c max_size = []"

definition null_consume :: "unit \<Rightarrow> nat \<Rightarrow> unit" where
  "null_consume c sz = c"

definition null_consumed :: "unit \<Rightarrow> nat" where
  "null_consumed c = 0"

section \<open>The contract\<close>

text \<open>The addresses of the whole sequence are transferred in order, piece by piece.\<close>

locale consuming =
  fixes inv :: "'c \<Rightarrow> bool"
    and whole :: "'c \<Rightarrow> nat list"
    and emp :: "'c \<Rightarrow> bool"
    and prep :: "'c \<Rightarrow> nat \<Rightarrow> buffer list"
    and consume :: "'c \<Rightarrow> nat \<Rightarrow> 'c"
    and total :: "'c \<Rightarrow> nat"
  assumes total_le: "inv c \<Longrightarrow> total c \<le> length (whole c)"
    and emp_iff: "inv c \<Longrightarrow> emp c \<longleftrightarrow> total c = length (whole c)"
    and prep_part: "inv c \<Longrightarrow> \<exists>n \<le> m. all_addresses (prep c m) = take n (drop (total c) (whole c)) \<and>
      (0 < m \<and> total c < length (whole c) \<longrightarrow> 0 < n)"
    and consume_part: "inv c \<Longrightarrow> n \<le> length (all_addresses (prep c m)) \<Longrightarrow>
      inv (consume c n) \<and> whole (consume c n) = whole c \<and> total (consume c n) = total c + n"

text \<open>The addresses from an offset in the first buffer on.\<close>

fun rest_from :: "nat \<Rightarrow> buffer list \<Rightarrow> nat list" where
  "rest_from off [] = []"
| "rest_from off (b # bs) = drop off (addresses b) @ all_addresses bs"

lemma rest_from_0 [simp]: "rest_from 0 bs = all_addresses bs"
  by (cases bs) simp_all

lemma prepare_loop_ok:
  "\<exists>n \<le> m. all_addresses (prepare_loop k bs off m acc) = all_addresses acc @ take n (rest_from off bs) \<and>
     (0 < m \<and> length acc < k \<and> rest_from off bs \<noteq> [] \<longrightarrow> 0 < n)"
proof (induction bs arbitrary: off m acc)
  case Nil
  then show ?case by (intro exI [of _ 0]) simp
next
  case (Cons b bs)
  show ?case
  proof (cases "m > 0 \<and> length acc < k")
    case False
    then show ?thesis by (intro exI [of _ 0]) auto
  next
    case True
    let ?e = "buffer_limit (buffer_plus b off) m"
    let ?acc = "if buf_size ?e > 0 then acc @ [?e] else acc"
    obtain n where n: "n \<le> m - buf_size ?e"
      "all_addresses (prepare_loop k bs 0 (m - buf_size ?e) ?acc) = all_addresses ?acc @ take n (all_addresses bs)"
      "0 < m - buf_size ?e \<and> length ?acc < k \<and> all_addresses bs \<noteq> [] \<longrightarrow> 0 < n"
      using Cons.IH [of "m - buf_size ?e" 0 ?acc] by auto
    have acc: "all_addresses ?acc = all_addresses acc @ take m (drop off (addresses b))"
      using length_addresses [of ?e] by (auto simp del: length_addresses size_limit size_plus)
    have t: "take m (drop off (addresses b)) @ take n (all_addresses bs) = take (buf_size ?e + n) (rest_from off (b # bs))"
      using n(1) by (auto simp: min_def)
    show ?thesis
    proof (intro exI conjI)
      show "buf_size ?e + n \<le> m" using n(1) by simp
      show "all_addresses (prepare_loop k (b # bs) off m acc) = all_addresses acc @ take (buf_size ?e + n) (rest_from off (b # bs))"
        using True n(2) acc t by (simp add: Let_def)
      show "0 < m \<and> length acc < k \<and> rest_from off (b # bs) \<noteq> [] \<longrightarrow> 0 < buf_size ?e + n"
        using n(3) length_addresses [of b] by (auto simp: min_def split: if_splits)
    qed
  qed
qed

lemma consume_loop_ok:
  "sz \<le> length (rest_from off bs) \<Longrightarrow> consume_loop bs sz e off = (e', off') \<Longrightarrow>
     e \<le> e' \<and> e' - e \<le> length bs \<and> rest_from off' (drop (e' - e) bs) = drop sz (rest_from off bs)"
proof (induction bs arbitrary: sz e off)
  case Nil
  then show ?case by simp
next
  case (Cons b bs)
  let ?n = "buf_size (buffer_plus b off)"
  show ?case
  proof (cases "0 < sz \<and> \<not> sz < ?n")
    case False
    then show ?thesis using Cons.prems by (auto simp: Let_def drop_eq_Nil add.commute split: if_splits)
  next
    case True
    then have "consume_loop bs (sz - ?n) (e + 1) 0 = (e', off')" "sz - ?n \<le> length (rest_from 0 bs)"
      using Cons.prems by (auto simp: Let_def)
    from Cons.IH [OF this(2,1)] have i: "e + 1 \<le> e'" "e' - (e + 1) \<le> length bs"
      "rest_from off' (drop (e' - (e + 1)) bs) = drop (sz - ?n) (all_addresses bs)" by simp_all
    have "e' - e = Suc (e' - (e + 1))" "buf_size b \<le> sz + off" using i(1) True by auto
    then show ?thesis using i True by simp
  qed
qed

definition consuming_inv :: "nat \<Rightarrow> consuming_buffers \<Rightarrow> bool" where
  "consuming_inv MaxBuffers c \<longleftrightarrow> 0 < MaxBuffers \<and> length (all_addresses (whole_buffers c)) < 2 ^ 64 \<and>
     total_size c = length (all_addresses (whole_buffers c)) \<and> next_elem c \<le> length (whole_buffers c) \<and>
     total_consumed c \<le> length (all_addresses (whole_buffers c)) \<and>
     rest_from (next_elem_offset c) (drop (next_elem c) (whole_buffers c)) = drop (total_consumed c) (all_addresses (whole_buffers c))"

lemma consuming_inv_new:
  "0 < k \<Longrightarrow> length (all_addresses bs) < 2 ^ 64 \<Longrightarrow> consuming_inv k (consuming_new bs)"
  by (simp add: consuming_inv_def consuming_new_def buffers_size_eq)

interpretation any_buffers: consuming "consuming_inv k" "\<lambda>c. all_addresses (whole_buffers c)" consuming_empty
  "consuming_prepare k" consuming_consume total_consumed
proof
  show "total_consumed c \<le> length (all_addresses (whole_buffers c))" if "consuming_inv k c" for c
    using that by (simp add: consuming_inv_def)
  show "consuming_empty c \<longleftrightarrow> total_consumed c = length (all_addresses (whole_buffers c))" if "consuming_inv k c" for c
    using that by (auto simp: consuming_inv_def consuming_empty_def)
  show p: "\<exists>n \<le> m. all_addresses (consuming_prepare k c m) = take n (drop (total_consumed c) (all_addresses (whole_buffers c))) \<and>
      (0 < m \<and> total_consumed c < length (all_addresses (whole_buffers c)) \<longrightarrow> 0 < n)" if "consuming_inv k c" for c m
    using prepare_loop_ok [of m "prepared_max k" "drop (next_elem c) (whole_buffers c)" "next_elem_offset c" "[]"] that
    by (auto simp: consuming_inv_def consuming_prepare_def prepared_max_def)
  show "consuming_inv k (consuming_consume c n) \<and> all_addresses (whole_buffers (consuming_consume c n)) = all_addresses (whole_buffers c) \<and>
      total_consumed (consuming_consume c n) = total_consumed c + n"
    if i: "consuming_inv k c" and n: "n \<le> length (all_addresses (consuming_prepare k c m))" for c n m
  proof -
    obtain e off where e: "consume_loop (drop (next_elem c) (whole_buffers c)) n (next_elem c) (next_elem_offset c) = (e, off)"
      by fastforce
    have l: "n + total_consumed c \<le> length (all_addresses (whole_buffers c))"
      using p [OF i, of m] n i by (auto simp: consuming_inv_def)
    then have "n \<le> length (rest_from (next_elem_offset c) (drop (next_elem c) (whole_buffers c)))"
      using i by (simp add: consuming_inv_def)
    from consume_loop_ok [OF this e] show ?thesis
      using i l by (auto simp: consuming_inv_def consuming_consume_def e add_size_def add.commute)
  qed
qed

definition single_inv :: "consuming_single \<Rightarrow> bool" where
  "single_inv c \<longleftrightarrow> buf_size (single_buffer c) < 2 ^ 64 \<and> single_consumed c \<le> buf_size (single_buffer c)"

interpretation one_buffer: consuming single_inv "\<lambda>c. addresses (single_buffer c)" single_empty
  single_prepare single_consume single_consumed
proof
  show "\<exists>n \<le> m. all_addresses (single_prepare c m) = take n (drop (single_consumed c) (addresses (single_buffer c))) \<and>
      (0 < m \<and> single_consumed c < length (addresses (single_buffer c)) \<longrightarrow> 0 < n)" if "single_inv c" for c m
    by (intro exI [of _ m]) (simp add: single_prepare_def)
qed (auto simp: single_inv_def single_empty_def single_consume_def single_prepare_def add_size_def)

definition pair_inv :: "consuming_pair \<Rightarrow> bool" where
  "pair_inv c \<longleftrightarrow> buf_size (pair_first c) + buf_size (pair_second c) < 2 ^ 64 \<and>
     pair_consumed c \<le> buf_size (pair_first c) + buf_size (pair_second c)"

lemma pair_prepare_addresses:
  "all_addresses (pair_prepare c m) =
     take m (drop (pair_consumed c) (addresses (pair_first c) @ addresses (pair_second c)))"
proof (cases "pair_consumed c < buf_size (pair_first c)")
  case True
  then show ?thesis by (auto simp: pair_prepare_def Let_def min_def)
next
  case False
  then show ?thesis by (auto simp: pair_prepare_def Let_def min_def)
qed

interpretation two_buffers: consuming pair_inv "\<lambda>c. addresses (pair_first c) @ addresses (pair_second c)" pair_empty
  pair_prepare pair_consume pair_consumed
proof
  show "\<exists>n \<le> m. all_addresses (pair_prepare c m) =
        take n (drop (pair_consumed c) (addresses (pair_first c) @ addresses (pair_second c))) \<and>
      (0 < m \<and> pair_consumed c < length (addresses (pair_first c) @ addresses (pair_second c)) \<longrightarrow> 0 < n)" for c m
    by (intro exI [of _ m]) (simp add: pair_prepare_addresses)
  show "pair_inv (pair_consume c n) \<and>
      addresses (pair_first (pair_consume c n)) @ addresses (pair_second (pair_consume c n)) =
        addresses (pair_first c) @ addresses (pair_second c) \<and>
      pair_consumed (pair_consume c n) = pair_consumed c + n"
    if "pair_inv c" "n \<le> length (all_addresses (pair_prepare c m))" for c n m
  proof -
    have "pair_consumed c + n \<le> buf_size (pair_first c) + buf_size (pair_second c)"
      using that by (auto simp: pair_prepare_addresses pair_inv_def)
    then show ?thesis using that(1) by (simp add: pair_inv_def pair_consume_def add_size_def)
  qed
qed (auto simp: pair_inv_def pair_empty_def add_size_def)

end
