(* ===== verification/Asio_Sys.thy ===== *)
theory Asio_Sys
  imports Asio_Error Asio_Buffer
begin

text \<open>
  What the bundled asio asks of the system below it: the calls on descriptors and sockets as functions of
  a world, each with its result and \<open>errno\<close>, and what both \<open>descriptor_ops\<close> and \<open>socket_ops\<close> make of them: the
  state bits of a descriptor, \<open>get_last_error\<close>, and the two loops around a call that may find nothing to do.
\<close>

section \<open>The system\<close>

type_synonym 'w answer = "int \<times> int \<times> 'w"

text \<open>\<open>msghdr\<close>, as far as the code fills it in and reads it back. An address is where its bytes are.\<close>

record msghdr =
  msg_name :: "nat option"
  msg_namelen :: uint32
  msg_iov :: "buffer list"
  msg_iovlen :: int
  msg_flags :: int

record 'w system =
  sys_open :: "string \<Rightarrow> int \<Rightarrow> 'w \<Rightarrow> 'w answer"
  sys_close :: "int \<Rightarrow> 'w \<Rightarrow> 'w answer"
  sys_ioctl :: "int \<Rightarrow> int \<Rightarrow> int \<Rightarrow> 'w \<Rightarrow> int \<times> 'w answer"
  sys_fcntl :: "int \<Rightarrow> int \<Rightarrow> int option \<Rightarrow> 'w \<Rightarrow> 'w answer"
  sys_readv :: "int \<Rightarrow> buffer list \<Rightarrow> int \<Rightarrow> 'w \<Rightarrow> 'w answer"
  sys_writev :: "int \<Rightarrow> buffer list \<Rightarrow> int \<Rightarrow> 'w \<Rightarrow> 'w answer"
  sys_read :: "int \<Rightarrow> buffer \<Rightarrow> 'w \<Rightarrow> 'w answer"
  sys_write :: "int \<Rightarrow> buffer \<Rightarrow> 'w \<Rightarrow> 'w answer"
  sys_poll :: "int \<Rightarrow> int \<Rightarrow> int \<Rightarrow> 'w \<Rightarrow> 'w answer"
  sys_select :: "int \<Rightarrow> nat option \<Rightarrow> nat option \<Rightarrow> nat option \<Rightarrow> (int \<times> int) option \<Rightarrow> 'w \<Rightarrow> 'w answer"
  sys_socket :: "int \<Rightarrow> int \<Rightarrow> int \<Rightarrow> 'w \<Rightarrow> 'w answer"
  sys_socketpair :: "int \<Rightarrow> int \<Rightarrow> int \<Rightarrow> 'w \<Rightarrow> (int \<times> int) \<times> 'w answer"
  sys_accept :: "int \<Rightarrow> nat option \<Rightarrow> uint32 option \<Rightarrow> 'w \<Rightarrow> uint32 \<times> 'w answer"
  sys_bind :: "int \<Rightarrow> nat \<Rightarrow> uint32 \<Rightarrow> 'w \<Rightarrow> 'w answer"
  sys_listen :: "int \<Rightarrow> int \<Rightarrow> 'w \<Rightarrow> 'w answer"
  sys_connect :: "int \<Rightarrow> nat \<Rightarrow> uint32 \<Rightarrow> 'w \<Rightarrow> 'w answer"
  sys_shutdown :: "int \<Rightarrow> int \<Rightarrow> 'w \<Rightarrow> 'w answer"
  sys_recvmsg :: "int \<Rightarrow> msghdr \<Rightarrow> int \<Rightarrow> 'w \<Rightarrow> msghdr \<times> 'w answer"
  sys_sendmsg :: "int \<Rightarrow> msghdr \<Rightarrow> int \<Rightarrow> 'w \<Rightarrow> 'w answer"
  sys_recv :: "int \<Rightarrow> buffer \<Rightarrow> int \<Rightarrow> 'w \<Rightarrow> 'w answer"
  sys_send :: "int \<Rightarrow> buffer \<Rightarrow> int \<Rightarrow> 'w \<Rightarrow> 'w answer"
  sys_recvfrom :: "int \<Rightarrow> buffer \<Rightarrow> int \<Rightarrow> nat \<Rightarrow> uint32 option \<Rightarrow> 'w \<Rightarrow> uint32 \<times> 'w answer"
  sys_sendto :: "int \<Rightarrow> buffer \<Rightarrow> int \<Rightarrow> nat \<Rightarrow> uint32 \<Rightarrow> 'w \<Rightarrow> 'w answer"
  sys_setsockopt :: "int \<Rightarrow> int \<Rightarrow> int \<Rightarrow> int list \<Rightarrow> uint32 \<Rightarrow> 'w \<Rightarrow> 'w answer"
  sys_getsockopt :: "int \<Rightarrow> int \<Rightarrow> int \<Rightarrow> int list \<Rightarrow> uint32 \<Rightarrow> 'w \<Rightarrow> (int list \<times> uint32) \<times> 'w answer"
  sys_getpeername :: "int \<Rightarrow> nat \<Rightarrow> uint32 \<Rightarrow> 'w \<Rightarrow> uint32 \<times> 'w answer"
  sys_getsockname :: "int \<Rightarrow> nat \<Rightarrow> uint32 \<Rightarrow> 'w \<Rightarrow> uint32 \<times> 'w answer"

text \<open>The numbers of Linux.\<close>

definition FIONBIO :: int where "FIONBIO = 0x5421"
definition POLLIN :: int where "POLLIN = 1"
definition POLLOUT :: int where "POLLOUT = 4"
definition POLL_EXCEPT :: int where "POLL_EXCEPT = 2 OR 8 OR 16"

section \<open>State bits\<close>

text \<open>\<open>state_type\<close>, an \<open>unsigned char\<close>. The first three bits are the same for descriptors and sockets.\<close>

type_synonym state_type = byte

definition user_set_non_blocking :: state_type where "user_set_non_blocking = 1"
definition internal_non_blocking :: state_type where "internal_non_blocking = 2"
definition non_blocking :: state_type where "non_blocking = user_set_non_blocking OR internal_non_blocking"
definition desc_possible_dup :: state_type where "desc_possible_dup = 4"
definition enable_connection_aborted :: state_type where "enable_connection_aborted = 4"
definition user_set_linger :: state_type where "user_set_linger = 8"
definition stream_oriented :: state_type where "stream_oriented = 16"
definition datagram_oriented :: state_type where "datagram_oriented = 32"
definition sock_possible_dup :: state_type where "sock_possible_dup = 64"

definition has :: "state_type \<Rightarrow> state_type \<Rightarrow> bool" where
  "has state flag \<longleftrightarrow> state AND flag \<noteq> 0"

lemmas state_bits = user_set_non_blocking_def internal_non_blocking_def non_blocking_def desc_possible_dup_def
  enable_connection_aborted_def user_set_linger_def stream_oriented_def datagram_oriented_def
  sock_possible_dup_def

section \<open>Errors\<close>

text \<open>\<open>ec.assign(0, ec.category())\<close> and \<open>get_last_error\<close>.\<close>

definition clear_error :: "error_code \<Rightarrow> error_code" where
  "clear_error ec = (fst ec, 0)"

definition get_last_error :: "int \<Rightarrow> bool \<Rightarrow> error_code \<Rightarrow> error_code" where
  "get_last_error errno is_error_condition ec = (if is_error_condition then system_error errno else clear_error ec)"

text \<open>A call and \<open>get_last_error\<close>, with an error if the result is negative, or if it is not zero.\<close>

definition checked :: "'w answer \<Rightarrow> error_code \<Rightarrow> int \<times> error_code \<times> 'w" where
  "checked r ec = (case r of (result, errno, w) \<Rightarrow> (result, get_last_error errno (result < 0) ec, w))"

definition checked_zero :: "'w answer \<Rightarrow> error_code \<Rightarrow> int \<times> error_code \<times> 'w" where
  "checked_zero r ec = (case r of (result, errno, w) \<Rightarrow> (result, get_last_error errno (result \<noteq> 0) ec, w))"

text \<open>\<open>static_cast<int>(count)\<close>.\<close>

definition iov_count :: "buffer list \<Rightarrow> int" where
  "iov_count bufs = sint (word_of_nat (length bufs) :: uint32)"

section \<open>Loops\<close>

text \<open>
  The loop of the blocking operations: the call, the end of a stream, success, failure, and a wait for
  the descriptor. It may wait for ever. What a call changes besides the world is part of its state.
\<close>

type_synonym 'v attempt = "error_code \<Rightarrow> 'v \<Rightarrow> int \<times> error_code \<times> 'v"

partial_function (option) sync_loop :: "'v attempt \<Rightarrow> 'v attempt \<Rightarrow> bool \<Rightarrow> bool \<Rightarrow> error_code \<Rightarrow> 'v \<Rightarrow>
    (nat \<times> error_code \<times> 'v) option" where
  "sync_loop call poll is_stream user_non_blocking ec v =
     (case call ec v of (bytes, ec1, v1) \<Rightarrow>
        if is_stream \<and> bytes = 0 then Some (0, eof, v1)
        else if bytes \<ge> 0 then Some (nat bytes, ec1, v1)
        else if user_non_blocking \<or> (ec1 \<noteq> would_block \<and> ec1 \<noteq> try_again) then Some (0, ec1, v1)
        else (case poll ec1 v1 of (result, ec2, v2) \<Rightarrow>
                if result < 0 then Some (0, ec2, v2)
                else sync_loop call poll is_stream user_non_blocking ec2 v2))"

text \<open>
  The loop of the non-blocking operations, which tries again only after a signal: whether the operation
  is over, the error, the bytes transferred, which some ends leave as they are.
\<close>

partial_function (option) non_blocking_loop :: "'v attempt \<Rightarrow> bool \<Rightarrow> nat \<Rightarrow> error_code \<Rightarrow> 'v \<Rightarrow>
    (bool \<times> error_code \<times> nat \<times> 'v) option" where
  "non_blocking_loop call is_stream bytes_transferred ec v =
     (case call ec v of (bytes, ec1, v1) \<Rightarrow>
        if is_stream \<and> bytes = 0 then Some (True, eof, bytes_transferred, v1)
        else if bytes \<ge> 0 then Some (True, ec1, nat bytes, v1)
        else if ec1 = interrupted then non_blocking_loop call is_stream bytes_transferred ec1 v1
        else if ec1 = would_block \<or> ec1 = try_again then Some (False, ec1, bytes_transferred, v1)
        else Some (True, ec1, 0, v1))"

section \<open>The mode of a descriptor\<close>

text \<open>\<open>set_user_non_blocking\<close>, \<open>set_internal_non_blocking\<close> and what \<open>ioctl\<close> does with its result, which descriptors
  and sockets share.\<close>

definition user_mode_set :: "bool \<Rightarrow> state_type \<Rightarrow> state_type" where
  "user_mode_set value state =
     (if value then state OR user_set_non_blocking
      else state AND NOT (user_set_non_blocking OR internal_non_blocking))"

definition set_user_non_blocking :: "'w system \<Rightarrow> int \<Rightarrow> state_type \<Rightarrow> bool \<Rightarrow> error_code \<Rightarrow> 'w \<Rightarrow>
    bool \<times> state_type \<times> error_code \<times> 'w" where
  "set_user_non_blocking sys d state value ec w =
     (if d = - 1 then (False, state, bad_descriptor, w)
      else (case checked (snd (sys_ioctl sys d FIONBIO (if value then 1 else 0) w)) ec of (result, ec1, w1) \<Rightarrow>
              if result \<ge> 0 then (True, user_mode_set value state, ec1, w1) else (False, state, ec1, w1)))"

definition set_internal_non_blocking :: "'w system \<Rightarrow> int \<Rightarrow> state_type \<Rightarrow> bool \<Rightarrow> error_code \<Rightarrow> 'w \<Rightarrow>
    bool \<times> state_type \<times> error_code \<times> 'w" where
  "set_internal_non_blocking sys d state value ec w =
     (if d = - 1 then (False, state, bad_descriptor, w)
      else if \<not> value \<and> has state user_set_non_blocking then (False, state, invalid_argument, w)
      else (case checked (snd (sys_ioctl sys d FIONBIO (if value then 1 else 0) w)) ec of (result, ec1, w1) \<Rightarrow>
              if result \<ge> 0
              then (True, if value then state OR internal_non_blocking else state AND NOT internal_non_blocking, ec1, w1)
              else (False, state, ec1, w1)))"

definition descriptor_ioctl :: "'w system \<Rightarrow> int \<Rightarrow> state_type \<Rightarrow> int \<Rightarrow> int \<Rightarrow> error_code \<Rightarrow> 'w \<Rightarrow>
    int \<times> state_type \<times> int \<times> error_code \<times> 'w" where
  "descriptor_ioctl sys d state cmd arg ec w =
     (if d = - 1 then (- 1, state, arg, bad_descriptor, w)
      else (case sys_ioctl sys d cmd arg w of (arg1, r) \<Rightarrow>
              case checked r ec of (result, ec1, w1) \<Rightarrow>
                (result, if result \<ge> 0 \<and> cmd = FIONBIO then user_mode_set (arg1 \<noteq> 0) state else state, arg1, ec1, w1)))"

end
