(* ===== verification/Asio_Descriptor_Ops.thy ===== *)
theory Asio_Descriptor_Ops
  imports Asio_Sys
begin

text \<open>
  \<open>descriptor_ops\<close> (detail/impl/descriptor\_ops.ipp): the operations on a POSIX descriptor, on which asio's
  serial ports work. A function may change the state bits and the error; the buffers' contents are in the world.
\<close>

definition desc_open :: "'w system \<Rightarrow> string \<Rightarrow> int \<Rightarrow> error_code \<Rightarrow> 'w \<Rightarrow> int \<times> error_code \<times> 'w" where
  "desc_open sys path flags ec w = checked (sys_open sys path flags w) ec"

text \<open>A \<open>close\<close> that would block is tried again in blocking mode, whatever the change of the mode returns.\<close>

definition desc_close :: "'w system \<Rightarrow> int \<Rightarrow> state_type \<Rightarrow> error_code \<Rightarrow> 'w \<Rightarrow> int \<times> state_type \<times> error_code \<times> 'w" where
  "desc_close sys d state ec w =
     (if d = - 1 then (0, state, ec, w)
      else (case checked (sys_close sys d w) ec of (result, ec1, w1) \<Rightarrow>
        if result \<noteq> 0 \<and> (ec1 = would_block \<or> ec1 = try_again)
        then (case sys_ioctl sys d FIONBIO 0 w1 of (arg, ignored, errno, w2) \<Rightarrow>
                case checked (sys_close sys d w2) ec1 of (result2, ec2, w3) \<Rightarrow>
                  (result2, state AND NOT non_blocking, ec2, w3))
        else (result, state, ec1, w1)))"

definition desc_fcntl :: "'w system \<Rightarrow> int \<Rightarrow> int \<Rightarrow> int option \<Rightarrow> error_code \<Rightarrow> 'w \<Rightarrow> int \<times> error_code \<times> 'w" where
  "desc_fcntl sys d cmd arg ec w =
     (if d = - 1 then (- 1, bad_descriptor, w) else checked (sys_fcntl sys d cmd arg w) ec)"

section \<open>Waiting\<close>

definition desc_poll :: "'w system \<Rightarrow> int \<Rightarrow> int \<Rightarrow> state_type \<Rightarrow> error_code \<Rightarrow> 'w \<Rightarrow> int \<times> error_code \<times> 'w" where
  "desc_poll sys events d state ec w =
     (if d = - 1 then (- 1, bad_descriptor, w)
      else (let timeout = (if has state user_set_non_blocking then 0 else - 1)
            in case checked (sys_poll sys d events timeout w) ec of (result, ec1, w1) \<Rightarrow>
                 (result, if result = 0 \<and> has state user_set_non_blocking then would_block else ec1, w1)))"

definition desc_poll_read :: "'w system \<Rightarrow> int \<Rightarrow> state_type \<Rightarrow> error_code \<Rightarrow> 'w \<Rightarrow> int \<times> error_code \<times> 'w" where
  "desc_poll_read sys = desc_poll sys POLLIN"

definition desc_poll_write :: "'w system \<Rightarrow> int \<Rightarrow> state_type \<Rightarrow> error_code \<Rightarrow> 'w \<Rightarrow> int \<times> error_code \<times> 'w" where
  "desc_poll_write sys = desc_poll sys POLLOUT"

definition desc_poll_error :: "'w system \<Rightarrow> int \<Rightarrow> state_type \<Rightarrow> error_code \<Rightarrow> 'w \<Rightarrow> int \<times> error_code \<times> 'w" where
  "desc_poll_error sys = desc_poll sys POLL_EXCEPT"

section \<open>Reading\<close>

definition desc_readv :: "'w system \<Rightarrow> int \<Rightarrow> buffer list \<Rightarrow> 'w attempt" where
  "desc_readv sys d bufs ec w = checked (sys_readv sys d bufs (iov_count bufs) w) ec"

definition desc_read :: "'w system \<Rightarrow> int \<Rightarrow> buffer \<Rightarrow> 'w attempt" where
  "desc_read sys d data ec w = checked (sys_read sys d data w) ec"

text \<open>\<open>sync_read\<close> and \<open>sync_read1\<close>.\<close>

definition desc_sync_read :: "'w system \<Rightarrow> int \<Rightarrow> state_type \<Rightarrow> buffer list \<Rightarrow> bool \<Rightarrow> error_code \<Rightarrow> 'w \<Rightarrow>
    (nat \<times> error_code \<times> 'w) option" where
  "desc_sync_read sys d state bufs all_empty ec w =
     (if d = - 1 then Some (0, bad_descriptor, w)
      else if all_empty then Some (0, clear_error ec, w)
      else sync_loop (desc_readv sys d bufs) (desc_poll_read sys d 0) True (has state user_set_non_blocking) ec w)"

definition desc_sync_read1 :: "'w system \<Rightarrow> int \<Rightarrow> state_type \<Rightarrow> buffer \<Rightarrow> error_code \<Rightarrow> 'w \<Rightarrow>
    (nat \<times> error_code \<times> 'w) option" where
  "desc_sync_read1 sys d state data ec w =
     (if d = - 1 then Some (0, bad_descriptor, w)
      else if buf_size data = 0 then Some (0, clear_error ec, w)
      else sync_loop (desc_read sys d data) (desc_poll_read sys d 0) True (has state user_set_non_blocking) ec w)"

definition desc_non_blocking_read :: "'w system \<Rightarrow> int \<Rightarrow> buffer list \<Rightarrow> nat \<Rightarrow> error_code \<Rightarrow> 'w \<Rightarrow>
    (bool \<times> error_code \<times> nat \<times> 'w) option" where
  "desc_non_blocking_read sys d bufs = non_blocking_loop (desc_readv sys d bufs) True"

definition desc_non_blocking_read1 :: "'w system \<Rightarrow> int \<Rightarrow> buffer \<Rightarrow> nat \<Rightarrow> error_code \<Rightarrow> 'w \<Rightarrow>
    (bool \<times> error_code \<times> nat \<times> 'w) option" where
  "desc_non_blocking_read1 sys d data = non_blocking_loop (desc_read sys d data) True"

section \<open>Writing\<close>

definition desc_writev :: "'w system \<Rightarrow> int \<Rightarrow> buffer list \<Rightarrow> 'w attempt" where
  "desc_writev sys d bufs ec w = checked (sys_writev sys d bufs (iov_count bufs) w) ec"

definition desc_write :: "'w system \<Rightarrow> int \<Rightarrow> buffer \<Rightarrow> 'w attempt" where
  "desc_write sys d data ec w = checked (sys_write sys d data w) ec"

text \<open>The loop of the blocking writes: a write of nothing is no success, and with its cleared error no failure either.\<close>

partial_function (option) sync_write_loop :: "'v attempt \<Rightarrow> 'v attempt \<Rightarrow> bool \<Rightarrow> error_code \<Rightarrow> 'v \<Rightarrow>
    (nat \<times> error_code \<times> 'v) option" where
  "sync_write_loop call poll user_non_blocking ec v =
     (case call ec v of (bytes, ec1, v1) \<Rightarrow>
        if bytes > 0 then Some (nat bytes, ec1, v1)
        else if user_non_blocking \<or> (ec1 \<noteq> would_block \<and> ec1 \<noteq> try_again) then Some (0, ec1, v1)
        else (case poll ec1 v1 of (result, ec2, v2) \<Rightarrow>
                if result < 0 then Some (0, ec2, v2)
                else sync_write_loop call poll user_non_blocking ec2 v2))"

definition desc_sync_write :: "'w system \<Rightarrow> int \<Rightarrow> state_type \<Rightarrow> buffer list \<Rightarrow> bool \<Rightarrow> error_code \<Rightarrow> 'w \<Rightarrow>
    (nat \<times> error_code \<times> 'w) option" where
  "desc_sync_write sys d state bufs all_empty ec w =
     (if d = - 1 then Some (0, bad_descriptor, w)
      else if all_empty then Some (0, clear_error ec, w)
      else sync_write_loop (desc_writev sys d bufs) (desc_poll_write sys d 0) (has state user_set_non_blocking) ec w)"

definition desc_sync_write1 :: "'w system \<Rightarrow> int \<Rightarrow> state_type \<Rightarrow> buffer \<Rightarrow> error_code \<Rightarrow> 'w \<Rightarrow>
    (nat \<times> error_code \<times> 'w) option" where
  "desc_sync_write1 sys d state data ec w =
     (if d = - 1 then Some (0, bad_descriptor, w)
      else if buf_size data = 0 then Some (0, clear_error ec, w)
      else sync_write_loop (desc_write sys d data) (desc_poll_write sys d 0) (has state user_set_non_blocking) ec w)"

definition desc_non_blocking_write :: "'w system \<Rightarrow> int \<Rightarrow> buffer list \<Rightarrow> nat \<Rightarrow> error_code \<Rightarrow> 'w \<Rightarrow>
    (bool \<times> error_code \<times> nat \<times> 'w) option" where
  "desc_non_blocking_write sys d bufs = non_blocking_loop (desc_writev sys d bufs) False"

definition desc_non_blocking_write1 :: "'w system \<Rightarrow> int \<Rightarrow> buffer \<Rightarrow> nat \<Rightarrow> error_code \<Rightarrow> 'w \<Rightarrow>
    (bool \<times> error_code \<times> nat \<times> 'w) option" where
  "desc_non_blocking_write1 sys d data = non_blocking_loop (desc_write sys d data) False"

end
