(* ===== verification/Asio_Socket_Ops.thy ===== *)
theory Asio_Socket_Ops
  imports Asio_Sys "HOL-Library.Signed_Division"
begin

text \<open>
  \<open>socket_ops\<close> (detail/impl/socket\_ops.ipp) as it is compiled for Linux: the operations on a socket, blocking and
  non-blocking. \<open>invalid_socket\<close> and \<open>socket_error_retval\<close> are \<open>-1\<close>. An address is where its bytes are; its length
  goes to the system as a \<open>socklen_t\<close> and comes back from it.
\<close>

definition SOL_SOCKET :: int where "SOL_SOCKET = 1"
definition SO_ERROR :: int where "SO_ERROR = 4"
definition SO_SNDBUF :: int where "SO_SNDBUF = 7"
definition SO_RCVBUF :: int where "SO_RCVBUF = 8"
definition SO_LINGER :: int where "SO_LINGER = 13"
definition FIONREAD :: int where "FIONREAD = 0x541B"
definition SIOCATMARK :: int where "SIOCATMARK = 0x8905"
definition ENOTTY :: int where "ENOTTY = 25"
definition EPROTO :: int where "EPROTO = 71"
definition MSG_NOSIGNAL :: int where "MSG_NOSIGNAL = 0x4000"
definition not_socket :: error_code where "not_socket = system_error 88"
definition custom_socket_option_level :: int where "custom_socket_option_level = sint (0xA5100000 :: uint32)"
definition enable_connection_aborted_option :: int where "enable_connection_aborted_option = 1"
definition always_fail_option :: int where "always_fail_option = 2"

section \<open>Waiting\<close>

definition sock_poll :: "'w system \<Rightarrow> int \<Rightarrow> int \<Rightarrow> state_type \<Rightarrow> int \<Rightarrow> error_code \<Rightarrow> 'w \<Rightarrow> int \<times> error_code \<times> 'w" where
  "sock_poll sys events s state msec ec w =
     (if s = - 1 then (- 1, bad_descriptor, w)
      else (let timeout = (if has state user_set_non_blocking then 0 else msec)
            in case checked (sys_poll sys s events timeout w) ec of (result, ec1, w1) \<Rightarrow>
                 (result, if result = 0 \<and> has state user_set_non_blocking then would_block else ec1, w1)))"

definition sock_poll_read :: "'w system \<Rightarrow> int \<Rightarrow> state_type \<Rightarrow> int \<Rightarrow> error_code \<Rightarrow> 'w \<Rightarrow> int \<times> error_code \<times> 'w" where
  "sock_poll_read sys = sock_poll sys POLLIN"

definition sock_poll_write :: "'w system \<Rightarrow> int \<Rightarrow> state_type \<Rightarrow> int \<Rightarrow> error_code \<Rightarrow> 'w \<Rightarrow> int \<times> error_code \<times> 'w" where
  "sock_poll_write sys = sock_poll sys POLLOUT"

definition sock_poll_error :: "'w system \<Rightarrow> int \<Rightarrow> state_type \<Rightarrow> int \<Rightarrow> error_code \<Rightarrow> 'w \<Rightarrow> int \<times> error_code \<times> 'w" where
  "sock_poll_error sys = sock_poll sys POLL_EXCEPT"

definition sock_poll_connect :: "'w system \<Rightarrow> int \<Rightarrow> int \<Rightarrow> error_code \<Rightarrow> 'w \<Rightarrow> int \<times> error_code \<times> 'w" where
  "sock_poll_connect sys s msec ec w =
     (if s = - 1 then (- 1, bad_descriptor, w) else checked (sys_poll sys s POLLOUT msec w) ec)"

definition sock_select :: "'w system \<Rightarrow> int \<Rightarrow> nat option \<Rightarrow> nat option \<Rightarrow> nat option \<Rightarrow> (int \<times> int) option \<Rightarrow>
    error_code \<Rightarrow> 'w \<Rightarrow> int \<times> error_code \<times> 'w" where
  "sock_select sys nfds readfds writefds exceptfds timeout ec w =
     checked (sys_select sys nfds readfds writefds exceptfds timeout w) ec"

section \<open>Options\<close>

text \<open>An option's value is given as the \<open>int\<close>s it consists of. asio keeps two options for itself.\<close>

definition sock_setsockopt :: "'w system \<Rightarrow> int \<Rightarrow> state_type \<Rightarrow> int \<Rightarrow> int \<Rightarrow> int list \<Rightarrow> size_t \<Rightarrow> error_code \<Rightarrow> 'w \<Rightarrow>
    int \<times> state_type \<times> error_code \<times> 'w" where
  "sock_setsockopt sys s state level optname optval optlen ec w =
     (if s = - 1 then (- 1, state, bad_descriptor, w)
      else if level = custom_socket_option_level \<and> optname = always_fail_option then (- 1, state, invalid_argument, w)
      else if level = custom_socket_option_level \<and> optname = enable_connection_aborted_option
      then (if optlen \<noteq> 4 then (- 1, state, invalid_argument, w)
            else (0, if hd optval \<noteq> 0 then state OR enable_connection_aborted else state AND NOT enable_connection_aborted,
                  clear_error ec, w))
      else (let state1 = (if level = SOL_SOCKET \<and> optname = SO_LINGER then state OR user_set_linger else state)
            in case checked_zero (sys_setsockopt sys s level optname optval (ucast optlen) w) ec of
                 (result, ec1, w1) \<Rightarrow> (result, state1, ec1, w1)))"

definition sock_getsockopt :: "'w system \<Rightarrow> int \<Rightarrow> state_type \<Rightarrow> int \<Rightarrow> int \<Rightarrow> int list \<Rightarrow> size_t \<Rightarrow> error_code \<Rightarrow> 'w \<Rightarrow>
    int \<times> int list \<times> size_t \<times> error_code \<times> 'w" where
  "sock_getsockopt sys s state level optname optval optlen ec w =
     (if s = - 1 then (- 1, optval, optlen, bad_descriptor, w)
      else if level = custom_socket_option_level \<and> optname = always_fail_option
      then (- 1, optval, optlen, invalid_argument, w)
      else if level = custom_socket_option_level \<and> optname = enable_connection_aborted_option
      then (if optlen \<noteq> 4 then (- 1, optval, optlen, invalid_argument, w)
            else (0, [if has state enable_connection_aborted then 1 else 0], optlen, clear_error ec, w))
      else (case sys_getsockopt sys s level optname optval (ucast optlen) w of ((optval1, tmp_optlen), r) \<Rightarrow>
              case checked_zero r ec of (result, ec1, w1) \<Rightarrow>
                (let optlen1 = ucast tmp_optlen
                 in if result = 0 \<and> level = SOL_SOCKET \<and> optlen1 = 4 \<and> (optname = SO_SNDBUF \<or> optname = SO_RCVBUF)
                    then (result, [hd optval1 sdiv 2], optlen1, ec1, w1)
                    else (result, optval1, optlen1, ec1, w1))))"

section \<open>Opening and closing\<close>

definition sock_socket :: "'w system \<Rightarrow> int \<Rightarrow> int \<Rightarrow> int \<Rightarrow> error_code \<Rightarrow> 'w \<Rightarrow> int \<times> error_code \<times> 'w" where
  "sock_socket sys af type protocol ec w = checked (sys_socket sys af type protocol w) ec"

definition sock_socketpair :: "'w system \<Rightarrow> int \<Rightarrow> int \<Rightarrow> int \<Rightarrow> error_code \<Rightarrow> 'w \<Rightarrow>
    int \<times> (int \<times> int) \<times> error_code \<times> 'w" where
  "sock_socketpair sys af type protocol ec w =
     (case sys_socketpair sys af type protocol w of (sv, r) \<Rightarrow>
        case checked_zero r ec of (result, ec1, w1) \<Rightarrow> (result, sv, ec1, w1))"

definition sock_close :: "'w system \<Rightarrow> int \<Rightarrow> state_type \<Rightarrow> bool \<Rightarrow> error_code \<Rightarrow> 'w \<Rightarrow>
    int \<times> state_type \<times> error_code \<times> 'w" where
  "sock_close sys s state destruction ec w =
     (if s = - 1 then (0, state, ec, w)
      else (case (if destruction \<and> has state user_set_linger
                  then (case sock_setsockopt sys s state SOL_SOCKET SO_LINGER [0, 0] 8 no_error w of
                          (result, state1, ignored_ec, w1) \<Rightarrow> (state1, w1))
                  else (state, w)) of (state1, w1) \<Rightarrow>
            case checked_zero (sys_close sys s w1) ec of (result, ec1, w2) \<Rightarrow>
              if result \<noteq> 0 \<and> (ec1 = would_block \<or> ec1 = try_again)
              then (case sys_ioctl sys s FIONBIO 0 w2 of (arg, ignored, errno, w3) \<Rightarrow>
                      case checked_zero (sys_close sys s w3) ec1 of (result2, ec2, w4) \<Rightarrow>
                        (result2, state1 AND NOT non_blocking, ec2, w4))
              else (result, state1, ec1, w2)))"

definition sock_shutdown :: "'w system \<Rightarrow> int \<Rightarrow> int \<Rightarrow> error_code \<Rightarrow> 'w \<Rightarrow> int \<times> error_code \<times> 'w" where
  "sock_shutdown sys s what ec w =
     (if s = - 1 then (- 1, bad_descriptor, w) else checked_zero (sys_shutdown sys s what w) ec)"

definition sock_bind :: "'w system \<Rightarrow> int \<Rightarrow> nat \<Rightarrow> size_t \<Rightarrow> error_code \<Rightarrow> 'w \<Rightarrow> int \<times> error_code \<times> 'w" where
  "sock_bind sys s addr addrlen ec w =
     (if s = - 1 then (- 1, bad_descriptor, w) else checked_zero (sys_bind sys s addr (ucast addrlen) w) ec)"

definition sock_listen :: "'w system \<Rightarrow> int \<Rightarrow> int \<Rightarrow> error_code \<Rightarrow> 'w \<Rightarrow> int \<times> error_code \<times> 'w" where
  "sock_listen sys s backlog ec w =
     (if s = - 1 then (- 1, bad_descriptor, w) else checked_zero (sys_listen sys s backlog w) ec)"

definition sock_getpeername :: "'w system \<Rightarrow> int \<Rightarrow> nat \<Rightarrow> size_t \<Rightarrow> error_code \<Rightarrow> 'w \<Rightarrow>
    int \<times> size_t \<times> error_code \<times> 'w" where
  "sock_getpeername sys s addr addrlen ec w =
     (if s = - 1 then (- 1, addrlen, bad_descriptor, w)
      else (case sys_getpeername sys s addr (ucast addrlen) w of (tmp_addrlen, r) \<Rightarrow>
              case checked_zero r ec of (result, ec1, w1) \<Rightarrow> (result, ucast tmp_addrlen, ec1, w1)))"

definition sock_getsockname :: "'w system \<Rightarrow> int \<Rightarrow> nat \<Rightarrow> size_t \<Rightarrow> error_code \<Rightarrow> 'w \<Rightarrow>
    int \<times> size_t \<times> error_code \<times> 'w" where
  "sock_getsockname sys s addr addrlen ec w =
     (if s = - 1 then (- 1, addrlen, bad_descriptor, w)
      else (case sys_getsockname sys s addr (ucast addrlen) w of (tmp_addrlen, r) \<Rightarrow>
              case checked_zero r ec of (result, ec1, w1) \<Rightarrow> (result, ucast tmp_addrlen, ec1, w1)))"

text \<open>\<open>sockatmark\<close> and \<open>available\<close>: an answer that the descriptor is no terminal means that it is no socket.\<close>

definition sock_query :: "'w system \<Rightarrow> int \<Rightarrow> int \<Rightarrow> error_code \<Rightarrow> 'w \<Rightarrow> int \<times> error_code \<times> 'w" where
  "sock_query sys s cmd ec w =
     (case sys_ioctl sys s cmd 0 w of (arg, r) \<Rightarrow>
        case checked r ec of (result, ec1, w1) \<Rightarrow> (arg, if snd ec1 = ENOTTY then not_socket else ec1, w1))"

definition sock_sockatmark :: "'w system \<Rightarrow> int \<Rightarrow> error_code \<Rightarrow> 'w \<Rightarrow> bool \<times> error_code \<times> 'w" where
  "sock_sockatmark sys s ec w =
     (if s = - 1 then (False, bad_descriptor, w)
      else (case sock_query sys s SIOCATMARK ec w of (arg, ec1, w1) \<Rightarrow>
              (if is_error ec1 then False else arg \<noteq> 0, ec1, w1)))"

definition sock_available :: "'w system \<Rightarrow> int \<Rightarrow> error_code \<Rightarrow> 'w \<Rightarrow> size_t \<times> error_code \<times> 'w" where
  "sock_available sys s ec w =
     (if s = - 1 then (0, bad_descriptor, w)
      else (case sock_query sys s FIONREAD ec w of (arg, ec1, w1) \<Rightarrow>
              (if is_error ec1 then 0 else word_of_int arg, ec1, w1)))"

section \<open>Connecting\<close>

definition sock_connect :: "'w system \<Rightarrow> int \<Rightarrow> nat \<Rightarrow> size_t \<Rightarrow> error_code \<Rightarrow> 'w \<Rightarrow> int \<times> error_code \<times> 'w" where
  "sock_connect sys s addr addrlen ec w =
     (if s = - 1 then (- 1, bad_descriptor, w)
      else (case checked_zero (sys_connect sys s addr (ucast addrlen) w) ec of (result, ec1, w1) \<Rightarrow>
              (result, if result \<noteq> 0 \<and> ec1 = try_again then no_buffer_space else ec1, w1)))"

definition sock_sync_connect :: "'w system \<Rightarrow> int \<Rightarrow> nat \<Rightarrow> size_t \<Rightarrow> error_code \<Rightarrow> 'w \<Rightarrow> error_code \<times> 'w" where
  "sock_sync_connect sys s addr addrlen ec w =
     (case sock_connect sys s addr addrlen ec w of (result, ec1, w1) \<Rightarrow>
        if ec1 \<noteq> in_progress \<and> ec1 \<noteq> would_block then (ec1, w1)
        else (case sock_poll_connect sys s (- 1) ec1 w1 of (ready, ec2, w2) \<Rightarrow>
                if ready < 0 then (ec2, w2)
                else (case sock_getsockopt sys s 0 SOL_SOCKET SO_ERROR [0] 4 ec2 w2 of (result3, connect_error, len, ec3, w3) \<Rightarrow>
                        if result3 = - 1 then (ec3, w3) else (system_error (hd connect_error), w3))))"

definition sock_non_blocking_connect :: "'w system \<Rightarrow> int \<Rightarrow> error_code \<Rightarrow> 'w \<Rightarrow> bool \<times> error_code \<times> 'w" where
  "sock_non_blocking_connect sys s ec w =
     (case sys_poll sys s POLLOUT 0 w of (ready, errno, w1) \<Rightarrow>
        if ready = 0 then (False, ec, w1)
        else (case sock_getsockopt sys s 0 SOL_SOCKET SO_ERROR [0] 4 ec w1 of (result, connect_error, len, ec1, w2) \<Rightarrow>
                if result = 0
                then (True, if hd connect_error \<noteq> 0 then system_error (hd connect_error) else clear_error ec1, w2)
                else (True, ec1, w2)))"

section \<open>Accepting\<close>

definition sock_accept :: "'w system \<Rightarrow> int \<Rightarrow> nat option \<Rightarrow> size_t option \<Rightarrow> error_code \<Rightarrow> 'w \<Rightarrow>
    int \<times> size_t option \<times> error_code \<times> 'w" where
  "sock_accept sys s addr addrlen ec w =
     (if s = - 1 then (- 1, addrlen, bad_descriptor, w)
      else (case sys_accept sys s addr (map_option ucast addrlen) w of (tmp_addrlen, new_s, errno, w1) \<Rightarrow>
              (let addrlen1 = map_option (\<lambda>_. ucast tmp_addrlen) addrlen;
                   ec1 = get_last_error errno (new_s = - 1) ec
               in if new_s = - 1 then (new_s, addrlen1, ec1, w1) else (new_s, addrlen1, clear_error ec1, w1))))"

text \<open>Whether a failed \<open>accept\<close> is given up: the connection was gone before, and the user wants to know, or any other error.\<close>

definition accept_aborted :: "error_code \<Rightarrow> bool" where
  "accept_aborted ec \<longleftrightarrow> ec = Asio_Error.connection_aborted \<or> snd ec = EPROTO"

partial_function (option) sock_sync_accept :: "'w system \<Rightarrow> int \<Rightarrow> state_type \<Rightarrow> nat option \<Rightarrow> size_t option \<Rightarrow>
    error_code \<Rightarrow> 'w \<Rightarrow> (int \<times> size_t option \<times> error_code \<times> 'w) option" where
  "sock_sync_accept sys s state addr addrlen ec w =
     (case sock_accept sys s addr addrlen ec w of (new_socket, addrlen1, ec1, w1) \<Rightarrow>
        if new_socket \<noteq> - 1 then Some (new_socket, addrlen1, ec1, w1)
        else if (if ec1 = would_block \<or> ec1 = try_again then has state user_set_non_blocking
                 else if accept_aborted ec1 then has state enable_connection_aborted else True)
        then Some (- 1, addrlen1, ec1, w1)
        else (case sock_poll_read sys s 0 (- 1) ec1 w1 of (result, ec2, w2) \<Rightarrow>
                if result < 0 then Some (- 1, addrlen1, ec2, w2)
                else sock_sync_accept sys s state addr addrlen1 ec2 w2))"

partial_function (option) sock_non_blocking_accept :: "'w system \<Rightarrow> int \<Rightarrow> state_type \<Rightarrow> nat option \<Rightarrow> size_t option \<Rightarrow>
    error_code \<Rightarrow> 'w \<Rightarrow> (bool \<times> int \<times> size_t option \<times> error_code \<times> 'w) option" where
  "sock_non_blocking_accept sys s state addr addrlen ec w =
     (case sock_accept sys s addr addrlen ec w of (new_socket, addrlen1, ec1, w1) \<Rightarrow>
        if new_socket \<noteq> - 1 then Some (True, new_socket, addrlen1, ec1, w1)
        else if ec1 = interrupted then sock_non_blocking_accept sys s state addr addrlen1 ec1 w1
        else Some (if ec1 = would_block \<or> ec1 = try_again then False
                   else if accept_aborted ec1 then has state enable_connection_aborted else True,
                   new_socket, addrlen1, ec1, w1))"

end
