(* ===== verification/Asio_Socket_IO.thy ===== *)
theory Asio_Socket_IO
  imports Asio_Socket_Ops
begin

text \<open>
  \<open>socket_ops\<close>, continued: receiving and sending, with many buffers and with one, of streams, of datagrams with
  their addresses, and with flags that come back. What comes back besides the bytes is part of the state.
\<close>

section \<open>Receiving\<close>

definition new_msghdr :: "nat option \<Rightarrow> uint32 \<Rightarrow> buffer list \<Rightarrow> msghdr" where
  "new_msghdr addr len bufs =
     \<lparr>msg_name = addr, msg_namelen = len, msg_iov = bufs, msg_iovlen = iov_count bufs, msg_flags = 0\<rparr>"

definition sock_recv :: "'w system \<Rightarrow> int \<Rightarrow> buffer list \<Rightarrow> int \<Rightarrow> 'w attempt" where
  "sock_recv sys s bufs flags ec w = checked (snd (sys_recvmsg sys s (new_msghdr None 0 bufs) flags w)) ec"

definition sock_recv1 :: "'w system \<Rightarrow> int \<Rightarrow> buffer \<Rightarrow> int \<Rightarrow> 'w attempt" where
  "sock_recv1 sys s data flags ec w = checked (sys_recv sys s data flags w) ec"

definition sock_recvfrom :: "'w system \<Rightarrow> int \<Rightarrow> buffer list \<Rightarrow> int \<Rightarrow> nat \<Rightarrow> (size_t \<times> 'w) attempt" where
  "sock_recvfrom sys s bufs flags addr ec v =
     (case v of (addrlen, w) \<Rightarrow>
        case sys_recvmsg sys s (new_msghdr (Some addr) (ucast addrlen) bufs) flags w of (msg, r) \<Rightarrow>
          case checked r ec of (result, ec1, w1) \<Rightarrow> (result, ec1, ucast (msg_namelen msg), w1))"

definition sock_recvfrom1 :: "'w system \<Rightarrow> int \<Rightarrow> buffer \<Rightarrow> int \<Rightarrow> nat \<Rightarrow> (size_t option \<times> 'w) attempt" where
  "sock_recvfrom1 sys s data flags addr ec v =
     (case v of (addrlen, w) \<Rightarrow>
        case sys_recvfrom sys s data flags addr (map_option ucast addrlen) w of (tmp_addrlen, r) \<Rightarrow>
          case checked r ec of (result, ec1, w1) \<Rightarrow> (result, ec1, map_option (\<lambda>_. ucast tmp_addrlen) addrlen, w1))"

definition sock_recvmsg :: "'w system \<Rightarrow> int \<Rightarrow> buffer list \<Rightarrow> int \<Rightarrow> (int \<times> 'w) attempt" where
  "sock_recvmsg sys s bufs in_flags ec v =
     (case v of (out_flags, w) \<Rightarrow>
        case sys_recvmsg sys s (new_msghdr None 0 bufs) in_flags w of (msg, r) \<Rightarrow>
          case checked r ec of (result, ec1, w1) \<Rightarrow> (result, ec1, if result \<ge> 0 then Asio_Sys.msg_flags msg else 0, w1))"

text \<open>A wait does not touch what comes back besides the bytes.\<close>

definition beside :: "'w attempt \<Rightarrow> ('x \<times> 'w) attempt" where
  "beside f ec v = (case v of (x, w) \<Rightarrow> case f ec w of (result, ec1, w1) \<Rightarrow> (result, ec1, x, w1))"

definition sock_sync_recv :: "'w system \<Rightarrow> int \<Rightarrow> state_type \<Rightarrow> buffer list \<Rightarrow> int \<Rightarrow> bool \<Rightarrow> error_code \<Rightarrow> 'w \<Rightarrow>
    (nat \<times> error_code \<times> 'w) option" where
  "sock_sync_recv sys s state bufs flags all_empty ec w =
     (if s = - 1 then Some (0, bad_descriptor, w)
      else if all_empty \<and> has state stream_oriented then Some (0, clear_error ec, w)
      else sync_loop (sock_recv sys s bufs flags) (sock_poll_read sys s 0 (- 1)) (has state stream_oriented)
             (has state user_set_non_blocking) ec w)"

definition sock_sync_recv1 :: "'w system \<Rightarrow> int \<Rightarrow> state_type \<Rightarrow> buffer \<Rightarrow> int \<Rightarrow> error_code \<Rightarrow> 'w \<Rightarrow>
    (nat \<times> error_code \<times> 'w) option" where
  "sock_sync_recv1 sys s state data flags ec w =
     (if s = - 1 then Some (0, bad_descriptor, w)
      else if buf_size data = 0 \<and> has state stream_oriented then Some (0, clear_error ec, w)
      else sync_loop (sock_recv1 sys s data flags) (sock_poll_read sys s 0 (- 1)) (has state stream_oriented)
             (has state user_set_non_blocking) ec w)"

definition sock_sync_recvfrom :: "'w system \<Rightarrow> int \<Rightarrow> state_type \<Rightarrow> buffer list \<Rightarrow> int \<Rightarrow> nat \<Rightarrow> size_t \<Rightarrow> error_code \<Rightarrow>
    'w \<Rightarrow> (nat \<times> error_code \<times> size_t \<times> 'w) option" where
  "sock_sync_recvfrom sys s state bufs flags addr addrlen ec w =
     (if s = - 1 then Some (0, bad_descriptor, addrlen, w)
      else sync_loop (sock_recvfrom sys s bufs flags addr) (beside (sock_poll_read sys s 0 (- 1))) False
             (has state user_set_non_blocking) ec (addrlen, w))"

definition sock_sync_recvfrom1 :: "'w system \<Rightarrow> int \<Rightarrow> state_type \<Rightarrow> buffer \<Rightarrow> int \<Rightarrow> nat \<Rightarrow> size_t option \<Rightarrow> error_code \<Rightarrow>
    'w \<Rightarrow> (nat \<times> error_code \<times> size_t option \<times> 'w) option" where
  "sock_sync_recvfrom1 sys s state data flags addr addrlen ec w =
     (if s = - 1 then Some (0, bad_descriptor, addrlen, w)
      else sync_loop (sock_recvfrom1 sys s data flags addr) (beside (sock_poll_read sys s 0 (- 1))) False
             (has state user_set_non_blocking) ec (addrlen, w))"

definition sock_sync_recvmsg :: "'w system \<Rightarrow> int \<Rightarrow> state_type \<Rightarrow> buffer list \<Rightarrow> int \<Rightarrow> int \<Rightarrow> error_code \<Rightarrow>
    'w \<Rightarrow> (nat \<times> error_code \<times> int \<times> 'w) option" where
  "sock_sync_recvmsg sys s state bufs in_flags out_flags ec w =
     (if s = - 1 then Some (0, bad_descriptor, out_flags, w)
      else sync_loop (sock_recvmsg sys s bufs in_flags) (beside (sock_poll_read sys s 0 (- 1))) False
             (has state user_set_non_blocking) ec (out_flags, w))"

definition sock_non_blocking_recv :: "'w system \<Rightarrow> int \<Rightarrow> buffer list \<Rightarrow> int \<Rightarrow> bool \<Rightarrow> nat \<Rightarrow> error_code \<Rightarrow> 'w \<Rightarrow>
    (bool \<times> error_code \<times> nat \<times> 'w) option" where
  "sock_non_blocking_recv sys s bufs flags is_stream = non_blocking_loop (sock_recv sys s bufs flags) is_stream"

definition sock_non_blocking_recv1 :: "'w system \<Rightarrow> int \<Rightarrow> buffer \<Rightarrow> int \<Rightarrow> bool \<Rightarrow> nat \<Rightarrow> error_code \<Rightarrow> 'w \<Rightarrow>
    (bool \<times> error_code \<times> nat \<times> 'w) option" where
  "sock_non_blocking_recv1 sys s data flags is_stream = non_blocking_loop (sock_recv1 sys s data flags) is_stream"

definition sock_non_blocking_recvfrom :: "'w system \<Rightarrow> int \<Rightarrow> buffer list \<Rightarrow> int \<Rightarrow> nat \<Rightarrow> nat \<Rightarrow> error_code \<Rightarrow>
    size_t \<times> 'w \<Rightarrow> (bool \<times> error_code \<times> nat \<times> size_t \<times> 'w) option" where
  "sock_non_blocking_recvfrom sys s bufs flags addr = non_blocking_loop (sock_recvfrom sys s bufs flags addr) False"

definition sock_non_blocking_recvfrom1 :: "'w system \<Rightarrow> int \<Rightarrow> buffer \<Rightarrow> int \<Rightarrow> nat \<Rightarrow> nat \<Rightarrow> error_code \<Rightarrow>
    size_t option \<times> 'w \<Rightarrow> (bool \<times> error_code \<times> nat \<times> size_t option \<times> 'w) option" where
  "sock_non_blocking_recvfrom1 sys s data flags addr = non_blocking_loop (sock_recvfrom1 sys s data flags addr) False"

definition sock_non_blocking_recvmsg :: "'w system \<Rightarrow> int \<Rightarrow> buffer list \<Rightarrow> int \<Rightarrow> nat \<Rightarrow> error_code \<Rightarrow>
    int \<times> 'w \<Rightarrow> (bool \<times> error_code \<times> nat \<times> int \<times> 'w) option" where
  "sock_non_blocking_recvmsg sys s bufs in_flags = non_blocking_loop (sock_recvmsg sys s bufs in_flags) False"

section \<open>Sending\<close>

text \<open>A send never raises a signal.\<close>

definition sock_send :: "'w system \<Rightarrow> int \<Rightarrow> buffer list \<Rightarrow> int \<Rightarrow> 'w attempt" where
  "sock_send sys s bufs flags ec w = checked (sys_sendmsg sys s (new_msghdr None 0 bufs) (flags OR MSG_NOSIGNAL) w) ec"

definition sock_send1 :: "'w system \<Rightarrow> int \<Rightarrow> buffer \<Rightarrow> int \<Rightarrow> 'w attempt" where
  "sock_send1 sys s data flags ec w = checked (sys_send sys s data (flags OR MSG_NOSIGNAL) w) ec"

definition sock_sendto :: "'w system \<Rightarrow> int \<Rightarrow> buffer list \<Rightarrow> int \<Rightarrow> nat \<Rightarrow> size_t \<Rightarrow> 'w attempt" where
  "sock_sendto sys s bufs flags addr addrlen ec w =
     checked (sys_sendmsg sys s (new_msghdr (Some addr) (ucast addrlen) bufs) (flags OR MSG_NOSIGNAL) w) ec"

definition sock_sendto1 :: "'w system \<Rightarrow> int \<Rightarrow> buffer \<Rightarrow> int \<Rightarrow> nat \<Rightarrow> size_t \<Rightarrow> 'w attempt" where
  "sock_sendto1 sys s data flags addr addrlen ec w =
     checked (sys_sendto sys s data (flags OR MSG_NOSIGNAL) addr (ucast addrlen) w) ec"

definition sock_sync_send :: "'w system \<Rightarrow> int \<Rightarrow> state_type \<Rightarrow> buffer list \<Rightarrow> int \<Rightarrow> bool \<Rightarrow> error_code \<Rightarrow> 'w \<Rightarrow>
    (nat \<times> error_code \<times> 'w) option" where
  "sock_sync_send sys s state bufs flags all_empty ec w =
     (if s = - 1 then Some (0, bad_descriptor, w)
      else if all_empty \<and> has state stream_oriented then Some (0, clear_error ec, w)
      else sync_loop (sock_send sys s bufs flags) (sock_poll_write sys s 0 (- 1)) False
             (has state user_set_non_blocking) ec w)"

definition sock_sync_send1 :: "'w system \<Rightarrow> int \<Rightarrow> state_type \<Rightarrow> buffer \<Rightarrow> int \<Rightarrow> error_code \<Rightarrow> 'w \<Rightarrow>
    (nat \<times> error_code \<times> 'w) option" where
  "sock_sync_send1 sys s state data flags ec w =
     (if s = - 1 then Some (0, bad_descriptor, w)
      else if buf_size data = 0 \<and> has state stream_oriented then Some (0, clear_error ec, w)
      else sync_loop (sock_send1 sys s data flags) (sock_poll_write sys s 0 (- 1)) False
             (has state user_set_non_blocking) ec w)"

definition sock_sync_sendto :: "'w system \<Rightarrow> int \<Rightarrow> state_type \<Rightarrow> buffer list \<Rightarrow> int \<Rightarrow> nat \<Rightarrow> size_t \<Rightarrow> error_code \<Rightarrow>
    'w \<Rightarrow> (nat \<times> error_code \<times> 'w) option" where
  "sock_sync_sendto sys s state bufs flags addr addrlen ec w =
     (if s = - 1 then Some (0, bad_descriptor, w)
      else sync_loop (sock_sendto sys s bufs flags addr addrlen) (sock_poll_write sys s 0 (- 1)) False
             (has state user_set_non_blocking) ec w)"

definition sock_sync_sendto1 :: "'w system \<Rightarrow> int \<Rightarrow> state_type \<Rightarrow> buffer \<Rightarrow> int \<Rightarrow> nat \<Rightarrow> size_t \<Rightarrow> error_code \<Rightarrow>
    'w \<Rightarrow> (nat \<times> error_code \<times> 'w) option" where
  "sock_sync_sendto1 sys s state data flags addr addrlen ec w =
     (if s = - 1 then Some (0, bad_descriptor, w)
      else sync_loop (sock_sendto1 sys s data flags addr addrlen) (sock_poll_write sys s 0 (- 1)) False
             (has state user_set_non_blocking) ec w)"

definition sock_non_blocking_send :: "'w system \<Rightarrow> int \<Rightarrow> buffer list \<Rightarrow> int \<Rightarrow> nat \<Rightarrow> error_code \<Rightarrow> 'w \<Rightarrow>
    (bool \<times> error_code \<times> nat \<times> 'w) option" where
  "sock_non_blocking_send sys s bufs flags = non_blocking_loop (sock_send sys s bufs flags) False"

definition sock_non_blocking_send1 :: "'w system \<Rightarrow> int \<Rightarrow> buffer \<Rightarrow> int \<Rightarrow> nat \<Rightarrow> error_code \<Rightarrow> 'w \<Rightarrow>
    (bool \<times> error_code \<times> nat \<times> 'w) option" where
  "sock_non_blocking_send1 sys s data flags = non_blocking_loop (sock_send1 sys s data flags) False"

definition sock_non_blocking_sendto :: "'w system \<Rightarrow> int \<Rightarrow> buffer list \<Rightarrow> int \<Rightarrow> nat \<Rightarrow> size_t \<Rightarrow> nat \<Rightarrow> error_code \<Rightarrow> 'w \<Rightarrow>
    (bool \<times> error_code \<times> nat \<times> 'w) option" where
  "sock_non_blocking_sendto sys s bufs flags addr addrlen = non_blocking_loop (sock_sendto sys s bufs flags addr addrlen) False"

definition sock_non_blocking_sendto1 :: "'w system \<Rightarrow> int \<Rightarrow> buffer \<Rightarrow> int \<Rightarrow> nat \<Rightarrow> size_t \<Rightarrow> nat \<Rightarrow> error_code \<Rightarrow> 'w \<Rightarrow>
    (bool \<times> error_code \<times> nat \<times> 'w) option" where
  "sock_non_blocking_sendto1 sys s data flags addr addrlen = non_blocking_loop (sock_sendto1 sys s data flags addr addrlen) False"

end
