(* ===== verification/Asio_Reactive_Ops.thy ===== *)
theory Asio_Reactive_Ops
  imports Asio_Epoll Asio_Descriptor_Ops Asio_Socket_IO
begin

text \<open>
  What the reactor's operations do (\<open>do_perform\<close> of detail/reactive\_socket\_*\_op.hpp, reactive\_wait\_op.hpp,
  reactive\_null\_buffers\_op.hpp, descriptor\_read\_op.hpp and descriptor\_write\_op.hpp), and the native buffers
  they give to the system (detail/buffer\_sequence\_adapter.hpp).
\<close>

section \<open>Native buffers\<close>

text \<open>A sequence whose type is a single buffer, or one of many, of which at most \<open>max_buffers\<close> are used.\<close>

datatype sequence = Single buffer | Many "buffer list"

definition max_buffers :: nat where "max_buffers = 64"

definition adapter_buffers :: "sequence \<Rightarrow> buffer list" where
  "adapter_buffers bs = (case bs of Single b \<Rightarrow> [b] | Many l \<Rightarrow> take max_buffers l)"

definition adapter_total_size :: "sequence \<Rightarrow> nat" where
  "adapter_total_size bs = buffers_size (adapter_buffers bs)"

definition adapter_all_empty :: "sequence \<Rightarrow> bool" where
  "adapter_all_empty bs \<longleftrightarrow> adapter_total_size bs = 0"

text \<open>The static \<open>all_empty\<close>, which looks at the sizes one by one.\<close>

definition sequence_all_empty :: "sequence \<Rightarrow> bool" where
  "sequence_all_empty bs \<longleftrightarrow> (\<forall>b \<in> set (adapter_buffers bs). buf_size b = 0)"

section \<open>Operations\<close>

type_synonym 'w performed = "(status \<times> error_code \<times> nat \<times> 'w) option"

definition done_or_not :: "bool \<Rightarrow> status" where
  "done_or_not finished = (if finished then Done else Not_Done)"

definition recv_perform :: "'w system \<Rightarrow> int \<Rightarrow> state_type \<Rightarrow> sequence \<Rightarrow> int \<Rightarrow> error_code \<Rightarrow> nat \<Rightarrow> 'w \<Rightarrow> 'w performed" where
  "recv_perform sys s state bs flags ec bytes w =
     map_option (\<lambda>(finished, ec1, bytes1, w1).
         (if finished \<and> has state stream_oriented \<and> bytes1 = 0 then Done_And_Exhausted else done_or_not finished,
          ec1, bytes1, w1))
       (case bs of
          Single b \<Rightarrow> sock_non_blocking_recv1 sys s b flags (has state stream_oriented) bytes ec w
        | Many l \<Rightarrow> sock_non_blocking_recv sys s (adapter_buffers bs) flags (has state stream_oriented) bytes ec w)"

definition send_perform :: "'w system \<Rightarrow> int \<Rightarrow> state_type \<Rightarrow> sequence \<Rightarrow> int \<Rightarrow> error_code \<Rightarrow> nat \<Rightarrow> 'w \<Rightarrow> 'w performed" where
  "send_perform sys s state bs flags ec bytes w =
     map_option (\<lambda>(finished, ec1, bytes1, w1).
         (if finished \<and> has state stream_oriented \<and> bytes1 < adapter_total_size bs then Done_And_Exhausted
          else done_or_not finished, ec1, bytes1, w1))
       (case bs of
          Single b \<Rightarrow> sock_non_blocking_send1 sys s b flags bytes ec w
        | Many l \<Rightarrow> sock_non_blocking_send sys s (adapter_buffers bs) flags bytes ec w)"

text \<open>The sender's endpoint is resized if there is no error; its capacity goes in.\<close>

definition recvfrom_perform :: "'w system \<Rightarrow> int \<Rightarrow> sequence \<Rightarrow> nat \<Rightarrow> size_t \<Rightarrow> int \<Rightarrow> error_code \<Rightarrow> nat \<Rightarrow> 'w \<Rightarrow>
    (size_t option \<times> status \<times> error_code \<times> nat \<times> 'w) option" where
  "recvfrom_perform sys s bs sender capacity flags ec bytes w =
     map_option (\<lambda>(finished, ec1, bytes1, addr_len, w1).
         (if finished \<and> \<not> is_error ec1 then Some addr_len else None, done_or_not finished, ec1, bytes1, w1))
       (case bs of
          Single b \<Rightarrow>
            map_option (\<lambda>(finished, ec1, bytes1, len, w1). (finished, ec1, bytes1, the len, w1))
              (sock_non_blocking_recvfrom1 sys s b flags sender bytes ec (Some capacity, w))
        | Many l \<Rightarrow> sock_non_blocking_recvfrom sys s (adapter_buffers bs) flags sender bytes ec (capacity, w))"

definition sendto_perform :: "'w system \<Rightarrow> int \<Rightarrow> sequence \<Rightarrow> nat \<Rightarrow> size_t \<Rightarrow> int \<Rightarrow> error_code \<Rightarrow> nat \<Rightarrow> 'w \<Rightarrow> 'w performed" where
  "sendto_perform sys s bs destination len flags ec bytes w =
     map_option (\<lambda>(finished, ec1, bytes1, w1). (done_or_not finished, ec1, bytes1, w1))
       (case bs of
          Single b \<Rightarrow> sock_non_blocking_sendto1 sys s b flags destination len bytes ec w
        | Many l \<Rightarrow> sock_non_blocking_sendto sys s (adapter_buffers bs) flags destination len bytes ec w)"

definition recvmsg_perform :: "'w system \<Rightarrow> int \<Rightarrow> sequence \<Rightarrow> int \<Rightarrow> int \<Rightarrow> error_code \<Rightarrow> nat \<Rightarrow> 'w \<Rightarrow>
    (int \<times> status \<times> error_code \<times> nat \<times> 'w) option" where
  "recvmsg_perform sys s bs in_flags out_flags ec bytes w =
     map_option (\<lambda>(finished, ec1, bytes1, out, w1). (out, done_or_not finished, ec1, bytes1, w1))
       (sock_non_blocking_recvmsg sys s (adapter_buffers bs) in_flags bytes ec (out_flags, w))"

definition connect_perform :: "'w system \<Rightarrow> int \<Rightarrow> error_code \<Rightarrow> nat \<Rightarrow> 'w \<Rightarrow> status \<times> error_code \<times> nat \<times> 'w" where
  "connect_perform sys s ec bytes w =
     (case sock_non_blocking_connect sys s ec w of (finished, ec1, w1) \<Rightarrow> (done_or_not finished, ec1, bytes, w1))"

definition wait_perform :: "error_code \<Rightarrow> nat \<Rightarrow> 'w \<Rightarrow> status \<times> error_code \<times> nat \<times> 'w" where
  "wait_perform ec bytes w = (Done, ec, bytes, w)"

definition null_buffers_perform :: "error_code \<Rightarrow> nat \<Rightarrow> 'w \<Rightarrow> status \<times> error_code \<times> nat \<times> 'w" where
  "null_buffers_perform ec bytes w = (Done, ec, bytes, w)"

text \<open>\<open>socket_holder\<close>: its destructor and \<open>reset\<close>. An accept keeps the new socket in one.\<close>

definition holder_reset :: "'w system \<Rightarrow> int \<Rightarrow> 'w \<Rightarrow> int \<times> 'w" where
  "holder_reset sys held w =
     (if held \<noteq> - 1 then (case sock_close sys held 0 True no_error w of (result, state, ec, w1) \<Rightarrow> (- 1, w1))
      else (held, w))"

definition holder_destroy :: "'w system \<Rightarrow> int \<Rightarrow> 'w \<Rightarrow> 'w" where
  "holder_destroy sys held w = snd (holder_reset sys held w)"

definition accept_perform :: "'w system \<Rightarrow> int \<Rightarrow> state_type \<Rightarrow> nat option \<Rightarrow> size_t \<Rightarrow> int \<Rightarrow> error_code \<Rightarrow> 'w \<Rightarrow>
    (status \<times> int \<times> size_t \<times> error_code \<times> 'w) option" where
  "accept_perform sys s state peer_endpoint addrlen new_socket ec w =
     map_option (\<lambda>(finished, new_s, len, ec1, w1).
         case holder_reset sys new_socket w1 of
           (held, w2) \<Rightarrow> (done_or_not finished, new_s, (case len of None \<Rightarrow> addrlen | Some l \<Rightarrow> l), ec1, w2))
       (sock_non_blocking_accept sys s state peer_endpoint (map_option (\<lambda>_. addrlen) peer_endpoint) ec w)"

text \<open>Of descriptors: serial ports and others.\<close>

definition desc_read_perform :: "'w system \<Rightarrow> int \<Rightarrow> sequence \<Rightarrow> error_code \<Rightarrow> nat \<Rightarrow> 'w \<Rightarrow> 'w performed" where
  "desc_read_perform sys d bs ec bytes w =
     map_option (\<lambda>(finished, ec1, bytes1, w1). (done_or_not finished, ec1, bytes1, w1))
       (case bs of
          Single b \<Rightarrow> desc_non_blocking_read1 sys d b bytes ec w
        | Many l \<Rightarrow> desc_non_blocking_read sys d (adapter_buffers bs) bytes ec w)"

definition desc_write_perform :: "'w system \<Rightarrow> int \<Rightarrow> sequence \<Rightarrow> error_code \<Rightarrow> nat \<Rightarrow> 'w \<Rightarrow> 'w performed" where
  "desc_write_perform sys d bs ec bytes w =
     map_option (\<lambda>(finished, ec1, bytes1, w1). (done_or_not finished, ec1, bytes1, w1))
       (case bs of
          Single b \<Rightarrow> desc_non_blocking_write1 sys d b bytes ec w
        | Many l \<Rightarrow> desc_non_blocking_write sys d (adapter_buffers bs) bytes ec w)"

end
