(* ===== verification/Asio_Socket_Service.thy ===== *)
theory Asio_Socket_Service
  imports Asio_Reactive_Ops
begin

text \<open>
  The service behind asio's sockets (detail/reactive\_socket\_service\_base.hpp and
  detail/impl/reactive\_socket\_service\_base.ipp), on the reactor and the system: how a socket is opened, assigned,
  moved, released and closed, and how its operations are started. The calls of the scheduler are results.
\<close>

section \<open>The reactor and the world\<close>

record 'w env =
  env_reactor :: reactor
  env_world :: 'w

definition env_state :: "'w env \<Rightarrow> nat \<Rightarrow> descriptor_state" where
  "env_state e x = states (env_reactor e) x"

definition set_env_state :: "nat \<Rightarrow> descriptor_state \<Rightarrow> 'w \<Rightarrow> 'w env \<Rightarrow> 'w env" where
  "set_env_state x d w e = \<lparr>env_reactor = (env_reactor e)\<lparr>states := (states (env_reactor e))(x := d)\<rparr>, env_world = w\<rparr>"

text \<open>The reactor's functions on the pointer that a socket has.\<close>

definition env_start_op :: "'w reactor_os \<Rightarrow> nat \<Rightarrow> int \<Rightarrow> ptr \<Rightarrow> reactor_op \<Rightarrow> bool \<Rightarrow> bool \<Rightarrow> 'w env \<Rightarrow>
    'w env \<times> sched_call list" where
  "env_start_op os op_type desc data op is_continuation allow_speculative e =
     (case data of
        None \<Rightarrow> (e, start_op_unregistered op is_continuation)
      | Some x \<Rightarrow>
          (case start_op os op_type desc (env_state e x) op is_continuation allow_speculative (env_world e) of
             (d, calls, w) \<Rightarrow> (set_env_state x d w e, calls)))"

definition env_cancel_ops :: "ptr \<Rightarrow> 'w env \<Rightarrow> 'w env \<times> sched_call list" where
  "env_cancel_ops data e =
     (case data of
        None \<Rightarrow> (e, [])
      | Some x \<Rightarrow> (case cancel_ops (env_state e x) of (d, calls) \<Rightarrow> (set_env_state x d (env_world e) e, calls)))"

definition env_deregister :: "'w reactor_os \<Rightarrow> int \<Rightarrow> bool \<Rightarrow> ptr \<Rightarrow> 'w env \<Rightarrow> 'w env \<times> ptr \<times> sched_call list" where
  "env_deregister os desc closing data e =
     (case data of
        None \<Rightarrow> (e, None, [])
      | Some x \<Rightarrow>
          (case deregister_descriptor os desc closing (env_state e x) (env_world e) of
             (d, calls, w, keep) \<Rightarrow> (set_env_state x d w e, if keep then data else None, calls)))"

definition env_cleanup :: "ptr \<Rightarrow> 'w env \<Rightarrow> 'w env \<times> ptr" where
  "env_cleanup data e =
     (case cleanup_descriptor_data data (env_reactor e) of (r, data1) \<Rightarrow> (e\<lparr>env_reactor := r\<rparr>, data1))"

definition env_register :: "'w reactor_os \<Rightarrow> int \<Rightarrow> 'w env \<Rightarrow> 'w env \<times> ptr \<times> int" where
  "env_register os desc e =
     (case register_descriptor os desc (env_reactor e) (env_world e) of
        (r, x, errno, w) \<Rightarrow> (\<lparr>env_reactor = r, env_world = w\<rparr>, Some x, errno))"

section \<open>Sockets\<close>

text \<open>\<open>base_implementation_type\<close>.\<close>

record socket_impl =
  impl_socket :: int
  impl_state :: state_type
  impl_data :: ptr

text \<open>\<open>construct\<close> leaves the pointer, which the caller has cleaned up or not yet set.\<close>

definition sock_construct :: "socket_impl \<Rightarrow> socket_impl" where
  "sock_construct i = i\<lparr>impl_socket := - 1, impl_state := 0\<rparr>"

definition sock_is_open :: "socket_impl \<Rightarrow> bool" where
  "sock_is_open i \<longleftrightarrow> impl_socket i \<noteq> - 1"

definition base_move_construct :: "socket_impl \<Rightarrow> socket_impl \<Rightarrow> socket_impl \<times> socket_impl" where
  "base_move_construct i other =
     (case move_descriptor (impl_data i) (impl_data other) of (data, other_data) \<Rightarrow>
        (\<lparr>impl_socket = impl_socket other, impl_state = impl_state other, impl_data = data\<rparr>,
         \<lparr>impl_socket = - 1, impl_state = 0, impl_data = other_data\<rparr>))"

text \<open>Closing: deregister, close, and give the descriptor's object back.\<close>

definition sock_shut :: "'w system \<Rightarrow> 'w reactor_os \<Rightarrow> bool \<Rightarrow> socket_impl \<Rightarrow> error_code \<Rightarrow> 'w env \<Rightarrow>
    socket_impl \<times> sched_call list \<times> error_code \<times> 'w env" where
  "sock_shut sys os destruction i ec e =
     (case env_deregister os (impl_socket i) (\<not> has (impl_state i) sock_possible_dup) (impl_data i) e of
        (e1, data1, calls) \<Rightarrow>
          case sock_close sys (impl_socket i) (impl_state i) destruction ec (env_world e1) of
            (result, state1, ec1, w1) \<Rightarrow>
              case env_cleanup data1 (e1\<lparr>env_world := w1\<rparr>) of
                (e2, data2) \<Rightarrow> (i\<lparr>impl_state := state1, impl_data := data2\<rparr>, calls, ec1, e2))"

definition sock_destroy :: "'w system \<Rightarrow> 'w reactor_os \<Rightarrow> socket_impl \<Rightarrow> 'w env \<Rightarrow>
    socket_impl \<times> sched_call list \<times> 'w env" where
  "sock_destroy sys os i e =
     (if impl_socket i \<noteq> - 1
      then (case sock_shut sys os True i no_error e of (i1, calls, ignored_ec, e1) \<Rightarrow> (i1, calls, e1))
      else (i, [], e))"

definition base_move_assign :: "'w system \<Rightarrow> 'w reactor_os \<Rightarrow> socket_impl \<Rightarrow> socket_impl \<Rightarrow> 'w env \<Rightarrow>
    (socket_impl \<times> socket_impl) \<times> sched_call list \<times> 'w env" where
  "base_move_assign sys os i other e =
     (case sock_destroy sys os i e of (i1, calls, e1) \<Rightarrow> (base_move_construct i1 other, calls, e1))"

definition service_close :: "'w system \<Rightarrow> 'w reactor_os \<Rightarrow> socket_impl \<Rightarrow> error_code \<Rightarrow> 'w env \<Rightarrow>
    socket_impl \<times> sched_call list \<times> error_code \<times> 'w env" where
  "service_close sys os i ec e =
     (case (if sock_is_open i then sock_shut sys os False i ec e else (i, [], no_error, e)) of
        (i1, calls, ec1, e1) \<Rightarrow> (sock_construct i1, calls, ec1, e1))"

definition service_release :: "'w reactor_os \<Rightarrow> socket_impl \<Rightarrow> error_code \<Rightarrow> 'w env \<Rightarrow>
    int \<times> socket_impl \<times> sched_call list \<times> error_code \<times> 'w env" where
  "service_release os i ec e =
     (if \<not> sock_is_open i then (- 1, i, [], bad_descriptor, e)
      else (case env_deregister os (impl_socket i) False (impl_data i) e of
              (e1, data1, calls) \<Rightarrow>
                case env_cleanup data1 e1 of
                  (e2, data2) \<Rightarrow> (impl_socket i, sock_construct (i\<lparr>impl_data := data2\<rparr>), calls, no_error, e2)))"

definition service_cancel :: "socket_impl \<Rightarrow> error_code \<Rightarrow> 'w env \<Rightarrow> sched_call list \<times> error_code \<times> 'w env" where
  "service_cancel i ec e =
     (if \<not> sock_is_open i then ([], bad_descriptor, e)
      else (case env_cancel_ops (impl_data i) e of (e1, calls) \<Rightarrow> (calls, no_error, e1)))"

text \<open>\<open>SOCK_STREAM\<close> is 1, \<open>SOCK_DGRAM\<close> 2.\<close>

definition state_of_type :: "int \<Rightarrow> state_type" where
  "state_of_type type = (if type = 1 then stream_oriented else if type = 2 then datagram_oriented else 0)"

text \<open>\<open>do_open\<close>: a socket that is not registered is closed by its holder; the pointer is set in either case.\<close>

definition service_do_open :: "'w system \<Rightarrow> 'w reactor_os \<Rightarrow> socket_impl \<Rightarrow> int \<Rightarrow> int \<Rightarrow> int \<Rightarrow> error_code \<Rightarrow> 'w env \<Rightarrow>
    socket_impl \<times> error_code \<times> 'w env" where
  "service_do_open sys os i af type protocol ec e =
     (if sock_is_open i then (i, already_open, e)
      else (case sock_socket sys af type protocol ec (env_world e) of
        (s, ec1, w1) \<Rightarrow>
          if s = - 1 then (i, ec1, e\<lparr>env_world := w1\<rparr>)
          else (case env_register os s (e\<lparr>env_world := w1\<rparr>) of
            (e2, data, err) \<Rightarrow>
              if err \<noteq> 0
              then (i\<lparr>impl_data := data\<rparr>, system_error err, e2\<lparr>env_world := holder_destroy sys s (env_world e2)\<rparr>)
              else (\<lparr>impl_socket = s, impl_state = state_of_type type, impl_data = data\<rparr>, no_error, e2))))"

definition service_do_assign :: "'w reactor_os \<Rightarrow> socket_impl \<Rightarrow> int \<Rightarrow> int \<Rightarrow> error_code \<Rightarrow> 'w env \<Rightarrow>
    socket_impl \<times> error_code \<times> 'w env" where
  "service_do_assign os i type native_socket ec e =
     (if sock_is_open i then (i, already_open, e)
      else (case env_register os native_socket e of
        (e1, data, err) \<Rightarrow>
          if err \<noteq> 0 then (i\<lparr>impl_data := data\<rparr>, system_error err, e1)
          else (\<lparr>impl_socket = native_socket, impl_state = state_of_type type OR sock_possible_dup, impl_data = data\<rparr>,
                no_error, e1)))"

section \<open>Starting operations\<close>

definition service_start_op :: "'w system \<Rightarrow> 'w reactor_os \<Rightarrow> socket_impl \<Rightarrow> nat \<Rightarrow> reactor_op \<Rightarrow> bool \<Rightarrow> bool \<Rightarrow> bool \<Rightarrow>
    'w env \<Rightarrow> socket_impl \<times> sched_call list \<times> 'w env" where
  "service_start_op sys os i op_type op is_continuation is_non_blocking noop e =
     (if noop then (i, [Post_Immediate op is_continuation], e)
      else (case (if has (impl_state i) non_blocking then (True, impl_state i, op_ec op, env_world e)
                  else set_internal_non_blocking sys (impl_socket i) (impl_state i) True (op_ec op) (env_world e)) of
        (ok, state1, ec1, w1) \<Rightarrow>
          (let i1 = i\<lparr>impl_state := state1\<rparr>; op1 = op\<lparr>op_ec := ec1\<rparr>; e1 = e\<lparr>env_world := w1\<rparr>
           in if ok
              then (case env_start_op os op_type (impl_socket i) (impl_data i) op1 is_continuation is_non_blocking e1 of
                      (e2, calls) \<Rightarrow> (i1, calls, e2))
              else (i1, [Post_Immediate op1 is_continuation], e1))))"

definition start_accept_op :: "'w system \<Rightarrow> 'w reactor_os \<Rightarrow> socket_impl \<Rightarrow> reactor_op \<Rightarrow> bool \<Rightarrow> bool \<Rightarrow> 'w env \<Rightarrow>
    socket_impl \<times> sched_call list \<times> 'w env" where
  "start_accept_op sys os i op is_continuation peer_is_open e =
     (if \<not> peer_is_open then service_start_op sys os i read_op op is_continuation True False e
      else (i, [Post_Immediate (op\<lparr>op_ec := already_open\<rparr>) is_continuation], e))"

text \<open>The operation that waits for a connection is one of the writes.\<close>

definition start_connect_op :: "'w system \<Rightarrow> 'w reactor_os \<Rightarrow> socket_impl \<Rightarrow> reactor_op \<Rightarrow> bool \<Rightarrow> nat \<Rightarrow> size_t \<Rightarrow> 'w env \<Rightarrow>
    socket_impl \<times> sched_call list \<times> 'w env" where
  "start_connect_op sys os i op is_continuation addr addrlen e =
     (case (if has (impl_state i) non_blocking then (True, impl_state i, op_ec op, env_world e)
            else set_internal_non_blocking sys (impl_socket i) (impl_state i) True (op_ec op) (env_world e)) of
        (ok, state1, ec1, w1) \<Rightarrow>
          (let i1 = i\<lparr>impl_state := state1\<rparr>
           in if ok
              then (case sock_connect sys (impl_socket i) addr addrlen ec1 w1 of
                (result, ec2, w2) \<Rightarrow>
                  if result \<noteq> 0 \<and> (ec2 = in_progress \<or> ec2 = would_block)
                  then (case env_start_op os write_op (impl_socket i) (impl_data i) (op\<lparr>op_ec := no_error\<rparr>)
                               is_continuation False (e\<lparr>env_world := w2\<rparr>) of
                          (e3, calls) \<Rightarrow> (i1, calls, e3))
                  else (i1, [Post_Immediate (op\<lparr>op_ec := ec2\<rparr>) is_continuation], e\<lparr>env_world := w2\<rparr>))
              else (i1, [Post_Immediate (op\<lparr>op_ec := ec1\<rparr>) is_continuation], e\<lparr>env_world := w1\<rparr>)))"

definition new_op :: "nat \<Rightarrow> reactor_op" where
  "new_op n = \<lparr>op_id = n, op_ec = no_error, op_bytes = 0\<rparr>"

definition message_out_of_band :: int where "message_out_of_band = 1"

definition receive_type :: "int \<Rightarrow> nat" where
  "receive_type flags = (if flags AND message_out_of_band \<noteq> 0 then except_op else read_op)"

definition service_async_send :: "'w system \<Rightarrow> 'w reactor_os \<Rightarrow> socket_impl \<Rightarrow> sequence \<Rightarrow> nat \<Rightarrow> bool \<Rightarrow> 'w env \<Rightarrow>
    socket_impl \<times> sched_call list \<times> 'w env" where
  "service_async_send sys os i bs n is_continuation e =
     service_start_op sys os i write_op (new_op n) is_continuation True
       (has (impl_state i) stream_oriented \<and> sequence_all_empty bs) e"

definition service_async_receive :: "'w system \<Rightarrow> 'w reactor_os \<Rightarrow> socket_impl \<Rightarrow> sequence \<Rightarrow> int \<Rightarrow> nat \<Rightarrow> bool \<Rightarrow> 'w env \<Rightarrow>
    socket_impl \<times> sched_call list \<times> 'w env" where
  "service_async_receive sys os i bs flags n is_continuation e =
     service_start_op sys os i (receive_type flags) (new_op n) is_continuation (flags AND message_out_of_band = 0)
       (has (impl_state i) stream_oriented \<and> sequence_all_empty bs) e"

definition service_async_receive_with_flags :: "'w system \<Rightarrow> 'w reactor_os \<Rightarrow> socket_impl \<Rightarrow> int \<Rightarrow> nat \<Rightarrow> bool \<Rightarrow> 'w env \<Rightarrow>
    socket_impl \<times> sched_call list \<times> 'w env" where
  "service_async_receive_with_flags sys os i in_flags n is_continuation e =
     service_start_op sys os i (receive_type in_flags) (new_op n) is_continuation (in_flags AND message_out_of_band = 0)
       False e"

datatype wait_type = Wait_Read | Wait_Write | Wait_Error | Wait_Other

definition service_async_wait :: "'w system \<Rightarrow> 'w reactor_os \<Rightarrow> socket_impl \<Rightarrow> wait_type \<Rightarrow> nat \<Rightarrow> bool \<Rightarrow> 'w env \<Rightarrow>
    socket_impl \<times> sched_call list \<times> 'w env" where
  "service_async_wait sys os i wt n is_continuation e =
     (case wt of
        Wait_Read \<Rightarrow> service_start_op sys os i read_op (new_op n) is_continuation False False e
      | Wait_Write \<Rightarrow> service_start_op sys os i write_op (new_op n) is_continuation False False e
      | Wait_Error \<Rightarrow> service_start_op sys os i except_op (new_op n) is_continuation False False e
      | Wait_Other \<Rightarrow> (i, [Post_Immediate ((new_op n)\<lparr>op_ec := invalid_argument\<rparr>) is_continuation], e))"

section \<open>Blocking operations\<close>

definition service_wait :: "'w system \<Rightarrow> socket_impl \<Rightarrow> wait_type \<Rightarrow> error_code \<Rightarrow> 'w \<Rightarrow> error_code \<times> 'w" where
  "service_wait sys i wt ec w =
     (case wt of
        Wait_Read \<Rightarrow> snd (sock_poll_read sys (impl_socket i) (impl_state i) (- 1) ec w)
      | Wait_Write \<Rightarrow> snd (sock_poll_write sys (impl_socket i) (impl_state i) (- 1) ec w)
      | Wait_Error \<Rightarrow> snd (sock_poll_error sys (impl_socket i) (impl_state i) (- 1) ec w)
      | Wait_Other \<Rightarrow> (invalid_argument, w))"

definition service_send :: "'w system \<Rightarrow> socket_impl \<Rightarrow> sequence \<Rightarrow> int \<Rightarrow> error_code \<Rightarrow> 'w \<Rightarrow>
    (nat \<times> error_code \<times> 'w) option" where
  "service_send sys i bs flags ec w =
     (case bs of
        Single b \<Rightarrow> sock_sync_send1 sys (impl_socket i) (impl_state i) b flags ec w
      | Many l \<Rightarrow> sock_sync_send sys (impl_socket i) (impl_state i) (adapter_buffers bs) flags (adapter_all_empty bs) ec w)"

definition service_receive :: "'w system \<Rightarrow> socket_impl \<Rightarrow> sequence \<Rightarrow> int \<Rightarrow> error_code \<Rightarrow> 'w \<Rightarrow>
    (nat \<times> error_code \<times> 'w) option" where
  "service_receive sys i bs flags ec w =
     (case bs of
        Single b \<Rightarrow> sock_sync_recv1 sys (impl_socket i) (impl_state i) b flags ec w
      | Many l \<Rightarrow> sock_sync_recv sys (impl_socket i) (impl_state i) (adapter_buffers bs) flags (adapter_all_empty bs) ec w)"

definition service_receive_with_flags :: "'w system \<Rightarrow> socket_impl \<Rightarrow> sequence \<Rightarrow> int \<Rightarrow> int \<Rightarrow> error_code \<Rightarrow> 'w \<Rightarrow>
    (nat \<times> error_code \<times> int \<times> 'w) option" where
  "service_receive_with_flags sys i bs in_flags out_flags ec w =
     sock_sync_recvmsg sys (impl_socket i) (impl_state i) (adapter_buffers bs) in_flags out_flags ec w"

end
