(* ===== verification/Asio_Serial.thy ===== *)
theory Asio_Serial
  imports Prelude
begin

text \<open>
  The serial port options of the bundled asio (impl/serial\_port\_base.ipp and
  reactive\_serial\_port\_service.ipp), on a POSIX system: how the options the TTY client sets are
  checked, stored into a \<open>termios\<close> and loaded from it. The flag constants are those of Linux; a
  speed constant \<open>Bn\<close> of the headers is the number \<open>n\<close>, with the rates that Linux defines.
\<close>

section \<open>Errors and terminal attributes\<close>

datatype asio_error = Invalid_Argument | Operation_Not_Supported | Operation_Aborted
  | Bad_Descriptor | System_Error nat

type_synonym error_code = "asio_error option"   \<comment> \<open>\<open>None\<close> is success\<close>

record termios =
  c_iflag :: uint32
  c_cflag :: uint32
  c_speed :: nat

definition IXON :: uint32 where "IXON = 0x400"
definition IXOFF :: uint32 where "IXOFF = 0x1000"
definition IGNPAR :: uint32 where "IGNPAR = 0x4"
definition PARMRK :: uint32 where "PARMRK = 0x8"
definition INPCK :: uint32 where "INPCK = 0x10"
definition CRTSCTS :: uint32 where "CRTSCTS = 0x80000000"
definition PARENB :: uint32 where "PARENB = 0x100"
definition PARODD :: uint32 where "PARODD = 0x200"
definition CSTOPB :: uint32 where "CSTOPB = 0x40"
definition CSIZE :: uint32 where "CSIZE = 0x30"
definition CS5 :: uint32 where "CS5 = 0"
definition CS6 :: uint32 where "CS6 = 0x10"
definition CS7 :: uint32 where "CS7 = 0x20"
definition CS8 :: uint32 where "CS8 = 0x30"

section \<open>Options\<close>

definition baud_rates :: "nat list" where
  "baud_rates = [0, 50, 75, 110, 134, 150, 200, 300, 600, 1200, 1800, 2400, 4800, 9600, 19200, 38400,
     57600, 115200, 230400, 460800, 500000, 576000, 921600, 1000000, 1152000, 2000000,
     3000000, 3500000, 4000000]"

definition baud_rate_store :: "nat \<Rightarrow> termios \<Rightarrow> termios \<times> error_code" where
  "baud_rate_store v t =
     (if v \<in> set baud_rates then (t\<lparr>c_speed := v\<rparr>, None) else (t, Some Invalid_Argument))"

definition baud_rate_load :: "termios \<Rightarrow> nat \<times> error_code" where
  "baud_rate_load t =
     (if c_speed t \<in> set baud_rates then (c_speed t, None) else (0, Some Invalid_Argument))"

datatype flow_control = flow_none | flow_software | flow_hardware

definition flow_control_store :: "flow_control \<Rightarrow> termios \<Rightarrow> termios \<times> error_code" where
  "flow_control_store v t =
     (case v of
        flow_none \<Rightarrow>
          (t\<lparr>c_iflag := c_iflag t AND NOT (IXOFF OR IXON), c_cflag := c_cflag t AND NOT CRTSCTS\<rparr>, None)
      | flow_software \<Rightarrow>
          (t\<lparr>c_iflag := c_iflag t OR (IXOFF OR IXON), c_cflag := c_cflag t AND NOT CRTSCTS\<rparr>, None)
      | flow_hardware \<Rightarrow>
          (t\<lparr>c_iflag := c_iflag t AND NOT (IXOFF OR IXON), c_cflag := c_cflag t OR CRTSCTS\<rparr>, None))"

definition flow_control_load :: "termios \<Rightarrow> flow_control \<times> error_code" where
  "flow_control_load t =
     (if c_iflag t AND (IXOFF OR IXON) \<noteq> 0 then (flow_software, None)
      else if c_cflag t AND CRTSCTS \<noteq> 0 then (flow_hardware, None)
      else (flow_none, None))"

datatype parity = parity_none | parity_odd | parity_even

definition parity_store :: "parity \<Rightarrow> termios \<Rightarrow> termios \<times> error_code" where
  "parity_store v t =
     (case v of
        parity_none \<Rightarrow>
          (t\<lparr>c_iflag := c_iflag t OR IGNPAR, c_cflag := c_cflag t AND NOT (PARENB OR PARODD)\<rparr>, None)
      | parity_even \<Rightarrow>
          (t\<lparr>c_iflag := (c_iflag t AND NOT (IGNPAR OR PARMRK)) OR INPCK,
             c_cflag := (c_cflag t OR PARENB) AND NOT PARODD\<rparr>, None)
      | parity_odd \<Rightarrow>
          (t\<lparr>c_iflag := (c_iflag t AND NOT (IGNPAR OR PARMRK)) OR INPCK,
             c_cflag := c_cflag t OR (PARENB OR PARODD)\<rparr>, None))"

definition parity_load :: "termios \<Rightarrow> parity \<times> error_code" where
  "parity_load t =
     (if c_cflag t AND PARENB \<noteq> 0
      then (if c_cflag t AND PARODD \<noteq> 0 then (parity_odd, None) else (parity_even, None))
      else (parity_none, None))"

datatype stop_bits = stop_one | stop_onepointfive | stop_two

definition stop_bits_store :: "stop_bits \<Rightarrow> termios \<Rightarrow> termios \<times> error_code" where
  "stop_bits_store v t =
     (case v of
        stop_one \<Rightarrow> (t\<lparr>c_cflag := c_cflag t AND NOT CSTOPB\<rparr>, None)
      | stop_two \<Rightarrow> (t\<lparr>c_cflag := c_cflag t OR CSTOPB\<rparr>, None)
      | stop_onepointfive \<Rightarrow> (t, Some Operation_Not_Supported))"

definition stop_bits_load :: "termios \<Rightarrow> stop_bits \<times> error_code" where
  "stop_bits_load t = (if c_cflag t AND CSTOPB \<noteq> 0 then (stop_two, None) else (stop_one, None))"

text \<open>The constructor of a character size checks its argument and throws.\<close>

definition character_size :: "nat \<Rightarrow> nat result" where
  "character_size t =
     (if t < 5 \<or> t > 8 then Inl (Exception ''std::out_of_range'' ''invalid character_size value'')
      else Inr t)"

definition character_size_store :: "nat \<Rightarrow> termios \<Rightarrow> termios \<times> error_code" where
  "character_size_store v t =
     (let cleared = c_cflag t AND NOT CSIZE
      in (t\<lparr>c_cflag :=
            (if v = 5 then cleared OR CS5 else if v = 6 then cleared OR CS6
             else if v = 7 then cleared OR CS7 else if v = 8 then cleared OR CS8 else cleared)\<rparr>, None))"

definition character_size_load :: "termios \<Rightarrow> nat \<times> error_code" where
  "character_size_load t =
     (if c_cflag t AND CSIZE = CS5 then (5, None)
      else if c_cflag t AND CSIZE = CS6 then (6, None)
      else if c_cflag t AND CSIZE = CS7 then (7, None)
      else (8, None))"

text \<open>
  \<open>do_set_option\<close> and \<open>do_get_option\<close> on an open port: the attributes are read, and an option
  that cannot be stored leaves them as they were.
\<close>

definition do_set_option :: "(termios \<Rightarrow> termios \<times> error_code) \<Rightarrow> termios \<Rightarrow> termios \<times> error_code" where
  "do_set_option store port =
     (case store port of
        (ios, Some e) \<Rightarrow> (port, Some e)
      | (ios, None) \<Rightarrow> (ios, None))"

definition do_get_option :: "(termios \<Rightarrow> 'a \<times> error_code) \<Rightarrow> termios \<Rightarrow> 'a \<times> error_code" where
  "do_get_option load port = load port"

section \<open>Options come back as they were set\<close>

lemmas flag_defs = IXON_def IXOFF_def IGNPAR_def PARMRK_def INPCK_def CRTSCTS_def PARENB_def
  PARODD_def CSTOPB_def CSIZE_def CS5_def CS6_def CS7_def CS8_def

text \<open>Reading a field of flags after setting or clearing flags inside or outside of it.\<close>

lemma or_mask: "(x OR a) AND m = (x AND m) OR (a AND m)" for x a m :: "'w::len word"
  by (rule bit_word_eqI) (auto simp: bit_simps)

lemmas masks = and.assoc or_mask

lemmas load_defs = baud_rate_load_def flow_control_load_def parity_load_def stop_bits_load_def
  character_size_load_def

lemma stores_load:
  "baud \<in> set baud_rates \<Longrightarrow> baud_rate_load (fst (baud_rate_store baud t)) = (baud, None)"
  "flow_control_load (fst (flow_control_store fc t)) = (fc, None)"
  "parity_load (fst (parity_store par t)) = (par, None)"
  "sb \<noteq> stop_onepointfive \<Longrightarrow> stop_bits_load (fst (stop_bits_store sb t)) = (sb, None)"
  "cs \<in> {5, 6, 7, 8} \<Longrightarrow> character_size_load (fst (character_size_store cs t)) = (cs, None)"
  subgoal by (simp add: baud_rate_store_def baud_rate_load_def)
  subgoal by (cases fc; simp add: flow_control_store_def flow_control_load_def flag_defs masks)
  subgoal by (cases par; simp add: parity_store_def parity_load_def flag_defs masks)
  subgoal by (cases sb; simp add: stop_bits_store_def stop_bits_load_def flag_defs masks)
  subgoal by (elim insertE; simp add: character_size_store_def character_size_load_def flag_defs masks)
  done

lemma baud_keeps:
  "flow_control_load (fst (baud_rate_store v t)) = flow_control_load t"
  "parity_load (fst (baud_rate_store v t)) = parity_load t"
  "stop_bits_load (fst (baud_rate_store v t)) = stop_bits_load t"
  "character_size_load (fst (baud_rate_store v t)) = character_size_load t"
  by (cases "v \<in> set baud_rates"; simp add: baud_rate_store_def load_defs)+

lemma flow_keeps:
  "baud_rate_load (fst (flow_control_store v t)) = baud_rate_load t"
  "parity_load (fst (flow_control_store v t)) = parity_load t"
  "stop_bits_load (fst (flow_control_store v t)) = stop_bits_load t"
  "character_size_load (fst (flow_control_store v t)) = character_size_load t"
  by (cases v; simp add: flow_control_store_def load_defs flag_defs masks)+

lemma parity_keeps:
  "baud_rate_load (fst (parity_store v t)) = baud_rate_load t"
  "flow_control_load (fst (parity_store v t)) = flow_control_load t"
  "stop_bits_load (fst (parity_store v t)) = stop_bits_load t"
  "character_size_load (fst (parity_store v t)) = character_size_load t"
  by (cases v; simp add: parity_store_def load_defs flag_defs masks)+

lemma stop_keeps:
  "baud_rate_load (fst (stop_bits_store v t)) = baud_rate_load t"
  "flow_control_load (fst (stop_bits_store v t)) = flow_control_load t"
  "parity_load (fst (stop_bits_store v t)) = parity_load t"
  "character_size_load (fst (stop_bits_store v t)) = character_size_load t"
  by (cases v; simp add: stop_bits_store_def load_defs flag_defs masks)+

lemma size_keeps:
  "baud_rate_load (fst (character_size_store v t)) = baud_rate_load t"
  "flow_control_load (fst (character_size_store v t)) = flow_control_load t"
  "parity_load (fst (character_size_store v t)) = parity_load t"
  "stop_bits_load (fst (character_size_store v t)) = stop_bits_load t"
  by (simp add: character_size_store_def load_defs Let_def flag_defs masks)+

lemmas option_keeps = baud_keeps flow_keeps parity_keeps stop_keeps size_keeps

text \<open>A store that does not fail is what \<open>do_set_option\<close> does.\<close>

lemma set_option_ok: "snd (store t) = None \<Longrightarrow> fst (do_set_option store t) = fst (store t)"
  by (auto simp: do_set_option_def split: prod.split)

lemma stores_ok:
  "v \<in> set baud_rates \<Longrightarrow> snd (baud_rate_store v t) = None"
  "snd (flow_control_store fc t) = None" "snd (parity_store par t) = None"
  "sb \<noteq> stop_onepointfive \<Longrightarrow> snd (stop_bits_store sb t) = None"
  "snd (character_size_store cs t) = None"
  by (auto simp: baud_rate_store_def flow_control_store_def parity_store_def stop_bits_store_def
      character_size_store_def Let_def split: flow_control.split parity.split stop_bits.split)

text \<open>The order in which the TTY client sets its options.\<close>

definition set_all :: "nat \<Rightarrow> flow_control \<Rightarrow> parity \<Rightarrow> stop_bits \<Rightarrow> nat \<Rightarrow> termios \<Rightarrow> termios" where
  "set_all baud fc par sb cs t =
     fst (do_set_option (character_size_store cs) (fst (do_set_option (stop_bits_store sb)
       (fst (do_set_option (parity_store par) (fst (do_set_option (flow_control_store fc)
         (fst (do_set_option (baud_rate_store baud) t)))))))))"

text \<open>The serial options of asio come back as they were set: after the TTY client's sequence
  of \<open>set_option\<close> calls with valid values, from any terminal attributes, each option loads
  without an error as the value that was stored; and none disturbs another.\<close>

lemma serial_options_roundtrip:
  assumes "baud \<in> set baud_rates" "sb \<noteq> stop_onepointfive" "character_size cs = Inr n"
    and "t' = set_all baud fc par sb cs t"
  shows "do_get_option baud_rate_load t' = (baud, None) \<and>
     do_get_option flow_control_load t' = (fc, None) \<and> do_get_option parity_load t' = (par, None) \<and>
     do_get_option stop_bits_load t' = (sb, None) \<and> do_get_option character_size_load t' = (cs, None)"
proof -
  have "cs \<in> {5, 6, 7, 8}" using assms(3) by (auto simp: character_size_def split: if_splits)
  then show ?thesis
    using assms(1,2) unfolding assms(4) set_all_def do_get_option_def
    by (simp only: set_option_ok stores_ok option_keeps stores_load simp_thms)
qed

lemma serial_options_roundtrip_witness:
  "do_get_option baud_rate_load (set_all 9600 flow_none parity_none stop_one 8
     \<lparr>c_iflag = 0x502, c_cflag = 0xCBF, c_speed = 38400\<rparr>) = (9600, None)"
  using serial_options_roundtrip [of 9600 stop_one 8 8 _ flow_none parity_none
      "\<lparr>c_iflag = 0x502, c_cflag = 0xCBF, c_speed = 38400\<rparr>"]
  by (simp add: baud_rates_def character_size_def)

end
