(* ===== verification/Asio_Descriptor_Service.thy ===== *)
theory Asio_Descriptor_Service
  imports Asio_Socket_Service Asio_Serial
begin

text \<open>
  The services behind asio's POSIX descriptors (detail/reactive\_descriptor\_service.hpp and
  detail/impl/reactive\_descriptor\_service.ipp) and serial ports (detail/impl/reactive\_serial\_port\_service.ipp).
  A descriptor's implementation has the fields of a socket's, with state bits of its own.
\<close>

section \<open>Descriptors\<close>

text \<open>Closing: deregister, close, and give the descriptor's object back.\<close>

definition desc_shut :: "'w system \<Rightarrow> 'w reactor_os \<Rightarrow> socket_impl \<Rightarrow> Asio_Error.error_code \<Rightarrow> 'w env \<Rightarrow>
    socket_impl \<times> sched_call list \<times> Asio_Error.error_code \<times> 'w env" where
  "desc_shut sys os i ec e =
     (case env_deregister os (impl_socket i) (\<not> has (impl_state i) desc_possible_dup) (impl_data i) e of
        (e1, data1, calls) \<Rightarrow>
          case desc_close sys (impl_socket i) (impl_state i) ec (env_world e1) of
            (result, state1, ec1, w1) \<Rightarrow>
              case env_cleanup data1 (e1\<lparr>env_world := w1\<rparr>) of
                (e2, data2) \<Rightarrow> (i\<lparr>impl_state := state1, impl_data := data2\<rparr>, calls, ec1, e2))"

definition desc_destroy :: "'w system \<Rightarrow> 'w reactor_os \<Rightarrow> socket_impl \<Rightarrow> 'w env \<Rightarrow>
    socket_impl \<times> sched_call list \<times> 'w env" where
  "desc_destroy sys os i e =
     (if sock_is_open i
      then (case desc_shut sys os i no_error e of (i1, calls, ignored_ec, e1) \<Rightarrow> (i1, calls, e1))
      else (i, [], e))"

definition desc_move_assign :: "'w system \<Rightarrow> 'w reactor_os \<Rightarrow> socket_impl \<Rightarrow> socket_impl \<Rightarrow> 'w env \<Rightarrow>
    (socket_impl \<times> socket_impl) \<times> sched_call list \<times> 'w env" where
  "desc_move_assign sys os i other e =
     (case desc_destroy sys os i e of (i1, calls, e1) \<Rightarrow> (base_move_construct i1 other, calls, e1))"

definition desc_assign :: "'w reactor_os \<Rightarrow> socket_impl \<Rightarrow> int \<Rightarrow> Asio_Error.error_code \<Rightarrow> 'w env \<Rightarrow>
    socket_impl \<times> Asio_Error.error_code \<times> 'w env" where
  "desc_assign os i native_descriptor ec e =
     (if sock_is_open i then (i, already_open, e)
      else (case env_register os native_descriptor e of
        (e1, data, err) \<Rightarrow>
          if err \<noteq> 0 then (i\<lparr>impl_data := data\<rparr>, system_error err, e1)
          else (\<lparr>impl_socket = native_descriptor, impl_state = desc_possible_dup, impl_data = data\<rparr>, no_error, e1)))"

definition desc_service_close :: "'w system \<Rightarrow> 'w reactor_os \<Rightarrow> socket_impl \<Rightarrow> Asio_Error.error_code \<Rightarrow> 'w env \<Rightarrow>
    socket_impl \<times> sched_call list \<times> Asio_Error.error_code \<times> 'w env" where
  "desc_service_close sys os i ec e =
     (case (if sock_is_open i then desc_shut sys os i ec e else (i, [], no_error, e)) of
        (i1, calls, ec1, e1) \<Rightarrow> (sock_construct i1, calls, ec1, e1))"

definition desc_release :: "'w reactor_os \<Rightarrow> socket_impl \<Rightarrow> 'w env \<Rightarrow> int \<times> socket_impl \<times> sched_call list \<times> 'w env" where
  "desc_release os i e =
     (if sock_is_open i
      then (case env_deregister os (impl_socket i) False (impl_data i) e of
              (e1, data1, calls) \<Rightarrow>
                case env_cleanup data1 e1 of
                  (e2, data2) \<Rightarrow> (impl_socket i, sock_construct (i\<lparr>impl_data := data2\<rparr>), calls, e2))
      else (impl_socket i, i, [], e))"

definition desc_cancel :: "socket_impl \<Rightarrow> Asio_Error.error_code \<Rightarrow> 'w env \<Rightarrow> sched_call list \<times> Asio_Error.error_code \<times> 'w env" where
  "desc_cancel = service_cancel"

definition desc_start_op :: "'w system \<Rightarrow> 'w reactor_os \<Rightarrow> socket_impl \<Rightarrow> nat \<Rightarrow> reactor_op \<Rightarrow> bool \<Rightarrow> bool \<Rightarrow> bool \<Rightarrow>
    'w env \<Rightarrow> socket_impl \<times> sched_call list \<times> 'w env" where
  "desc_start_op sys os i op_type op is_continuation is_non_blocking noop e =
     (if noop then (i, [Post_Immediate op is_continuation], e)
      else (case (if has (impl_state i) non_blocking then (True, impl_state i, op_ec op, env_world e)
                  else set_internal_non_blocking sys (impl_socket i) (impl_state i) True (op_ec op) (env_world e)) of
        (ok, state1, ec1, w1) \<Rightarrow>
          (let i1 = i\<lparr>impl_state := state1\<rparr>; op1 = op\<lparr>op_ec := ec1\<rparr>; e1 = e\<lparr>env_world := w1\<rparr>
           in if ok
              then (case env_start_op os op_type (impl_socket i) (impl_data i) op1 is_continuation is_non_blocking e1 of
                      (e2, calls) \<Rightarrow> (i1, calls, e2))
              else (i1, [Post_Immediate op1 is_continuation], e1))))"

definition desc_async_write_some :: "'w system \<Rightarrow> 'w reactor_os \<Rightarrow> socket_impl \<Rightarrow> sequence \<Rightarrow> nat \<Rightarrow> bool \<Rightarrow> 'w env \<Rightarrow>
    socket_impl \<times> sched_call list \<times> 'w env" where
  "desc_async_write_some sys os i bs n is_continuation e =
     desc_start_op sys os i write_op (new_op n) is_continuation True (sequence_all_empty bs) e"

definition desc_async_read_some :: "'w system \<Rightarrow> 'w reactor_os \<Rightarrow> socket_impl \<Rightarrow> sequence \<Rightarrow> nat \<Rightarrow> bool \<Rightarrow> 'w env \<Rightarrow>
    socket_impl \<times> sched_call list \<times> 'w env" where
  "desc_async_read_some sys os i bs n is_continuation e =
     desc_start_op sys os i read_op (new_op n) is_continuation True (sequence_all_empty bs) e"

definition desc_async_wait :: "'w system \<Rightarrow> 'w reactor_os \<Rightarrow> socket_impl \<Rightarrow> wait_type \<Rightarrow> nat \<Rightarrow> bool \<Rightarrow> 'w env \<Rightarrow>
    socket_impl \<times> sched_call list \<times> 'w env" where
  "desc_async_wait sys os i wt n is_continuation e =
     (case wt of
        Wait_Read \<Rightarrow> desc_start_op sys os i read_op (new_op n) is_continuation False False e
      | Wait_Write \<Rightarrow> desc_start_op sys os i write_op (new_op n) is_continuation False False e
      | Wait_Error \<Rightarrow> desc_start_op sys os i except_op (new_op n) is_continuation False False e
      | Wait_Other \<Rightarrow> (i, [Post_Immediate ((new_op n)\<lparr>op_ec := Asio_Error.invalid_argument\<rparr>) is_continuation], e))"

definition desc_wait :: "'w system \<Rightarrow> socket_impl \<Rightarrow> wait_type \<Rightarrow> Asio_Error.error_code \<Rightarrow> 'w \<Rightarrow> Asio_Error.error_code \<times> 'w" where
  "desc_wait sys i wt ec w =
     (case wt of
        Wait_Read \<Rightarrow> snd (desc_poll_read sys (impl_socket i) (impl_state i) ec w)
      | Wait_Write \<Rightarrow> snd (desc_poll_write sys (impl_socket i) (impl_state i) ec w)
      | Wait_Error \<Rightarrow> snd (desc_poll_error sys (impl_socket i) (impl_state i) ec w)
      | Wait_Other \<Rightarrow> (Asio_Error.invalid_argument, w))"

definition desc_write_some :: "'w system \<Rightarrow> socket_impl \<Rightarrow> sequence \<Rightarrow> Asio_Error.error_code \<Rightarrow> 'w \<Rightarrow>
    (nat \<times> Asio_Error.error_code \<times> 'w) option" where
  "desc_write_some sys i bs ec w =
     (case bs of
        Single b \<Rightarrow> desc_sync_write1 sys (impl_socket i) (impl_state i) b ec w
      | Many l \<Rightarrow> desc_sync_write sys (impl_socket i) (impl_state i) (adapter_buffers bs) (adapter_all_empty bs) ec w)"

definition desc_read_some :: "'w system \<Rightarrow> socket_impl \<Rightarrow> sequence \<Rightarrow> Asio_Error.error_code \<Rightarrow> 'w \<Rightarrow>
    (nat \<times> Asio_Error.error_code \<times> 'w) option" where
  "desc_read_some sys i bs ec w =
     (case bs of
        Single b \<Rightarrow> desc_sync_read1 sys (impl_socket i) (impl_state i) b ec w
      | Many l \<Rightarrow> desc_sync_read sys (impl_socket i) (impl_state i) (adapter_buffers bs) (adapter_all_empty bs) ec w)"

section \<open>Serial ports\<close>

text \<open>A \<open>termios\<close> with all its flags; \<open>tcgetattr\<close>, \<open>tcsetattr\<close> and \<open>cfmakeraw\<close> are functions of the system.\<close>

record raw_termios = termios +
  c_oflag :: uint32
  c_lflag :: uint32

record 'w terminals =
  sys_tcgetattr :: "int \<Rightarrow> 'w \<Rightarrow> raw_termios \<times> 'w answer"
  sys_tcsetattr :: "int \<Rightarrow> raw_termios \<Rightarrow> 'w \<Rightarrow> 'w answer"
  sys_cfmakeraw :: "raw_termios \<Rightarrow> raw_termios"

definition O_RDWR :: int where "O_RDWR = 2"
definition O_NOCTTY :: int where "O_NOCTTY = 0x100"
definition O_NONBLOCK :: int where "O_NONBLOCK = 0x800"
definition F_GETFL :: int where "F_GETFL = 3"
definition F_SETFL :: int where "F_SETFL = 4"
definition CREAD :: uint32 where "CREAD = 0x80"
definition CLOCAL :: uint32 where "CLOCAL = 0x800"

definition serial_defaults :: "'w terminals \<Rightarrow> raw_termios \<Rightarrow> raw_termios" where
  "serial_defaults tt ios =
     (let raw = sys_cfmakeraw tt ios
      in raw\<lparr>c_iflag := c_iflag raw OR IGNPAR, c_cflag := c_cflag raw OR (CREAD OR CLOCAL)\<rparr>)"

text \<open>\<open>open\<close>: every failure behind the system's \<open>open\<close> closes the descriptor again.\<close>

definition close_ignored :: "'w system \<Rightarrow> int \<Rightarrow> 'w \<Rightarrow> 'w" where
  "close_ignored sys fd w = (case desc_close sys fd 0 no_error w of (result, state, ignored_ec, w1) \<Rightarrow> w1)"

definition serial_configure :: "'w system \<Rightarrow> 'w terminals \<Rightarrow> int \<Rightarrow> Asio_Error.error_code \<Rightarrow> 'w \<Rightarrow>
    int \<times> Asio_Error.error_code \<times> 'w" where
  "serial_configure sys tt fd ec w =
     (case sys_tcgetattr tt fd w of (ios, r) \<Rightarrow>
        case checked r ec of (s, ec1, w1) \<Rightarrow>
          if s \<ge> 0 then checked (sys_tcsetattr tt fd (serial_defaults tt ios) w1) ec1 else (s, ec1, w1))"

definition serial_set_flags :: "'w system \<Rightarrow> int \<Rightarrow> Asio_Error.error_code \<Rightarrow> 'w \<Rightarrow> int \<times> Asio_Error.error_code \<times> 'w" where
  "serial_set_flags sys fd ec w =
     (case desc_fcntl sys fd F_GETFL None ec w of (s, ec1, w1) \<Rightarrow>
        if s \<ge> 0 then desc_fcntl sys fd F_SETFL (Some (s OR O_NONBLOCK)) ec1 w1 else (s, ec1, w1))"

definition serial_open :: "'w system \<Rightarrow> 'w terminals \<Rightarrow> 'w reactor_os \<Rightarrow> socket_impl \<Rightarrow> string \<Rightarrow> Asio_Error.error_code \<Rightarrow> 'w env \<Rightarrow>
    socket_impl \<times> Asio_Error.error_code \<times> 'w env" where
  "serial_open sys tt os i device ec e =
     (if sock_is_open i then (i, already_open, e)
      else (case desc_open sys device (O_RDWR OR O_NONBLOCK OR O_NOCTTY) ec (env_world e) of
        (fd, ec1, w1) \<Rightarrow>
          if fd < 0 then (i, ec1, e\<lparr>env_world := w1\<rparr>)
          else (case serial_set_flags sys fd ec1 w1 of
            (s, ec2, w2) \<Rightarrow>
              if s < 0 then (i, ec2, e\<lparr>env_world := close_ignored sys fd w2\<rparr>)
              else (case serial_configure sys tt fd ec2 w2 of
                (s3, ec3, w3) \<Rightarrow>
                  if s3 < 0 then (i, ec3, e\<lparr>env_world := close_ignored sys fd w3\<rparr>)
                  else (case desc_assign os i fd ec3 (e\<lparr>env_world := w3\<rparr>) of
                    (i4, ec4, e4) \<Rightarrow>
                      (i4, ec4, if is_error ec4 then e4\<lparr>env_world := close_ignored sys fd (env_world e4)\<rparr> else e4))))))"

end
