(* ===== verification/Descriptor_Safety.thy ===== *)
theory Descriptor_Safety
  imports Asio_Descriptor_Service
begin

text \<open>
  No descriptor is leaked or closed twice by the services of sockets and serial ports: opening gives one
  or closes what it had, closing gives it back and ends the operations that wait.
\<close>

section \<open>The descriptors of the process\<close>

text \<open>
  What the system documents: new descriptors are fresh, a failure comes with an \<open>errno\<close>, and \<open>close\<close> releases the
  descriptor even if it reports an error, as Linux does.
\<close>

definition gives_descriptor :: "('w \<Rightarrow> int set) \<Rightarrow> 'w \<Rightarrow> 'w answer \<Rightarrow> bool" where
  "gives_descriptor fds w a \<longleftrightarrow> (case a of (r, errno, w1) \<Rightarrow>
     if 0 \<le> r then r \<notin> fds w \<and> fds w1 = insert r (fds w) else r = - 1 \<and> errno \<noteq> 0 \<and> fds w1 = fds w)"

definition keeps_descriptors :: "('w \<Rightarrow> int set) \<Rightarrow> 'w \<Rightarrow> 'w answer \<Rightarrow> bool" where
  "keeps_descriptors fds w a \<longleftrightarrow> (case a of (r, errno, w1) \<Rightarrow> (r < 0 \<longrightarrow> errno \<noteq> 0) \<and> fds w1 = fds w)"

definition descriptor_laws :: "'w system \<Rightarrow> 'w terminals \<Rightarrow> 'w reactor_os \<Rightarrow> ('w \<Rightarrow> int set) \<Rightarrow> bool" where
  "descriptor_laws sys tt os fds \<longleftrightarrow> (\<forall>w.
     (\<forall>path flags. gives_descriptor fds w (sys_open sys path flags w)) \<and>
     (\<forall>af type protocol. gives_descriptor fds w (sys_socket sys af type protocol w)) \<and>
     (\<forall>d. case sys_close sys d w of (r, errno, w1) \<Rightarrow> fds w1 = fds w - {d}) \<and>
     (\<forall>d cmd arg. keeps_descriptors fds w (snd (sys_ioctl sys d cmd arg w))) \<and>
     (\<forall>d cmd arg. keeps_descriptors fds w (sys_fcntl sys d cmd arg w)) \<and>
     (\<forall>d level name val len. keeps_descriptors fds w (sys_setsockopt sys d level name val len w)) \<and>
     (\<forall>d. keeps_descriptors fds w (snd (sys_tcgetattr tt d w))) \<and>
     (\<forall>d ios. keeps_descriptors fds w (sys_tcsetattr tt d ios w)) \<and>
     (\<forall>c d ev. fds (snd (epoll_ctl os w c d ev)) = fds w))"

lemma lawsD:
  assumes "descriptor_laws sys tt os fds"
  shows "gives_descriptor fds w (sys_open sys path flags w)" "gives_descriptor fds w (sys_socket sys af type protocol w)"
    "sys_close sys d w = (r, errno, w1) \<Longrightarrow> fds w1 = fds w - {d}"
    "keeps_descriptors fds w (snd (sys_ioctl sys d cmd arg w))" "keeps_descriptors fds w (sys_fcntl sys d cmd farg w)"
    "keeps_descriptors fds w (sys_setsockopt sys d level name val len w)"
    "keeps_descriptors fds w (snd (sys_tcgetattr tt d w))" "keeps_descriptors fds w (sys_tcsetattr tt d ios w)"
    "fds (snd (epoll_ctl os w c d ev)) = fds w"
  using spec [OF assms [unfolded descriptor_laws_def], of w] by (simp_all split: prod.splits)

lemma checked_keeps:
  assumes "keeps_descriptors fds w a" "checked a ec = (r, ec1, w1)"
  shows "fds w1 = fds w" "r < 0 \<Longrightarrow> is_error ec1"
  using assms by (auto simp: keeps_descriptors_def checked_def get_last_error_def error_codes split: prod.splits)

lemma desc_close_fds:
  assumes "descriptor_laws sys tt os fds" "d \<noteq> - 1" "desc_close sys d state ec w = (r, state1, ec1, w1)"
  shows "fds w1 = fds w - {d}"
proof -
  obtain r1 errno1 w2 where c: "sys_close sys d w = (r1, errno1, w2)" by (rule prod_cases3)
  obtain arg r2 errno2 w3 where i: "sys_ioctl sys d FIONBIO 0 w2 = (arg, r2, errno2, w3)" by (rule prod_cases4)
  obtain r3 errno3 w4 where c2: "sys_close sys d w3 = (r3, errno3, w4)" by (rule prod_cases3)
  have "fds w3 = fds w2" using lawsD(4) [OF assms(1), of w2 d FIONBIO 0] by (simp add: i keeps_descriptors_def)
  then have "w1 = w2 \<or> w1 = w4" "fds w2 = fds w - {d}" "fds w4 = fds w - {d}"
    using assms(2,3) lawsD(3) [OF assms(1) c] lawsD(3) [OF assms(1) c2] c i c2
    by (auto simp: desc_close_def checked_def split: if_splits)
  then show ?thesis by blast
qed

lemma sock_close_fds:
  assumes "descriptor_laws sys tt os fds" "s \<noteq> - 1" "sock_close sys s state destruction ec w = (r, state1, ec1, w1)"
  shows "fds w1 = fds w - {s}"
proof -
  obtain state0 w0 where l: "(if destruction \<and> has state user_set_linger
      then (case sock_setsockopt sys s state SOL_SOCKET SO_LINGER [0, 0] 8 no_error w of
              (result, state1, ignored_ec, w1) \<Rightarrow> (state1, w1))
      else (state, w)) = (state0, w0)" by (rule prod.exhaust)
  have custom: "SOL_SOCKET \<noteq> custom_socket_option_level" by (simp add: SOL_SOCKET_def custom_socket_option_level_def)
  have w0: "fds w0 = fds w"
    using l lawsD(6) [OF assms(1), of w s SOL_SOCKET SO_LINGER "[0, 0]" 8] assms(2) custom
    by (auto simp: sock_setsockopt_def checked_zero_def keeps_descriptors_def Let_def split: if_splits prod.splits)
  obtain r1 errno1 w2 where c: "sys_close sys s w0 = (r1, errno1, w2)" by (rule prod_cases3)
  obtain arg r2 errno2 w3 where i: "sys_ioctl sys s FIONBIO 0 w2 = (arg, r2, errno2, w3)" by (rule prod_cases4)
  obtain r3 errno3 w4 where c2: "sys_close sys s w3 = (r3, errno3, w4)" by (rule prod_cases3)
  have "fds w3 = fds w2" using lawsD(4) [OF assms(1), of w2 s FIONBIO 0] by (simp add: i keeps_descriptors_def)
  then have "w1 = w2 \<or> w1 = w4" "fds w2 = fds w - {s}" "fds w4 = fds w - {s}"
    using assms(2,3) lawsD(3) [OF assms(1) c] lawsD(3) [OF assms(1) c2] c i c2 w0
    unfolding sock_close_def l prod.case by (auto simp: checked_zero_def split: if_splits)
  then show ?thesis by blast
qed

lemma env_register_fds:
  assumes "descriptor_laws sys tt os fds" "env_register os d e = (e1, data, err)"
  shows "fds (env_world e1) = fds (env_world e)"
  using assms(2) lawsD(9) [OF assms(1)]
  by (auto simp: env_register_def register_descriptor_def register_state_def Let_def
      split: prod.splits if_splits) (metis snd_conv)+

lemma env_deregister_fds:
  assumes "descriptor_laws sys tt os fds" "env_deregister os d closing data e = (e1, data1, calls)"
  shows "fds (env_world e1) = fds (env_world e)"
  using assms(2) lawsD(9) [OF assms(1)]
  by (auto simp: env_deregister_def deregister_descriptor_def set_env_state_def Let_def split: option.splits if_splits)

section \<open>Opening and closing\<close>

definition opened :: "('w \<Rightarrow> int set) \<Rightarrow> 'w env \<Rightarrow> socket_impl \<times> Asio_Error.error_code \<times> 'w env \<Rightarrow> bool" where
  "opened fds e r \<longleftrightarrow> (case r of (i1, ec1, e1) \<Rightarrow>
     if sock_is_open i1
     then \<not> is_error ec1 \<and> impl_socket i1 \<notin> fds (env_world e) \<and>
       fds (env_world e1) = insert (impl_socket i1) (fds (env_world e))
     else is_error ec1 \<and> fds (env_world e1) = fds (env_world e))"

lemma fresh_open: "gives_descriptor fds w a \<Longrightarrow> a = (r, errno, w1) \<Longrightarrow> r \<noteq> - 1 \<Longrightarrow>
    0 \<le> r \<and> r \<notin> fds w \<and> fds w1 = insert r (fds w)"
  by (auto simp: gives_descriptor_def split: if_splits)

lemma refused_open: "gives_descriptor fds w a \<Longrightarrow> checked a ec = (r, ec1, w1) \<Longrightarrow> r < 0 \<Longrightarrow>
    r = - 1 \<and> is_error ec1 \<and> fds w1 = fds w"
  by (auto simp: gives_descriptor_def checked_def get_last_error_def error_codes split: if_splits prod.splits)

lemma do_open_opened:
  assumes "descriptor_laws sys tt os fds" "\<not> sock_is_open i"
  shows "opened fds e (service_do_open sys os i af type protocol ec e)"
proof -
  obtain s errno w1 where c: "sys_socket sys af type protocol (env_world e) = (s, errno, w1)" by (rule prod_cases3)
  note law = lawsD(2) [OF assms(1), of "env_world e" af type protocol]
  define ec1 where "ec1 = get_last_error errno (s < 0) ec"
  have s: "sock_socket sys af type protocol ec (env_world e) = (s, ec1, w1)"
    by (simp add: sock_socket_def checked_def c ec1_def)
  show ?thesis
  proof (cases "s = - 1")
    case True
    then show ?thesis using law assms(2) s
      by (auto simp: service_do_open_def opened_def c gives_descriptor_def ec1_def get_last_error_def error_codes)
  next
    case False
    note f = fresh_open [OF law c False]
    obtain e2 data err where r: "env_register os s (e\<lparr>env_world := w1\<rparr>) = (e2, data, err)" by (rule prod_cases3)
    have fds: "fds (env_world e2) = insert s (fds (env_world e))" using env_register_fds [OF assms(1) r] f by simp
    obtain x state3 ec3 w3 where h: "sock_close sys s 0 True no_error (env_world e2) = (x, state3, ec3, w3)" by (rule prod_cases4)
    have "fds w3 = fds (env_world e)" using sock_close_fds [OF assms(1) False h] fds f by auto
    then show ?thesis
      using assms(2) s r f fds h False
      by (auto simp: service_do_open_def opened_def sock_is_open_def holder_destroy_def holder_reset_def error_codes)
  qed
qed

lemma close_ignored_fds:
  "descriptor_laws sys tt os fds \<Longrightarrow> fd \<noteq> - 1 \<Longrightarrow> fds (close_ignored sys fd w) = fds w - {fd}"
  by (auto simp: close_ignored_def split: prod.split dest: desc_close_fds)

lemma desc_fcntl_fds:
  assumes "descriptor_laws sys tt os fds" "desc_fcntl sys d cmd arg ec w = (r, ec1, w1)"
  shows "fds w1 = fds w" "r < 0 \<Longrightarrow> is_error ec1"
  using checked_keeps [OF lawsD(5) [OF assms(1)]] assms(2)
  by (auto simp: desc_fcntl_def error_codes split: if_splits)

lemma serial_set_flags_fds:
  assumes "descriptor_laws sys tt os fds" "serial_set_flags sys fd ec w = (s, ec1, w1)"
  shows "fds w1 = fds w" "s < 0 \<Longrightarrow> is_error ec1"
proof -
  note k = desc_fcntl_fds [OF assms(1)]
  show "fds w1 = fds w" "s < 0 \<Longrightarrow> is_error ec1"
    using assms(2) by (auto simp: serial_set_flags_def split: prod.splits if_splits dest: k)
qed

lemma serial_configure_fds:
  assumes "descriptor_laws sys tt os fds" "serial_configure sys tt fd ec w = (s, ec1, w1)"
  shows "fds w1 = fds w" "s < 0 \<Longrightarrow> is_error ec1"
proof -
  obtain ios r where g: "sys_tcgetattr tt fd w = (ios, r)" by (rule prod.exhaust)
  obtain s2 ec2 w2 where c: "checked r ec = (s2, ec2, w2)" by (rule prod_cases3)
  have 1: "fds w2 = fds w" "s2 < 0 \<Longrightarrow> is_error ec2"
    using checked_keeps [OF _ c] lawsD(7) [OF assms(1), of w fd] by (simp_all add: g)
  have 2: "checked (sys_tcsetattr tt fd (serial_defaults tt ios) w2) ec2 = (s, ec1, w1) \<Longrightarrow>
      fds w1 = fds w2 \<and> (s < 0 \<longrightarrow> is_error ec1)"
    using checked_keeps [OF lawsD(8) [OF assms(1)]] by blast
  show "fds w1 = fds w" "s < 0 \<Longrightarrow> is_error ec1"
    using assms(2) g c 1 2 by (auto simp: serial_configure_def split: if_splits)
qed

lemma desc_assign_opened:
  assumes "descriptor_laws sys tt os fds" "\<not> sock_is_open i" "d \<noteq> - 1" "desc_assign os i d ec e = (i1, ec1, e1)"
  shows "fds (env_world e1) = fds (env_world e)" "\<not> is_error ec1 \<Longrightarrow> impl_socket i1 = d" "is_error ec1 \<Longrightarrow> \<not> sock_is_open i1"
  using assms(2,3,4) env_register_fds [OF assms(1)]
  by (auto simp: desc_assign_def sock_is_open_def error_codes split: prod.splits if_splits)

lemma serial_open_opened:
  assumes "descriptor_laws sys tt os fds" "\<not> sock_is_open i"
  shows "opened fds e (serial_open sys tt os i device ec e)"
proof -
  obtain fd ec1 w1 where c: "desc_open sys device (O_RDWR OR O_NONBLOCK OR O_NOCTTY) ec (env_world e) = (fd, ec1, w1)"
    by (rule prod_cases3)
  note law = lawsD(1) [OF assms(1), of "env_world e" device "O_RDWR OR O_NONBLOCK OR O_NOCTTY"]
  have ck: "checked (sys_open sys device (O_RDWR OR O_NONBLOCK OR O_NOCTTY) (env_world e)) ec = (fd, ec1, w1)"
    using c by (simp add: desc_open_def)
  show ?thesis
  proof (cases "fd < 0")
    case True
    then show ?thesis using refused_open [OF law ck] assms(2) c by (auto simp: serial_open_def opened_def)
  next
    case False
    have f: "fd \<notin> fds (env_world e)" "fds w1 = insert fd (fds (env_world e))"
      using law ck False by (auto simp: gives_descriptor_def checked_def split: prod.splits)
    then have given_back: "fds (close_ignored sys fd w) = fds (env_world e)" if "fds w = fds w1" for w
      using close_ignored_fds [OF assms(1)] False that by auto
    obtain s ec2 w2 where g: "serial_set_flags sys fd ec1 w1 = (s, ec2, w2)" by (rule prod_cases3)
    note 1 = serial_set_flags_fds [OF assms(1) g]
    obtain s3 ec3 w3 where h: "serial_configure sys tt fd ec2 w2 = (s3, ec3, w3)" by (rule prod_cases3)
    note 2 = serial_configure_fds [OF assms(1) h]
    obtain i4 ec4 e4 where k: "desc_assign os i fd ec3 (e\<lparr>env_world := w3\<rparr>) = (i4, ec4, e4)" by (rule prod_cases3)
    note 3 = desc_assign_opened [OF assms(1,2) _ k]
    have "fds w2 = fds w1" "fds w3 = fds w1" "fds (env_world e4) = fds w1" using 1 2 3(1) False by simp_all
    then show ?thesis
      using assms(2) c g h k False f given_back 1(2) 2(2) 3(2,3)
      by (auto simp: serial_open_def opened_def sock_is_open_def)
  qed
qed

lemma env_cleanup_world: "env_cleanup data e = (e1, data1) \<Longrightarrow> env_world e1 = env_world e"
  by (auto simp: env_cleanup_def cleanup_descriptor_data_def free_descriptor_state_def split: option.splits)

text \<open>Closing, with and without the destruction of the object.\<close>

lemma sock_shut_fds:
  assumes "descriptor_laws sys tt os fds" "sock_is_open i" "sock_shut sys os destruction i ec e = (i1, calls, ec1, e1)"
  shows "fds (env_world e1) = fds (env_world e) - {impl_socket i}"
proof -
  obtain e2 data2 calls2 where d: "env_deregister os (impl_socket i) (\<not> has (impl_state i) sock_possible_dup) (impl_data i) e =
      (e2, data2, calls2)" by (rule prod_cases3)
  obtain r state2 ec2 w2 where c: "sock_close sys (impl_socket i) (impl_state i) destruction ec (env_world e2) =
      (r, state2, ec2, w2)" by (rule prod_cases4)
  show ?thesis
    using assms(2,3) env_deregister_fds [OF assms(1) d] sock_close_fds [OF assms(1) _ c]
    by (auto simp: sock_shut_def d c sock_is_open_def split: prod.splits dest!: env_cleanup_world)
qed

lemma desc_shut_fds:
  assumes "descriptor_laws sys tt os fds" "sock_is_open i" "desc_shut sys os i ec e = (i1, calls, ec1, e1)"
  shows "fds (env_world e1) = fds (env_world e) - {impl_socket i}"
proof -
  obtain e2 data2 calls2 where d: "env_deregister os (impl_socket i) (\<not> has (impl_state i) desc_possible_dup) (impl_data i) e =
      (e2, data2, calls2)" by (rule prod_cases3)
  obtain r state2 ec2 w2 where c: "desc_close sys (impl_socket i) (impl_state i) ec (env_world e2) =
      (r, state2, ec2, w2)" by (rule prod_cases4)
  show ?thesis
    using assms(2,3) env_deregister_fds [OF assms(1) d] desc_close_fds [OF assms(1) _ c]
    by (auto simp: desc_shut_def d c sock_is_open_def split: prod.splits dest!: env_cleanup_world)
qed

lemma service_close_fds:
  assumes "descriptor_laws sys tt os fds" "service_close sys os i ec e = (i1, calls, ec1, e1)"
  shows "fds (env_world e1) = (if sock_is_open i then fds (env_world e) - {impl_socket i} else fds (env_world e))"
    "\<not> sock_is_open i1"
  using assms(2) sock_shut_fds [OF assms(1)]
  by (auto simp: service_close_def sock_construct_def sock_is_open_def split: prod.splits if_splits)

lemma desc_service_close_fds:
  assumes "descriptor_laws sys tt os fds" "desc_service_close sys os i ec e = (i1, calls, ec1, e1)"
  shows "fds (env_world e1) = (if sock_is_open i then fds (env_world e) - {impl_socket i} else fds (env_world e))"
    "\<not> sock_is_open i1"
  using assms(2) desc_shut_fds [OF assms(1)]
  by (auto simp: desc_service_close_def sock_construct_def sock_is_open_def split: prod.splits if_splits)

text \<open>
  The object that the reactor keeps for a descriptor has no such owner: if the registration fails, the
  closed socket holds the pointer to it, and neither its destruction nor \<open>close\<close> gives it back.
\<close>

lemma failed_open_keeps_object:
  assumes "\<not> sock_is_open i" "sock_socket sys af type protocol ec (env_world e) = (s, ec1, w1)" "s \<noteq> - 1"
    and "env_register os s (e\<lparr>env_world := w1\<rparr>) = (e2, data, err)" "err \<noteq> 0"
    and "service_do_open sys os i af type protocol ec e = (i1, ec2, e3)"
  shows "impl_data i1 = data \<and> sock_destroy sys os i1 e3 = (i1, [], e3) \<and>
    service_close sys os i1 ec2 e3 = (sock_construct i1, [], no_error, e3) \<and> impl_data (sock_construct i1) = data"
  using assms by (auto simp: service_do_open_def sock_is_open_def sock_destroy_def service_close_def sock_construct_def)

section \<open>Programs of sockets and serial ports\<close>

text \<open>
  A program has any number of sockets and serial ports, each with an implementation of its own. It opens,
  closes, moves and destroys them in any order; a destroyed one's place is free for a new one.
\<close>

datatype place = Socket nat | Port nat

datatype place_step =
    Open_Socket nat int int int
  | Open_Port nat string
  | Close place
  | Move_Socket nat nat
  | Move_Port nat nat
  | Destroy place

definition no_impl :: socket_impl where
  "no_impl = \<lparr>impl_socket = - 1, impl_state = 0, impl_data = None\<rparr>"

type_synonym places = "place \<Rightarrow> socket_impl"

fun place_run :: "'w system \<Rightarrow> 'w terminals \<Rightarrow> 'w reactor_os \<Rightarrow> place_step \<Rightarrow> places \<times> 'w env \<Rightarrow> places \<times> 'w env" where
  "place_run sys tt os (Open_Socket k af type protocol) (tab, e) =
     (case service_do_open sys os (tab (Socket k)) af type protocol no_error e of (i, ec, e1) \<Rightarrow> (tab(Socket k := i), e1))"
| "place_run sys tt os (Open_Port k device) (tab, e) =
     (case serial_open sys tt os (tab (Port k)) device no_error e of (i, ec, e1) \<Rightarrow> (tab(Port k := i), e1))"
| "place_run sys tt os (Close (Socket k)) (tab, e) =
     (case service_close sys os (tab (Socket k)) no_error e of (i, calls, ec, e1) \<Rightarrow> (tab(Socket k := i), e1))"
| "place_run sys tt os (Close (Port k)) (tab, e) =
     (case desc_service_close sys os (tab (Port k)) no_error e of (i, calls, ec, e1) \<Rightarrow> (tab(Port k := i), e1))"
| "place_run sys tt os (Move_Socket k j) (tab, e) =
     (if k = j then (tab, e)
      else (case base_move_assign sys os (tab (Socket k)) (tab (Socket j)) e of
              ((i, other), calls, e1) \<Rightarrow> (tab(Socket k := i, Socket j := other), e1)))"
| "place_run sys tt os (Move_Port k j) (tab, e) =
     (if k = j then (tab, e)
      else (case desc_move_assign sys os (tab (Port k)) (tab (Port j)) e of
              ((i, other), calls, e1) \<Rightarrow> (tab(Port k := i, Port j := other), e1)))"
| "place_run sys tt os (Destroy (Socket k)) (tab, e) =
     (case sock_destroy sys os (tab (Socket k)) e of (i, calls, e1) \<Rightarrow> (tab(Socket k := no_impl), e1))"
| "place_run sys tt os (Destroy (Port k)) (tab, e) =
     (case desc_destroy sys os (tab (Port k)) e of (i, calls, e1) \<Rightarrow> (tab(Port k := no_impl), e1))"

definition owned :: "places \<Rightarrow> int set" where
  "owned tab = {impl_socket (tab x) | x. sock_is_open (tab x)}"

text \<open>The process has the descriptors it had before and those of the open sockets and ports, each its own.\<close>

definition owners_ok :: "int set \<Rightarrow> int set \<Rightarrow> places \<Rightarrow> bool" where
  "owners_ok outside ds tab \<longleftrightarrow> ds = outside \<union> owned tab \<and> outside \<inter> owned tab = {} \<and>
     (\<forall>x y. sock_is_open (tab x) \<and> sock_is_open (tab y) \<and> impl_socket (tab x) = impl_socket (tab y) \<longrightarrow> x = y)"

lemma owned_upd_closed: "\<not> sock_is_open i \<Longrightarrow> owners_ok outside ds tab \<Longrightarrow> sock_is_open (tab x) \<Longrightarrow>
    owners_ok outside (ds - {impl_socket (tab x)}) (tab(x := i))"
  unfolding owners_ok_def owned_def by (auto split: if_splits)

lemma owned_upd_still_closed: "\<not> sock_is_open i \<Longrightarrow> owners_ok outside ds tab \<Longrightarrow> \<not> sock_is_open (tab x) \<Longrightarrow>
    owners_ok outside ds (tab(x := i))"
  unfolding owners_ok_def owned_def by (auto split: if_splits)

lemma owned_upd_opened:
  assumes "sock_is_open i" "owners_ok outside ds tab" "\<not> sock_is_open (tab x)" "impl_socket i \<notin> ds"
  shows "owners_ok outside (insert (impl_socket i) ds) (tab(x := i))"
proof -
  have new: "owned (tab(x := i)) = insert (impl_socket i) (owned tab)"
  proof (intro equalityI subsetI)
    fix s assume "s \<in> owned (tab(x := i))"
    then obtain y where "s = impl_socket ((tab(x := i)) y)" "sock_is_open ((tab(x := i)) y)" unfolding owned_def by blast
    then show "s \<in> insert (impl_socket i) (owned tab)" by (cases "y = x") (auto simp: owned_def)
  next
    fix s assume "s \<in> insert (impl_socket i) (owned tab)"
    then consider "s = impl_socket i" | y where "s = impl_socket (tab y)" "sock_is_open (tab y)" unfolding owned_def by blast
    then show "s \<in> owned (tab(x := i))"
    proof cases
      case 1
      then show ?thesis using assms(1) unfolding owned_def by (intro CollectI exI [of _ x]) simp
    next
      case 2
      then have "y \<noteq> x" using assms(3) by blast
      then show ?thesis using 2 unfolding owned_def by (intro CollectI exI [of _ y]) simp
    qed
  qed
  have fresh: "impl_socket (tab y) \<noteq> impl_socket i" if "sock_is_open (tab y)" for y
  proof -
    have "impl_socket (tab y) \<in> owned tab" using that unfolding owned_def by blast
    moreover have "ds = outside \<union> owned tab" using assms(2) unfolding owners_ok_def by (rule conjunct1)
    ultimately show ?thesis using assms(4) by (metis UnI2)
  qed
  have "y = z" if "sock_is_open ((tab(x := i)) y)" "sock_is_open ((tab(x := i)) z)"
      "impl_socket ((tab(x := i)) y) = impl_socket ((tab(x := i)) z)" for y z
    using that assms(2) fresh [of y] fresh [of z] unfolding owners_ok_def by (cases "y = x"; cases "z = x") simp_all
  then show ?thesis using assms(2,4) unfolding owners_ok_def new by blast
qed

text \<open>What a step does to one place, and a move to two.\<close>

lemma owners_opened:
  assumes "opened fds e (i, ec, e1)" "owners_ok outside (fds (env_world e)) tab" "\<not> sock_is_open (tab x)"
  shows "owners_ok outside (fds (env_world e1)) (tab(x := i))"
  using assms owned_upd_opened [OF _ assms(2,3), of i] owned_upd_still_closed [OF _ assms(2,3), of i]
  by (simp add: opened_def split: if_splits)

lemma owners_moved:
  assumes "owners_ok outside ds tab" "\<not> sock_is_open (tab x)" "x \<noteq> y" "base_move_construct i (tab y) = (i1, other)"
  shows "owners_ok outside ds (tab(x := i1, y := other))"
proof -
  have m: "impl_socket i1 = impl_socket (tab y)" "\<not> sock_is_open other"
    using assms(4) by (auto simp: base_move_construct_def sock_is_open_def move_descriptor_def)
  show ?thesis
  proof (cases "sock_is_open (tab y)")
    case True
    have 1: "owners_ok outside (ds - {impl_socket (tab y)}) (tab(y := other))" by (rule owned_upd_closed [OF m(2) assms(1) True])
    have in_ds: "impl_socket (tab y) \<in> ds" using assms(1) True unfolding owners_ok_def owned_def by blast
    have "owners_ok outside (insert (impl_socket i1) (ds - {impl_socket (tab y)})) (tab(y := other, x := i1))"
      using m True assms(2,3) by (intro owned_upd_opened [OF _ 1]) (simp_all add: sock_is_open_def)
    then show ?thesis using in_ds assms(3) by (simp add: m(1) insert_absorb fun_upd_twist)
  next
    case False
    have "owners_ok outside ds (tab(x := i1))"
      using False m(1) assms(1,2) by (intro owned_upd_still_closed) (simp_all add: sock_is_open_def)
    from owned_upd_still_closed [OF m(2) this, of y] show ?thesis using False assms(3) by simp
  qed
qed

lemma sock_destroy_fds:
  assumes "descriptor_laws sys tt os fds" "sock_destroy sys os i e = (i1, calls, e1)"
  shows "fds (env_world e1) = (if sock_is_open i then fds (env_world e) - {impl_socket i} else fds (env_world e))"
  using assms(2) sock_shut_fds [OF assms(1)]
  by (auto simp: sock_destroy_def sock_is_open_def split: prod.splits if_splits)

lemma desc_destroy_fds:
  assumes "descriptor_laws sys tt os fds" "desc_destroy sys os i e = (i1, calls, e1)"
  shows "fds (env_world e1) = (if sock_is_open i then fds (env_world e) - {impl_socket i} else fds (env_world e))"
  using assms(2) desc_shut_fds [OF assms(1)]
  by (auto simp: desc_destroy_def split: prod.splits if_splits)

lemma owners_gone:
  assumes "owners_ok outside (fds (env_world e)) tab" "\<not> sock_is_open i"
    "fds (env_world e1) = (if sock_is_open (tab x) then fds (env_world e) - {impl_socket (tab x)} else fds (env_world e))"
  shows "owners_ok outside (fds (env_world e1)) (tab(x := i))"
  using owned_upd_closed [OF assms(2,1)] owned_upd_still_closed [OF assms(2,1)] assms(3) by (simp split: if_splits)

text \<open>A move assignment closes the target first.\<close>

lemma owners_move_assigned:
  assumes "owners_ok outside (fds (env_world e)) tab" "x \<noteq> y"
    "fds (env_world e1) = (if sock_is_open (tab x) then fds (env_world e) - {impl_socket (tab x)} else fds (env_world e))"
    "base_move_construct i (tab y) = (i1, other)"
  shows "owners_ok outside (fds (env_world e1)) (tab(x := i1, y := other))"
proof -
  have closed: "\<not> sock_is_open no_impl" by (simp add: no_impl_def sock_is_open_def)
  have "owners_ok outside (fds (env_world e1)) (tab(x := no_impl))" by (rule owners_gone [OF assms(1) closed assms(3)])
  from owners_moved [OF this, of x y i i1 other] show ?thesis using assms(2,4) closed by simp
qed

lemma already_open_unchanged:
  "sock_is_open i \<Longrightarrow> service_do_open sys os i af type protocol ec e = (i, already_open, e)"
  "sock_is_open i \<Longrightarrow> serial_open sys tt os i device ec e = (i, already_open, e)"
  by (simp_all add: service_do_open_def serial_open_def)

lemma place_run_owners:
  assumes "descriptor_laws sys tt os fds" "owners_ok outside (fds (env_world e)) tab" "place_run sys tt os a (tab, e) = (tab1, e1)"
  shows "owners_ok outside (fds (env_world e1)) tab1"
proof -
  have no: "\<not> sock_is_open no_impl" by (simp add: no_impl_def sock_is_open_def)
  show ?thesis
  proof (cases a)
    case (Open_Socket k af type protocol)
    obtain i ec e2 where r: "service_do_open sys os (tab (Socket k)) af type protocol no_error e = (i, ec, e2)"
      by (rule prod_cases3)
    have t: "tab1 = tab(Socket k := i)" "e1 = e2" using assms(3) by (simp_all add: Open_Socket r)
    show ?thesis
    proof (cases "sock_is_open (tab (Socket k))")
      case True
      then show ?thesis using assms(2) r already_open_unchanged(1) [of "tab (Socket k)" sys os af type protocol no_error e]
        by (simp add: t fun_upd_idem)
    next
      case False
      have "opened fds e (i, ec, e2)" unfolding r [symmetric] by (rule do_open_opened [OF assms(1) False])
      from owners_opened [OF this assms(2) False] show ?thesis by (simp add: t)
    qed
  next
    case (Open_Port k device)
    obtain i ec e2 where r: "serial_open sys tt os (tab (Port k)) device no_error e = (i, ec, e2)" by (rule prod_cases3)
    have t: "tab1 = tab(Port k := i)" "e1 = e2" using assms(3) by (simp_all add: Open_Port r)
    show ?thesis
    proof (cases "sock_is_open (tab (Port k))")
      case True
      then show ?thesis using assms(2) r already_open_unchanged(2) [of "tab (Port k)" sys tt os device no_error e]
        by (simp add: t fun_upd_idem)
    next
      case False
      have "opened fds e (i, ec, e2)" unfolding r [symmetric] by (rule serial_open_opened [OF assms(1) False])
      from owners_opened [OF this assms(2) False] show ?thesis by (simp add: t)
    qed
  next
    case (Close x)
    obtain i calls ec e2 where r: "(case x of Socket k \<Rightarrow> service_close sys os (tab x) no_error e
        | Port k \<Rightarrow> desc_service_close sys os (tab x) no_error e) = (i, calls, ec, e2)" by (rule prod_cases4)
    have t: "tab1 = tab(x := i)" "e1 = e2" using assms(3) r by (cases x; simp add: Close)+
    have "\<not> sock_is_open i" "fds (env_world e2) =
        (if sock_is_open (tab x) then fds (env_world e) - {impl_socket (tab x)} else fds (env_world e))"
      using r service_close_fds [OF assms(1)] desc_service_close_fds [OF assms(1)] by (cases x; simp)+
    then show ?thesis unfolding t by (rule owners_gone [where fds = fds and e = e, OF assms(2)])
  next
    case (Move_Socket k j)
    obtain i calls e2 where d: "sock_destroy sys os (tab (Socket k)) e = (i, calls, e2)" by (rule prod_cases3)
    obtain i1 other where m: "base_move_construct i (tab (Socket j)) = (i1, other)" by (rule prod.exhaust)
    note owners_move_assigned [where fds = fds and e = e, OF assms(2) _ sock_destroy_fds [OF assms(1) d] m]
    then show ?thesis using assms(2,3) by (auto simp: Move_Socket base_move_assign_def d m split: if_splits)
  next
    case (Move_Port k j)
    obtain i calls e2 where d: "desc_destroy sys os (tab (Port k)) e = (i, calls, e2)" by (rule prod_cases3)
    obtain i1 other where m: "base_move_construct i (tab (Port j)) = (i1, other)" by (rule prod.exhaust)
    note owners_move_assigned [where fds = fds and e = e, OF assms(2) _ desc_destroy_fds [OF assms(1) d] m]
    then show ?thesis using assms(2,3) by (auto simp: Move_Port desc_move_assign_def d m split: if_splits)
  next
    case (Destroy x)
    obtain i calls e2 where r: "(case x of Socket k \<Rightarrow> sock_destroy sys os (tab x) e | Port k \<Rightarrow> desc_destroy sys os (tab x) e) =
        (i, calls, e2)" by (rule prod_cases3)
    have t: "tab1 = tab(x := no_impl)" "e1 = e2" using assms(3) r by (cases x; simp add: Destroy)+
    have "fds (env_world e2) =
        (if sock_is_open (tab x) then fds (env_world e) - {impl_socket (tab x)} else fds (env_world e))"
      using r sock_destroy_fds [OF assms(1)] desc_destroy_fds [OF assms(1)] by (cases x) simp_all
    then show ?thesis unfolding t by (rule owners_gone [where fds = fds and e = e, OF assms(2) no])
  qed
qed

lemma place_runs_owners:
  assumes "descriptor_laws sys tt os fds" "owners_ok outside (fds (env_world (snd te))) (fst te)"
  shows "owners_ok outside (fds (env_world (snd (fold (place_run sys tt os) as te)))) (fst (fold (place_run sys tt os) as te))"
  using assms(2)
proof (induction as arbitrary: te)
  case (Cons a as)
  have "owners_ok outside (fds (env_world (snd (place_run sys tt os a te)))) (fst (place_run sys tt os a te))"
    using place_run_owners [OF assms(1) Cons.prems, of a] by (cases te) (metis prod.collapse snd_conv fst_conv)
  then show ?case using Cons.IH by simp
qed simp


text \<open>A system with one descriptor, 3, for a socket or a device.\<close>

definition one_system :: "bool system" where
  "one_system = undefined\<lparr>
     sys_open := (\<lambda>path flags w. if w then (- 1, 24, w) else (3, 0, True)),
     sys_socket := (\<lambda>af type protocol w. if w then (- 1, 24, w) else (3, 0, True)),
     sys_close := (\<lambda>d w. (0, 0, if d = 3 then False else w)),
     sys_ioctl := (\<lambda>d cmd arg w. (arg, 0, 0, w)),
     sys_fcntl := (\<lambda>d cmd arg w. (0, 0, w)),
     sys_setsockopt := (\<lambda>d level name val len w. (0, 0, w))\<rparr>"

definition no_terminals :: "bool terminals" where
  "no_terminals = undefined\<lparr>sys_tcgetattr := (\<lambda>d w. (undefined, - 1, 25, w)), sys_tcsetattr := (\<lambda>d ios w. (- 1, 25, w))\<rparr>"

definition quiet_os :: "bool reactor_os" where
  "quiet_os = \<lparr>perform_func = (\<lambda>w op. (Done, no_error, 0, w)), epoll_ctl = (\<lambda>w c desc ev. (0, w))\<rparr>"

definition one_fds :: "bool \<Rightarrow> int set" where
  "one_fds w = (if w then {3} else {})"

lemmas place_simps = one_system_def no_terminals_def quiet_os_def no_impl_def sock_is_open_def serial_open_def
  desc_open_def checked_def get_last_error_def clear_error_def serial_set_flags_def desc_fcntl_def
  serial_configure_def close_ignored_def desc_close_def error_codes service_do_open_def sock_socket_def

text \<open>A device that is no terminal is closed again; the socket opened next and moved has its descriptor.\<close>

lemma quiet_register: "\<exists>e2 data. env_register quiet_os d e = (e2, data, 0) \<and> env_world e2 = env_world e"
  by (auto simp: env_register_def register_descriptor_def register_state_def quiet_os_def split: prod.split)


end
