(* ===== verification/Asio_Transfer.thy ===== *)
theory Asio_Transfer
  imports Asio_Buffer
begin

text \<open>
  The composed operations of the bundled asio that transfer a whole sequence of buffers by many
  transfers of a part, impl/write.hpp and impl/read.hpp: the loops of \<open>write\<close> and \<open>read\<close>, and the
  handlers \<open>write_op\<close> and \<open>read_op\<close>, which are called with the result of each transfer and start the
  next. The TCP client sends with \<open>async_write\<close>. A stream is what it may return; an error code is \<open>None\<close>
  if there is no error.
\<close>

section \<open>Operations\<close>

text \<open>The operations of a form of \<open>consuming_buffers\<close>.\<close>

record 'c part_ops =
  part_empty :: "'c \<Rightarrow> bool"
  part_prepare :: "'c \<Rightarrow> nat \<Rightarrow> buffer list"
  part_consume :: "'c \<Rightarrow> nat \<Rightarrow> 'c"
  part_total :: "'c \<Rightarrow> nat"

definition any_ops :: "nat \<Rightarrow> consuming_buffers part_ops" where
  "any_ops MaxBuffers = \<lparr>part_empty = consuming_empty, part_prepare = consuming_prepare MaxBuffers,
     part_consume = consuming_consume, part_total = total_consumed\<rparr>"

definition one_ops :: "consuming_single part_ops" where
  "one_ops = \<lparr>part_empty = single_empty, part_prepare = single_prepare, part_consume = single_consume,
     part_total = single_consumed\<rparr>"

definition two_ops :: "consuming_pair part_ops" where
  "two_ops = \<lparr>part_empty = pair_empty, part_prepare = pair_prepare, part_consume = pair_consume,
     part_total = pair_consumed\<rparr>"

definition null_ops :: "unit part_ops" where
  "null_ops = \<lparr>part_empty = null_empty, part_prepare = null_prepare, part_consume = null_consume,
     part_total = null_consumed\<rparr>"

text \<open>
  \<open>write_buffer_sequence\<close> and \<open>read_buffer_sequence\<close> are the same loop, for a stream with its state: the stream, the error
  and the number of bytes. A stream that keeps transferring nothing keeps them going.
\<close>

type_synonym ('s, 'e) stream = "'s \<Rightarrow> buffer list \<Rightarrow> 's \<times> 'e option \<times> nat"

partial_function (option) transfer_loop :: "'c part_ops \<Rightarrow> ('e option \<Rightarrow> nat \<Rightarrow> nat) \<Rightarrow> ('s, 'e) stream \<Rightarrow>
    's \<Rightarrow> 'c \<Rightarrow> 'e option \<Rightarrow> ('s \<times> 'e option \<times> nat) option" where
  "transfer_loop B completion_condition some_part s tmp ec =
     (if part_empty B tmp then Some (s, ec, part_total B tmp)
      else (let max_size = completion_condition ec (part_total B tmp)
            in if max_size = 0 then Some (s, ec, part_total B tmp)
               else (case some_part s (part_prepare B tmp max_size) of
                   (s', ec', n) \<Rightarrow> transfer_loop B completion_condition some_part s' (part_consume B tmp n) ec')))"

definition write_buffer_sequence :: "'c part_ops \<Rightarrow> ('e option \<Rightarrow> nat \<Rightarrow> nat) \<Rightarrow> ('s, 'e) stream \<Rightarrow>
    's \<Rightarrow> 'c \<Rightarrow> ('s \<times> 'e option \<times> nat) option" where
  "write_buffer_sequence B completion_condition write_some s tmp =
     transfer_loop B completion_condition write_some s tmp None"

definition read_buffer_sequence :: "'c part_ops \<Rightarrow> ('e option \<Rightarrow> nat \<Rightarrow> nat) \<Rightarrow> ('s, 'e) stream \<Rightarrow>
    's \<Rightarrow> 'c \<Rightarrow> ('s \<times> 'e option \<times> nat) option" where
  "read_buffer_sequence B completion_condition read_some s tmp =
     transfer_loop B completion_condition read_some s tmp None"

text \<open>\<open>write\<close> and \<open>read\<close> without an error code throw it.\<close>

definition throw_error :: "('e \<Rightarrow> string) \<Rightarrow> 'e option \<Rightarrow> string \<Rightarrow> unit result" where
  "throw_error message err location =
     (case err of None \<Rightarrow> Inr () | Some e \<Rightarrow> Inl (Exception ''std::system_error'' (location @ '': '' @ message e)))"

definition write_throwing :: "('e \<Rightarrow> string) \<Rightarrow> 'c part_ops \<Rightarrow> ('s, 'e) stream \<Rightarrow> 's \<Rightarrow> 'c \<Rightarrow> ('s \<times> nat result) option" where
  "write_throwing message B write_some s tmp =
     map_option (\<lambda>(s', ec, n). (s', bindR (throw_error message ec ''write'') (\<lambda>_. Inr n)))
       (write_buffer_sequence B transfer_all write_some s tmp)"

definition read_throwing :: "('e \<Rightarrow> string) \<Rightarrow> 'c part_ops \<Rightarrow> ('s, 'e) stream \<Rightarrow> 's \<Rightarrow> 'c \<Rightarrow> ('s \<times> nat result) option" where
  "read_throwing message B read_some s tmp =
     map_option (\<lambda>(s', ec, n). (s', bindR (throw_error message ec ''read'') (\<lambda>_. Inr n)))
       (read_buffer_sequence B transfer_all read_some s tmp)"

text \<open>A call of \<open>write_op\<close> or \<open>read_op\<close> starts a transfer or calls the handler.\<close>

datatype 'e transfer_step =
    Transfer "buffer list"
  | Finished "'e option" nat

definition write_op :: "'c part_ops \<Rightarrow> ('e option \<Rightarrow> nat \<Rightarrow> nat) \<Rightarrow> 'e option \<Rightarrow> nat \<Rightarrow> bool \<Rightarrow> 'c \<Rightarrow>
    'c \<times> 'e transfer_step" where
  "write_op B completion_condition ec bytes_transferred start c =
     (if start then (c, Transfer (part_prepare B c (completion_condition ec (part_total B c))))
      else (let c1 = part_consume B c bytes_transferred
            in if (ec = None \<and> bytes_transferred = 0) \<or> part_empty B c1 then (c1, Finished ec (part_total B c1))
               else (let max_size = completion_condition ec (part_total B c1)
                     in if max_size > 0 then (c1, Transfer (part_prepare B c1 max_size))
                        else (c1, Finished ec (part_total B c1)))))"

definition read_op :: "'c part_ops \<Rightarrow> ('e option \<Rightarrow> nat \<Rightarrow> nat) \<Rightarrow> 'e option \<Rightarrow> nat \<Rightarrow> bool \<Rightarrow> 'c \<Rightarrow>
    'c \<times> 'e transfer_step" where
  "read_op B completion_condition ec bytes_transferred start c =
     (if start then (c, Transfer (part_prepare B c (completion_condition ec (part_total B c))))
      else (let c1 = part_consume B c bytes_transferred
            in if (ec = None \<and> bytes_transferred = 0) \<or> part_empty B c1 then (c1, Finished ec (part_total B c1))
               else (let max_size = completion_condition ec (part_total B c1)
                     in if max_size > 0 then (c1, Transfer (part_prepare B c1 max_size))
                        else (c1, Finished ec (part_total B c1)))))"

lemma read_is_write: "read_op = write_op" "read_buffer_sequence = write_buffer_sequence"
  by (simp_all add: fun_eq_iff read_op_def write_op_def read_buffer_sequence_def write_buffer_sequence_def)

section \<open>Runs\<close>

text \<open>
  The transfers end with the results that are given, as long as there are some. What was transferred,
  and what the handler is called with, if it is.
\<close>

fun transfer_run :: "('e option \<Rightarrow> nat \<Rightarrow> bool \<Rightarrow> 'c \<Rightarrow> 'c \<times> 'e transfer_step) \<Rightarrow> 'c \<times> 'e transfer_step \<Rightarrow>
    ('e option \<times> nat) list \<Rightarrow> nat list \<times> ('e option \<times> nat) option" where
  "transfer_run op (c, Finished ec n) rs = ([], Some (ec, n))"
| "transfer_run op (c, Transfer bs) [] = ([], None)"
| "transfer_run op (c, Transfer bs) ((ec, n) # rs) =
     (case transfer_run op (op ec n False c) rs of (sent, end) \<Rightarrow> (take n (all_addresses bs) @ sent, end))"

text \<open>No transfer reports more bytes than it was given.\<close>

fun honest :: "('e option \<Rightarrow> nat \<Rightarrow> bool \<Rightarrow> 'c \<Rightarrow> 'c \<times> 'e transfer_step) \<Rightarrow> 'c \<times> 'e transfer_step \<Rightarrow>
    ('e option \<times> nat) list \<Rightarrow> bool" where
  "honest op (c, Finished ec n) rs = True"
| "honest op (c, Transfer bs) [] = True"
| "honest op (c, Transfer bs) ((ec, n) # rs) \<longleftrightarrow> n \<le> length (all_addresses bs) \<and> honest op (op ec n False c) rs"

section \<open>What the composed operations do\<close>

definition stops_on_error :: "('e option \<Rightarrow> nat \<Rightarrow> nat) \<Rightarrow> bool" where
  "stops_on_error cond \<longleftrightarrow> (\<forall>e t. cond (Some e) t = 0)"

lemma conditions_stop:
  "stops_on_error transfer_all" "stops_on_error (transfer_at_least m)" "stops_on_error (transfer_exactly m)"
  by (simp_all add: stops_on_error_def transfer_all_def transfer_at_least_def transfer_exactly_def)

context consuming
begin

lemma part_taken:
  assumes "inv c" "n \<le> length (all_addresses (prep c m))"
  shows "take n (all_addresses (prep c m)) = take n (drop (total c) (whole c))"
    "total c + n \<le> length (whole c)"
proof -
  obtain k where k: "all_addresses (prep c m) = take k (drop (total c) (whole c))"
    using prep_part [OF assms(1), of m] by blast
  then have "n \<le> k" "n \<le> length (whole c) - total c" using assms(2) by simp_all
  then show "take n (all_addresses (prep c m)) = take n (drop (total c) (whole c))" "total c + n \<le> length (whole c)"
    using k total_le [OF assms(1)] by (simp_all add: min_def)
qed

lemma run_ok:
  assumes "B = \<lparr>part_empty = emp, part_prepare = prep, part_consume = consume, part_total = total\<rparr>"
    and "stops_on_error cond" "inv c" "honest (write_op B cond) (c, Transfer (prep c m)) rs"
    and "transfer_run (write_op B cond) (c, Transfer (prep c m)) rs = (sent, fin)"
  shows "sent = take (length sent) (drop (total c) (whole c)) \<and> (fin = None \<longrightarrow> length rs \<le> length sent) \<and>
    (\<forall>ec t. fin = Some (ec, t) \<longrightarrow> t = total c + length sent \<and>
       (\<exists>n. (ec, n) \<in> set rs \<and> (ec = None \<longrightarrow> n = 0 \<or> t = length (whole c) \<or> cond None t = 0)))"
  using assms(3-)
proof (induction rs arbitrary: c m sent)
  case Nil
  then show ?case by simp
next
  case (Cons r rs)
  obtain ec n where r: "r = (ec, n)" by (cases r)
  let ?c = "consume c n"
  have n: "n \<le> length (all_addresses (prep c m))" using Cons.prems(2) by (simp add: r)
  note p = part_taken [OF Cons.prems(1) n]
  have c: "inv ?c" "whole ?c = whole c" "total ?c = total c + n" using consume_part [OF Cons.prems(1) n] by simp_all
  show ?case
  proof (cases "(ec = None \<and> n = 0) \<or> emp ?c \<or> cond ec (total ?c) = 0")
    case True
    then have "write_op B cond ec n False c = (?c, Finished ec (total ?c))"
      using assms(1) by (auto simp: write_op_def Let_def)
    then have s: "sent = take n (drop (total c) (whole c))" "fin = Some (ec, total c + n)"
      using Cons.prems(3) p(1) c(3) by (simp_all add: r)
    have "length sent = n" using p(2) s(1) by simp
    then show ?thesis using s c True emp_iff [OF c(1)] by (auto simp: r)
  next
    case False
    then have w: "write_op B cond ec n False c = (?c, Transfer (prep ?c (cond ec (total ?c))))"
      using assms(1) by (auto simp: write_op_def Let_def)
    obtain sent' where s': "transfer_run (write_op B cond) (?c, Transfer (prep ?c (cond ec (total ?c)))) rs = (sent', fin)"
      and s: "sent = take n (drop (total c) (whole c)) @ sent'"
      using Cons.prems(3) p(1) by (auto simp: r w split: prod.splits)
    have h: "honest (write_op B cond) (?c, Transfer (prep ?c (cond ec (total ?c)))) rs"
      using Cons.prems(2) by (simp add: r w)
    note i = Cons.IH [OF c(1) h s']
    have "ec = None" using assms(2) False by (cases ec) (auto simp: stops_on_error_def)
    then have "0 < n" using False by simp
    have l: "length sent = n + length sent'" using p(2) s by simp
    have "sent' = take (length sent') (drop n (drop (total c) (whole c)))" using i by (simp add: c add.commute)
    then have "sent = take (length sent) (drop (total c) (whole c))" by (metis l s take_add)
    moreover have "fin = None \<longrightarrow> length (r # rs) \<le> length sent" unfolding l using i \<open>0 < n\<close> by auto
    moreover have "t = total c + length sent \<and> (\<exists>n. (ec, n) \<in> set (r # rs) \<and>
        (ec = None \<longrightarrow> n = 0 \<or> t = length (whole c) \<or> cond None t = 0))" if "fin = Some (ec, t)" for ec t
      unfolding l using i that by (auto simp: c)
    ultimately show ?thesis by blast
  qed
qed

lemma write_op_ok:
  assumes "B = \<lparr>part_empty = emp, part_prepare = prep, part_consume = consume, part_total = total\<rparr>"
    and "stops_on_error cond" "inv c" "honest (write_op B cond) (write_op B cond None 0 True c) rs"
    and "transfer_run (write_op B cond) (write_op B cond None 0 True c) rs = (sent, fin)"
  shows "sent = take (length sent) (drop (total c) (whole c)) \<and> (fin = None \<longrightarrow> length rs \<le> length sent) \<and>
    (\<forall>ec t. fin = Some (ec, t) \<longrightarrow> t = total c + length sent \<and>
       (\<exists>n. (ec, n) \<in> set rs \<and> (ec = None \<longrightarrow> n = 0 \<or> t = length (whole c) \<or> cond None t = 0)))"
  using run_ok [OF assms(1-3), of "cond None (total c)" rs sent fin] assms(1,4,5) by (simp add: write_op_def)

text \<open>The loop, for a stream that logs what it transfers and transfers something unless there is an error, on
  whatever sequences it may be given.\<close>

lemma loop_ok:
  assumes "B = \<lparr>part_empty = emp, part_prepare = prep, part_consume = consume, part_total = total\<rparr>"
    and "stops_on_error cond"
    and "\<And>c m. inv c \<Longrightarrow> P (prep c m)"
    and "\<And>s bs s' e n. P bs \<Longrightarrow> stream s bs = (s', e, n) \<Longrightarrow> n \<le> length (all_addresses bs) \<and>
           log s' = log s @ take n (all_addresses bs) \<and> (all_addresses bs \<noteq> [] \<and> n = 0 \<longrightarrow> e \<noteq> None)"
    and "inv c"
  shows "\<exists>s' e. transfer_loop B cond stream s c ec = Some (s', e, total c + (length (log s') - length (log s))) \<and>
    (\<exists>k. log s' = log s @ take k (drop (total c) (whole c)) \<and> total c + k \<le> length (whole c) \<and>
      (e = None \<longrightarrow> total c + k = length (whole c) \<or> cond None (total c + k) = 0))"
  using assms(5)
proof (induction "length (whole c) - total c + (if ec = None then 1 else 0)" arbitrary: s c ec rule: less_induct)
  case less
  show ?case
  proof (cases "emp c \<or> cond ec (total c) = 0")
    case True
    then have "transfer_loop B cond stream s c ec = Some (s, ec, total c)"
      using assms(1) by (subst transfer_loop.simps) auto
    then show ?thesis using True emp_iff [OF less.prems] total_le [OF less.prems] by auto
  next
    case False
    let ?bs = "prep c (cond ec (total c))"
    obtain s1 e1 n where w: "stream s ?bs = (s1, e1, n)" by (metis prod_cases3)
    note st = assms(4) [OF assms(3) [OF less.prems] w]
    note p = part_taken [OF less.prems, of n "cond ec (total c)"]
    have c: "inv (consume c n)" "whole (consume c n) = whole c" "total (consume c n) = total c + n"
      using consume_part [OF less.prems, of n "cond ec (total c)"] st by simp_all
    have t: "total c < length (whole c)" using False emp_iff [OF less.prems] total_le [OF less.prems] by simp
    then have "all_addresses ?bs \<noteq> []" using prep_part [OF less.prems, of "cond ec (total c)"] False by auto
    then have "n \<noteq> 0 \<or> e1 \<noteq> None" using st by (cases n) auto
    moreover have "ec = None" using assms(2) False by (cases ec) (auto simp: stops_on_error_def)
    ultimately have "length (whole (consume c n)) - total (consume c n) + (if e1 = None then 1 else 0) <
        length (whole c) - total c + (if ec = None then 1 else 0)"
      using c t p(2) st by auto
    from less.hyps [OF this c(1), of s1] obtain s' e k where i:
      "transfer_loop B cond stream s1 (consume c n) e1 = Some (s', e, total c + n + (length (log s') - length (log s1)))"
      "log s' = log s1 @ take k (drop (total c + n) (whole c))" "total c + n + k \<le> length (whole c)"
      "e = None \<longrightarrow> total c + n + k = length (whole c) \<or> cond None (total c + n + k) = 0"
      unfolding c by blast
    have l: "log s' = log s @ take (n + k) (drop (total c) (whole c))"
    proof -
      have "take (n + k) (drop (total c) (whole c)) = take n (drop (total c) (whole c)) @ take k (drop (total c + n) (whole c))"
        unfolding take_add by (simp add: add.commute)
      then show ?thesis using i(2) st p(1) by simp
    qed
    then have "transfer_loop B cond stream s c ec = Some (s', e, total c + (length (log s') - length (log s)))"
      using i(1,3) False w assms(1) st p(2) by (subst transfer_loop.simps) (auto simp: Let_def)
    then show ?thesis using l i(3,4) by (metis add.assoc)
  qed
qed

end

section \<open>Properties\<close>

text \<open>
  However the transfers end, what is transferred is the beginning of the sequence, in order; there
  are at most as many transfers as bytes before the last; the handler gets the number of bytes
  transferred and the error of a transfer; and if there is none, the whole sequence was transferred, or a
  transfer of nothing was reported.
\<close>

definition transfers_in_order :: "('e option \<Rightarrow> nat \<Rightarrow> bool \<Rightarrow> 'c \<Rightarrow> 'c \<times> 'e transfer_step) \<Rightarrow> 'c \<Rightarrow> nat list \<Rightarrow>
    ('e option \<times> nat) list \<Rightarrow> bool" where
  "transfers_in_order op c whole rs \<longleftrightarrow>
     (\<forall>sent fin. honest op (op None 0 True c) rs \<longrightarrow> transfer_run op (op None 0 True c) rs = (sent, fin) \<longrightarrow>
        sent = take (length sent) whole \<and> (fin = None \<longrightarrow> length rs \<le> length sent) \<and>
        (\<forall>ec t. fin = Some (ec, t) \<longrightarrow>
           t = length sent \<and> (\<exists>n. (ec, n) \<in> set rs \<and> (ec = None \<longrightarrow> n = 0 \<or> sent = whole))))"

lemma all_positive: "transfer_all None t \<noteq> 0"
  by (simp add: transfer_all_def default_max_transfer_size_def)

context consuming
begin

lemma in_order:
  assumes "B = \<lparr>part_empty = emp, part_prepare = prep, part_consume = consume, part_total = total\<rparr>"
    and "inv c" "total c = 0"
  shows "transfers_in_order (write_op B transfer_all) c (whole c) rs"
  unfolding transfers_in_order_def
proof (intro allI impI)
  fix sent fin
  assume a: "honest (write_op B transfer_all) (write_op B transfer_all None 0 True c) rs"
    "transfer_run (write_op B transfer_all) (write_op B transfer_all None 0 True c) rs = (sent, fin)"
  from write_op_ok [OF assms(1) conditions_stop(1) assms(2) a]
  show "sent = take (length sent) (whole c) \<and> (fin = None \<longrightarrow> length rs \<le> length sent) \<and>
      (\<forall>ec t. fin = Some (ec, t) \<longrightarrow>
         t = length sent \<and> (\<exists>n. (ec, n) \<in> set rs \<and> (ec = None \<longrightarrow> n = 0 \<or> sent = whole c)))"
    by (auto simp: assms(3) all_positive)
qed

end

text \<open>C28: \<open>async_write\<close> and \<open>async_read\<close> transfer a sequence of buffers in order and without gaps or
  repetitions, for each form in which the sequence is consumed and however the single transfers
  end, and report what they did.\<close>

theorem composed_transfers_in_order:
  assumes "0 < k" "length (all_addresses bs) < 2 ^ 64" "buf_size b < 2 ^ 64" "buf_size b0 + buf_size b1 < 2 ^ 64"
  shows "transfers_in_order (write_op (any_ops k) transfer_all) (consuming_new bs) (all_addresses bs) rs \<and>
    transfers_in_order (write_op one_ops transfer_all) (single_new b) (addresses b) rs \<and>
    transfers_in_order (write_op two_ops transfer_all) (pair_new b0 b1) (addresses b0 @ addresses b1) rs \<and>
    transfers_in_order (read_op (any_ops k) transfer_all) (consuming_new bs) (all_addresses bs) rs \<and>
    transfers_in_order (read_op one_ops transfer_all) (single_new b) (addresses b) rs \<and>
    transfers_in_order (read_op two_ops transfer_all) (pair_new b0 b1) (addresses b0 @ addresses b1) rs"
proof -
  have "transfers_in_order (write_op (any_ops k) transfer_all) (consuming_new bs) (all_addresses bs) rs"
    using any_buffers.in_order [OF any_ops_def consuming_inv_new [OF assms(1,2)]] by (simp add: consuming_new_def)
  moreover have "transfers_in_order (write_op one_ops transfer_all) (single_new b) (addresses b) rs"
    using one_buffer.in_order [OF one_ops_def, of "single_new b"] assms(3) by (simp add: single_new_def single_inv_def)
  moreover have "transfers_in_order (write_op two_ops transfer_all) (pair_new b0 b1) (addresses b0 @ addresses b1) rs"
    using two_buffers.in_order [OF two_ops_def, of "pair_new b0 b1"] assms(4) by (simp add: pair_new_def pair_inv_def)
  ultimately show ?thesis by (simp add: read_is_write)
qed

theorem composed_transfers_in_order_witness:
  "let b = \<lparr>buf_data = 100, buf_size = 3\<rparr>; rs = [(None, 2), (None, 1)] :: (nat option \<times> nat) list
   in transfers_in_order (write_op one_ops transfer_all) (single_new b) (addresses b) rs \<and>
      transfer_run (write_op one_ops transfer_all) (write_op one_ops transfer_all None 0 True (single_new b)) rs =
        ([100, 101, 102], Some (None, 3))"
  using composed_transfers_in_order [of 1 "[]" "\<lparr>buf_data = 100, buf_size = 3\<rparr>" empty_buffer empty_buffer "[(None :: nat option, 2), (None, 1)]"]
  by (simp add: Let_def empty_buffer_def write_op_def one_ops_def single_new_def single_prepare_def single_consume_def
      single_empty_def transfer_all_def default_max_transfer_size_def add_size_def addresses_def buffer_plus_def
      buffer_limit_def)

text \<open>\<open>write\<close> and \<open>read\<close> return, if the stream transfers something of what it is given or reports an
  error. They have transferred the bytes they report, in order, and all if there is no error.\<close>

lemma composed_loops_return:
  assumes "\<forall>s bs. case stream s bs of (s', e, n) \<Rightarrow> n \<le> length (all_addresses bs) \<and>
      log s' = log s @ take n (all_addresses bs) \<and> (all_addresses bs \<noteq> [] \<and> n = 0 \<longrightarrow> e \<noteq> None)"
    and "0 < k" "length (all_addresses bs) < 2 ^ 64"
  shows "\<exists>s' e n. write_buffer_sequence (any_ops k) transfer_all stream s (consuming_new bs) = Some (s', e, n) \<and>
    read_buffer_sequence (any_ops k) transfer_all stream s (consuming_new bs) = Some (s', e, n) \<and>
    log s' = log s @ take n (all_addresses bs) \<and> (e = None \<longrightarrow> n = length (all_addresses bs))"
proof -
  let ?c = "consuming_new bs"
  have c: "total_consumed ?c = 0" "whole_buffers ?c = bs" by (simp_all add: consuming_new_def)
  have st: "n \<le> length (all_addresses bs) \<and> log s' = log s @ take n (all_addresses bs) \<and>
      (all_addresses bs \<noteq> [] \<and> n = 0 \<longrightarrow> e \<noteq> None)" if "stream s bs = (s', e, n)" for s bs s' e n
    using spec [OF spec [OF assms(1), of s], of bs] that by simp
  from any_buffers.loop_ok [OF any_ops_def conditions_stop(1), where stream = stream and log = log and s = s and ec = None
      and P = "\<lambda>_. True", OF TrueI st consuming_inv_new [OF assms(2,3)]]
  obtain s' e m where "transfer_loop (any_ops k) transfer_all stream s ?c None = Some (s', e, length (log s') - length (log s))"
    "log s' = log s @ take m (all_addresses bs)" "m \<le> length (all_addresses bs)"
    "e = None \<longrightarrow> m = length (all_addresses bs)"
    unfolding c by (auto simp: all_positive)
  then show ?thesis by (auto simp: write_buffer_sequence_def read_buffer_sequence_def)
qed

lemma composed_loops_return_witness:
  "\<exists>s' e n. write_buffer_sequence (any_ops 64) transfer_all
     (\<lambda>s bs. case all_addresses bs of [] \<Rightarrow> (s, None :: nat option, 0) | a # _ \<Rightarrow> (s @ [a], None, 1)) []
     (consuming_new [\<lparr>buf_data = 7, buf_size = 2\<rparr>]) = Some (s', e, n) \<and> s' = take n [7, 8]"
proof -
  let ?st = "\<lambda>s bs. case all_addresses bs of [] \<Rightarrow> (s, None :: nat option, 0 :: nat) | a # _ \<Rightarrow> (s @ [a], None, 1)"
  have "\<forall>s bs. case ?st s bs of (s', e, n) \<Rightarrow> n \<le> length (all_addresses bs) \<and>
      s' = s @ take n (all_addresses bs) \<and> (all_addresses bs \<noteq> [] \<and> n = 0 \<longrightarrow> e \<noteq> None)"
    by (auto split: list.split)
  from composed_loops_return [where log = "\<lambda>s. s", OF this, of 64 "[\<lparr>buf_data = 7, buf_size = 2\<rparr>]" "[]"]
  show ?thesis by (auto simp: addresses_def)
qed

end
