(* ===== verification/Socket_Props.thy ===== *)
theory Socket_Props
  imports Asio_Socket_Service Asio_Transfer
begin

text \<open>
  What an operation of a socket promises above a system that does what it documents: whether it is done,
  with which error, and with how many bytes.
\<close>

section \<open>The outcome of an operation\<close>

text \<open>
  An attempt transfers at most \<open>len\<close> bytes or fails with an error; interruptions by signals come to an
  end, which a number attached to the world counts down.
\<close>

definition answers :: "'v attempt \<Rightarrow> nat \<Rightarrow> ('v \<Rightarrow> nat) \<Rightarrow> bool" where
  "answers call len signals \<longleftrightarrow> (\<forall>ec v. case call ec v of (bytes, ec1, v1) \<Rightarrow>
     bytes \<le> int len \<and> (bytes < 0 \<longrightarrow> is_error ec1 \<and> (ec1 = interrupted \<longrightarrow> signals v1 < signals v)) \<and>
     (0 \<le> bytes \<longrightarrow> \<not> is_error ec1))"

lemma answersD:
  assumes "answers call len signals" "call ec v = (bytes, ec1, v1)"
  shows "bytes \<le> int len" "bytes < 0 \<Longrightarrow> is_error ec1" "bytes < 0 \<Longrightarrow> ec1 = interrupted \<Longrightarrow> signals v1 < signals v"
    "0 \<le> bytes \<Longrightarrow> \<not> is_error ec1"
  using spec [OF spec [OF assms(1) [unfolded answers_def], of ec], of v] by (simp_all add: assms(2))

definition outcome_ok :: "bool \<Rightarrow> nat \<Rightarrow> bool \<times> error_code \<times> nat \<times> 'v \<Rightarrow> bool" where
  "outcome_ok is_stream len r \<longleftrightarrow> (case r of (finished, ec, n, v) \<Rightarrow>
     n \<le> len \<and> ec \<noteq> interrupted \<and> (finished \<longleftrightarrow> ec \<noteq> would_block) \<and>
     (is_error ec \<longrightarrow> n = 0) \<and> (is_stream \<and> \<not> is_error ec \<longrightarrow> 0 < n))"

lemma non_blocking_loop_ok:
  assumes a: "answers call len signals"
  shows "\<exists>r. non_blocking_loop call is_stream 0 ec v = Some r \<and> outcome_ok is_stream len r"
proof (induction "signals v" arbitrary: ec v rule: less_induct)
  case less
  obtain bytes ec1 v1 where c: "call ec v = (bytes, ec1, v1)" by (rule prod_cases3)
  obtain cat val where ec1: "ec1 = (cat, val)" by (rule prod.exhaust)
  note D = answersD [OF a c]
  note e = error_codes ec1 nat_le_iff
  show ?case
  proof (cases "is_stream \<and> bytes = 0 \<or> 0 \<le> bytes \<or> ec1 \<noteq> interrupted")
    case True
    show ?thesis
      using True D c by (subst non_blocking_loop.simps) (auto simp: outcome_ok_def e)
  next
    case False
    then have "signals v1 < signals v" using D by simp
    then show ?thesis using less.hyps [of v1 ec1] False c by (subst non_blocking_loop.simps) auto
  qed
qed

text \<open>What the system documents of the calls: the number of bytes, and an \<open>errno\<close> with every failure; \<open>EINTR\<close> is 4.\<close>

definition good_answer :: "nat \<Rightarrow> ('w \<Rightarrow> nat) \<Rightarrow> 'w \<Rightarrow> 'w answer \<Rightarrow> bool" where
  "good_answer len signals w a \<longleftrightarrow> (case a of (r, errno, w1) \<Rightarrow>
     r \<le> int len \<and> (r < 0 \<longrightarrow> errno \<noteq> 0 \<and> (errno = 4 \<longrightarrow> signals w1 < signals w)))"

definition io_answers :: "'w system \<Rightarrow> int \<Rightarrow> ('w \<Rightarrow> nat) \<Rightarrow> bool" where
  "io_answers sys s signals \<longleftrightarrow> (\<forall>w flags.
     (\<forall>data. good_answer (buf_size data) signals w (sys_recv sys s data flags w) \<and>
        good_answer (buf_size data) signals w (sys_send sys s data flags w)) \<and>
     (\<forall>msg. good_answer (length (all_addresses (msg_iov msg))) signals w (snd (sys_recvmsg sys s msg flags w)) \<and>
        good_answer (length (all_addresses (msg_iov msg))) signals w (sys_sendmsg sys s msg flags w)))"

lemma checked_answers:
  assumes "\<And>w. good_answer len signals w (g w)"
  shows "answers (\<lambda>ec w. checked (g w) ec) len signals"
  unfolding answers_def
proof (intro allI)
  fix ec w
  obtain r errno w1 where g: "g w = (r, errno, w1)" by (rule prod_cases3)
  show "case checked (g w) ec of (bytes, ec1, v1) \<Rightarrow> bytes \<le> int len \<and>
      (bytes < 0 \<longrightarrow> is_error ec1 \<and> (ec1 = interrupted \<longrightarrow> signals v1 < signals w)) \<and> (0 \<le> bytes \<longrightarrow> \<not> is_error ec1)"
    using assms [of w] by (simp add: g checked_def good_answer_def get_last_error_def clear_error_def error_codes)
qed

lemma socket_attempts:
  assumes "io_answers sys s signals"
  shows "answers (sock_recv1 sys s data flags) (buf_size data) signals"
    "answers (sock_send1 sys s data flags) (buf_size data) signals"
    "answers (sock_recv sys s bufs flags) (length (all_addresses bufs)) signals"
    "answers (sock_send sys s bufs flags) (length (all_addresses bufs)) signals"
proof -
  have iov: "msg_iov (new_msghdr None 0 bufs) = bufs" by (simp add: new_msghdr_def)
  note good = assms [unfolded io_answers_def, rule_format]
  show "answers (sock_recv1 sys s data flags) (buf_size data) signals"
    unfolding sock_recv1_def [abs_def] by (rule checked_answers) (use good in blast)
  show "answers (sock_send1 sys s data flags) (buf_size data) signals"
    unfolding sock_send1_def [abs_def] by (rule checked_answers) (use good in blast)
  show "answers (sock_recv sys s bufs flags) (length (all_addresses bufs)) signals"
    unfolding sock_recv_def [abs_def] by (rule checked_answers) (use good iov in metis)
  show "answers (sock_send sys s bufs flags) (length (all_addresses bufs)) signals"
    unfolding sock_send_def [abs_def] by (rule checked_answers) (use good iov in metis)
qed

definition sequence_size :: "sequence \<Rightarrow> nat" where
  "sequence_size bs = length (all_addresses (adapter_buffers bs))"

text \<open>\<open>limit\<close>: an operation that transfers less has used the descriptor up.\<close>

definition performed_ok :: "bool \<Rightarrow> bool \<Rightarrow> nat \<Rightarrow> nat \<Rightarrow> status \<times> error_code \<times> nat \<times> 'w \<Rightarrow> bool" where
  "performed_ok is_stream ends len limit r \<longleftrightarrow> (case r of (st, ec, n, w) \<Rightarrow>
     n \<le> len \<and> ec \<noteq> interrupted \<and> (st = Not_Done \<longleftrightarrow> ec = would_block) \<and> (is_error ec \<longrightarrow> n = 0) \<and>
     (ends \<and> \<not> is_error ec \<longrightarrow> 0 < n) \<and>
     (st = Done_And_Exhausted \<longleftrightarrow> st \<noteq> Not_Done \<and> is_stream \<and> n < limit))"

lemma recv_perform_loop:
  assumes "io_answers sys s signals"
  obtains call where "answers call (sequence_size bs) signals"
    "\<And>ec bytes w. recv_perform sys s state bs flags ec bytes w =
       map_option (\<lambda>(finished, ec1, bytes1, w1).
           (if finished \<and> has state stream_oriented \<and> bytes1 = 0 then Done_And_Exhausted else done_or_not finished,
            ec1, bytes1, w1))
         (non_blocking_loop call (has state stream_oriented) bytes ec w)"
proof (cases bs)
  case (Single b)
  then have "sequence_size bs = buf_size b" by (simp add: sequence_size_def adapter_buffers_def)
  then show ?thesis
    using that [of "sock_recv1 sys s b flags"] socket_attempts(1) [OF assms, of b flags] Single
    by (simp add: recv_perform_def sock_non_blocking_recv1_def)
next
  case (Many l)
  then show ?thesis
    using that [of "sock_recv sys s (adapter_buffers bs) flags"] socket_attempts(3) [OF assms, of "adapter_buffers bs" flags]
    by (simp add: recv_perform_def sock_non_blocking_recv_def sequence_size_def)
qed

lemma send_perform_loop:
  assumes "io_answers sys s signals"
  obtains call where "answers call (sequence_size bs) signals"
    "\<And>ec bytes w. send_perform sys s state bs flags ec bytes w =
       map_option (\<lambda>(finished, ec1, bytes1, w1).
           (if finished \<and> has state stream_oriented \<and> bytes1 < adapter_total_size bs then Done_And_Exhausted
            else done_or_not finished, ec1, bytes1, w1))
         (non_blocking_loop call False bytes ec w)"
proof (cases bs)
  case (Single b)
  then have "sequence_size bs = buf_size b" by (simp add: sequence_size_def adapter_buffers_def)
  then show ?thesis
    using that [of "sock_send1 sys s b flags"] socket_attempts(2) [OF assms, of b flags] Single
    by (simp add: send_perform_def sock_non_blocking_send1_def)
next
  case (Many l)
  then show ?thesis
    using that [of "sock_send sys s (adapter_buffers bs) flags"] socket_attempts(4) [OF assms, of "adapter_buffers bs" flags]
    by (simp add: send_perform_def sock_non_blocking_send_def sequence_size_def)
qed

lemma performed_outcome:
  assumes "outcome_ok ends len r"
  shows "performed_ok is_stream ends len limit
    (case r of (finished, ec, n, w) \<Rightarrow>
      (if finished \<and> is_stream \<and> n < limit then Done_And_Exhausted else done_or_not finished, ec, n, w))"
proof -
  obtain finished ec n w where r: "r = (finished, ec, n, w)" by (rule prod_cases4)
  show ?thesis using assms unfolding r by (auto simp: outcome_ok_def performed_ok_def done_or_not_def)
qed

text \<open>C40: The outcome of an asynchronous receive or send is one of three. As long as the system names an error with
  every failure, transfers no more than the buffers hold, and stops interrupting: the operation returns, and
  either it is not done, with the error \<open>would_block\<close> and no byte; or it is done, with an error and no
  byte; or it is done without error, with at most as many bytes as the buffers hold, and for a receive of a
  stream at least one, because an end of the stream is an error. No interruption gets through. On a stream,
  the descriptor counts as used up exactly if the receive is done with no byte, or the send with less than
  all.\<close>

theorem socket_outcomes:
  assumes "io_answers sys s signals" "sequence_size bs < 2 ^ 64"
  shows "(\<exists>r. recv_perform sys s state bs flags ec 0 w = Some r \<and>
      performed_ok (has state stream_oriented) (has state stream_oriented) (sequence_size bs) 1 r) \<and>
    (\<exists>r. send_perform sys s state bs flags ec 0 w = Some r \<and>
      performed_ok (has state stream_oriented) False (sequence_size bs) (sequence_size bs) r)"
proof -
  have total: "adapter_total_size bs = sequence_size bs"
    using buffers_size_eq assms(2) by (simp add: adapter_total_size_def sequence_size_def)
  obtain recv where recv: "answers recv (sequence_size bs) signals"
    "\<And>ec bytes w. recv_perform sys s state bs flags ec bytes w =
       map_option (\<lambda>(finished, ec1, bytes1, w1).
           (if finished \<and> has state stream_oriented \<and> bytes1 = 0 then Done_And_Exhausted else done_or_not finished,
            ec1, bytes1, w1))
         (non_blocking_loop recv (has state stream_oriented) bytes ec w)"
    by (rule recv_perform_loop [OF assms(1), where bs = bs and state = state and flags = flags]) blast
  obtain send where send: "answers send (sequence_size bs) signals"
    "\<And>ec bytes w. send_perform sys s state bs flags ec bytes w =
       map_option (\<lambda>(finished, ec1, bytes1, w1).
           (if finished \<and> has state stream_oriented \<and> bytes1 < adapter_total_size bs then Done_And_Exhausted
            else done_or_not finished, ec1, bytes1, w1))
         (non_blocking_loop send False bytes ec w)"
    by (rule send_perform_loop [OF assms(1), where bs = bs and state = state and flags = flags]) blast
  obtain r1 r2 where r: "non_blocking_loop recv (has state stream_oriented) 0 ec w = Some r1"
    "outcome_ok (has state stream_oriented) (sequence_size bs) r1"
    "non_blocking_loop send False 0 ec w = Some r2" "outcome_ok False (sequence_size bs) r2"
    using non_blocking_loop_ok [OF recv(1)] non_blocking_loop_ok [OF send(1)] by meson
  show ?thesis
    using performed_outcome [OF r(2), of "has state stream_oriented" 1]
      performed_outcome [OF r(4), of "has state stream_oriented" "sequence_size bs"]
    unfolding recv(2) send(2) r(1,3) total by (simp add: less_Suc0)
qed

text \<open>A system whose first answer is an interruption, and that then transfers two bytes.\<close>

definition shy_answer :: "nat \<Rightarrow> nat \<Rightarrow> nat answer" where
  "shy_answer len w = (if w = 0 then (int (min 2 len), 0, 0) else (- 1, 4, w - 1))"

lemma shy_good: "good_answer len (\<lambda>w. w) w (shy_answer len w)"
  by (simp add: good_answer_def shy_answer_def)

theorem socket_outcomes_witness:
  "\<exists>sys :: nat system. recv_perform sys 5 stream_oriented (Single \<lparr>buf_data = 0, buf_size = 9\<rparr>) 0 no_error 0 1 =
     Some (Done, no_error, 2, 0)"
proof -
  define sys :: "nat system" where "sys = undefined\<lparr>
     sys_recv := (\<lambda>s data flags. shy_answer (buf_size data)), sys_send := (\<lambda>s data flags. shy_answer (buf_size data)),
     sys_recvmsg := (\<lambda>s msg flags w. (msg, shy_answer (length (all_addresses (msg_iov msg))) w)),
     sys_sendmsg := (\<lambda>s msg flags. shy_answer (length (all_addresses (msg_iov msg))))\<rparr>"
  have io: "io_answers sys 5 (\<lambda>w. w)" by (simp add: io_answers_def sys_def shy_good)
  let ?b = "Single \<lparr>buf_data = 0, buf_size = 9\<rparr>"
  have "sequence_size ?b < 2 ^ 64" by (simp add: sequence_size_def adapter_buffers_def)
  from socket_outcomes [OF io this, of stream_oriented 0 no_error 1]
  have "\<exists>r. recv_perform sys 5 stream_oriented ?b 0 no_error 0 1 = Some r \<and>
      performed_ok (has stream_oriented stream_oriented) (has stream_oriented stream_oriented) (sequence_size ?b) 1 r" by blast
  moreover have "sock_recv1 sys 5 \<lparr>buf_data = 0, buf_size = 9\<rparr> 0 no_error 1 = (- 1, interrupted, 0)"
    "sock_recv1 sys 5 \<lparr>buf_data = 0, buf_size = 9\<rparr> 0 interrupted 0 = (2, no_error, 0)"
    by (simp_all add: sock_recv1_def sys_def checked_def shy_answer_def get_last_error_def clear_error_def error_codes)
  then have "non_blocking_loop (sock_recv1 sys 5 \<lparr>buf_data = 0, buf_size = 9\<rparr> 0) True 0 no_error 1 =
      Some (True, no_error, 2, 0)"
    by (subst non_blocking_loop.simps, simp) (subst non_blocking_loop.simps, simp)
  then have "recv_perform sys 5 stream_oriented ?b 0 no_error 0 1 = Some (Done, no_error, 2, 0)"
    by (simp add: recv_perform_def sock_non_blocking_recv1_def done_or_not_def has_def stream_oriented_def)
  ultimately show ?thesis by blast
qed

end
