(* ===== verification/Socket_Mode.thy ===== *)
theory Socket_Mode
  imports Asio_Socket_Service
begin

text \<open>
  The state bits of a socket agree with the mode of its descriptor, so an asynchronous operation meets
  only a non-blocking descriptor.
\<close>

section \<open>Bits\<close>

lemma has_bits:
  "has state user_set_non_blocking \<longleftrightarrow> bit state 0" "has state internal_non_blocking \<longleftrightarrow> bit state 1"
  "has state non_blocking \<longleftrightarrow> bit state 0 \<or> bit state 1"
proof -
  have 1: "state AND 1 \<noteq> 0 \<longleftrightarrow> bit state 0" using and_exp_eq_0_iff_not_bit [of state 0] by simp
  have 2: "state AND 2 \<noteq> 0 \<longleftrightarrow> bit state 1" using and_exp_eq_0_iff_not_bit [of state 1] by simp
  have "x AND (a OR b) = 0 \<longleftrightarrow> x AND a = 0 \<and> x AND b = 0" for x a b :: state_type
    by (auto simp: bit_eq_iff bit_simps)
  note 3 = this [of state 1 2]
  show "has state user_set_non_blocking \<longleftrightarrow> bit state 0" "has state internal_non_blocking \<longleftrightarrow> bit state 1"
    "has state non_blocking \<longleftrightarrow> bit state 0 \<or> bit state 1"
    using 1 2 3 by (simp_all only: has_def state_bits) blast+
qed

lemma set_bits:
  "bit (user_mode_set value state) 0 \<longleftrightarrow> value" "bit (user_mode_set value state) 1 \<longleftrightarrow> value \<and> bit state 1"
  "bit (state OR internal_non_blocking) 0 \<longleftrightarrow> bit state 0" "bit (state OR internal_non_blocking) 1"
  "bit (state AND NOT internal_non_blocking) 0 \<longleftrightarrow> bit state 0" "\<not> bit (state AND NOT internal_non_blocking) 1"
  by (simp_all add: user_mode_set_def state_bits bit_simps)

section \<open>The mode of a descriptor\<close>

text \<open>\<open>FIONBIO\<close> sets the mode that it is given, or fails and changes nothing; it does not change its argument.\<close>

definition ioctl_sets_mode :: "'w system \<Rightarrow> int \<Rightarrow> ('w \<Rightarrow> bool) \<Rightarrow> bool" where
  "ioctl_sets_mode sys s mode \<longleftrightarrow> (\<forall>arg w. case sys_ioctl sys s FIONBIO arg w of (arg1, r, errno, w1) \<Rightarrow>
     arg1 = arg \<and> (if 0 \<le> r then mode w1 = (arg \<noteq> 0) else mode w1 = mode w))"

text \<open>What users do with the mode, and whatever else happens to the world.\<close>

datatype 'w mode_act =
    User_Mode bool
  | Internal_Mode bool
  | Io_Control int
  | Start nat reactor_op bool bool
  | Elsewhere 'w

fun mode_step :: "'w system \<Rightarrow> 'w reactor_os \<Rightarrow> ('w \<Rightarrow> bool) \<Rightarrow> 'w mode_act \<Rightarrow> socket_impl \<times> 'w env \<Rightarrow> socket_impl \<times> 'w env" where
  "mode_step sys os mode (User_Mode value) (i, e) =
     (case set_user_non_blocking sys (impl_socket i) (impl_state i) value no_error (env_world e) of
        (ok, state, ec, w) \<Rightarrow> (i\<lparr>impl_state := state\<rparr>, e\<lparr>env_world := w\<rparr>))"
| "mode_step sys os mode (Internal_Mode value) (i, e) =
     (case set_internal_non_blocking sys (impl_socket i) (impl_state i) value no_error (env_world e) of
        (ok, state, ec, w) \<Rightarrow> (i\<lparr>impl_state := state\<rparr>, e\<lparr>env_world := w\<rparr>))"
| "mode_step sys os mode (Io_Control arg) (i, e) =
     (case descriptor_ioctl sys (impl_socket i) (impl_state i) FIONBIO arg no_error (env_world e) of
        (r, state, arg1, ec, w) \<Rightarrow> (i\<lparr>impl_state := state\<rparr>, e\<lparr>env_world := w\<rparr>))"
| "mode_step sys os mode (Start op_type op cont nb) (i, e) =
     (case service_start_op sys os i op_type op cont nb False e of (i1, calls, e1) \<Rightarrow> (i1, e1))"
| "mode_step sys os mode (Elsewhere w) (i, e) = (i, if mode w = mode (env_world e) then e\<lparr>env_world := w\<rparr> else e)"

definition mode_agrees :: "int \<Rightarrow> ('w \<Rightarrow> bool) \<Rightarrow> socket_impl \<times> 'w env \<Rightarrow> bool" where
  "mode_agrees s mode ie \<longleftrightarrow> impl_socket (fst ie) = s \<and> mode (env_world (snd ie)) = has (impl_state (fst ie)) non_blocking"

text \<open>Operations and \<open>epoll\<close> do not change the mode.\<close>

definition keeps_mode :: "'w reactor_os \<Rightarrow> ('w \<Rightarrow> bool) \<Rightarrow> bool" where
  "keeps_mode os mode \<longleftrightarrow> (\<forall>w op st ec n w1. perform_func os w op = (st, ec, n, w1) \<longrightarrow> mode w1 = mode w) \<and>
     (\<forall>w c desc ev err w1. epoll_ctl os w c desc ev = (err, w1) \<longrightarrow> mode w1 = mode w)"

lemma start_op_mode:
  assumes "keeps_mode os mode" "start_op os ty desc d op cont nb w = (d1, calls, w1)"
  shows "mode w1 = mode w"
proof -
  have p: "perform os w op = (st, op1, w2) \<Longrightarrow> mode w2 = mode w" for st op1 w2
    using assms(1) by (auto simp: perform_def keeps_mode_def split: prod.splits)
  have c: "epoll_ctl os w0 c desc ev = (err, w2) \<Longrightarrow> mode w2 = mode w0" for w0 c ev err w2
    using assms(1) unfolding keeps_mode_def by blast
  show ?thesis
    using assms(2) p c
    by (auto simp: start_op_def start_speculative_def complete_now_def wait_op_def Let_def split: prod.splits if_splits)
qed

lemma set_internal_mode:
  assumes "ioctl_sets_mode sys s mode" "set_internal_non_blocking sys s state value ec w = (ok, state1, ec1, w1)"
    "mode w = has state non_blocking"
  shows "mode w1 = has state1 non_blocking \<and> (ok \<longrightarrow> mode w1 = value)"
proof -
  obtain arg1 r errno w2 where i: "sys_ioctl sys s FIONBIO (if value then 1 else 0) w = (arg1, r, errno, w2)" by (rule prod_cases4)
  have "if 0 \<le> r then mode w2 = value else mode w2 = mode w"
    using assms(1) i unfolding ioctl_sets_mode_def by (auto dest!: spec [of _ "if value then 1 else 0"] spec [of _ w] split: if_splits)
  then show ?thesis
    using assms(2,3) i by (auto simp: set_internal_non_blocking_def checked_def has_bits set_bits [unfolded One_nat_def] split: if_splits)
qed

lemma env_start_op_mode:
  assumes "keeps_mode os mode" "env_start_op os ty desc data op cont nb e = (e1, calls)"
  shows "mode (env_world e1) = mode (env_world e)"
  using assms(2) start_op_mode [OF assms(1)]
  by (auto simp: env_start_op_def set_env_state_def split: option.splits prod.splits)

text \<open>An operation reaches the reactor on a non-blocking descriptor only.\<close>

lemma start_service_mode:
  assumes "ioctl_sets_mode sys s mode" "keeps_mode os mode" "impl_socket i = s"
    "mode (env_world e) = has (impl_state i) non_blocking"
    "service_start_op sys os i ty op cont nb False e = (i1, calls, e1)"
  shows "impl_socket i1 = s \<and> mode (env_world e1) = has (impl_state i1) non_blocking \<and>
    ((\<exists>ec w. mode w \<and> env_start_op os ty s (impl_data i) (op\<lparr>op_ec := ec\<rparr>) cont nb (e\<lparr>env_world := w\<rparr>) = (e1, calls)) \<or>
     (\<exists>ec. calls = [Post_Immediate (op\<lparr>op_ec := ec\<rparr>) cont] \<and> \<not> mode (env_world e1)))"
proof (cases "has (impl_state i) non_blocking")
  case True
  obtain e2 calls2 where r: "env_start_op os ty s (impl_data i) (op\<lparr>op_ec := op_ec op\<rparr>) cont nb (e\<lparr>env_world := env_world e\<rparr>) = (e2, calls2)"
    by (rule prod.exhaust)
  have "i1 = i" "calls = calls2" "e1 = e2" using assms(3,5) True r by (auto simp: service_start_op_def Let_def)
  then have "env_start_op os ty s (impl_data i) (op\<lparr>op_ec := op_ec op\<rparr>) cont nb (e\<lparr>env_world := env_world e\<rparr>) = (e1, calls)"
    using r by simp
  then show ?thesis using env_start_op_mode [OF assms(2) r] assms(3,4) True \<open>i1 = i\<close> \<open>e1 = e2\<close> by (metis env.update_convs(2) env.surjective)
next
  case False
  obtain ok state1 ec1 w1 where b: "set_internal_non_blocking sys s (impl_state i) True (op_ec op) (env_world e) = (ok, state1, ec1, w1)"
    by (rule prod_cases4)
  note m = set_internal_mode [OF assms(1) b assms(4)]
  obtain e2 calls2 where r: "env_start_op os ty s (impl_data i) (op\<lparr>op_ec := ec1\<rparr>) cont nb (e\<lparr>env_world := w1\<rparr>) = (e2, calls2)"
    by (rule prod.exhaust)
  show ?thesis
  proof (cases ok)
    case True
    then have "i1 = i\<lparr>impl_state := state1\<rparr>" "calls = calls2" "e1 = e2"
      using assms(3,5) False b r by (auto simp: service_start_op_def Let_def)
    then show ?thesis using env_start_op_mode [OF assms(2) r] assms(3) m True r
      by (intro conjI disjI1 exI [of _ ec1] exI [of _ w1]) auto
  next
    case failed: False
    then have "i1 = i\<lparr>impl_state := state1\<rparr>" "calls = [Post_Immediate (op\<lparr>op_ec := ec1\<rparr>) cont]" "e1 = e\<lparr>env_world := w1\<rparr>"
      using assms(3,5) False b by (auto simp: service_start_op_def Let_def)
    moreover have "state1 = impl_state i"
      using b failed by (auto simp: set_internal_non_blocking_def split: if_splits prod.splits)
    ultimately show ?thesis using m False assms(3) by (intro conjI disjI2 exI [of _ ec1]) auto
  qed
qed

lemma mode_step_agrees:
  assumes "ioctl_sets_mode sys s mode" "keeps_mode os mode" "mode_agrees s mode ie"
  shows "mode_agrees s mode (mode_step sys os mode a ie)"
proof -
  obtain i e where ie: "ie = (i, e)" by (rule prod.exhaust)
  have m: "impl_socket i = s" "mode (env_world e) = has (impl_state i) non_blocking"
    using assms(3) by (simp_all add: mode_agrees_def ie)
  show ?thesis
  proof (cases a)
    case (User_Mode val)
    obtain arg1 r errno w2 where i: "sys_ioctl sys s FIONBIO (if val then 1 else 0) (env_world e) = (arg1, r, errno, w2)"
      by (rule prod_cases4)
    have "if 0 \<le> r then mode w2 = val else mode w2 = mode (env_world e)"
      using assms(1) i unfolding ioctl_sets_mode_def
      by (auto dest!: spec [of _ "if val then 1 else 0"] spec [of _ "env_world e"] split: if_splits)
    then show ?thesis
      using m i by (auto simp: User_Mode ie mode_agrees_def set_user_non_blocking_def checked_def has_bits
          set_bits [unfolded One_nat_def] split: if_splits)
  next
    case (Internal_Mode val)
    obtain ok state1 ec1 w1 where r: "set_internal_non_blocking sys s (impl_state i) val no_error (env_world e) = (ok, state1, ec1, w1)"
      by (rule prod_cases4)
    show ?thesis using set_internal_mode [OF assms(1) r m(2)] r m by (simp add: Internal_Mode ie mode_agrees_def)
  next
    case (Io_Control arg)
    obtain arg1 r errno w2 where i: "sys_ioctl sys s FIONBIO arg (env_world e) = (arg1, r, errno, w2)" by (rule prod_cases4)
    have "arg1 = arg \<and> (if 0 \<le> r then mode w2 = (arg \<noteq> 0) else mode w2 = mode (env_world e))"
      using assms(1) i unfolding ioctl_sets_mode_def by (auto dest!: spec [of _ arg] spec [of _ "env_world e"])
    then show ?thesis
      using m i by (auto simp: Io_Control ie mode_agrees_def descriptor_ioctl_def checked_def has_bits
          set_bits [unfolded One_nat_def] split: if_splits)
  next
    case (Elsewhere w)
    then show ?thesis using m by (simp add: ie mode_agrees_def)
  next
    case (Start ty op cont nb)
    obtain i1 calls e1 where r: "service_start_op sys os i ty op cont nb False e = (i1, calls, e1)" by (rule prod_cases3)
    show ?thesis using start_service_mode [OF assms(1,2) m r] r by (simp add: Start ie mode_agrees_def)
  qed
qed

lemma mode_run_agrees:
  assumes "ioctl_sets_mode sys s mode" "keeps_mode os mode" "mode_agrees s mode ie"
  shows "mode_agrees s mode (fold (mode_step sys os mode) as ie)"
  using assms(3) by (induction as arbitrary: ie) (simp_all add: mode_step_agrees [OF assms(1,2)])



end
