(* ===== verification/Socket_Stream.thy ===== *)
theory Socket_Stream
  imports Asio_Socket_Service Asio_Transfer
begin

text \<open>
  The composed \<open>write\<close> over a blocking stream socket: the loop of \<open>impl/write.hpp\<close>, the buffers it prepares,
  the service's \<open>send\<close>, the loop of \<open>socket_ops::sync_send\<close> and the system.
\<close>

section \<open>One send\<close>

text \<open>
  What the system documents: \<open>sendmsg\<close> takes some of the bytes, in order, or fails with an \<open>errno\<close>; it fails with
  \<open>EAGAIN\<close>, 11, only if the socket is not writable; and \<open>poll\<close> waits until it is, or fails.
\<close>

definition stream_socket :: "'w system \<Rightarrow> int \<Rightarrow> ('w \<Rightarrow> nat list) \<Rightarrow> ('w \<Rightarrow> bool) \<Rightarrow> bool" where
  "stream_socket sys s log writable \<longleftrightarrow>
     (\<forall>w bufs. case sys_sendmsg sys s (new_msghdr None 0 bufs) MSG_NOSIGNAL w of (r, errno, w1) \<Rightarrow>
        r \<le> int (length (all_addresses bufs)) \<and> (all_addresses bufs \<noteq> [] \<longrightarrow> r \<noteq> 0) \<and>
        (0 \<le> r \<longrightarrow> log w1 = log w @ take (nat r) (all_addresses bufs)) \<and>
        (r < 0 \<longrightarrow> errno \<noteq> 0 \<and> log w1 = log w \<and> (errno = 11 \<longrightarrow> \<not> writable w))) \<and>
     (\<forall>w. case sys_poll sys s POLLOUT (- 1) w of (r, errno, w1) \<Rightarrow>
        log w1 = log w \<and> (r < 0 \<longrightarrow> errno \<noteq> 0) \<and> (0 \<le> r \<longrightarrow> writable w1))"

lemma sendD:
  assumes "stream_socket sys s log writable" "sock_send sys s bufs 0 ec w = (r, ec1, w1)"
  shows "r \<le> int (length (all_addresses bufs))" "all_addresses bufs \<noteq> [] \<Longrightarrow> r \<noteq> 0"
    "0 \<le> r \<Longrightarrow> log w1 = log w @ take (nat r) (all_addresses bufs)" "r < 0 \<Longrightarrow> is_error ec1 \<and> log w1 = log w"
    "r < 0 \<Longrightarrow> writable w \<Longrightarrow> ec1 \<noteq> would_block \<and> ec1 \<noteq> try_again"
proof -
  obtain x errno w2 where c: "sys_sendmsg sys s (new_msghdr None 0 bufs) MSG_NOSIGNAL w = (x, errno, w2)" by (rule prod_cases3)
  have r: "r = x" "w1 = w2" "ec1 = get_last_error errno (x < 0) ec"
    using assms(2) c by (auto simp: sock_send_def checked_def)
  note law = spec [OF spec [OF conjunct1 [OF assms(1) [unfolded stream_socket_def]], of w], of bufs, unfolded c prod.case]
  show "r \<le> int (length (all_addresses bufs))" "all_addresses bufs \<noteq> [] \<Longrightarrow> r \<noteq> 0"
    "0 \<le> r \<Longrightarrow> log w1 = log w @ take (nat r) (all_addresses bufs)" "r < 0 \<Longrightarrow> is_error ec1 \<and> log w1 = log w"
    "r < 0 \<Longrightarrow> writable w \<Longrightarrow> ec1 \<noteq> would_block \<and> ec1 \<noteq> try_again"
    using law by (auto simp: r get_last_error_def error_codes)
qed

lemma pollD:
  assumes "stream_socket sys s log writable" "sock_poll_write sys s 0 (- 1) ec w = (r, ec1, w1)" "s \<noteq> - 1"
  shows "log w1 = log w" "r < 0 \<Longrightarrow> is_error ec1" "0 \<le> r \<Longrightarrow> writable w1"
proof -
  obtain x errno w2 where c: "sys_poll sys s POLLOUT (- 1) w = (x, errno, w2)" by (rule prod_cases3)
  have "\<not> has 0 user_set_non_blocking" by (simp add: has_def)
  then have r: "r = x" "w1 = w2" "ec1 = get_last_error errno (x < 0) ec"
    using assms(2,3) c by (auto simp: sock_poll_write_def sock_poll_def checked_def)
  note law = spec [OF conjunct2 [OF assms(1) [unfolded stream_socket_def]], of w, unfolded c prod.case]
  show "log w1 = log w" "r < 0 \<Longrightarrow> is_error ec1" "0 \<le> r \<Longrightarrow> writable w1"
    using law by (auto simp: r get_last_error_def error_codes)
qed

text \<open>At most two attempts and a wait between them.\<close>

lemma sync_send_ok:
  assumes "stream_socket sys s log writable" "s \<noteq> - 1"
  shows "\<exists>n ec1 w1. sync_loop (sock_send sys s bufs 0) (sock_poll_write sys s 0 (- 1)) False nb ec w = Some (n, ec1, w1) \<and>
    n \<le> length (all_addresses bufs) \<and> log w1 = log w @ take n (all_addresses bufs) \<and>
    (all_addresses bufs \<noteq> [] \<and> n = 0 \<longrightarrow> is_error ec1)"
proof -
  let ?loop = "sync_loop (sock_send sys s bufs 0) (sock_poll_write sys s 0 (- 1)) False nb"
  have once: "\<exists>n ec1 w1. ?loop ec w = Some (n, ec1, w1) \<and>
      n \<le> length (all_addresses bufs) \<and> log w1 = log w @ take n (all_addresses bufs) \<and>
      (all_addresses bufs \<noteq> [] \<and> n = 0 \<longrightarrow> is_error ec1)"
    if c: "sock_send sys s bufs 0 ec w = (r, ec2, w2)" and "0 \<le> r \<or> nb \<or> ec2 \<noteq> would_block \<and> ec2 \<noteq> try_again" for ec w r ec2 w2
  proof (cases "0 \<le> r")
    case True
    then have "?loop ec w = Some (nat r, ec2, w2)" using c by (subst sync_loop.simps) simp
    then show ?thesis using sendD [OF assms(1) c] True by (auto simp: nat_le_iff)
  next
    case False
    then have "?loop ec w = Some (0, ec2, w2)" using c that(2) by (subst sync_loop.simps) auto
    then show ?thesis using sendD [OF assms(1) c] False by simp
  qed
  obtain r ec2 w2 where c: "sock_send sys s bufs 0 ec w = (r, ec2, w2)" by (rule prod_cases3)
  show ?thesis
  proof (cases "0 \<le> r \<or> nb \<or> ec2 \<noteq> would_block \<and> ec2 \<noteq> try_again")
    case True
    then show ?thesis using once [OF c] by blast
  next
    case False
    obtain x ec3 w3 where p: "sock_poll_write sys s 0 (- 1) ec2 w2 = (x, ec3, w3)" by (rule prod_cases3)
    note P = pollD [OF assms(1) p assms(2)]
    have log: "log w3 = log w" using P(1) sendD(4) [OF assms(1) c] False by simp
    show ?thesis
    proof (cases "x < 0")
      case True
      then have "?loop ec w = Some (0, ec3, w3)" using c p False by (subst sync_loop.simps) auto
      then show ?thesis using P(2) True log by simp
    next
      case ready: False
      then have "?loop ec w = ?loop ec3 w3" using c p False by (subst sync_loop.simps) auto
      moreover obtain y ec4 w4 where c2: "sock_send sys s bufs 0 ec3 w3 = (y, ec4, w4)" by (rule prod_cases3)
      have "0 \<le> y \<or> nb \<or> ec4 \<noteq> would_block \<and> ec4 \<noteq> try_again"
        using sendD(5) [OF assms(1) c2] P(3) ready by fastforce
      note once [OF c2 this]
      ultimately show ?thesis unfolding log by simp
    qed
  qed
qed

section \<open>The stream of a socket\<close>

text \<open>\<open>write_some\<close> of a stream socket, as the composed write calls it.\<close>

definition write_stream :: "'w system \<Rightarrow> socket_impl \<Rightarrow> ('w, error_code) stream" where
  "write_stream sys i w bs =
     (case service_send sys i (Many bs) 0 no_error w of
        None \<Rightarrow> (w, None, 0)
      | Some (n, ec, w1) \<Rightarrow> (w1, if is_error ec then Some ec else None, n))"

lemma service_send_ok:
  assumes "stream_socket sys (impl_socket i) log writable" "impl_socket i \<noteq> - 1" "length (all_addresses (take max_buffers bs)) < 2 ^ 64"
  shows "\<exists>n ec1 w1. service_send sys i (Many bs) 0 no_error w = Some (n, ec1, w1) \<and>
    n \<le> length (all_addresses (take max_buffers bs)) \<and> log w1 = log w @ take n (all_addresses (take max_buffers bs)) \<and>
    (all_addresses (take max_buffers bs) \<noteq> [] \<and> n = 0 \<longrightarrow> is_error ec1)"
proof -
  have e: "adapter_all_empty (Many bs) \<longleftrightarrow> all_addresses (take max_buffers bs) = []"
    using buffers_size_eq [OF assms(3)] by (simp add: adapter_all_empty_def adapter_total_size_def adapter_buffers_def)
  show ?thesis
  proof (cases "all_addresses (take max_buffers bs) = [] \<and> has (impl_state i) stream_oriented")
    case True
    then show ?thesis using assms(2) e by (auto simp: service_send_def sock_sync_send_def clear_error_def)
  next
    case False
    then show ?thesis
      using sync_send_ok [OF assms(1,2), of "take max_buffers bs" "has (impl_state i) user_set_non_blocking" no_error w] assms(2) e
      by (auto simp: service_send_def sock_sync_send_def adapter_buffers_def)
  qed
qed

lemma length_prepare: "length acc \<le> k \<Longrightarrow> length (prepare_loop k bs off m acc) \<le> k"
  by (induction k bs off m acc rule: prepare_loop.induct) (auto simp: Let_def)


text \<open>A system that takes one byte of every send and logs it.\<close>

definition byte_system :: "nat list system" where
  "byte_system = undefined\<lparr>
     sys_sendmsg := (\<lambda>s msg flags w. case all_addresses (msg_iov msg) of [] \<Rightarrow> (0, 0, w) | a # _ \<Rightarrow> (1, 0, w @ [a])),
     sys_poll := (\<lambda>s events timeout w. (1, 0, w))\<rparr>"


end
