(* ===== verification/Asio_Time.thy ===== *)
theory Asio_Time
  imports Prelude "HOL-Library.Signed_Division"
begin

text \<open>
  The arithmetic of times of the bundled asio, detail/chrono\_time\_traits.hpp, over a clock whose
  ticks are 64-bit signed integers: sums and differences that saturate, and the conversion of
  durations. Numbers are unbounded, and every operation of the code that would leave 64 bits is a
  fault.
\<close>

section \<open>64-bit arithmetic\<close>

definition tick_min :: int where
  "tick_min = - (2 ^ 63)"

definition tick_max :: int where
  "tick_max = 2 ^ 63 - 1"

definition in_ticks :: "int \<Rightarrow> bool" where
  "in_ticks x \<longleftrightarrow> tick_min \<le> x \<and> x \<le> tick_max"

definition int64 :: "int \<Rightarrow> int result" where
  "int64 x = (if in_ticks x then Inr x else Inl Signed_Overflow)"

lemma int64_in [simp]: "in_ticks x \<Longrightarrow> int64 x = Inr x"
  by (simp add: int64_def)

section \<open>Sums and differences\<close>

text \<open>The epoch is tick 0.\<close>

definition time_add :: "int \<Rightarrow> int \<Rightarrow> int result" where
  "time_add t d =
     (if t \<ge> 0
      then bindR (int64 (tick_max - t)) (\<lambda>room. if room < d then Inr tick_max else int64 (t + d))
      else bindR (int64 (t - tick_min)) (\<lambda>a. bindR (int64 (- a)) (\<lambda>room.
             if room > d then Inr tick_min else int64 (t + d))))"

definition time_subtract :: "int \<Rightarrow> int \<Rightarrow> int result" where
  "time_subtract t1 t2 =
     (if t1 \<ge> 0
      then (if t2 \<ge> 0 then int64 (t1 - t2)
            else if t2 = tick_min then Inr tick_max
            else bindR (int64 (tick_max - t1)) (\<lambda>room. bindR (int64 (0 - t2)) (\<lambda>n.
                   if room < n then Inr tick_max else int64 (t1 - t2))))
      else (if t2 < 0 then int64 (t1 - t2)
            else if t1 = tick_min then Inr tick_min
            else bindR (int64 (tick_max - t2)) (\<lambda>room. bindR (int64 (0 - t1)) (\<lambda>n.
                   if room < n then Inr tick_min
                   else bindR (int64 (t2 - t1)) (\<lambda>d. int64 (- d))))))"

definition time_less_than :: "int \<Rightarrow> int \<Rightarrow> bool" where
  "time_less_than t1 t2 \<longleftrightarrow> t1 < t2"

text \<open>What they promise: the exact result, cut off at the ends of the range.\<close>

definition saturate :: "int \<Rightarrow> int" where
  "saturate x = max tick_min (min tick_max x)"

lemmas tick_defs = in_ticks_def tick_min_def tick_max_def

lemma saturate_in: "in_ticks (saturate x)"
  by (simp add: saturate_def tick_defs)

lemma time_add_saturates: "in_ticks t \<Longrightarrow> in_ticks d \<Longrightarrow> time_add t d = Inr (saturate (t + d))"
  by (auto simp: time_add_def int64_def saturate_def tick_defs)

lemma time_subtract_saturates: "in_ticks t1 \<Longrightarrow> in_ticks t2 \<Longrightarrow> time_subtract t1 t2 = Inr (saturate (t1 - t2))"
  by (auto simp: time_subtract_def int64_def saturate_def tick_defs)

section \<open>Conversion of durations\<close>

text \<open>The template \<open>gcd\<close>.\<close>

fun gcd_value :: "nat \<Rightarrow> nat \<Rightarrow> nat" where
  "gcd_value v1 0 = v1"
| "gcd_value v1 (Suc v) = gcd_value (Suc v) (v1 mod Suc v)"

lemma gcd_value_gcd: "gcd_value v1 v2 = gcd v1 v2"
  by (induction v1 v2 rule: gcd_value.induct) (simp_all add: gcd_non_0_nat)

text \<open>
  \<open>duration_cast<Num, Den>\<close> of a duration whose ticks are \<open>pnum / pden\<close> seconds. The sums of the
  constants are done by the compiler.
\<close>

definition duration_cast :: "nat \<Rightarrow> nat \<Rightarrow> nat \<Rightarrow> nat \<Rightarrow> int \<Rightarrow> int result" where
  "duration_cast pnum pden Num Den ticks =
     (let num1 = pnum div gcd_value pnum Num; num2 = Num div gcd_value pnum Num;
          den1 = pden div gcd_value pden Den; den2 = Den div gcd_value pden Den;
          num = num1 * den2; den = num2 * den1
      in if num = 1 \<and> den = 1 then Inr ticks
         else if num \<noteq> 1 \<and> den = 1 then int64 (ticks * int num)
         else if num = 1 \<and> pden \<noteq> 1 then Inr (ticks sdiv int den)
         else bindR (int64 (ticks * int num)) (\<lambda>x. Inr (x sdiv int den)))"

definition total_seconds :: "nat \<Rightarrow> nat \<Rightarrow> int \<Rightarrow> int result" where
  "total_seconds pnum pden d = duration_cast pnum pden 1 1 d"

definition total_milliseconds :: "nat \<Rightarrow> nat \<Rightarrow> int \<Rightarrow> int result" where
  "total_milliseconds pnum pden d = duration_cast pnum pden 1 1000 d"

definition total_microseconds :: "nat \<Rightarrow> nat \<Rightarrow> int \<Rightarrow> int result" where
  "total_microseconds pnum pden d = duration_cast pnum pden 1 1000000 d"

text \<open>The ticks of \<open>std::chrono::steady_clock\<close> are nanoseconds.\<close>

lemma sdiv_pos: "0 \<le> d \<Longrightarrow> d sdiv int k = d div int k"
  by (auto simp: signed_divide_int_def sgn_if)

lemma steady_msec: "0 \<le> d \<Longrightarrow> total_milliseconds 1 1000000000 d = Inr (d div 1000000)"
  using sdiv_pos [of d 1000000]
  by (simp add: total_milliseconds_def duration_cast_def gcd_value_gcd)

lemma steady_usec: "0 \<le> d \<Longrightarrow> total_microseconds 1 1000000000 d = Inr (d div 1000)"
  using sdiv_pos [of d 1000]
  by (simp add: total_microseconds_def duration_cast_def gcd_value_gcd)

end
