(* ===== verification/Asio_Timer_Queue.thy ===== *)
theory Asio_Timer_Queue
  imports Asio_Time
begin

text \<open>
  The timers of the bundled asio, detail/timer\_queue.hpp: a binary heap of expiry times in a vector,
  in which every timer knows its index, a doubly linked list of the active timers, and the
  operations that wait on each. Timers are addresses, and \<open>timer_data\<close> is what is stored at each.
  Times are ticks of the steady clock; whether a time is infinite is a parameter, since it is only for one
  of the two clocks asio supports, and so is whether there is memory for the vector to grow.
\<close>

section \<open>State\<close>

text \<open>\<open>per_timer_data\<close>. The largest \<open>size_t\<close> is the index of a timer without an entry in the heap.\<close>

record per_timer_data =
  wait_ops :: "nat list"
  heap_index :: nat
  next_timer :: "nat option"
  prev_timer :: "nat option"

definition no_index :: nat where
  "no_index = 2 ^ 64 - 1"

definition per_timer_data_new :: per_timer_data where
  "per_timer_data_new = \<lparr>wait_ops = [], heap_index = no_index, next_timer = None, prev_timer = None\<rparr>"

text \<open>An entry of the heap is a time and a timer.\<close>

record timer_queue_state =
  first_timer :: "nat option"
  heap :: "(int \<times> nat) list"
  timer_data :: "nat \<Rightarrow> per_timer_data"

definition timer_queue_new :: timer_queue_state where
  "timer_queue_new = \<lparr>first_timer = None, heap = [], timer_data = (\<lambda>_. per_timer_data_new)\<rparr>"

definition upd_timer :: "timer_queue_state \<Rightarrow> nat \<Rightarrow> (per_timer_data \<Rightarrow> per_timer_data) \<Rightarrow> timer_queue_state" where
  "upd_timer q t f = q\<lparr>timer_data := (timer_data q)(t := f (timer_data q t))\<rparr>"

section \<open>The heap\<close>

definition swap_heap :: "timer_queue_state \<Rightarrow> nat \<Rightarrow> nat \<Rightarrow> timer_queue_state" where
  "swap_heap q index1 index2 =
     (let h = (heap q)[index1 := heap q ! index2, index2 := heap q ! index1];
          q1 = upd_timer (q\<lparr>heap := h\<rparr>) (snd (h ! index1)) (\<lambda>d. d\<lparr>heap_index := index1\<rparr>)
      in upd_timer q1 (snd (h ! index2)) (\<lambda>d. d\<lparr>heap_index := index2\<rparr>))"

function up_heap :: "timer_queue_state \<Rightarrow> nat \<Rightarrow> timer_queue_state" where
  "up_heap q index =
     (if index = 0 then q
      else (let parent = (index - 1) div 2
            in if \<not> fst (heap q ! index) < fst (heap q ! parent) then q
               else up_heap (swap_heap q index parent) parent))"
  by pat_completeness auto

termination by (relation "measure snd") auto

definition min_child :: "(int \<times> nat) list \<Rightarrow> nat \<Rightarrow> nat" where
  "min_child h child =
     (if child + 1 = length h \<or> fst (h ! child) < fst (h ! (child + 1)) then child else child + 1)"

lemma length_swap_heap [simp]: "length (heap (swap_heap q i j)) = length (heap q)"
  by (simp add: swap_heap_def upd_timer_def Let_def)

lemma min_child_cases: "child < length h \<Longrightarrow> child \<le> min_child h child \<and> min_child h child < length h"
  by (auto simp: min_child_def)

function down_heap :: "timer_queue_state \<Rightarrow> nat \<Rightarrow> timer_queue_state" where
  "down_heap q index =
     (let child = index * 2 + 1
      in if child \<ge> length (heap q) then q
         else (let c = min_child (heap q) child
               in if fst (heap q ! index) < fst (heap q ! c) then q
                  else down_heap (swap_heap q index c) c))"
  by pat_completeness auto

termination
proof (relation "measure (\<lambda>(q, i). length (heap q) - i)", goal_cases)
  case (2 q index x xa)
  then show ?case using min_child_cases [of x "heap q"] by simp linarith
qed simp

declare up_heap.simps [simp del] down_heap.simps [simp del]

section \<open>Adding, removing and moving\<close>

definition active :: "timer_queue_state \<Rightarrow> nat \<Rightarrow> bool" where
  "active q t \<longleftrightarrow> prev_timer (timer_data q t) \<noteq> None \<or> first_timer q = Some t"

definition pop_back :: "timer_queue_state \<Rightarrow> timer_queue_state" where
  "pop_back q = q\<lparr>heap := butlast (heap q)\<rparr>"

text \<open>\<open>remove_timer\<close>: out of the heap, and out of the list.\<close>

definition remove_from_heap :: "timer_queue_state \<Rightarrow> nat \<Rightarrow> timer_queue_state" where
  "remove_from_heap q t =
     (let index = heap_index (timer_data q t)
      in if heap q \<noteq> [] \<and> index < length (heap q)
         then (if index = length (heap q) - 1
               then pop_back (upd_timer q t (\<lambda>d. d\<lparr>heap_index := no_index\<rparr>))
               else (let q1 = swap_heap q index (length (heap q) - 1);
                         q2 = pop_back (upd_timer q1 t (\<lambda>d. d\<lparr>heap_index := no_index\<rparr>))
                     in if index > 0 \<and> fst (heap q2 ! index) < fst (heap q2 ! ((index - 1) div 2))
                        then up_heap q2 index else down_heap q2 index))
         else q)"

definition unlink :: "timer_queue_state \<Rightarrow> nat \<Rightarrow> timer_queue_state" where
  "unlink q t =
     (let next_t = next_timer (timer_data q t);
          prev_t = prev_timer (timer_data q t);
          q1 = (if first_timer q = Some t then q\<lparr>first_timer := next_t\<rparr> else q);
          q2 = (case prev_t of None \<Rightarrow> q1 | Some p \<Rightarrow> upd_timer q1 p (\<lambda>d. d\<lparr>next_timer := next_t\<rparr>));
          q3 = (case next_timer (timer_data q2 t) of
                  None \<Rightarrow> q2
                | Some n \<Rightarrow> upd_timer q2 n (\<lambda>d. d\<lparr>prev_timer := prev_timer (timer_data q2 t)\<rparr>))
      in upd_timer q3 t (\<lambda>d. d\<lparr>next_timer := None, prev_timer := None\<rparr>))"

definition remove_timer :: "timer_queue_state \<Rightarrow> nat \<Rightarrow> timer_queue_state" where
  "remove_timer q t = unlink (remove_from_heap q t) t"

text \<open>The new timer becomes the first of the list.\<close>

definition link_first :: "timer_queue_state \<Rightarrow> nat \<Rightarrow> timer_queue_state" where
  "link_first q t =
     (let q1 = upd_timer q t (\<lambda>d. d\<lparr>next_timer := first_timer q, prev_timer := None\<rparr>);
          q2 = (case first_timer q1 of None \<Rightarrow> q1 | Some f \<Rightarrow> upd_timer q1 f (\<lambda>d. d\<lparr>prev_timer := Some t\<rparr>))
      in q2\<lparr>first_timer := Some t\<rparr>)"

text \<open>The \<open>max_size\<close> of a vector of entries of 16 bytes.\<close>

definition vector_max :: nat where
  "vector_max = 2 ^ 59 - 1"

definition bad_alloc :: fault where
  "bad_alloc = Exception ''std::bad_alloc'' ''push_back''"

text \<open>
  \<open>enqueue_timer\<close>, with the queue as it is left: where the vector cannot grow, \<open>push_back\<close> throws
  after the index was set. The result says whether the reactor has to be interrupted.
\<close>

definition enqueue_timer :: "(int \<Rightarrow> bool) \<Rightarrow> bool \<Rightarrow> timer_queue_state \<Rightarrow> int \<Rightarrow> nat \<Rightarrow> nat \<Rightarrow>
    timer_queue_state \<times> bool result" where
  "enqueue_timer is_positive_infinity grows q time t op =
     (let new = \<not> active q t;
          heaped = new \<and> \<not> is_positive_infinity time;
          q0 = (if \<not> new then q
                else if heaped then upd_timer q t (\<lambda>d. d\<lparr>heap_index := length (heap q)\<rparr>)
                else upd_timer q t (\<lambda>d. d\<lparr>heap_index := no_index\<rparr>))
      in if heaped \<and> (\<not> grows \<or> length (heap q) \<ge> vector_max) then (q0, Inl bad_alloc)
         else (let q1 = (if heaped then up_heap (q0\<lparr>heap := heap q0 @ [(time, t)]\<rparr>) (length (heap q0)) else q0);
                   q2 = (if new then link_first q1 t else q1);
                   q3 = upd_timer q2 t (\<lambda>d. d\<lparr>wait_ops := wait_ops d @ [op]\<rparr>)
               in (q3, Inr (heap_index (timer_data q3 t) = 0 \<and> hd (wait_ops (timer_data q3 t)) = op))))"

definition timers_empty :: "timer_queue_state \<Rightarrow> bool" where
  "timers_empty q \<longleftrightarrow> first_timer q = None"

text \<open>
  \<open>get_ready_timers\<close>: the operations of the timers that are due. A timer whose index is wrong would
  not leave the heap and keep the loop going.
\<close>

partial_function (option) ready_loop :: "int \<Rightarrow> timer_queue_state \<Rightarrow> nat list \<Rightarrow> (timer_queue_state \<times> nat list) option" where
  "ready_loop now q ops =
     (case heap q of
        [] \<Rightarrow> Some (q, ops)
      | (time, t) # _ \<Rightarrow>
          (if now < time then Some (q, ops)
           else ready_loop now (remove_timer (upd_timer q t (\<lambda>d. d\<lparr>wait_ops := []\<rparr>)) t)
                  (ops @ wait_ops (timer_data q t))))"

definition get_ready_timers :: "int \<Rightarrow> timer_queue_state \<Rightarrow> (timer_queue_state \<times> nat list) option" where
  "get_ready_timers now q = ready_loop now q []"

text \<open>\<open>get_all_timers\<close>.\<close>

partial_function (option) all_loop :: "timer_queue_state \<Rightarrow> nat list \<Rightarrow> (timer_queue_state \<times> nat list) option" where
  "all_loop q ops =
     (case first_timer q of
        None \<Rightarrow> Some (q, ops)
      | Some t \<Rightarrow>
          all_loop (upd_timer (q\<lparr>first_timer := next_timer (timer_data q t)\<rparr>) t
                      (\<lambda>d. d\<lparr>wait_ops := [], next_timer := None, prev_timer := None\<rparr>))
            (ops @ wait_ops (timer_data q t)))"

definition get_all_timers :: "timer_queue_state \<Rightarrow> (timer_queue_state \<times> nat list) option" where
  "get_all_timers q = Option.bind (all_loop q []) (\<lambda>(q', ops). Some (q'\<lparr>heap := []\<rparr>, ops))"

text \<open>\<open>cancel_timer\<close>: the queue, the operations that are aborted, and their number.\<close>

definition cancel_timer :: "timer_queue_state \<Rightarrow> nat \<Rightarrow> nat \<Rightarrow> timer_queue_state \<times> nat list \<times> nat" where
  "cancel_timer q t max_cancelled =
     (if active q t
      then (let ops = wait_ops (timer_data q t);
                q1 = upd_timer q t (\<lambda>d. d\<lparr>wait_ops := drop max_cancelled ops\<rparr>);
                aborted = take max_cancelled ops
            in (if drop max_cancelled ops = [] then remove_timer q1 t else q1, aborted, length aborted))
      else (q, [], 0))"

definition move_timer :: "timer_queue_state \<Rightarrow> nat \<Rightarrow> nat \<Rightarrow> timer_queue_state" where
  "move_timer q target source =
     (let q1 = upd_timer (upd_timer q target (\<lambda>d. d\<lparr>wait_ops := wait_ops d @ wait_ops (timer_data q source),
                                                  heap_index := heap_index (timer_data q source)\<rparr>))
                 source (\<lambda>d. d\<lparr>wait_ops := [], heap_index := no_index\<rparr>);
          i = heap_index (timer_data q1 target);
          q2 = (if i < length (heap q1) then q1\<lparr>heap := (heap q1)[i := (fst (heap q1 ! i), target)]\<rparr> else q1);
          q3 = (if first_timer q2 = Some source then q2\<lparr>first_timer := Some target\<rparr> else q2);
          q4 = (case prev_timer (timer_data q3 source) of
                  None \<Rightarrow> q3 | Some p \<Rightarrow> upd_timer q3 p (\<lambda>d. d\<lparr>next_timer := Some target\<rparr>));
          q5 = (case next_timer (timer_data q4 source) of
                  None \<Rightarrow> q4 | Some n \<Rightarrow> upd_timer q4 n (\<lambda>d. d\<lparr>prev_timer := Some target\<rparr>));
          q6 = upd_timer q5 target (\<lambda>d. d\<lparr>next_timer := next_timer (timer_data q5 source),
                                        prev_timer := prev_timer (timer_data q5 source)\<rparr>)
      in upd_timer q6 source (\<lambda>d. d\<lparr>next_timer := None, prev_timer := None\<rparr>))"

section \<open>How long to wait\<close>

text \<open>
  The duration in milliseconds or microseconds of the steady clock, at least 1 if it is positive.
  \<open>WaitTraits\<close> leaves durations as they are.
\<close>

definition to_msec :: "int \<Rightarrow> int \<Rightarrow> int result" where
  "to_msec d max_duration =
     (if d \<le> 0 then Inr 0
      else bindR (total_milliseconds 1 1000000000 d) (\<lambda>msec.
             if msec = 0 then Inr 1 else if msec > max_duration then Inr max_duration else Inr msec))"

definition to_usec :: "int \<Rightarrow> int \<Rightarrow> int result" where
  "to_usec d max_duration =
     (if d \<le> 0 then Inr 0
      else bindR (total_microseconds 1 1000000000 d) (\<lambda>usec.
             if usec = 0 then Inr 1 else if usec > max_duration then Inr max_duration else Inr usec))"

definition wait_duration_msec :: "int \<Rightarrow> timer_queue_state \<Rightarrow> int \<Rightarrow> int result" where
  "wait_duration_msec now q max_duration =
     (case heap q of
        [] \<Rightarrow> Inr max_duration
      | (time, _) # _ \<Rightarrow> bindR (time_subtract time now) (\<lambda>d. to_msec d max_duration))"

definition wait_duration_usec :: "int \<Rightarrow> timer_queue_state \<Rightarrow> int \<Rightarrow> int result" where
  "wait_duration_usec now q max_duration =
     (case heap q of
        [] \<Rightarrow> Inr max_duration
      | (time, _) # _ \<Rightarrow> bindR (time_subtract time now) (\<lambda>d. to_usec d max_duration))"

end
