(* ===== verification/Timer_Heap.thy ===== *)
theory Timer_Heap
  imports Asio_Timer_Queue "HOL-Library.Multiset"
begin

text \<open>
  The heap of asio's timer queue: \<open>up_heap\<close>, \<open>down_heap\<close> and the removal of an entry keep the heap in
  order and every timer's index right, and change nothing else.
\<close>

section \<open>Heaps in an array\<close>

definition par :: "nat \<Rightarrow> nat" where
  "par i = (i - 1) div 2"

definition heap_ok :: "(int \<times> nat) list \<Rightarrow> bool" where
  "heap_ok h \<longleftrightarrow> (\<forall>i. 0 < i \<and> i < length h \<longrightarrow> fst (h ! par i) \<le> fst (h ! i))"

text \<open>A heap but for one entry, which may be too small for its place, or too large.\<close>

definition heap_but_up :: "(int \<times> nat) list \<Rightarrow> nat \<Rightarrow> bool" where
  "heap_but_up h k \<longleftrightarrow> (\<forall>i. 0 < i \<and> i < length h \<longrightarrow>
     (i \<noteq> k \<longrightarrow> fst (h ! par i) \<le> fst (h ! i)) \<and> (par i = k \<and> 0 < k \<longrightarrow> fst (h ! par k) \<le> fst (h ! i)))"

definition heap_but_down :: "(int \<times> nat) list \<Rightarrow> nat \<Rightarrow> bool" where
  "heap_but_down h k \<longleftrightarrow> (\<forall>i. 0 < i \<and> i < length h \<longrightarrow>
     (par i \<noteq> k \<longrightarrow> fst (h ! par i) \<le> fst (h ! i)) \<and> (par i = k \<and> 0 < k \<longrightarrow> fst (h ! par k) \<le> fst (h ! i)))"

definition swapped :: "'a list \<Rightarrow> nat \<Rightarrow> nat \<Rightarrow> 'a list" where
  "swapped h i j = h[i := h ! j, j := h ! i]"

lemma par_less: "0 < i \<Longrightarrow> par i < i"
  by (auto simp: par_def)

lemma par_children: "0 < i \<Longrightarrow> par i = k \<longleftrightarrow> i = k * 2 + 1 \<or> i = k * 2 + 2"
  by (auto simp: par_def)

lemma length_swapped [simp]: "length (swapped h i j) = length h"
  by (simp add: swapped_def)

lemma swapped_nth: "i < length h \<Longrightarrow> j < length h \<Longrightarrow>
    swapped h i j ! k = (if k = j then h ! i else if k = i then h ! j else h ! k)"
  by (simp add: swapped_def nth_list_update)

lemma mset_swapped: "i < length h \<Longrightarrow> j < length h \<Longrightarrow> mset (swapped h i j) = mset h"
  unfolding swapped_def by (rule mset_swap)

lemma heap_min: "heap_ok h \<Longrightarrow> i < length h \<Longrightarrow> fst (h ! 0) \<le> fst (h ! i)"
proof (induction i rule: less_induct)
  case (less i)
  show ?case
  proof (cases "i = 0")
    case False
    then have "par i < length h" using less.prems par_less [of i] by simp
    then have "fst (h ! 0) \<le> fst (h ! par i)" using less par_less [of i] False by simp
    also have "\<dots> \<le> fst (h ! i)" using less.prems False by (simp add: heap_ok_def)
    finally show ?thesis .
  qed simp
qed

lemma heap_ok_butlast: "heap_ok h \<Longrightarrow> heap_ok (butlast h)"
proof -
  assume h: "heap_ok h"
  have "fst (butlast h ! par i) \<le> fst (butlast h ! i)" if "0 < i" "i < length (butlast h)" for i
  proof -
    have "par i < length (butlast h)" using that par_less [of i] by simp
    then show ?thesis using h that by (simp add: nth_butlast heap_ok_def)
  qed
  then show ?thesis by (simp add: heap_ok_def)
qed

lemma up_step:
  assumes "heap_but_up h k" "0 < k" "k < length h" "fst (h ! k) < fst (h ! par k)"
  shows "heap_but_up (swapped h k (par k)) (par k)"
proof -
  let ?p = "par k" and ?h = "swapped h k (par k)"
  have p: "?p < length h" "?p < k" using assms(2,3) par_less [of k] by simp_all
  note n = swapped_nth [OF assms(3) p(1)]
  have a: "fst (h ! par i) \<le> fst (h ! i)" if "0 < i" "i < length h" "i \<noteq> k" for i
    using assms(1) that by (simp add: heap_but_up_def)
  have b: "fst (h ! ?p) \<le> fst (h ! i)" if "0 < i" "i < length h" "par i = k" for i
    using assms(1,2) that by (simp add: heap_but_up_def)
  have "fst (?h ! par i) \<le> fst (?h ! i)" if i: "0 < i" "i < length h" "i \<noteq> ?p" for i
    using a [OF i(1,2)] b [OF i(1,2)] assms(2,4) i(3) p(2) par_less [OF i(1)]
    by (cases "i = k"; cases "par i = k"; cases "par i = ?p") (auto simp: n)
  moreover have "fst (?h ! par ?p) \<le> fst (?h ! i)" if i: "0 < i" "i < length h" "par i = ?p" "0 < ?p" for i
  proof -
    have "fst (h ! par ?p) \<le> fst (h ! ?p)" using a [of ?p] i(4) p by simp
    moreover have "par ?p \<noteq> ?p" "par ?p \<noteq> k" "i \<noteq> ?p" using i(1,3,4) p(2) par_less [of ?p] par_less [of i] by auto
    moreover have "i \<noteq> k \<Longrightarrow> fst (h ! ?p) \<le> fst (h ! i)" using a [OF i(1,2)] i(3) by simp
    ultimately show ?thesis by (auto simp: n)
  qed
  ultimately show ?thesis by (auto simp: heap_but_up_def)
qed

lemma down_step:
  assumes "heap_but_down h k" "c < length h" "par c = k" "0 < c" "fst (h ! c) \<le> fst (h ! k)"
    and "\<And>i. 0 < i \<Longrightarrow> i < length h \<Longrightarrow> par i = k \<Longrightarrow> fst (h ! c) \<le> fst (h ! i)"
  shows "heap_but_down (swapped h k c) c"
proof -
  let ?h = "swapped h k c"
  have k: "k < length h" "k < c" using assms(2-4) par_less [of c] by auto
  note n = swapped_nth [OF k(1) assms(2)]
  have a: "fst (h ! par i) \<le> fst (h ! i)" if "0 < i" "i < length h" "par i \<noteq> k" for i
    using assms(1) that by (simp add: heap_but_down_def)
  have b: "fst (h ! par k) \<le> fst (h ! i)" if "0 < i" "i < length h" "par i = k" "0 < k" for i
    using assms(1) that by (simp add: heap_but_down_def)
  have "fst (?h ! par i) \<le> fst (?h ! i)" if i: "0 < i" "i < length h" "par i \<noteq> c" for i
    using a [OF i(1,2)] assms(3,5) assms(6) [OF i(1,2)] b [of c] assms(2,4) i k par_less [OF i(1)]
    by (cases "i = k"; cases "i = c"; cases "par i = k") (auto simp: n)
  moreover have "fst (?h ! par c) \<le> fst (?h ! i)" if i: "0 < i" "i < length h" "par i = c" for i
    using a [OF i(1,2)] assms(3) i k par_less [OF i(1)] by (auto simp: n)
  ultimately show ?thesis by (auto simp: heap_but_down_def)
qed

lemma heap_but_up_ok: "heap_but_up h k \<Longrightarrow> k = 0 \<or> fst (h ! par k) \<le> fst (h ! k) \<Longrightarrow> heap_ok h"
  by (auto simp: heap_but_up_def heap_ok_def)

lemma heap_but_down_ok:
  "heap_but_down h k \<Longrightarrow> (\<And>i. 0 < i \<Longrightarrow> i < length h \<Longrightarrow> par i = k \<Longrightarrow> fst (h ! k) \<le> fst (h ! i)) \<Longrightarrow> heap_ok h"
  by (auto simp: heap_but_down_def heap_ok_def)

section \<open>The indexes of the timers\<close>

definition index_ok :: "timer_queue_state \<Rightarrow> bool" where
  "index_ok q \<longleftrightarrow> (\<forall>i < length (heap q). heap_index (timer_data q (snd (heap q ! i))) = i)"

text \<open>What the operations on the heap leave alone.\<close>

definition same_rest :: "timer_queue_state \<Rightarrow> timer_queue_state \<Rightarrow> bool" where
  "same_rest q q' \<longleftrightarrow> first_timer q' = first_timer q \<and>
     (\<forall>t. wait_ops (timer_data q' t) = wait_ops (timer_data q t) \<and>
          next_timer (timer_data q' t) = next_timer (timer_data q t) \<and>
          prev_timer (timer_data q' t) = prev_timer (timer_data q t))"

definition heap_moved :: "timer_queue_state \<Rightarrow> timer_queue_state \<Rightarrow> bool" where
  "heap_moved q q' \<longleftrightarrow> same_rest q q' \<and> mset (heap q') = mset (heap q) \<and>
     (\<forall>t. t \<notin> snd ` set (heap q) \<longrightarrow> timer_data q' t = timer_data q t)"

lemma same_rest_refl [simp]: "same_rest q q"
  by (simp add: same_rest_def)

lemma same_rest_trans: "same_rest q q' \<Longrightarrow> same_rest q' q'' \<Longrightarrow> same_rest q q''"
  by (simp add: same_rest_def)

lemma heap_moved_refl [simp]: "heap_moved q q"
  by (simp add: heap_moved_def)

lemma heap_moved_set: "heap_moved q q' \<Longrightarrow> set (heap q') = set (heap q) \<and> length (heap q') = length (heap q)"
  by (metis heap_moved_def mset_eq_length set_mset_mset)

lemma heap_moved_trans: "heap_moved q q' \<Longrightarrow> heap_moved q' q'' \<Longrightarrow> heap_moved q q''"
  using heap_moved_set [of q q'] by (auto simp: heap_moved_def intro: same_rest_trans)

lemma index_inj:
  "index_ok q \<Longrightarrow> i < length (heap q) \<Longrightarrow> j < length (heap q) \<Longrightarrow> snd (heap q ! i) = snd (heap q ! j) \<Longrightarrow> i = j"
  by (metis index_ok_def)

lemma heap_swap_heap [simp]: "heap (swap_heap q i j) = swapped (heap q) i j"
  by (simp add: swap_heap_def swapped_def upd_timer_def Let_def)

lemma swap_heap_ok:
  assumes "index_ok q" "i < length (heap q)" "j < length (heap q)"
  shows "index_ok (swap_heap q i j) \<and> heap_moved q (swap_heap q i j)"
proof -
  note n = swapped_nth [OF assms(2,3)]
  have idx: "heap_index (timer_data (swap_heap q i j) t) =
      (if t = snd (heap q ! i) then j else if t = snd (heap q ! j) then i else heap_index (timer_data q t))" for t
    using assms(2,3) n [of i] n [of j]
    by (auto simp: swap_heap_def upd_timer_def Let_def swapped_def)
  have "index_ok (swap_heap q i j)"
    using assms index_inj [OF assms(1)] by (auto simp: index_ok_def idx n)
  moreover have "snd (heap q ! i) \<in> snd ` set (heap q)" "snd (heap q ! j) \<in> snd ` set (heap q)"
    using assms by auto
  then have "heap_moved q (swap_heap q i j)"
    using mset_swapped [OF assms(2,3)] n [of i] n [of j] assms(2,3)
    by (auto simp: heap_moved_def same_rest_def swap_heap_def upd_timer_def Let_def swapped_def)
  ultimately show ?thesis by blast
qed

lemma up_heap_ok:
  "index_ok q \<Longrightarrow> i < length (heap q) \<Longrightarrow> index_ok (up_heap q i) \<and> heap_moved q (up_heap q i) \<and>
     (heap_but_up (heap q) i \<longrightarrow> heap_ok (heap (up_heap q i)))"
proof (induction q i rule: up_heap.induct)
  case (1 q i)
  note step = up_heap.simps [of q i]
  show ?case
  proof (cases "i = 0 \<or> \<not> fst (heap q ! i) < fst (heap q ! par i)")
    case True
    then show ?thesis using "1.prems" step heap_but_up_ok [of "heap q" i] by (auto simp: par_def Let_def)
  next
    case False
    let ?q = "swap_heap q i (par i)"
    have p: "par i < length (heap q)" using "1.prems"(2) False par_less [of i] by simp
    note s = swap_heap_ok [OF "1.prems" p]
    have u: "up_heap q i = up_heap ?q (par i)" using step False by (simp add: par_def Let_def)
    have "index_ok (up_heap ?q (par i)) \<and> heap_moved ?q (up_heap ?q (par i)) \<and>
        (heap_but_up (heap ?q) (par i) \<longrightarrow> heap_ok (heap (up_heap ?q (par i))))"
      using "1.IH" [of "par i"] s p False by (simp add: par_def)
    then show ?thesis
      using u s heap_moved_trans up_step [of "heap q" i] "1.prems"(2) False by (auto simp: heap_swap_heap)
  qed
qed

lemma min_child_least:
  assumes "i * 2 + 1 < length h"
  shows "min_child h (i * 2 + 1) < length h" "par (min_child h (i * 2 + 1)) = i" "0 < min_child h (i * 2 + 1)"
    and "\<And>j. 0 < j \<Longrightarrow> j < length h \<Longrightarrow> par j = i \<Longrightarrow> fst (h ! min_child h (i * 2 + 1)) \<le> fst (h ! j)"
  using assms by (auto simp: min_child_def par_children)

lemma down_heap_ok:
  "index_ok q \<Longrightarrow> i < length (heap q) \<Longrightarrow> index_ok (down_heap q i) \<and> heap_moved q (down_heap q i) \<and>
     (heap_but_down (heap q) i \<longrightarrow> heap_ok (heap (down_heap q i)))"
proof (induction q i rule: down_heap.induct)
  case (1 q i)
  note step = down_heap.simps [of q i]
  let ?c = "min_child (heap q) (i * 2 + 1)"
  consider (leaf) "length (heap q) \<le> i * 2 + 1"
    | (stop) "i * 2 + 1 < length (heap q)" "fst (heap q ! i) < fst (heap q ! ?c)"
    | (go) "i * 2 + 1 < length (heap q)" "\<not> fst (heap q ! i) < fst (heap q ! ?c)" by linarith
  then show ?case
  proof cases
    case leaf
    have "heap_ok (heap q)" if "heap_but_down (heap q) i"
      by (rule heap_but_down_ok [OF that]) (use leaf in \<open>auto simp: par_children\<close>)
    moreover have "down_heap q i = q" unfolding step Let_def using leaf by simp
    ultimately show ?thesis using "1.prems" by simp
  next
    case stop
    have "heap_ok (heap q)" if "heap_but_down (heap q) i"
    proof (rule heap_but_down_ok [OF that])
      fix j assume "0 < j" "j < length (heap q)" "par j = i"
      from min_child_least(4) [OF stop(1) this] stop(2) show "fst (heap q ! i) \<le> fst (heap q ! j)" by linarith
    qed
    moreover have "down_heap q i = q" unfolding step Let_def using stop by simp
    ultimately show ?thesis using "1.prems" by simp
  next
    case go
    let ?q = "swap_heap q i ?c"
    note c = min_child_least [OF go(1)]
    note s = swap_heap_ok [OF "1.prems" c(1)]
    have d: "down_heap q i = down_heap ?q ?c" unfolding step Let_def using go by simp
    have "fst (heap q ! ?c) \<le> fst (heap q ! i)" using go(2) by linarith
    from down_step [OF _ c(1,2,3) this c(4)]
    have "heap_but_down (heap q) i \<Longrightarrow> heap_but_down (heap ?q) ?c" unfolding heap_swap_heap .
    moreover have "index_ok (down_heap ?q ?c) \<and> heap_moved ?q (down_heap ?q ?c) \<and>
        (heap_but_down (heap ?q) ?c \<longrightarrow> heap_ok (heap (down_heap ?q ?c)))"
      by (rule "1.IH" [OF refl _ refl go(2)]) (use s c(1) go(1) in \<open>simp_all only: heap_swap_heap length_swapped not_le conj_absorb\<close>)
    ultimately show ?thesis unfolding d using s heap_moved_trans [of q ?q "down_heap ?q ?c"] by blast
  qed
qed

section \<open>Removing an entry\<close>

lemma mset_butlast: "xs \<noteq> [] \<Longrightarrow> mset (butlast xs) = mset xs - {#last xs#}"
  by (metis add_mset_add_single add_mset_remove_trivial append_butlast_last_id mset_append mset_single_iff_right
      union_mset_add_mset_right)

text \<open>The last entry put in the place of another is too small or too large for it, or right.\<close>

definition filled :: "(int \<times> nat) list \<Rightarrow> nat \<Rightarrow> (int \<times> nat) list" where
  "filled h i = butlast (swapped h i (length h - 1))"

lemma filled_nth: "i < length h - 1 \<Longrightarrow> j < length h - 1 \<Longrightarrow> filled h i ! j = (if j = i then last h else h ! j)"
proof -
  assume a: "i < length h - 1" "j < length h - 1"
  then have "h \<noteq> []" by auto
  then show ?thesis using a swapped_nth [of i h "length h - 1" j] by (simp add: filled_def nth_butlast last_conv_nth)
qed

lemma length_filled [simp]: "length (filled h i) = length h - 1"
  by (simp add: filled_def)

lemma filled_heap:
  assumes "heap_ok h" "i < length h - 1"
  shows "if 0 < i \<and> fst (filled h i ! i) < fst (filled h i ! par i)
     then heap_but_up (filled h i) i else heap_but_down (filled h i) i"
proof -
  note n = filled_nth [OF assms(2)]
  have p: "par i < length h - 1" "0 < i \<Longrightarrow> par i \<noteq> i"
    using assms(2) by (auto simp: par_def)
  have a: "fst (h ! par j) \<le> fst (h ! j)" if "0 < j" "j < length h - 1" for j
    using assms(1) that by (simp add: heap_ok_def)
  have b: "fst (h ! par i) \<le> fst (h ! j)" if "0 < j" "j < length h - 1" "par j = i" "0 < i" for j
    using a [OF that(1,2)] a [OF that(4) assms(2)] that(3) by simp
  have "heap_but_up (filled h i) i" if "0 < i" "fst (filled h i ! i) < fst (filled h i ! par i)"
    unfolding heap_but_up_def
  proof (intro allI impI)
    fix j assume j: "0 < j \<and> j < length (filled h i)"
    then have l: "j < length h - 1" "par j < length h - 1" using par_less [of j] by simp_all
    show "(j \<noteq> i \<longrightarrow> fst (filled h i ! par j) \<le> fst (filled h i ! j)) \<and>
        (par j = i \<and> 0 < i \<longrightarrow> fst (filled h i ! par i) \<le> fst (filled h i ! j))"
      using a [OF _ l(1)] b [OF _ l(1)] that j p assms(2) par_less [of j] by (auto simp: n l)
  qed
  moreover have "heap_but_down (filled h i) i" if "\<not> (0 < i \<and> fst (filled h i ! i) < fst (filled h i ! par i))"
    unfolding heap_but_down_def
  proof (intro allI impI)
    fix j assume j: "0 < j \<and> j < length (filled h i)"
    then have l: "j < length h - 1" "par j < length h - 1" using par_less [of j] by simp_all
    show "(par j \<noteq> i \<longrightarrow> fst (filled h i ! par j) \<le> fst (filled h i ! j)) \<and>
        (par j = i \<and> 0 < i \<longrightarrow> fst (filled h i ! par i) \<le> fst (filled h i ! j))"
      using a [OF _ l(1)] b [OF _ l(1)] that j p assms(2) par_less [of j] by (auto simp: n l not_less)
  qed
  ultimately show ?thesis by simp
qed

lemma mset_filled:
  assumes "i < length h - 1"
  shows "mset (filled h i) = mset h - {#h ! i#}"
proof -
  let ?s = "swapped h i (length h - 1)"
  have k: "i < length h" "length h - 1 < length h" using assms by auto
  have "0 < length ?s" using k(1) unfolding length_swapped by linarith
  then have s: "?s \<noteq> []" by (rule length_greater_0_conv [THEN iffD1])
  have "last ?s = h ! i" using swapped_nth [OF k, of "length h - 1"] s by (simp add: last_conv_nth)
  then show ?thesis unfolding filled_def mset_butlast [OF s] mset_swapped [OF k] by simp
qed

lemma pop_back_index:
  assumes "index_ok q" "heap q \<noteq> []" "snd (last (heap q)) = t"
  shows "index_ok (pop_back (upd_timer q t (\<lambda>d. d\<lparr>heap_index := no_index\<rparr>)))"
proof -
  have "snd (heap q ! i) \<noteq> t" if "i < length (heap q) - 1" for i
    using index_inj [OF assms(1), of i "length (heap q) - 1"] that assms(2,3) by (auto simp: last_conv_nth)
  then show ?thesis using assms(1) by (auto simp: index_ok_def pop_back_def upd_timer_def nth_butlast)
qed

lemma remove_from_heap_ok:
  assumes "index_ok q" "heap_ok (heap q)" "i < length (heap q)" "snd (heap q ! i) = t"
  shows "index_ok (remove_from_heap q t) \<and> heap_ok (heap (remove_from_heap q t)) \<and>
    same_rest q (remove_from_heap q t) \<and> mset (heap (remove_from_heap q t)) = mset (heap q) - {#heap q ! i#} \<and>
    (\<forall>u. u \<notin> snd ` set (heap q) \<longrightarrow> timer_data (remove_from_heap q t) u = timer_data q u)"
proof -
  let ?none = "\<lambda>d. d\<lparr>heap_index := no_index\<rparr>"
  have i: "heap_index (timer_data q t) = i" "heap q \<noteq> []" using assms(1,3,4) by (auto simp: index_ok_def)
  have t: "t \<in> snd ` set (heap q)" using assms(3,4) by auto
  show ?thesis
  proof (cases "i = length (heap q) - 1")
    case True
    have r: "remove_from_heap q t = pop_back (upd_timer q t ?none)"
      using i True assms(3) by (simp add: remove_from_heap_def)
    have l: "last (heap q) = heap q ! i" using True i(2) by (simp add: last_conv_nth)
    then have "index_ok (remove_from_heap q t)" unfolding r using pop_back_index [OF assms(1) i(2)] assms(4) by simp
    then show ?thesis unfolding r using assms(2) l i(2) t
      by (auto simp: pop_back_def upd_timer_def same_rest_def heap_ok_butlast mset_butlast)
  next
    case False
    then have lt: "i < length (heap q) - 1" using assms(3) by simp
    let ?q1 = "swap_heap q i (length (heap q) - 1)"
    define q2 where "q2 = pop_back (upd_timer ?q1 t ?none)"
    have s: "index_ok ?q1" "heap_moved q ?q1" using swap_heap_ok [OF assms(1,3), of "length (heap q) - 1"] i(2) by simp_all
    have h: "heap q2 = filled (heap q) i" by (simp add: q2_def pop_back_def upd_timer_def filled_def)
    have "snd (last (heap ?q1)) = t" "heap ?q1 \<noteq> []"
      using assms(3,4) swapped_nth [OF assms(3), of "length (heap q) - 1"] i(2)
      by (auto simp: last_conv_nth simp flip: length_0_conv)
    then have ok: "index_ok q2" unfolding q2_def using pop_back_index [OF s(1)] by blast
    have rest: "same_rest q q2" "u \<notin> snd ` set (heap q) \<Longrightarrow> timer_data q2 u = timer_data q u" for u
      using s(2) t by (auto simp: heap_moved_def same_rest_def q2_def pop_back_def upd_timer_def)
    have l: "i < length (heap q2)" using lt h by simp
    have sub: "snd ` set (heap q2) \<subseteq> snd ` set (heap q)"
      using mset_filled [OF lt] h by (metis image_mono diff_subset_eq_self set_mset_mono set_mset_mset)
    have r: "remove_from_heap q t = (if 0 < i \<and> fst (filled (heap q) i ! i) < fst (filled (heap q) i ! par i)
        then up_heap q2 i else down_heap q2 i)"
      unfolding h [symmetric] using i False assms(3) by (simp add: remove_from_heap_def Let_def par_def q2_def)
    have "\<exists>q'. remove_from_heap q t = q' \<and> index_ok q' \<and> heap_moved q2 q' \<and> heap_ok (heap q')"
      using up_heap_ok [OF ok l] down_heap_ok [OF ok l] filled_heap [OF assms(2) lt]
      unfolding r h by (simp split: if_splits)
    then obtain q' where q': "remove_from_heap q t = q'" "index_ok q'" "heap_moved q2 q'" "heap_ok (heap q')" by blast
    have "timer_data q' u = timer_data q u" if "u \<notin> snd ` set (heap q)" for u
    proof -
      have "u \<notin> snd ` set (heap q2)" using sub that by blast
      then show ?thesis using rest(2) [OF that] q'(3) by (simp add: heap_moved_def)
    qed
    then show ?thesis using rest(1) q' mset_filled [OF lt] h
      by (auto simp: heap_moved_def intro: same_rest_trans)
  qed
qed

end
