(* ===== verification/Timer_Queue_Props.thy ===== *)
theory Timer_Queue_Props
  imports Timer_Heap
begin

text \<open>
  What asio's timer queue promises: for every timer that has operations waiting, when it expires and
  which operations they are. The heap, the indexes and the linked list of the code implement that,
  and operations come out in the order in which their timers expire.
\<close>

section \<open>The list of active timers\<close>

definition fst_opt :: "nat list \<Rightarrow> nat option \<Rightarrow> nat option" where
  "fst_opt xs n = (case xs of [] \<Rightarrow> n | x # _ \<Rightarrow> Some x)"

fun seg :: "(nat \<Rightarrow> per_timer_data) \<Rightarrow> nat option \<Rightarrow> nat list \<Rightarrow> nat option \<Rightarrow> bool" where
  "seg d p [] n = True"
| "seg d p (x # xs) n \<longleftrightarrow> prev_timer (d x) = p \<and> next_timer (d x) = fst_opt xs n \<and> seg d (Some x) xs n"

definition last_opt :: "nat option \<Rightarrow> nat list \<Rightarrow> nat option" where
  "last_opt p xs = (if xs = [] then p else Some (last xs))"

definition dll :: "timer_queue_state \<Rightarrow> nat list \<Rightarrow> bool" where
  "dll q xs \<longleftrightarrow> distinct xs \<and> first_timer q = fst_opt xs None \<and> seg (timer_data q) None xs None \<and>
     (\<forall>t. t \<notin> set xs \<longrightarrow> next_timer (timer_data q t) = None \<and> prev_timer (timer_data q t) = None)"

lemma fst_opt_simps [simp]: "fst_opt [] n = n" "fst_opt (x # xs) n = Some x" "fst_opt (xs @ ys) n = fst_opt xs (fst_opt ys n)"
  by (simp_all add: fst_opt_def split: list.split)

lemma fst_opt_mem: "fst_opt xs (Some p) = Some t \<Longrightarrow> t = p \<or> t \<in> set xs"
  by (cases xs) auto

lemma last_opt_simps [simp]: "last_opt p [] = p" "last_opt p (xs @ [x]) = Some x"
    "last_opt p (x # xs) = last_opt (Some x) xs"
  by (simp_all add: last_opt_def)

lemma seg_append: "seg d p (xs @ ys) n \<longleftrightarrow> seg d p xs (fst_opt ys n) \<and> seg d (last_opt p xs) ys n"
  by (induction xs arbitrary: p) auto

lemma seg_cong:
  "(\<And>x. x \<in> set xs \<Longrightarrow> next_timer (d' x) = next_timer (d x) \<and> prev_timer (d' x) = prev_timer (d x)) \<Longrightarrow>
     seg d' p xs n = seg d p xs n"
  by (induction xs arbitrary: p) auto

lemma dll_same_rest: "same_rest q q' \<Longrightarrow> dll q xs \<Longrightarrow> dll q' xs"
  using seg_cong [of xs "timer_data q'" "timer_data q"] by (simp add: dll_def same_rest_def)

lemma dll_active: "dll q xs \<Longrightarrow> active q t \<longleftrightarrow> t \<in> set xs"
proof -
  assume d: "dll q xs"
  have "active q t" if t: "t \<in> set xs"
  proof -
    obtain ys zs where x: "xs = ys @ t # zs" using t by (auto simp: in_set_conv_decomp)
    then show ?thesis using d by (cases ys rule: rev_cases) (auto simp: dll_def active_def seg_append)
  qed
  moreover have "t \<in> set xs" if "active q t"
    using that d by (cases xs) (auto simp: dll_def active_def)
  ultimately show ?thesis by blast
qed

text \<open>What linking leaves alone.\<close>

definition same_waits :: "timer_queue_state \<Rightarrow> timer_queue_state \<Rightarrow> bool" where
  "same_waits q q' \<longleftrightarrow> heap q' = heap q \<and> (\<forall>t. wait_ops (timer_data q' t) = wait_ops (timer_data q t) \<and>
     heap_index (timer_data q' t) = heap_index (timer_data q t))"

lemma unlink_dll:
  assumes "dll q xs" "t \<in> set xs"
  shows "dll (unlink q t) (remove1 t xs) \<and> same_waits q (unlink q t)"
proof -
  obtain ys zs where x: "xs = ys @ t # zs" using assms(2) by (auto simp: in_set_conv_decomp)
  have d: "distinct (ys @ t # zs)" "seg (timer_data q) None ys (Some t)" "seg (timer_data q) (Some t) zs None"
    "prev_timer (timer_data q t) = last_opt None ys" "next_timer (timer_data q t) = fst_opt zs None"
    "first_timer q = fst_opt ys (Some t)"
    "\<And>u. u \<notin> set xs \<Longrightarrow> next_timer (timer_data q u) = None \<and> prev_timer (timer_data q u) = None"
    using assms(1) by (simp_all add: dll_def x seg_append)
  have r: "remove1 t xs = ys @ zs" using d(1) by (simp add: x remove1_append)
  have "dll (unlink q t) (ys @ zs)"
  proof (cases ys rule: rev_cases)
    case Nil
    then show ?thesis using d x
      by (cases zs) (auto simp: dll_def unlink_def upd_timer_def Let_def seg_append
          intro!: seg_cong [THEN iffD1, of _ "timer_data q"])
  next
    case (snoc ys' p)
    then show ?thesis using d x
      by (cases zs) (auto simp: dll_def unlink_def upd_timer_def Let_def seg_append
          dest: fst_opt_mem intro!: seg_cong [THEN iffD1, of _ "timer_data q"])
  qed
  moreover have "same_waits q (unlink q t)"
    by (auto simp: same_waits_def unlink_def upd_timer_def Let_def split: option.splits)
  ultimately show ?thesis by (simp add: r)
qed

lemma link_first_dll:
  assumes "dll q xs" "t \<notin> set xs"
  shows "dll (link_first q t) (t # xs) \<and> same_waits q (link_first q t)"
proof -
  have "same_waits q (link_first q t)"
    by (auto simp: same_waits_def link_first_def upd_timer_def Let_def split: option.splits)
  moreover have "dll (link_first q t) (t # xs)"
    using assms by (cases xs) (auto simp: dll_def link_first_def upd_timer_def Let_def
        intro!: seg_cong [THEN iffD1, of _ "timer_data q"])
  ultimately show ?thesis by blast
qed

section \<open>The invariant\<close>

text \<open>
  The heap is in order and has an entry for every active timer but those that never expire; and the
  active timers are those with operations waiting.
\<close>

definition heap_part :: "timer_queue_state \<Rightarrow> nat set \<Rightarrow> bool" where
  "heap_part q ts \<longleftrightarrow> heap_ok (heap q) \<and> index_ok q \<and> snd ` set (heap q) \<subseteq> ts \<and>
     (\<forall>t \<in> ts - snd ` set (heap q). heap_index (timer_data q t) = no_index) \<and> length (heap q) \<le> vector_max"

definition waits_part :: "timer_queue_state \<Rightarrow> nat set \<Rightarrow> bool" where
  "waits_part q ts \<longleftrightarrow> (\<forall>t. wait_ops (timer_data q t) \<noteq> [] \<longleftrightarrow> t \<in> ts)"

definition tq_inv :: "timer_queue_state \<Rightarrow> bool" where
  "tq_inv q \<longleftrightarrow> (\<exists>xs. dll q xs \<and> heap_part q (set xs) \<and> waits_part q (set xs))"

lemma tq_inv_new: "tq_inv timer_queue_new"
  unfolding tq_inv_def
  by (rule exI [of _ "[]"]) (simp add: dll_def heap_part_def heap_ok_def index_ok_def waits_part_def
      timer_queue_new_def per_timer_data_new_def)

lemma heap_part_cong:
  "heap q' = heap q \<Longrightarrow> (\<And>t. heap_index (timer_data q' t) = heap_index (timer_data q t)) \<Longrightarrow>
     heap_part q' ts = heap_part q ts"
  by (simp add: heap_part_def index_ok_def)

lemma heap_part_same_waits: "same_waits q q' \<Longrightarrow> heap_part q' ts = heap_part q ts"
  by (rule heap_part_cong) (simp_all add: same_waits_def)

lemma waits_part_cong:
  "(\<And>t. wait_ops (timer_data q' t) = wait_ops (timer_data q t)) \<Longrightarrow> waits_part q' ts = waits_part q ts"
  by (simp add: waits_part_def)

lemma dll_cong:
  "first_timer q' = first_timer q \<Longrightarrow>
     (\<And>t. next_timer (timer_data q' t) = next_timer (timer_data q t) \<and>
          prev_timer (timer_data q' t) = prev_timer (timer_data q t)) \<Longrightarrow> dll q xs \<Longrightarrow> dll q' xs"
  using seg_cong [of xs "timer_data q'" "timer_data q"] by (simp add: dll_def)

lemma upd_waits:
  shows "dll q xs \<Longrightarrow> dll (upd_timer q t (\<lambda>d. d\<lparr>wait_ops := f d\<rparr>)) xs"
  "heap_part (upd_timer q t (\<lambda>d. d\<lparr>wait_ops := f d\<rparr>)) ts = heap_part q ts"
proof -
  show "dll q xs \<Longrightarrow> dll (upd_timer q t (\<lambda>d. d\<lparr>wait_ops := f d\<rparr>)) xs"
    by (rule dll_cong [rotated 2], assumption) (simp_all add: upd_timer_def)
  show "heap_part (upd_timer q t (\<lambda>d. d\<lparr>wait_ops := f d\<rparr>)) ts = heap_part q ts"
    by (rule heap_part_cong) (simp_all add: upd_timer_def)
qed

lemma no_index_large: "length h \<le> vector_max \<Longrightarrow> \<not> no_index < length h"
  by (simp add: no_index_def vector_max_def)

section \<open>What the heap says of a timer\<close>

text \<open>When a timer expires, if it is in the heap, and all that is known of the timers that wait.\<close>

definition expiry :: "timer_queue_state \<Rightarrow> nat \<Rightarrow> int option" where
  "expiry q t = map_of (map prod.swap (heap q)) t"

definition pending :: "timer_queue_state \<Rightarrow> nat \<Rightarrow> (int option \<times> nat list) option" where
  "pending q t = (if wait_ops (timer_data q t) = [] then None else Some (expiry q t, wait_ops (timer_data q t)))"

lemma distinct_timers: "index_ok q \<Longrightarrow> distinct (map snd (heap q))"
  by (auto simp: distinct_conv_nth dest: index_inj)

lemma expiry_Some: "index_ok q \<Longrightarrow> expiry q t = Some e \<longleftrightarrow> (e, t) \<in> set (heap q)"
  using distinct_timers [of q] by (force simp: expiry_def map_of_eq_Some_iff comp_def image_iff)

lemma expiry_None: "expiry q t = None \<longleftrightarrow> t \<notin> snd ` set (heap q)"
  by (auto simp: expiry_def map_of_eq_None_iff image_image)

lemma expiry_eqI:
  "index_ok q' \<Longrightarrow> (\<And>e. (e, t) \<in> set (heap q') \<longleftrightarrow> x = Some e) \<Longrightarrow> expiry q' t = x"
  using expiry_Some [of q' t] by (cases x; cases "expiry q' t") auto

lemma expiry_set:
  assumes "index_ok q" "index_ok q'" "\<And>e. (e, t) \<in> set (heap q') \<longleftrightarrow> (e, t) \<in> set (heap q)"
  shows "expiry q' t = expiry q t"
  by (rule expiry_eqI [OF assms(2)]) (simp add: assms(3) expiry_Some [OF assms(1)])

lemma first_least:
  assumes "heap_ok (heap q)" "(e, t) \<in> set (heap q)"
  shows "fst (hd (heap q)) \<le> e"
proof -
  obtain i where "i < length (heap q)" "heap q ! i = (e, t)" using assms(2) by (auto simp: in_set_conv_nth)
  then show ?thesis using heap_min [OF assms(1), of i] by (cases "heap q") auto
qed

section \<open>Removing a timer\<close>

lemma removed_entry:
  assumes "heap_part q ts" "t \<in> ts"
  defines "q1 \<equiv> remove_from_heap q t"
  shows "index_ok q1" "heap_ok (heap q1)" "same_rest q q1" "set (heap q1) = {p \<in> set (heap q). snd p \<noteq> t}"
    "length (heap q1) \<le> vector_max" "\<And>u. u \<notin> snd ` set (heap q) \<Longrightarrow> timer_data q1 u = timer_data q u"
proof -
  have h: "heap_ok (heap q)" "index_ok q" "length (heap q) \<le> vector_max"
    "t \<notin> snd ` set (heap q) \<Longrightarrow> heap_index (timer_data q t) = no_index"
    using assms(1,2) by (auto simp: heap_part_def)
  have "index_ok q1 \<and> heap_ok (heap q1) \<and> same_rest q q1 \<and> set (heap q1) = {p \<in> set (heap q). snd p \<noteq> t} \<and>
      length (heap q1) \<le> vector_max \<and> (\<forall>u. u \<notin> snd ` set (heap q) \<longrightarrow> timer_data q1 u = timer_data q u)"
  proof (cases "t \<in> snd ` set (heap q)")
    case True
    then obtain i where i: "i < length (heap q)" "snd (heap q ! i) = t" by (metis imageE in_set_conv_nth)
    note r = remove_from_heap_ok [OF h(2,1) i, folded q1_def]
    have e: "{p \<in> set (heap q). snd p \<noteq> t} = set (heap q) - {heap q ! i}"
    proof -
      have "p = heap q ! i" if "p \<in> set (heap q)" "snd p = t" for p
        using that i index_inj [OF h(2) _ i(1)] by (metis in_set_conv_nth)
      then show ?thesis using i(2) by blast
    qed
    have d: "distinct (heap q)" using distinct_timers [OF h(2)] by (simp add: distinct_map)
    have m: "mset (heap q1) = mset (remove1 (heap q ! i) (heap q))" using r by simp
    have "set (heap q1) = {p \<in> set (heap q). snd p \<noteq> t}"
      using mset_eq_setD [OF m] d e by (simp add: set_remove1_eq)
    moreover have "length (heap q1) \<le> vector_max"
      using mset_eq_length [OF m] h(3) length_remove1 [of "heap q ! i" "heap q"] by (simp split: if_splits)
    ultimately show ?thesis using r by blast
  next
    case False
    then have "q1 = q" using h(4) no_index_large [OF h(3)] by (simp add: q1_def remove_from_heap_def Let_def)
    moreover have "{p \<in> set (heap q). snd p \<noteq> t} = set (heap q)" using False by force
    ultimately show ?thesis using h by simp
  qed
  then show "index_ok q1" "heap_ok (heap q1)" "same_rest q q1" "set (heap q1) = {p \<in> set (heap q). snd p \<noteq> t}"
    "length (heap q1) \<le> vector_max" "\<And>u. u \<notin> snd ` set (heap q) \<Longrightarrow> timer_data q1 u = timer_data q u" by blast+
qed

lemma remove_timer_ok:
  assumes "dll q xs" "heap_part q (set xs)" "t \<in> set xs"
  shows "dll (remove_timer q t) (remove1 t xs)" "heap_part (remove_timer q t) (set (remove1 t xs))"
    "wait_ops (timer_data (remove_timer q t) u) = wait_ops (timer_data q u)"
    "set (heap (remove_timer q t)) = {p \<in> set (heap q). snd p \<noteq> t}"
proof -
  let ?q1 = "remove_from_heap q t"
  note q1 = removed_entry [OF assms(2,3)]
  have d: "dll ?q1 xs" using dll_same_rest [OF q1(3) assms(1)] .
  note l = unlink_dll [OF d assms(3)]
  show "dll (remove_timer q t) (remove1 t xs)" using l by (simp add: remove_timer_def)
  have s: "set (remove1 t xs) = set xs - {t}" using assms(1) by (simp add: dll_def set_remove1_eq)
  have "snd ` set (heap ?q1) \<subseteq> set xs - {t}" using assms(2) by (auto simp: heap_part_def q1(4))
  moreover have "heap_index (timer_data ?q1 u) = no_index" if "u \<in> set xs - {t}" "u \<notin> snd ` set (heap ?q1)" for u
  proof -
    have "u \<notin> snd ` set (heap q)" using that unfolding q1(4) by force
    then show ?thesis using q1(6) assms(2) that(1) by (simp add: heap_part_def)
  qed
  ultimately have "heap_part ?q1 (set (remove1 t xs))" using q1(1,2,5) unfolding s heap_part_def by blast
  then show "heap_part (remove_timer q t) (set (remove1 t xs))"
    unfolding remove_timer_def using heap_part_same_waits [of ?q1 "unlink ?q1 t"] l by blast
  show "wait_ops (timer_data (remove_timer q t) u) = wait_ops (timer_data q u)"
    "set (heap (remove_timer q t)) = {p \<in> set (heap q). snd p \<noteq> t}"
    using l q1(3,4) by (simp_all add: remove_timer_def same_waits_def same_rest_def)
qed

section \<open>Adding a timer\<close>

text \<open>A new entry at the end of the heap, moved up.\<close>

lemma push_up:
  assumes "heap_part q ts" "t \<notin> ts" "length (heap q) < vector_max"
    and q1_def: "q1 = up_heap ((upd_timer q t (\<lambda>d. d\<lparr>heap_index := length (heap q)\<rparr>))\<lparr>heap := heap q @ [(e, t)]\<rparr>) (length (heap q))"
  shows "heap_part q1 (insert t ts)" "same_rest q q1" "set (heap q1) = insert (e, t) (set (heap q))"
proof -
  let ?q0 = "(upd_timer q t (\<lambda>d. d\<lparr>heap_index := length (heap q)\<rparr>))\<lparr>heap := heap q @ [(e, t)]\<rparr>"
  have h: "heap_ok (heap q)" "index_ok q" "snd ` set (heap q) \<subseteq> ts"
    "\<And>u. u \<in> ts \<Longrightarrow> u \<notin> snd ` set (heap q) \<Longrightarrow> heap_index (timer_data q u) = no_index"
    using assms(1) by (auto simp: heap_part_def)
  have "snd (heap q ! i) \<noteq> t" if "i < length (heap q)" for i using h(3) assms(2) that nth_mem by blast
  then have i: "index_ok ?q0"
    using h(2) by (auto simp: index_ok_def upd_timer_def nth_append less_Suc_eq)
  have l: "length (heap q) < length (heap ?q0)" by simp
  have "heap_but_up (heap ?q0) (length (heap q))"
    unfolding heap_but_up_def
  proof (intro allI impI)
    fix j assume j: "0 < j \<and> j < length (heap ?q0)"
    then have "par j < length (heap q)" using par_less [of j] by (simp add: less_Suc_eq) linarith
    then show "(j \<noteq> length (heap q) \<longrightarrow> fst (heap ?q0 ! par j) \<le> fst (heap ?q0 ! j)) \<and>
       (par j = length (heap q) \<and> 0 < length (heap q) \<longrightarrow>
          fst (heap ?q0 ! par (length (heap q))) \<le> fst (heap ?q0 ! j))"
      using j h(1) by (auto simp: heap_ok_def nth_append less_Suc_eq)
  qed
  then have u: "index_ok q1" "heap_moved ?q0 q1" "heap_ok (heap q1)"
    using up_heap_ok [OF i l] unfolding q1_def by blast+
  then have s: "set (heap q1) = insert (e, t) (set (heap q))" "length (heap q1) = Suc (length (heap q))"
    using heap_moved_set [of ?q0 q1] by auto
  have "heap_index (timer_data q1 v) = no_index" if "v \<in> insert t ts" "v \<notin> snd ` set (heap q1)" for v
    using that u(2) h(4) [of v] s(1) by (auto simp: heap_moved_def upd_timer_def)
  then show "heap_part q1 (insert t ts)" using u s h(3) assms(3) by (auto simp: heap_part_def)
  show "same_rest q q1" "set (heap q1) = insert (e, t) (set (heap q))"
    using u(2) s by (simp_all add: heap_moved_def same_rest_def upd_timer_def)
qed

text \<open>What the queue promises for a new wait.\<close>

definition spec_enqueue :: "bool \<Rightarrow> int \<Rightarrow> nat \<Rightarrow> nat \<Rightarrow> (nat \<Rightarrow> (int option \<times> nat list) option) \<Rightarrow>
    nat \<Rightarrow> (int option \<times> nat list) option" where
  "spec_enqueue never time t op p =
     p(t \<mapsto> (case p t of None \<Rightarrow> (if never then None else Some time, [op]) | Some (e, ops) \<Rightarrow> (e, ops @ [op])))"

lemma pendingI:
  assumes "\<And>u. wait_ops (timer_data q' u) = wait_ops (timer_data q u)" "\<And>u. expiry q' u = expiry q u"
  shows "pending q' = pending q"
  using assms by (auto simp: pending_def)

lemma index_zero:
  assumes "index_ok q" "heap_ok (heap q)" "(e, t) \<in> set (heap q)" "heap_index (timer_data q t) = 0"
  shows "(f, u) \<in> set (heap q) \<Longrightarrow> e \<le> f"
proof -
  obtain i where i: "i < length (heap q)" "heap q ! i = (e, t)" using assms(3) by (auto simp: in_set_conv_nth)
  then have "i = 0" using assms(1,4) by (metis index_ok_def snd_conv)
  then have "fst (hd (heap q)) = e" using i by (cases "heap q") auto
  then show "(f, u) \<in> set (heap q) \<Longrightarrow> e \<le> f" using first_least [OF assms(2)] by blast
qed

lemma index_not_zero:
  assumes "index_ok q" "heap_ok (heap q)" "(e, t) \<in> set (heap q)" "heap_index (timer_data q t) \<noteq> 0"
  shows "\<exists>f u. (f, u) \<in> set (heap q) \<and> u \<noteq> t \<and> f \<le> e"
proof -
  obtain i where i: "i < length (heap q)" "heap q ! i = (e, t)" using assms(3) by (auto simp: in_set_conv_nth)
  then have "heap q \<noteq> []" "i \<noteq> 0" using assms(1,4) by (auto simp: index_ok_def)
  then have "heap q ! 0 \<in> set (heap q)" "snd (heap q ! 0) \<noteq> t" "fst (heap q ! 0) \<le> e"
    using i index_inj [OF assms(1), of 0 i] heap_min [OF assms(2) i(1)] by auto
  then show ?thesis by (metis prod.collapse)
qed

lemma heap_part_other:
  assumes "heap_part q ts" "t \<notin> ts"
  shows "heap_part (upd_timer q t (\<lambda>d. d\<lparr>heap_index := k\<rparr>)) ts"
proof -
  have "snd (heap q ! i) \<noteq> t" if "i < length (heap q)" for i
    using assms that nth_mem unfolding heap_part_def by blast
  then show ?thesis using assms by (auto simp: heap_part_def index_ok_def upd_timer_def)
qed

lemma heap_part_insert: "heap_part q ts \<Longrightarrow> heap_index (timer_data q t) = no_index \<Longrightarrow> heap_part q (insert t ts)"
  by (auto simp: heap_part_def)

abbreviation add_wait :: "timer_queue_state \<Rightarrow> nat \<Rightarrow> nat \<Rightarrow> timer_queue_state" where
  "add_wait q t op \<equiv> upd_timer q t (\<lambda>d. d\<lparr>wait_ops := wait_ops d @ [op]\<rparr>)"

lemma expiry_cong: "heap q' = heap q \<Longrightarrow> expiry q' = expiry q"
  by (rule ext) (simp add: expiry_def)

text \<open>The last step of \<open>enqueue_timer\<close>, from a queue in which the timer is active.\<close>

lemma add_wait_ok:
  assumes "dll q xs" "heap_part q (set xs)" "t \<in> set xs" "\<And>u. u \<noteq> t \<Longrightarrow> wait_ops (timer_data q u) \<noteq> [] \<longleftrightarrow> u \<in> set xs"
  shows "tq_inv (add_wait q t op)"
    "pending (add_wait q t op) u = (if u = t then Some (expiry q t, wait_ops (timer_data q t) @ [op]) else pending q u)"
    "heap_index (timer_data (add_wait q t op) t) = 0 \<Longrightarrow>
       \<exists>e. expiry (add_wait q t op) t = Some e \<and> (\<forall>u f. expiry (add_wait q t op) u = Some f \<longrightarrow> e \<le> f)"
    "heap_index (timer_data (add_wait q t op) t) \<noteq> 0 \<Longrightarrow> expiry (add_wait q t op) t = Some e \<Longrightarrow>
       \<exists>u f. u \<noteq> t \<and> expiry (add_wait q t op) u = Some f \<and> f \<le> e"
proof -
  have w: "waits_part (add_wait q t op) (set xs)" using assms(3,4) by (simp add: waits_part_def upd_timer_def)
  then show "tq_inv (add_wait q t op)" 
    unfolding tq_inv_def using upd_waits(1) [OF assms(1)] upd_waits(2) [THEN iffD2, OF assms(2)]
    by (intro exI [of _ xs] conjI)
  have x: "expiry (add_wait q t op) = expiry q" by (rule expiry_cong) (simp add: upd_timer_def)
  show "pending (add_wait q t op) u = (if u = t then Some (expiry q t, wait_ops (timer_data q t) @ [op]) else pending q u)"
    by (simp add: pending_def x) (simp add: upd_timer_def)
  have h: "index_ok q" "heap_ok (heap q)" using assms(2) by (simp_all add: heap_part_def)
  have i: "heap_index (timer_data (add_wait q t op) t) = heap_index (timer_data q t)" by (simp add: upd_timer_def)
  show "\<exists>e. expiry (add_wait q t op) t = Some e \<and> (\<forall>u f. expiry (add_wait q t op) u = Some f \<longrightarrow> e \<le> f)"
    if z: "heap_index (timer_data (add_wait q t op) t) = 0"
  proof -
    have "heap_index (timer_data q t) \<noteq> no_index" using z i by (simp add: no_index_def)
    then have "t \<in> snd ` set (heap q)" using assms(2,3) unfolding heap_part_def by blast
    then obtain e where "(e, t) \<in> set (heap q)" by auto
    then show ?thesis using index_zero [OF h] z i by (auto simp: x expiry_Some [OF h(1)])
  qed
  show "\<exists>u f. u \<noteq> t \<and> expiry (add_wait q t op) u = Some f \<and> f \<le> e"
    if "heap_index (timer_data (add_wait q t op) t) \<noteq> 0" "expiry (add_wait q t op) t = Some e"
    using index_not_zero [OF h, of e t] that i by (auto simp: x expiry_Some [OF h(1)])
qed

lemma pending_None: "waits_part q ts \<Longrightarrow> pending q t = None \<longleftrightarrow> t \<notin> ts"
  by (auto simp: pending_def waits_part_def)

lemma enqueue_result:
  "enqueue_timer isinf grows q time t op = (q', Inr b) \<Longrightarrow>
     b = (heap_index (timer_data q' t) = 0 \<and> hd (wait_ops (timer_data q' t)) = op)"
  by (auto simp: enqueue_timer_def Let_def split: if_splits)

text \<open>The timer is in the list: a further operation.\<close>

lemma enqueue_old:
  assumes "active q t"
  shows "enqueue_timer isinf grows q time t op =
    (add_wait q t op, Inr (heap_index (timer_data (add_wait q t op) t) = 0 \<and> hd (wait_ops (timer_data (add_wait q t op) t)) = op))"
  using assms by (simp add: enqueue_timer_def Let_def)

text \<open>The timer is new: linked into the list, and into the heap unless it never expires.\<close>

lemma enqueue_new:
  assumes "dll q xs" "heap_part q (set xs)" "waits_part q (set xs)" "\<not> active q t"
    and "enqueue_timer isinf grows q time t op = (q', Inr b)"
  shows "\<exists>q2. q' = add_wait q2 t op \<and> b = (heap_index (timer_data (add_wait q2 t op) t) = 0) \<and>
    dll q2 (t # xs) \<and> heap_part q2 (set (t # xs)) \<and> wait_ops (timer_data q2 t) = [] \<and>
    (\<forall>u. wait_ops (timer_data q2 u) = wait_ops (timer_data q u)) \<and>
    expiry q2 = (expiry q)(t := if isinf time then None else Some time)"
proof -
  have t: "t \<notin> set xs" using dll_active [OF assms(1)] assms(4) by simp
  then have w: "wait_ops (timer_data q t) = []" using assms(3) by (auto simp: waits_part_def)
  have i: "index_ok q" "snd ` set (heap q) \<subseteq> set xs" using assms(2) by (simp_all add: heap_part_def)
  have "\<exists>q1. q' = add_wait (link_first q1 t) t op \<and> same_rest q q1 \<and> heap_part q1 (insert t (set xs)) \<and>
      expiry q1 = (expiry q)(t := if isinf time then None else Some time)"
  proof (cases "isinf time")
    case True
    let ?q1 = "upd_timer q t (\<lambda>d. d\<lparr>heap_index := no_index\<rparr>)"
    have "heap_part ?q1 (insert t (set xs))"
      using heap_part_insert [OF heap_part_other [OF assms(2) t]] by (simp add: upd_timer_def)
    moreover have "expiry ?q1 = (expiry q)(t := None)"
      using expiry_cong [of ?q1 q] expiry_None [of q t] i(2) t by (auto simp: upd_timer_def fun_upd_idem)
    moreover have "same_rest q ?q1" by (simp add: same_rest_def upd_timer_def)
    ultimately show ?thesis using assms(4,5) True by (auto simp: enqueue_timer_def Let_def)
  next
    case False
    then have l: "length (heap q) < vector_max"
      using assms(4,5) by (auto simp: enqueue_timer_def Let_def split: if_splits)
    define q1 where "q1 = up_heap ((upd_timer q t (\<lambda>d. d\<lparr>heap_index := length (heap q)\<rparr>))\<lparr>heap := heap q @ [(time, t)]\<rparr>) (length (heap q))"
    note p = push_up [OF assms(2) t l q1_def]
    have j: "index_ok q1" using p(1) by (simp add: heap_part_def)
    have "expiry q1 u = ((expiry q)(t := Some time)) u" for u
      by (rule expiry_eqI [OF j]) (use i(2) t expiry_Some [OF i(1)] in \<open>auto simp: p(3)\<close>)
    then have "expiry q1 = (expiry q)(t := Some time)" by (rule ext)
    moreover have "q' = add_wait (link_first q1 t) t op"
      using assms(4,5) False by (auto simp: enqueue_timer_def Let_def q1_def upd_timer_def split: if_splits)
    ultimately show ?thesis using p(1,2) False by auto
  qed
  then obtain q1 where q1: "q' = add_wait (link_first q1 t) t op" "same_rest q q1" "heap_part q1 (insert t (set xs))"
    "expiry q1 = (expiry q)(t := if isinf time then None else Some time)" by blast
  let ?q2 = "link_first q1 t"
  note d = link_first_dll [OF dll_same_rest [OF q1(2) assms(1)] t]
  have "heap_part ?q2 (set (t # xs))" using heap_part_same_waits [of q1 ?q2] d q1(3) by simp
  moreover have "expiry ?q2 = expiry q1" using d by (auto intro: expiry_cong simp: same_waits_def)
  moreover have ww: "wait_ops (timer_data ?q2 u) = wait_ops (timer_data q u)" for u
    using d q1(2) by (simp add: same_waits_def same_rest_def)
  moreover have "wait_ops (timer_data q' t) = [op]" using ww [of t] w q1(1) by (simp add: upd_timer_def)
  then have "b = (heap_index (timer_data q' t) = 0)" using enqueue_result [OF assms(5)] by simp
  ultimately show ?thesis using d q1(1,4) w by (intro exI [of _ ?q2]) simp
qed

section \<open>Taking timers out\<close>

abbreviation drop_timer :: "timer_queue_state \<Rightarrow> nat \<Rightarrow> timer_queue_state" where
  "drop_timer q t \<equiv> remove_timer (upd_timer q t (\<lambda>d. d\<lparr>wait_ops := []\<rparr>)) t"

lemma drop_timer_ok:
  assumes "dll q xs" "heap_part q (set xs)" "waits_part q (set xs)" "t \<in> set xs"
  shows "tq_inv (drop_timer q t)" "expiry (drop_timer q t) = (expiry q)(t := None)"
    "wait_ops (timer_data (drop_timer q t) u) = (if u = t then [] else wait_ops (timer_data q u))"
    "pending (drop_timer q t) = (pending q)(t := None)"
    "set (heap (drop_timer q t)) = {p \<in> set (heap q). snd p \<noteq> t}"
proof -
  let ?q0 = "upd_timer q t (\<lambda>d. d\<lparr>wait_ops := []\<rparr>)"
  note r = remove_timer_ok [OF upd_waits(1) [OF assms(1), of t "\<lambda>_. []"]
      upd_waits(2) [THEN iffD2, OF assms(2), of t "\<lambda>_. []"] assms(4)]
  have s: "set (remove1 t xs) = set xs - {t}" using assms(1) by (simp add: dll_def set_remove1_eq)
  show w: "wait_ops (timer_data (drop_timer q t) u) = (if u = t then [] else wait_ops (timer_data q u))" for u
    using r(3) [of u] by (simp add: upd_timer_def)
  then have "waits_part (drop_timer q t) (set (remove1 t xs))"
    using assms(3) by (auto simp: waits_part_def s)
  then show "tq_inv (drop_timer q t)" using r(1,2) unfolding tq_inv_def by blast
  show h: "set (heap (drop_timer q t)) = {p \<in> set (heap q). snd p \<noteq> t}"
    using r(4) by (simp add: upd_timer_def)
  have i: "index_ok q" "index_ok (drop_timer q t)" using assms(2) r(2) by (simp_all add: heap_part_def)
  have "expiry (drop_timer q t) u = ((expiry q)(t := None)) u" for u
    by (rule expiry_eqI [OF i(2)]) (auto simp: h expiry_Some [OF i(1)])
  then show x: "expiry (drop_timer q t) = (expiry q)(t := None)" by (rule ext)
  show "pending (drop_timer q t) = (pending q)(t := None)" by (rule ext) (simp add: pending_def w x)
qed

lemma heap_length: "index_ok q \<Longrightarrow> length (heap q) = card (set (heap q))"
  using distinct_timers [of q] by (simp add: distinct_map distinct_card)

lemma ready_loop_ok:
  "tq_inv q \<Longrightarrow> \<exists>q' ts. ready_loop now q ops = Some (q', ops @ concat (map (\<lambda>t. wait_ops (timer_data q t)) ts)) \<and>
     tq_inv q' \<and> distinct ts \<and> set ts = {t. \<exists>e. expiry q t = Some e \<and> e \<le> now} \<and>
     sorted (map (\<lambda>t. the (expiry q t)) ts) \<and> (\<forall>u. pending q' u = (if u \<in> set ts then None else pending q u))"
proof (induction "length (heap q)" arbitrary: q ops rule: less_induct)
  case less
  obtain xs where x: "dll q xs" "heap_part q (set xs)" "waits_part q (set xs)"
    using less.prems by (auto simp: tq_inv_def)
  have h: "heap_ok (heap q)" "index_ok q" using x(2) by (simp_all add: heap_part_def)
  have least: "fst (hd (heap q)) \<le> e" if "expiry q t = Some e" for e t
    using first_least [OF h(1)] that expiry_Some [OF h(2)] by blast
  show ?case
  proof (cases "heap q = [] \<or> now < fst (hd (heap q))")
    case True
    then have "{t. \<exists>e. expiry q t = Some e \<and> e \<le> now} = {}"
      using least expiry_Some [OF h(2)] by fastforce
    moreover have "ready_loop now q ops = Some (q, ops)"
      using True by (subst ready_loop.simps) (auto split: list.split)
    ultimately show ?thesis using less.prems by (intro exI [of _ q] exI [of _ "[]"]) simp
  next
    case False
    then obtain e t r where c: "heap q = (e, t) # r" "\<not> now < e" by (cases "heap q") auto
    then have t: "t \<in> set xs" "expiry q t = Some e" using x(2) expiry_Some [OF h(2)] by (auto simp: heap_part_def)
    note d = drop_timer_ok [OF x t(1)]
    have "index_ok (drop_timer q t)" using d(1) by (auto simp: tq_inv_def heap_part_def)
    moreover have "(e, t) \<in> set (heap q)" "(e, t) \<notin> set (heap (drop_timer q t))" unfolding d(5) using c(1) by simp_all
    then have "set (heap (drop_timer q t)) \<subset> set (heap q)" unfolding d(5) by blast
    ultimately have l: "length (heap (drop_timer q t)) < length (heap q)"
      by (simp add: heap_length h(2) psubset_card_mono)
    obtain q' ts where i: "ready_loop now (drop_timer q t) (ops @ wait_ops (timer_data q t)) =
        Some (q', (ops @ wait_ops (timer_data q t)) @ concat (map (\<lambda>u. wait_ops (timer_data (drop_timer q t) u)) ts))"
      "tq_inv q'" "distinct ts" "set ts = {u. \<exists>f. expiry (drop_timer q t) u = Some f \<and> f \<le> now}"
      "sorted (map (\<lambda>u. the (expiry (drop_timer q t) u)) ts)"
      "\<forall>u. pending q' u = (if u \<in> set ts then None else pending (drop_timer q t) u)"
      using less.hyps [OF l d(1), of "ops @ wait_ops (timer_data q t)"] by blast
    have n: "t \<notin> set ts" using i(4) d(2) by simp
    have m: "map (\<lambda>u. wait_ops (timer_data (drop_timer q t) u)) ts = map (\<lambda>u. wait_ops (timer_data q u)) ts"
      "map (\<lambda>u. the (expiry (drop_timer q t) u)) ts = map (\<lambda>u. the (expiry q u)) ts"
      using n by (auto simp: d(2,3))
    have "ready_loop now q ops = ready_loop now (drop_timer q t) (ops @ wait_ops (timer_data q t))"
      using c by (subst ready_loop.simps) simp
    then have "ready_loop now q ops = Some (q', ops @ concat (map (\<lambda>u. wait_ops (timer_data q u)) (t # ts)))"
      unfolding i(1) m(1) by simp
    moreover have "set (t # ts) = {u. \<exists>f. expiry q u = Some f \<and> f \<le> now}"
      using i(4) d(2) t(2) c(2) by auto
    moreover have "\<forall>u \<in> set ts. e \<le> the (expiry q u)" using i(4) least c(1) d(2) by auto
    then have "sorted (map (\<lambda>u. the (expiry q u)) (t # ts))" using i(5) t(2) unfolding m(2) by simp
    moreover have "\<forall>u. pending q' u = (if u \<in> set (t # ts) then None else pending q u)" using i(6) d(4) by simp
    moreover have "distinct (t # ts)" using i(3) n by simp
    ultimately show ?thesis using i(2) by blast
  qed
qed

lemma cancel_ok:
  assumes "tq_inv q" "cancel_timer q t n = (q', ops, k)"
  shows "tq_inv q' \<and> k = length ops \<and>
    (case pending q t of
       None \<Rightarrow> ops = [] \<and> pending q' = pending q
     | Some (e, os) \<Rightarrow> ops = take n os \<and>
         pending q' = (pending q)(t := if length os \<le> n then None else Some (e, drop n os)))"
proof -
  obtain xs where x: "dll q xs" "heap_part q (set xs)" "waits_part q (set xs)"
    using assms(1) by (auto simp: tq_inv_def)
  show ?thesis
  proof (cases "t \<in> set xs")
    case False
    then show ?thesis using assms dll_active [OF x(1)] pending_None [OF x(3), of t] by (auto simp: cancel_timer_def)
  next
    case True
    let ?os = "wait_ops (timer_data q t)"
    have os: "?os \<noteq> []" using True x(3) by (simp add: waits_part_def)
    then have p: "pending q t = Some (expiry q t, ?os)" by (simp add: pending_def)
    have k: "ops = take n ?os" "k = length ops"
      "q' = (if drop n ?os = [] then drop_timer q t else upd_timer q t (\<lambda>d. d\<lparr>wait_ops := drop n ?os\<rparr>))"
      using assms(2) True dll_active [OF x(1)] by (auto simp: cancel_timer_def Let_def)
    show ?thesis
    proof (cases "drop n ?os = []")
      case True
      then show ?thesis using k p drop_timer_ok [OF x \<open>t \<in> set xs\<close>] by simp
    next
      case False
      let ?q = "upd_timer q t (\<lambda>d. d\<lparr>wait_ops := drop n ?os\<rparr>)"
      have "waits_part ?q (set xs)" using x(3) True False by (auto simp: waits_part_def upd_timer_def)
      then have i: "tq_inv ?q" using upd_waits(1) [OF x(1)] upd_waits(2) [THEN iffD2, OF x(2)]
        unfolding tq_inv_def by (intro exI [of _ xs] conjI)
      have "expiry ?q = expiry q" by (rule expiry_cong) (simp add: upd_timer_def)
      moreover have "wait_ops (timer_data ?q u) = (if u = t then drop n ?os else wait_ops (timer_data q u))" for u
        by (simp add: upd_timer_def)
      ultimately have "pending ?q = (pending q)(t \<mapsto> (expiry q t, drop n ?os))"
        using False by (auto simp: pending_def fun_eq_iff)
      then show ?thesis using i k p False by simp
    qed
  qed
qed

section \<open>Moving a timer\<close>

lemma move_fields:
  assumes "u' \<noteq> u"
  shows "wait_ops (timer_data (move_timer q u' u) v) = (if v = u then []
       else if v = u' then wait_ops (timer_data q u') @ wait_ops (timer_data q u) else wait_ops (timer_data q v))"
    "heap_index (timer_data (move_timer q u' u) v) = (if v = u then no_index
       else if v = u' then heap_index (timer_data q u) else heap_index (timer_data q v))"
    "heap (move_timer q u' u) = (let i = heap_index (timer_data q u)
       in if i < length (heap q) then (heap q)[i := (fst (heap q ! i), u')] else heap q)"
  using assms by (auto simp: move_timer_def upd_timer_def Let_def split: option.splits)

lemma move_links:
  assumes "u' \<noteq> u" "prev_timer (timer_data q u) \<noteq> Some u" "next_timer (timer_data q u) \<noteq> Some u"
  shows "first_timer (move_timer q u' u) = (if first_timer q = Some u then Some u' else first_timer q)"
    "next_timer (timer_data (move_timer q u' u) v) = (if v = u then None
       else if v = u' then next_timer (timer_data q u)
       else if prev_timer (timer_data q u) = Some v then Some u' else next_timer (timer_data q v))"
    "prev_timer (timer_data (move_timer q u' u) v) = (if v = u then None
       else if v = u' then prev_timer (timer_data q u)
       else if next_timer (timer_data q u) = Some v then Some u' else prev_timer (timer_data q v))"
  using assms by (auto simp: move_timer_def upd_timer_def Let_def split: option.splits)

lemma move_dll:
  assumes "dll q (ys @ u # zs)" "u' \<notin> set (ys @ u # zs)"
  shows "dll (move_timer q u' u) (ys @ u' # zs)"
proof -
  have d: "distinct (ys @ u # zs)" "seg (timer_data q) None ys (Some u)" "seg (timer_data q) (Some u) zs None"
    "prev_timer (timer_data q u) = last_opt None ys" "next_timer (timer_data q u) = fst_opt zs None"
    "first_timer q = fst_opt ys (Some u)"
    "\<And>v. v \<notin> set (ys @ u # zs) \<Longrightarrow> next_timer (timer_data q v) = None \<and> prev_timer (timer_data q v) = None"
    using assms(1) by (simp_all add: dll_def seg_append)
  have n: "u' \<noteq> u" "prev_timer (timer_data q u) \<noteq> Some u" "next_timer (timer_data q u) \<noteq> Some u"
    using assms(2) d(1,4,5) by (auto simp: last_opt_def fst_opt_def split: list.splits)
  note f = move_links [OF n]
  have "seg (timer_data (move_timer q u' u)) None ys (Some u')"
    using d(1,2) assms(2) d(4,5)
    by (cases ys rule: rev_cases; cases zs)
      (auto simp: seg_append f intro!: seg_cong [THEN iffD1, of _ "timer_data q"])
  moreover have "seg (timer_data (move_timer q u' u)) (Some u') zs None"
    using d(1,3) assms(2) d(4,5)
    by (cases zs; cases ys rule: rev_cases) (auto simp: f intro!: seg_cong [THEN iffD1, of _ "timer_data q"])
  moreover have "first_timer (move_timer q u' u) = fst_opt ys (Some u')"
    using d(1,6) f(1) by (cases ys) auto
  moreover have "next_timer (timer_data (move_timer q u' u) v) = None \<and> prev_timer (timer_data (move_timer q u' u) v) = None"
    if "v \<notin> set (ys @ u' # zs)" for v
    using that d(4,5) d(7) [of v] by (cases ys rule: rev_cases; cases zs) (auto simp: f)
  ultimately show ?thesis using d(1,4,5) assms(2) n(1) by (auto simp: dll_def seg_append f)
qed

lemma move_ok:
  assumes "tq_inv q" "u' \<noteq> u" "pending q u \<noteq> None" "pending q u' = None"
  shows "tq_inv (move_timer q u' u) \<and> pending (move_timer q u' u) = (pending q)(u := None, u' := pending q u)"
proof -
  let ?q = "move_timer q u' u" and ?i = "heap_index (timer_data q u)"
  obtain xs where x: "dll q xs" "heap_part q (set xs)" "waits_part q (set xs)"
    using assms(1) by (auto simp: tq_inv_def)
  have u: "u \<in> set xs" "u' \<notin> set xs" using assms(3,4) pending_None [OF x(3)] by auto
  then obtain ys zs where s: "xs = ys @ u # zs" by (auto simp: in_set_conv_decomp)
  have d: "dll ?q (ys @ u' # zs)" using move_dll [of q ys u zs u'] x(1) u(2) s by simp
  have ys: "set (ys @ u' # zs) = insert u' (set xs - {u})" using x(1) s by (auto simp: dll_def)
  note f = move_fields [OF assms(2), of q]
  have h: "heap_ok (heap q)" "index_ok q" "snd ` set (heap q) \<subseteq> set xs" "length (heap q) \<le> vector_max"
    "\<And>v. v \<in> set xs \<Longrightarrow> v \<notin> snd ` set (heap q) \<Longrightarrow> heap_index (timer_data q v) = no_index"
    using x(2) by (auto simp: heap_part_def)
  have n: "heap ?q ! j = (if j = ?i then (fst (heap q ! j), u') else heap q ! j)" if "j < length (heap q)" for j
    using that by (simp add: f(3) Let_def nth_list_update)
  have l: "length (heap ?q) = length (heap q)" by (simp add: f(3) Let_def)
  have iu: "snd (heap q ! j) = u \<longleftrightarrow> j = ?i" if "j < length (heap q)" for j
  proof
    show "snd (heap q ! j) = u \<Longrightarrow> j = ?i" using h(2) that by (auto simp: index_ok_def)
    show "snd (heap q ! j) = u" if j: "j = ?i"
    proof (rule ccontr)
      assume "snd (heap q ! j) \<noteq> u"
      have "u \<in> snd ` set (heap q)"
        using h(5) [OF u(1)] no_index_large [OF h(4)] j \<open>j < length (heap q)\<close> by metis
      then obtain k where "k < length (heap q)" "snd (heap q ! k) = u" by (metis imageE in_set_conv_nth)
      then show False using h(2) j \<open>snd (heap q ! j) \<noteq> u\<close> by (auto simp: index_ok_def)
    qed
  qed
  have nu': "snd (heap q ! j) \<noteq> u'" if "j < length (heap q)" for j using h(3) u(2) that nth_mem by blast
  have i: "index_ok ?q"
    unfolding index_ok_def l using n f(2) iu nu' h(2) assms(2) by (auto simp: index_ok_def)
  have "fst (heap ?q ! j) = fst (heap q ! j)" if "j < length (heap q)" for j using n that by simp
  then have hh: "heap_ok (heap ?q)"
    using h(1) par_less less_trans unfolding heap_ok_def l by metis
  have e: "(e, v) \<in> set (heap ?q) \<longleftrightarrow> v \<noteq> u \<and> (if v = u' then (e, u) \<in> set (heap q) else (e, v) \<in> set (heap q))" for e v
    using n iu nu' assms(2) by (auto simp: in_set_conv_nth l) (metis fst_conv snd_conv prod.collapse)+
  have "expiry ?q v = ((expiry q)(u := None, u' := expiry q u)) v" for v
    by (rule expiry_eqI [OF i]) (use expiry_Some [OF h(2)] assms(2) in \<open>auto simp: e\<close>)
  then have ex: "expiry ?q = (expiry q)(u := None, u' := expiry q u)" by (rule ext)
  have "pending ?q = (pending q)(u := None, u' := pending q u)"
    using assms(3,4) by (auto simp: pending_def f(1) ex fun_eq_iff split: if_splits)
  moreover have "snd ` set (heap ?q) \<subseteq> insert u' (set xs - {u})" using e h(3) u(1) by fastforce
  moreover have "heap_index (timer_data ?q v) = no_index"
    if "v \<in> insert u' (set xs - {u})" "v \<notin> snd ` set (heap ?q)" for v
  proof (cases "v = u'")
    case True
    then have "u \<notin> snd ` set (heap q)" using that(2) e [of _ u'] assms(2) by force
    then show ?thesis using True f(2) h(5) u(1) assms(2) by simp
  next
    case False
    then have "v \<in> set xs" "v \<notin> snd ` set (heap q)" using that e [of _ v] by force+
    then show ?thesis using that(1) False f(2) h(5) by auto
  qed
  ultimately have "heap_part ?q (set (ys @ u' # zs))" using hh i l h(4) unfolding ys heap_part_def by auto
  moreover have "waits_part ?q (set (ys @ u' # zs))"
    unfolding ys waits_part_def using f(1) x(3) u assms(2) by (auto simp: waits_part_def)
  ultimately show ?thesis using d \<open>pending ?q = _\<close> unfolding tq_inv_def by blast
qed

section \<open>Taking everything out\<close>

lemma all_loop_ok:
  "distinct xs \<Longrightarrow> first_timer q = fst_opt xs None \<Longrightarrow> seg (timer_data q) p xs None \<Longrightarrow>
     (\<And>t. t \<notin> set xs \<Longrightarrow> next_timer (timer_data q t) = None \<and> prev_timer (timer_data q t) = None \<and> wait_ops (timer_data q t) = []) \<Longrightarrow>
     \<exists>q'. all_loop q ops = Some (q', ops @ concat (map (\<lambda>t. wait_ops (timer_data q t)) xs)) \<and> dll q' [] \<and>
       (\<forall>t. wait_ops (timer_data q' t) = [])"
proof (induction xs arbitrary: q p ops)
  case Nil
  then show ?case by (intro exI [of _ q]) (subst all_loop.simps, simp add: dll_def)
next
  case (Cons t xs)
  let ?q = "upd_timer (q\<lparr>first_timer := next_timer (timer_data q t)\<rparr>) t
      (\<lambda>d. d\<lparr>wait_ops := [], next_timer := None, prev_timer := None\<rparr>)"
  have "seg (timer_data ?q) (Some t) xs None"
    by (rule seg_cong [THEN iffD1, of _ "timer_data q"]) (use Cons.prems in \<open>auto simp: upd_timer_def\<close>)
  moreover have "first_timer ?q = fst_opt xs None" using Cons.prems(3) by (simp add: upd_timer_def)
  moreover have "next_timer (timer_data ?q u) = None \<and> prev_timer (timer_data ?q u) = None \<and> wait_ops (timer_data ?q u) = []"
    if "u \<notin> set xs" for u
    using Cons.prems(4) [of u] that by (auto simp: upd_timer_def)
  ultimately obtain q' where q': "all_loop ?q (ops @ wait_ops (timer_data q t)) =
      Some (q', (ops @ wait_ops (timer_data q t)) @ concat (map (\<lambda>u. wait_ops (timer_data ?q u)) xs))"
    "dll q' []" "\<forall>u. wait_ops (timer_data q' u) = []"
    using Cons.IH [of ?q "Some t" "ops @ wait_ops (timer_data q t)"] Cons.prems(1) by auto
  have m: "map (\<lambda>u. wait_ops (timer_data ?q u)) xs = map (\<lambda>u. wait_ops (timer_data q u)) xs"
    using Cons.prems(1) by (auto simp: upd_timer_def)
  have "all_loop q ops = all_loop ?q (ops @ wait_ops (timer_data q t))"
    using Cons.prems(2) by (subst all_loop.simps) simp
  then show ?case using q' unfolding m by simp
qed

lemma get_all_ok:
  assumes "tq_inv q"
  shows "\<exists>q' ts. get_all_timers q = Some (q', concat (map (\<lambda>t. wait_ops (timer_data q t)) ts)) \<and> tq_inv q' \<and>
    distinct ts \<and> set ts = dom (pending q) \<and> pending q' = Map.empty"
proof -
  obtain xs where x: "dll q xs" "heap_part q (set xs)" "waits_part q (set xs)"
    using assms by (auto simp: tq_inv_def)
  have "\<And>t. t \<notin> set xs \<Longrightarrow> next_timer (timer_data q t) = None \<and> prev_timer (timer_data q t) = None \<and> wait_ops (timer_data q t) = []"
    using x(1,3) by (auto simp: dll_def waits_part_def)
  then obtain q' where q': "all_loop q [] = Some (q', concat (map (\<lambda>t. wait_ops (timer_data q t)) xs))" "dll q' []"
    "\<forall>t. wait_ops (timer_data q' t) = []"
    using all_loop_ok [of xs q None "[]"] x(1) unfolding dll_def by auto
  let ?q = "q'\<lparr>heap := []\<rparr>"
  have "dll ?q []" using q'(2) by (simp add: dll_def)
  moreover have "heap_part ?q (set [])" by (simp add: heap_part_def heap_ok_def index_ok_def)
  moreover have "waits_part ?q (set [])" using q'(3) by (simp add: waits_part_def)
  ultimately have "tq_inv ?q" unfolding tq_inv_def by blast
  moreover have "pending ?q = Map.empty" using q'(3) by (simp add: pending_def fun_eq_iff)
  moreover have "set xs = dom (pending q)" unfolding dom_def pending_None [OF x(3)] by simp
  moreover have "get_all_timers q = Some (?q, concat (map (\<lambda>t. wait_ops (timer_data q t)) xs))"
    using q'(1) by (simp add: get_all_timers_def)
  moreover have "distinct xs" using x(1) by (simp add: dll_def)
  ultimately show ?thesis by blast
qed

section \<open>Properties\<close>

lemma enqueue_ok:
  assumes "tq_inv q" "enqueue_timer isinf grows q time t op = (q1, r)"
  shows "tq_inv q1 \<and> (case r of Inl _ \<Rightarrow> pending q1 = pending q
     | Inr b \<Rightarrow> pending q1 = spec_enqueue (isinf time) time t op (pending q) \<and>
         (b \<longrightarrow> (\<exists>e. expiry q1 t = Some e \<and> (\<forall>u f. expiry q1 u = Some f \<longrightarrow> e \<le> f))) \<and>
         (pending q t = None \<and> \<not> isinf time \<and> \<not> b \<longrightarrow> (\<exists>u f. u \<noteq> t \<and> expiry q1 u = Some f \<and> f \<le> time)))"
proof -
  obtain xs where x: "dll q xs" "heap_part q (set xs)" "waits_part q (set xs)"
    using assms(1) by (auto simp: tq_inv_def)
  consider (full) e where "r = Inl e" | (old) b where "active q t" "r = Inr b" | (new) b where "\<not> active q t" "r = Inr b"
    by (cases r) auto
  then show ?thesis
  proof cases
    case full
    then have a: "\<not> active q t" "q1 = upd_timer q t (\<lambda>d. d\<lparr>heap_index := length (heap q)\<rparr>)"
      using assms(2) by (auto simp: enqueue_timer_def Let_def split: if_splits)
    then have t: "t \<notin> set xs" using dll_active [OF x(1)] by simp
    have "dll q1 xs" by (rule dll_cong [OF _ _ x(1)]) (simp_all add: a(2) upd_timer_def)
    moreover have "waits_part q1 (set xs)" using x(3) by (simp add: a(2) waits_part_def upd_timer_def)
    moreover have "pending q1 = pending q"
      by (rule pendingI) (simp_all add: a(2) upd_timer_def expiry_def)
    ultimately show ?thesis using full heap_part_other [OF x(2) t] a(2) unfolding tq_inv_def by auto
  next
    case old
    then have t: "t \<in> set xs" using dll_active [OF x(1)] by simp
    have w: "wait_ops (timer_data q u) \<noteq> [] \<longleftrightarrow> u \<in> set xs" for u using x(3) by (simp add: waits_part_def)
    have q1: "q1 = add_wait q t op" "b = (heap_index (timer_data (add_wait q t op) t) = 0 \<and>
        hd (wait_ops (timer_data (add_wait q t op) t)) = op)"
      using assms(2) old enqueue_old by auto
    note a = add_wait_ok [OF x(1,2) t w]
    have p: "pending q t = Some (expiry q t, wait_ops (timer_data q t))" using t w by (auto simp: pending_def)
    then have "pending q1 = spec_enqueue (isinf time) time t op (pending q)"
      unfolding q1(1) by (simp add: spec_enqueue_def fun_eq_iff a(2))
    then show ?thesis using a(1,3) old(2) p q1 by simp
  next
    case new
    then obtain q2 where q2: "q1 = add_wait q2 t op" "b = (heap_index (timer_data (add_wait q2 t op) t) = 0)"
      "dll q2 (t # xs)" "heap_part q2 (set (t # xs))" "wait_ops (timer_data q2 t) = []"
      "\<forall>u. wait_ops (timer_data q2 u) = wait_ops (timer_data q u)"
      "expiry q2 = (expiry q)(t := if isinf time then None else Some time)"
      using enqueue_new [OF x] assms(2) by blast
    have t: "t \<notin> set xs" using dll_active [OF x(1)] new by simp
    have w: "u \<noteq> t \<Longrightarrow> wait_ops (timer_data q2 u) \<noteq> [] \<longleftrightarrow> u \<in> set (t # xs)" for u
      using x(3) q2(6) by (simp add: waits_part_def)
    have tt: "t \<in> set (t # xs)" by simp
    note a = add_wait_ok [OF q2(3,4) tt w]
    have p: "pending q t = None" using pending_None [OF x(3)] t by simp
    have "pending q2 u = pending q u" if "u \<noteq> t" for u using that q2(6,7) by (simp add: pending_def)
    then have "pending q1 = spec_enqueue (isinf time) time t op (pending q)"
      unfolding q2(1) using a(2) p q2(5,7) by (auto simp: spec_enqueue_def fun_eq_iff)
    moreover have "expiry q1 = expiry q2" unfolding q2(1) by (rule expiry_cong) (simp add: upd_timer_def)
    moreover have "\<exists>u f. u \<noteq> t \<and> expiry q1 u = Some f \<and> f \<le> time" if "\<not> isinf time" "\<not> b"
      using a(4) [where e = time and op = op] that q2(1,2,7) \<open>expiry q1 = expiry q2\<close> by simp
    moreover have "\<exists>e. expiry q1 t = Some e \<and> (\<forall>u f. expiry q1 u = Some f \<longrightarrow> e \<le> f)" if b
      using a(3) that q2(1,2) by simp
    ultimately show ?thesis using a(1) new(2) q2(1) by simp
  qed
qed



text \<open>Timers fire in order. \<open>get_ready_timers\<close> returns, and what it hands out are the operations of
  exactly the timers that have expired, those of one timer together and in the order they were
  added, and of the timers in the order in which they expire; all other timers stay as they are.\<close>

lemma ready_timers_in_order:
  assumes "tq_inv q"
  shows "\<exists>q' ts. get_ready_timers now q = Some (q', concat (map (\<lambda>t. snd (the (pending q t))) ts)) \<and> tq_inv q' \<and>
    distinct ts \<and> set ts = {t. \<exists>e os. pending q t = Some (Some e, os) \<and> e \<le> now} \<and>
    sorted (map (\<lambda>t. the (fst (the (pending q t)))) ts) \<and> pending q' = pending q |` (- set ts)"
proof -
  obtain q' ts where r: "ready_loop now q [] = Some (q', [] @ concat (map (\<lambda>t. wait_ops (timer_data q t)) ts))" "tq_inv q'"
    "distinct ts" "set ts = {t. \<exists>e. expiry q t = Some e \<and> e \<le> now}" "sorted (map (\<lambda>t. the (expiry q t)) ts)"
    "\<forall>u. pending q' u = (if u \<in> set ts then None else pending q u)"
    using ready_loop_ok [OF assms, of now "[]"] by blast
  have p: "pending q t = Some (expiry q t, wait_ops (timer_data q t))" if "expiry q t = Some e" for t e
  proof -
    have "t \<in> snd ` set (heap q)" using that expiry_None [of q t] by (metis option.distinct(1))
    then have "wait_ops (timer_data q t) \<noteq> []" using assms by (auto simp: tq_inv_def heap_part_def waits_part_def)
    then show ?thesis by (simp add: pending_def)
  qed
  have "expiry q t = Some e" if "pending q t = Some (Some e, os)" for t e os
    using that by (simp add: pending_def split: if_splits)
  moreover have "\<exists>os. pending q t = Some (Some e, os)" if "expiry q t = Some e" for t e
    unfolding p [OF that] that by blast
  ultimately have "expiry q t = Some e \<longleftrightarrow> (\<exists>os. pending q t = Some (Some e, os))" for t e by blast
  then have s: "set ts = {t. \<exists>e os. pending q t = Some (Some e, os) \<and> e \<le> now}" unfolding r(4) by auto
  have "pending q t = Some (expiry q t, wait_ops (timer_data q t))" if "t \<in> set ts" for t
    using that p r(4) by blast
  then have m: "map (\<lambda>t. snd (the (pending q t))) ts = map (\<lambda>t. wait_ops (timer_data q t)) ts"
    "map (\<lambda>t. the (fst (the (pending q t)))) ts = map (\<lambda>t. the (expiry q t)) ts" by simp_all
  have "pending q' = pending q |` (- set ts)" using r(6) by (auto simp: restrict_map_def fun_eq_iff)
  moreover have "get_ready_timers now q = Some (q', concat (map (\<lambda>t. snd (the (pending q t))) ts))"
    "sorted (map (\<lambda>t. the (fst (the (pending q t)))) ts)"
    using r(1,5) unfolding m get_ready_timers_def append_Nil by simp_all
  ultimately show ?thesis using r(2,3) s by blast
qed

lemma ready_timers_in_order_witness:
  "\<exists>q'. get_ready_timers 9 timer_queue_new = Some (q', []) \<and> pending q' = Map.empty"
proof -
  have n: "pending timer_queue_new = Map.empty"
    by (simp add: pending_def timer_queue_new_def per_timer_data_new_def fun_eq_iff)
  show ?thesis using ready_timers_in_order [OF tq_inv_new, of 9] by (auto simp: n)
qed

end
