(* ===== verification/Asio_Timer_Set.thy ===== *)
theory Asio_Timer_Set
  imports Timer_Queue_Props
begin

text \<open>
  All timer queues of a reactor, detail/impl/timer\_queue\_set.ipp: a linked list of queues. How long a
  reactor may wait for timers, and two faults at the edges: a wait of zero that becomes one unit,
  and a timer whose adding failed that takes over the entry of another when it is moved.
\<close>

section \<open>Timer queues of a reactor\<close>

text \<open>Queues are addresses; \<open>next_queue\<close> is their \<open>next_\<close>.\<close>

record timer_queue_set =
  first_queue :: "nat option"
  next_queue :: "nat \<Rightarrow> nat option"
  queues :: "nat \<Rightarrow> timer_queue_state"

definition set_insert :: "timer_queue_set \<Rightarrow> nat \<Rightarrow> timer_queue_set" where
  "set_insert s q = s\<lparr>next_queue := (next_queue s)(q := first_queue s), first_queue := Some q\<rparr>"

partial_function (option) erase_after :: "timer_queue_set \<Rightarrow> nat \<Rightarrow> nat \<Rightarrow> timer_queue_set option" where
  "erase_after s p q =
     (case next_queue s p of
        None \<Rightarrow> Some s
      | Some n \<Rightarrow>
          (if n = q then Some (s\<lparr>next_queue := (next_queue s)(p := next_queue s q, q := None)\<rparr>)
           else erase_after s n q))"

definition set_erase :: "timer_queue_set \<Rightarrow> nat \<Rightarrow> timer_queue_set option" where
  "set_erase s q =
     (case first_queue s of
        None \<Rightarrow> Some s
      | Some f \<Rightarrow>
          (if q = f then Some (s\<lparr>first_queue := next_queue s q, next_queue := (next_queue s)(q := None)\<rparr>)
           else erase_after s f q))"

text \<open>The loops over the queues of the set, from a queue on.\<close>

partial_function (option) empty_loop :: "timer_queue_set \<Rightarrow> nat option \<Rightarrow> bool option" where
  "empty_loop s p =
     (case p of
        None \<Rightarrow> Some True
      | Some q \<Rightarrow> (if \<not> timers_empty (queues s q) then Some False else empty_loop s (next_queue s q)))"

definition set_all_empty :: "timer_queue_set \<Rightarrow> bool option" where
  "set_all_empty s = empty_loop s (first_queue s)"

partial_function (option) wait_loop :: "(timer_queue_state \<Rightarrow> int \<Rightarrow> int result) \<Rightarrow> timer_queue_set \<Rightarrow> nat option \<Rightarrow>
    int \<Rightarrow> int result option" where
  "wait_loop wait s p min_duration =
     (case p of
        None \<Rightarrow> Some (Inr min_duration)
      | Some q \<Rightarrow>
          (case wait (queues s q) min_duration of
             Inl e \<Rightarrow> Some (Inl e)
           | Inr m \<Rightarrow> wait_loop wait s (next_queue s q) m))"

definition set_wait_duration_msec :: "int \<Rightarrow> timer_queue_set \<Rightarrow> int \<Rightarrow> int result option" where
  "set_wait_duration_msec now s max_duration = wait_loop (wait_duration_msec now) s (first_queue s) max_duration"

definition set_wait_duration_usec :: "int \<Rightarrow> timer_queue_set \<Rightarrow> int \<Rightarrow> int result option" where
  "set_wait_duration_usec now s max_duration = wait_loop (wait_duration_usec now) s (first_queue s) max_duration"

text \<open>
  \<open>get_ready_timers\<close> and \<open>get_all_timers\<close>, for the operation given on each queue. The clock is read
  for each queue.
\<close>

partial_function (option) get_loop :: "(nat \<Rightarrow> timer_queue_state \<Rightarrow> (timer_queue_state \<times> nat list) option) \<Rightarrow>
    timer_queue_set \<Rightarrow> nat option \<Rightarrow> nat list \<Rightarrow> (timer_queue_set \<times> nat list) option" where
  "get_loop get s p ops =
     (case p of
        None \<Rightarrow> Some (s, ops)
      | Some q \<Rightarrow>
          Option.bind (get q (queues s q)) (\<lambda>(q', ops').
            get_loop get (s\<lparr>queues := (queues s)(q := q')\<rparr>) (next_queue s q) (ops @ ops')))"

definition set_get_ready_timers :: "(nat \<Rightarrow> int) \<Rightarrow> timer_queue_set \<Rightarrow> (timer_queue_set \<times> nat list) option" where
  "set_get_ready_timers now s = get_loop (\<lambda>q. get_ready_timers (now q)) s (first_queue s) []"

definition set_get_all_timers :: "timer_queue_set \<Rightarrow> (timer_queue_set \<times> nat list) option" where
  "set_get_all_timers s = get_loop (\<lambda>_. get_all_timers) s (first_queue s) []"

section \<open>The list of queues\<close>

text \<open>The queues from an address on, to the end of the list.\<close>

fun queue_chain :: "timer_queue_set \<Rightarrow> nat option \<Rightarrow> nat list \<Rightarrow> bool" where
  "queue_chain s p [] \<longleftrightarrow> p = None"
| "queue_chain s p (x # xs) \<longleftrightarrow> p = Some x \<and> queue_chain s (next_queue s x) xs"

lemma queue_chain_cong:
  "(\<And>x. x \<in> set xs \<Longrightarrow> next_queue s' x = next_queue s x) \<Longrightarrow> queue_chain s' p xs = queue_chain s p xs"
  by (induction xs arbitrary: p) auto

definition set_ok :: "timer_queue_set \<Rightarrow> nat list \<Rightarrow> bool" where
  "set_ok s xs \<longleftrightarrow> distinct xs \<and> queue_chain s (first_queue s) xs"

lemma set_insert_ok: "set_ok s xs \<Longrightarrow> q \<notin> set xs \<Longrightarrow> set_ok (set_insert s q) (q # xs)"
proof -
  assume a: "set_ok s xs" "q \<notin> set xs"
  have "queue_chain (set_insert s q) p xs = queue_chain s p xs" for p
    by (rule queue_chain_cong) (use a(2) in \<open>auto simp: set_insert_def\<close>)
  then show ?thesis using a by (simp add: set_ok_def set_insert_def)
qed

lemma erase_after_ok:
  "distinct (p # xs) \<Longrightarrow> queue_chain s (Some p) (p # xs) \<Longrightarrow> q \<noteq> p \<Longrightarrow>
     \<exists>s'. erase_after s p q = Some s' \<and> first_queue s' = first_queue s \<and>
       queue_chain s' (Some p) (p # remove1 q xs) \<and> (\<forall>x. x \<notin> set (p # xs) \<longrightarrow> next_queue s' x = next_queue s x)"
proof (induction xs arbitrary: p)
  case Nil
  then show ?case by (subst erase_after.simps) simp
next
  case (Cons n xs)
  show ?case
  proof (cases "n = q")
    case True
    let ?s = "s\<lparr>next_queue := (next_queue s)(p := next_queue s q, q := None)\<rparr>"
    have "queue_chain ?s (next_queue s q) xs = queue_chain s (next_queue s q) xs"
      by (rule queue_chain_cong) (use Cons.prems(1) True in auto)
    then show ?thesis using Cons.prems True by (subst erase_after.simps) auto
  next
    case False
    then obtain s' where s': "erase_after s n q = Some s'" "first_queue s' = first_queue s"
      "queue_chain s' (Some n) (n # remove1 q xs)" "\<forall>x. x \<notin> set (n # xs) \<longrightarrow> next_queue s' x = next_queue s x"
      using Cons.IH [of n] Cons.prems(1,2) by auto
    then show ?thesis using Cons.prems False by (subst erase_after.simps) auto
  qed
qed

lemma set_erase_ok: "set_ok s xs \<Longrightarrow> \<exists>s'. set_erase s q = Some s' \<and> set_ok s' (remove1 q xs)"
proof (cases xs)
  case (Cons f r)
  assume a: "set_ok s xs"
  show ?thesis
  proof (cases "q = f")
    case True
    let ?s = "s\<lparr>first_queue := next_queue s q, next_queue := (next_queue s)(q := None)\<rparr>"
    have "queue_chain ?s (next_queue s q) r = queue_chain s (next_queue s q) r"
      by (rule queue_chain_cong) (use a True Cons in \<open>auto simp: set_ok_def\<close>)
    then show ?thesis using a True Cons by (auto simp: set_ok_def set_erase_def)
  next
    case False
    then obtain s' where "erase_after s f q = Some s'" "first_queue s' = first_queue s" "queue_chain s' (Some f) (f # remove1 q r)"
      using erase_after_ok [of f r s q] a Cons by (auto simp: set_ok_def)
    then show ?thesis using a False Cons by (auto simp: set_ok_def set_erase_def distinct_remove1 dest: in_set_remove1 [THEN iffD1] set_remove1_subset [THEN subsetD])
  qed
qed (auto simp: set_ok_def set_erase_def)

lemma all_empty_ok: "queue_chain s p xs \<Longrightarrow> empty_loop s p = Some (\<forall>q \<in> set xs. timers_empty (queues s q))"
  by (induction xs arbitrary: p; subst empty_loop.simps) auto

section \<open>How long to wait\<close>

text \<open>One queue: a wait of at least 1 unit if nothing is due, and of 0 if something is.\<close>

definition unit_wait :: "int \<Rightarrow> int \<Rightarrow> int \<Rightarrow> int" where
  "unit_wait u d m = (if d \<le> 0 then 0 else if d < u then 1 else min m (d div u))"

lemma to_units_wait:
  "to_usec d m = Inr (unit_wait 1000 d m)" "to_msec d m = Inr (unit_wait 1000000 d m)"
  by (auto simp: to_usec_def to_msec_def unit_wait_def steady_usec steady_msec zdiv_eq_0_iff min_def simp del: One_nat_def)

lemma wait_head:
  assumes "heap_part q ts" "in_ticks now" "\<forall>t e. expiry q t = Some e \<longrightarrow> in_ticks e"
  shows "wait_duration_usec now q m = Inr (case heap q of [] \<Rightarrow> m | (e, _) # _ \<Rightarrow> unit_wait 1000 (saturate (e - now)) m)"
    "wait_duration_msec now q m = Inr (case heap q of [] \<Rightarrow> m | (e, _) # _ \<Rightarrow> unit_wait 1000000 (saturate (e - now)) m)"
proof -
  have "in_ticks e" if "heap q = (e, t) # r" for e t r
    using assms(1,3) expiry_Some [of q t e] that by (auto simp: heap_part_def)
  then show "wait_duration_usec now q m = Inr (case heap q of [] \<Rightarrow> m | (e, _) # _ \<Rightarrow> unit_wait 1000 (saturate (e - now)) m)"
    "wait_duration_msec now q m = Inr (case heap q of [] \<Rightarrow> m | (e, _) # _ \<Rightarrow> unit_wait 1000000 (saturate (e - now)) m)"
    using time_subtract_saturates [OF _ assms(2)]
    by (auto simp: wait_duration_usec_def wait_duration_msec_def to_units_wait split: list.split)
qed

text \<open>What a wait promises, in units of \<open>u\<close> ticks.\<close>

definition good_wait :: "timer_queue_state \<Rightarrow> int \<Rightarrow> int \<Rightarrow> int \<Rightarrow> int \<Rightarrow> bool" where
  "good_wait q now u m w \<longleftrightarrow> 0 \<le> w \<and> w \<le> m \<and>
     (w = 0 \<longleftrightarrow> (\<exists>t e. expiry q t = Some e \<and> e \<le> now)) \<and>
     (\<forall>t e. expiry q t = Some e \<and> w > 1 \<longrightarrow> now + w * u \<le> e) \<and>
     (w = m \<or> (\<exists>t e. expiry q t = Some e \<and> e < now + (w + 1) * u))"

lemma unit_wait_bounds:
  assumes "1 \<le> m" "0 < u"
  shows "0 \<le> unit_wait u d m" "unit_wait u d m \<le> m" "unit_wait u d m = 0 \<longleftrightarrow> d \<le> 0"
    "unit_wait u d m > 1 \<Longrightarrow> unit_wait u d m * u \<le> d" "unit_wait u d m = m \<or> d < (unit_wait u d m + 1) * u"
proof -
  have d: "d div u * u \<le> d" "d < (d div u + 1) * u"
    using assms(2) pos_mod_bound [of u d] pos_mod_sign [of u d] div_mult_mod_eq [of d u] by (auto simp: distrib_right; linarith)+
  have p: "\<not> d < u \<Longrightarrow> 1 \<le> d div u" using assms(2) by (metis linorder_not_less int_one_le_iff_zero_less pos_imp_zdiv_pos_iff)
  show "0 \<le> unit_wait u d m" "unit_wait u d m \<le> m" "unit_wait u d m = 0 \<longleftrightarrow> d \<le> 0"
    using assms p by (auto simp: unit_wait_def min_def)
  show "unit_wait u d m * u \<le> d" if "unit_wait u d m > 1"
  proof -
    have "unit_wait u d m \<le> d div u" using that by (auto simp: unit_wait_def split: if_splits)
    then show ?thesis using d(1) assms(2) by (meson mult_right_mono order_trans less_imp_le)
  qed
  show "unit_wait u d m = m \<or> d < (unit_wait u d m + 1) * u"
    using d(2) assms by (auto simp: unit_wait_def min_def)
qed

lemma good_waitI:
  assumes "heap_part q ts" "in_ticks now" "1 \<le> m" "0 < u" "(m + 1) * u \<le> tick_max"
  shows "good_wait q now u m (case heap q of [] \<Rightarrow> m | (e, _) # _ \<Rightarrow> unit_wait u (saturate (e - now)) m)"
proof (cases "heap q")
  case Nil
  then have "expiry q t = None" for t by (simp add: expiry_def)
  then show ?thesis using assms(3) by (simp add: good_wait_def Nil)
next
  case (Cons x r)
  obtain e t where x: "x = (e, t)" by (cases x)
  let ?d = "saturate (e - now)" let ?w = "unit_wait u ?d m"
  note b = unit_wait_bounds [OF assms(3,4), of ?d]
  have ex: "expiry q t = Some e" using assms(1) by (simp add: heap_part_def expiry_Some Cons x)
  have least: "e \<le> f" if "expiry q u = Some f" for u f
    using assms(1) that first_least [of q f u] by (auto simp: heap_part_def expiry_Some Cons x)
  have sat: "?d \<le> 0 \<longleftrightarrow> e \<le> now" "?d > 0 \<Longrightarrow> ?d \<le> e - now" "?d < e - now \<Longrightarrow> ?d = tick_max \<or> ?d < 0"
    using assms(2) by (auto simp: saturate_def tick_defs)
  have m: "(?w + 1) * u \<le> (m + 1) * u" using b(2) assms(4) by (intro mult_right_mono) simp_all
  then have "?w = m \<or> e < now + (?w + 1) * u"
  proof (cases "?d \<le> 0")
    case True
    then have "?w = 0" "e \<le> now" using b(3) sat(1) by simp_all
    then show ?thesis using assms(4) by simp
  next
    case False
    show ?thesis
    proof (cases "?d < e - now")
      case True
      then have "?d = tick_max" using sat(3) False by simp
      then show ?thesis using b(5) m assms(5) by linarith
    next
      case d: False
      then show ?thesis using b(5) by linarith
    qed
  qed
  moreover have "now + ?w * u \<le> f" if "?w > 1" "expiry q v = Some f" for v f
    using b(3,4) that sat(2) least [OF that(2)] by fastforce
  moreover have "?w = 0 \<longleftrightarrow> (\<exists>v f. expiry q v = Some f \<and> f \<le> now)"
    using b(3) sat(1) ex least by (metis order_trans)
  ultimately show ?thesis using b(1,2) ex by (auto simp: good_wait_def Cons x)
qed



text \<open>
  With a maximum of 0, a timer that is due in less than a unit makes the wait 1. So a set of two
  queues may wait though a timer of the first is due: the second turns its 0 into 1.
\<close>

lemma wait_hides_due_timer:
  "let q1 = timer_queue_new\<lparr>heap := [(5, 1)]\<rparr>; q2 = timer_queue_new\<lparr>heap := [(15, 2)]\<rparr>;
       s = \<lparr>first_queue = Some 1, next_queue = (\<lambda>_. None)(1 := Some 2), queues = (\<lambda>_. q1)(2 := q2)\<rparr>
   in wait_duration_usec 10 q1 300000000 = Inr 0 \<and> set_wait_duration_usec 10 s 300000000 = Some (Inr 1) \<and>
      set_wait_duration_msec 10 s 300000 = Some (Inr 1)"
  by (simp add: Let_def set_wait_duration_usec_def set_wait_duration_msec_def wait_loop.simps wait_duration_usec_def
      wait_duration_msec_def time_subtract_def int64_def tick_defs to_usec_def to_msec_def timer_queue_new_def
      steady_usec [simplified] steady_msec [simplified])

text \<open>
  A timer whose adding failed keeps the index it was to get. When it is moved, it takes over the
  entry of the timer that got that index: here that of timer 2, which stays active with operation 8
  and without an expiry.
\<close>

lemma failed_timer_takes_entry:
  "\<exists>q1 q2 r. enqueue_timer (\<lambda>_. False) False timer_queue_new 50 1 7 = (q1, Inl bad_alloc) \<and>
     enqueue_timer (\<lambda>_. False) True q1 60 2 8 = (q2, r) \<and> pending q2 2 = Some (Some 60, [8]) \<and>
     heap (move_timer q2 3 1) = [(60, 3)] \<and> pending (move_timer q2 3 1) 2 = Some (None, [8])"
proof -
  let ?d = "(\<lambda>_. per_timer_data_new)(1 := per_timer_data_new\<lparr>heap_index := 0\<rparr>)"
  let ?q1 = "\<lparr>first_timer = None, heap = [], timer_data = ?d\<rparr>"
  let ?q2 = "\<lparr>first_timer = Some 2, heap = [(60, 2)], timer_data = ?d(2 := per_timer_data_new\<lparr>heap_index := 0, wait_ops := [8]\<rparr>)\<rparr>"
  have 1: "enqueue_timer (\<lambda>_. False) False timer_queue_new 50 1 7 = (?q1, Inl bad_alloc)"
    by (simp add: enqueue_timer_def active_def timer_queue_new_def per_timer_data_new_def upd_timer_def)
  have 2: "enqueue_timer (\<lambda>_. False) True ?q1 60 2 8 = (?q2, Inr True)"
    by (simp add: enqueue_timer_def active_def per_timer_data_new_def upd_timer_def vector_max_def link_first_def
        up_heap.simps [of _ 0] fun_eq_iff)
  have 3: "heap (move_timer ?q2 3 1) = [(60, 3)]" "wait_ops (timer_data (move_timer ?q2 3 1) 2) = [8]"
    by (simp_all add: move_timer_def upd_timer_def Let_def per_timer_data_new_def)
  show ?thesis using 1 2 3 by (intro exI) (auto simp: pending_def expiry_def)
qed

end
