(* ===== verification/Epoll_Timers.thy ===== *)
theory Epoll_Timers
  imports Asio_Epoll Asio_Timer_Set
begin

text \<open>
  Timers above the timer queues: the part of the reactor that waits for them (detail/impl/epoll\_reactor.hpp
  and .ipp) and \<open>deadline_timer_service\<close> (detail/deadline\_timer\_service.hpp), the service behind
  \<open>basic_waitable_timer\<close>. Times are ticks of the steady clock, nanoseconds.
\<close>

section \<open>The reactor's timers\<close>

record timer_reactor =
  timer_queues :: timer_queue_set
  reactor_shutdown :: bool
  timer_fd :: int

text \<open>What the functions below ask of others: the scheduler, the timer descriptor and the interrupter.\<close>

datatype timer_call =
    Complete_Now nat
  | Complete_Aborted "nat list"
  | Count_Work
  | Set_Timer bool int int
  | Interrupt

text \<open>\<open>get_timeout\<close> for \<open>epoll_wait\<close>, in milliseconds, no longer than five minutes.\<close>

definition get_timeout_msec :: "int \<Rightarrow> timer_reactor \<Rightarrow> int \<Rightarrow> int result option" where
  "get_timeout_msec now r msec =
     (let max_msec = 5 * 60 * 1000
      in set_wait_duration_msec now (timer_queues r) (if msec < 0 \<or> max_msec < msec then max_msec else msec))"

text \<open>\<open>get_timeout\<close> for the timer descriptor: whether the time is absolute, the seconds and the nanoseconds.
  An absolute nanosecond is in the past; a relative zero would switch the timer off.\<close>

definition timer_setting :: "int \<Rightarrow> bool \<times> int \<times> int" where
  "timer_setting usec = (usec = 0, usec div 1000000, if usec \<noteq> 0 then (usec mod 1000000) * 1000 else 1)"

definition get_timeout_ts :: "int \<Rightarrow> timer_reactor \<Rightarrow> (bool \<times> int \<times> int) result option" where
  "get_timeout_ts now r =
     map_option (\<lambda>u. bindR u (\<lambda>usec. Inr (timer_setting usec)))
       (set_wait_duration_usec now (timer_queues r) (5 * 60 * 1000 * 1000))"

definition update_timeout :: "int \<Rightarrow> timer_reactor \<Rightarrow> timer_call result option" where
  "update_timeout now r =
     (if timer_fd r \<noteq> - 1
      then map_option (\<lambda>u. bindR u (\<lambda>(absolute, sec, nsec). Inr (Set_Timer absolute sec nsec))) (get_timeout_ts now r)
      else Some (Inr Interrupt))"

text \<open>The timeout \<open>run\<close> gives to \<open>epoll_wait\<close>, from microseconds rounded up; a negative one has no end.\<close>

definition to_int :: "int \<Rightarrow> int" where
  "to_int x = sint (word_of_int x :: uint32)"

definition run_timeout :: "int \<Rightarrow> timer_reactor \<Rightarrow> int \<Rightarrow> int result option" where
  "run_timeout now r usec =
     (if usec = 0 then Some (Inr 0)
      else (let timeout = (if usec < 0 then - 1 else to_int ((usec - 1) div 1000 + 1))
            in if timer_fd r = - 1 then get_timeout_msec now r timeout else Some (Inr timeout)))"

text \<open>What \<open>epoll_wait\<close> reports: the interrupter, the timer descriptor, or a descriptor with its events.\<close>

datatype source = From_Interrupter | From_Timer | From_Descriptor nat uint32

definition check_timers :: "timer_reactor \<Rightarrow> source list \<Rightarrow> bool" where
  "check_timers r es \<longleftrightarrow> timer_fd r = - 1 \<or> From_Timer \<in> set es"

definition descriptor_events :: "source list \<Rightarrow> (nat \<times> uint32) list" where
  "descriptor_events es = List.map_filter (\<lambda>e. case e of From_Descriptor x ev \<Rightarrow> Some (x, ev) | _ \<Rightarrow> None) es"

text \<open>\<open>run\<close> behind \<open>epoll_wait\<close>: descriptors and ready timers for the scheduler, and the new setting of
  the timer descriptor. The clock is read for each queue and once for the setting.\<close>

definition run_events :: "(nat \<Rightarrow> int) \<Rightarrow> int \<Rightarrow> source list \<Rightarrow> reactor \<Rightarrow> timer_reactor \<Rightarrow>
    (reactor \<times> timer_reactor \<times> nat list \<times> timer_call result option) option" where
  "run_events nows now es d r =
     (let d1 = dispatch_events (descriptor_events es) d
      in if check_timers r es
         then (case set_get_ready_timers nows (timer_queues r) of
                 None \<Rightarrow> None
               | Some (s, ops) \<Rightarrow>
                   (let r1 = r\<lparr>timer_queues := s\<rparr>
                    in if timer_fd r \<noteq> - 1
                       then map_option (\<lambda>c. (d1, r1, ops, Some c)) (update_timeout now r1)
                       else Some (d1, r1, ops, None)))
         else Some (d1, r, [], None))"

text \<open>\<open>schedule_timer\<close>, \<open>cancel_timer\<close> and \<open>move_timer\<close>, on one queue of the reactor. The last
  part of what \<open>schedule_timer\<close> returns says that \<open>update_timeout\<close> follows.\<close>

definition size_max :: nat where
  "size_max = 2 ^ 64 - 1"

definition set_queue :: "nat \<Rightarrow> timer_queue_state \<Rightarrow> timer_reactor \<Rightarrow> timer_reactor" where
  "set_queue k q r = r\<lparr>timer_queues := (timer_queues r)\<lparr>queues := (queues (timer_queues r))(k := q)\<rparr>\<rparr>"

definition schedule_timer :: "(int \<Rightarrow> bool) \<Rightarrow> bool \<Rightarrow> nat \<Rightarrow> int \<Rightarrow> nat \<Rightarrow> nat \<Rightarrow> timer_reactor \<Rightarrow>
    timer_reactor \<times> timer_call list result \<times> bool" where
  "schedule_timer isinf grows k time t op r =
     (if reactor_shutdown r then (r, Inr [Complete_Now op], False)
      else (case enqueue_timer isinf grows (queues (timer_queues r) k) time t op of
              (q, Inl e) \<Rightarrow> (set_queue k q r, Inl e, False)
            | (q, Inr earliest) \<Rightarrow> (set_queue k q r, Inr [Count_Work], earliest)))"

definition reactor_cancel_timer :: "nat \<Rightarrow> nat \<Rightarrow> nat \<Rightarrow> timer_reactor \<Rightarrow> timer_reactor \<times> timer_call list \<times> nat" where
  "reactor_cancel_timer k t max_cancelled r =
     (case cancel_timer (queues (timer_queues r) k) t max_cancelled of
        (q, ops, n) \<Rightarrow> (set_queue k q r, [Complete_Aborted ops], n))"

definition reactor_move_timer :: "nat \<Rightarrow> nat \<Rightarrow> nat \<Rightarrow> timer_reactor \<Rightarrow> timer_reactor \<times> timer_call list" where
  "reactor_move_timer k target source r =
     (case cancel_timer (queues (timer_queues r) k) target size_max of
        (q, ops, n) \<Rightarrow> (set_queue k (move_timer q target source) r, [Complete_Aborted ops]))"

section \<open>The service of timers\<close>

text \<open>\<open>implementation_type\<close>; its \<open>timer_data\<close> is the entry of the queue with the timer's name.\<close>

record timer_impl =
  expiry_time :: int
  might_have_pending_waits :: bool

definition construct_timer :: timer_impl where
  "construct_timer = \<lparr>expiry_time = 0, might_have_pending_waits = False\<rparr>"

text \<open>The service with its queue, the \<open>k\<close>-th of the reactor.\<close>

record timer_service =
  timers_of :: timer_reactor
  timer_impls :: "nat \<Rightarrow> timer_impl"

definition service_queue :: "nat \<Rightarrow> timer_service \<Rightarrow> timer_queue_state" where
  "service_queue k s = queues (timer_queues (timers_of s)) k"

definition set_impl :: "nat \<Rightarrow> (timer_impl \<Rightarrow> timer_impl) \<Rightarrow> timer_service \<Rightarrow> timer_service" where
  "set_impl t f s = s\<lparr>timer_impls := (timer_impls s)(t := f (timer_impls s t))\<rparr>"

definition timer_cancel :: "nat \<Rightarrow> nat \<Rightarrow> timer_service \<Rightarrow> timer_service \<times> timer_call list \<times> nat" where
  "timer_cancel k t s =
     (if \<not> might_have_pending_waits (timer_impls s t) then (s, [], 0)
      else (case reactor_cancel_timer k t size_max (timers_of s) of
        (r, calls, cancelled) \<Rightarrow>
          (set_impl t (\<lambda>i. i\<lparr>might_have_pending_waits := False\<rparr>) (s\<lparr>timers_of := r\<rparr>), calls, cancelled)))"

definition timer_cancel_one :: "nat \<Rightarrow> nat \<Rightarrow> timer_service \<Rightarrow> timer_service \<times> timer_call list \<times> nat" where
  "timer_cancel_one k t s =
     (if \<not> might_have_pending_waits (timer_impls s t) then (s, [], 0)
      else (case reactor_cancel_timer k t 1 (timers_of s) of
        (r, calls, cancelled) \<Rightarrow>
          (let s1 = s\<lparr>timers_of := r\<rparr>
           in (if cancelled = 0 then set_impl t (\<lambda>i. i\<lparr>might_have_pending_waits := False\<rparr>) s1 else s1, calls, cancelled))))"

definition timer_expires_at :: "nat \<Rightarrow> nat \<Rightarrow> int \<Rightarrow> timer_service \<Rightarrow> timer_service \<times> timer_call list \<times> nat" where
  "timer_expires_at k t time s =
     (case timer_cancel k t s of
        (s1, calls, cancelled) \<Rightarrow> (set_impl t (\<lambda>i. i\<lparr>expiry_time := time\<rparr>) s1, calls, cancelled))"

text \<open>\<open>expires_after\<close> and \<open>expires_from_now\<close> with a duration.\<close>

definition timer_expires_after :: "int \<Rightarrow> nat \<Rightarrow> nat \<Rightarrow> int \<Rightarrow> timer_service \<Rightarrow>
    (timer_service \<times> timer_call list \<times> nat) result" where
  "timer_expires_after now k t duration s =
     bindR (time_add now duration) (\<lambda>time. Inr (timer_expires_at k t time s))"

definition timer_expires_from_now :: "int \<Rightarrow> nat \<Rightarrow> timer_service \<Rightarrow> int result" where
  "timer_expires_from_now now t s = time_subtract (expiry_time (timer_impls s t)) now"

definition timer_async_wait :: "(int \<Rightarrow> bool) \<Rightarrow> bool \<Rightarrow> nat \<Rightarrow> nat \<Rightarrow> nat \<Rightarrow> timer_service \<Rightarrow>
    timer_service \<times> timer_call list result \<times> bool" where
  "timer_async_wait isinf grows k t op s =
     (let s1 = set_impl t (\<lambda>i. i\<lparr>might_have_pending_waits := True\<rparr>) s
      in case schedule_timer isinf grows k (expiry_time (timer_impls s t)) t op (timers_of s) of
           (r, calls, earliest) \<Rightarrow> (s1\<lparr>timers_of := r\<rparr>, calls, earliest))"

text \<open>\<open>destroy\<close>, \<open>move_construct\<close>, and \<open>move_assign\<close> from a timer of the same service.\<close>

definition timer_destroy :: "nat \<Rightarrow> nat \<Rightarrow> timer_service \<Rightarrow> timer_service \<times> timer_call list" where
  "timer_destroy k t s = (case timer_cancel k t s of (s1, calls, _) \<Rightarrow> (s1, calls))"

definition timer_move_construct :: "nat \<Rightarrow> nat \<Rightarrow> nat \<Rightarrow> timer_service \<Rightarrow> timer_service \<times> timer_call list" where
  "timer_move_construct k t other s =
     (case reactor_move_timer k t other (timers_of s) of
        (r, calls) \<Rightarrow>
          (let i = timer_impls s other
           in (s\<lparr>timers_of := r, timer_impls := (timer_impls s)(t := i, other := construct_timer)\<rparr>, calls)))"

definition timer_move_assign :: "nat \<Rightarrow> nat \<Rightarrow> nat \<Rightarrow> timer_service \<Rightarrow> timer_service \<times> timer_call list" where
  "timer_move_assign k t other s = timer_move_construct k t other s"

text \<open>The blocking \<open>wait\<close>: the clock and the sleep of \<open>select\<close>, an error or none, are functions of the world.\<close>

definition timeval_of :: "int \<Rightarrow> (int \<times> int) result" where
  "timeval_of timeout =
     bindR (total_seconds 1 1000000000 timeout) (\<lambda>sec.
     bindR (total_microseconds 1 1000000000 timeout) (\<lambda>usec. Inr (sec, usec smod 1000000)))"

partial_function (option) timer_wait_loop :: "('w \<Rightarrow> int \<times> 'w) \<Rightarrow> (int \<times> int \<Rightarrow> 'w \<Rightarrow> error_code \<times> 'w) \<Rightarrow>
    int \<Rightarrow> int \<Rightarrow> error_code \<Rightarrow> 'w \<Rightarrow> (error_code result \<times> 'w) option" where
  "timer_wait_loop clock sleep time now ec w =
     (if now < time \<and> \<not> is_error ec
      then (case bindR (time_subtract time now) timeval_of of
              Inl e \<Rightarrow> Some (Inl e, w)
            | Inr tv \<Rightarrow>
                (case sleep tv w of
                   (ec1, w1) \<Rightarrow> (case clock w1 of (now1, w2) \<Rightarrow> timer_wait_loop clock sleep time now1 ec1 w2)))
      else Some (Inr ec, w))"

definition timer_wait :: "('w \<Rightarrow> int \<times> 'w) \<Rightarrow> (int \<times> int \<Rightarrow> 'w \<Rightarrow> error_code \<times> 'w) \<Rightarrow> nat \<Rightarrow> timer_service \<Rightarrow>
    'w \<Rightarrow> (error_code result \<times> 'w) option" where
  "timer_wait clock sleep t s w =
     (case clock w of (now, w1) \<Rightarrow> timer_wait_loop clock sleep (expiry_time (timer_impls s t)) now no_error w1)"

end
