(* ===== verification/Deadline_Props.thy ===== *)
theory Deadline_Props
  imports Epoll_Timers
begin

text \<open>
  What the service of timers promises, over the timer queue's lemmas: its flags and expiries agree
  with the queue, so a change of the expiry cancels every wait, and a wait ends when the expiry of
  its timer is reached. And the settings of the timer descriptor.
\<close>

section \<open>The timer descriptor\<close>

text \<open>A setting is never one that switches the timer off, and is the wait in nanoseconds.\<close>

lemma timer_setting_ok:
  assumes "0 \<le> usec" "timer_setting usec = (absolute, sec, nsec)"
  shows "(sec, nsec) \<noteq> (0, 0) \<and> 0 \<le> sec \<and> 0 \<le> nsec \<and> nsec < 1000000000 \<and>
    (usec \<noteq> 0 \<longrightarrow> \<not> absolute \<and> sec * 1000000000 + nsec = usec * 1000) \<and> (usec = 0 \<longrightarrow> absolute \<and> sec = 0 \<and> nsec = 1)"
proof -
  have s: "absolute = (usec = 0)" "sec = usec div 1000000" "nsec = (if usec \<noteq> 0 then (usec mod 1000000) * 1000 else 1)"
    using assms(2) by (auto simp: timer_setting_def)
  have "0 \<le> usec mod 1000000" "usec mod 1000000 < 1000000" by simp_all
  moreover have "usec div 1000000 * 1000000000 + usec mod 1000000 * 1000 = usec * 1000"
    using div_mult_mod_eq [of usec 1000000] by linarith
  moreover have "0 \<le> usec div 1000000" using assms(1) by (simp add: pos_imp_zdiv_nonneg_iff)
  ultimately show ?thesis using assms(1) s by (auto split: if_splits)
qed

section \<open>The service\<close>

datatype timer_act =
    Wait_For nat nat
  | Cancel_All nat
  | Cancel_One nat
  | Set_Expiry nat int
  | Fire int

text \<open>Waits find room in the vector; \<open>Fire\<close> is the reactor's \<open>get_ready_timers\<close> on this queue.\<close>

fun timer_step :: "(int \<Rightarrow> bool) \<Rightarrow> nat \<Rightarrow> timer_act \<Rightarrow> timer_service \<Rightarrow> timer_service" where
  "timer_step isinf k (Wait_For t op) s = fst (timer_async_wait isinf True k t op s)"
| "timer_step isinf k (Cancel_All t) s = fst (timer_cancel k t s)"
| "timer_step isinf k (Cancel_One t) s = fst (timer_cancel_one k t s)"
| "timer_step isinf k (Set_Expiry t time) s = fst (timer_expires_at k t time s)"
| "timer_step isinf k (Fire now) s =
     (case get_ready_timers now (service_queue k s) of
        None \<Rightarrow> s | Some (q, ops) \<Rightarrow> s\<lparr>timers_of := set_queue k q (timers_of s)\<rparr>)"

definition timer_service_new :: "timer_queue_set \<Rightarrow> int \<Rightarrow> timer_service" where
  "timer_service_new qs fd = \<lparr>timers_of = \<lparr>timer_queues = qs, reactor_shutdown = False, timer_fd = fd\<rparr>,
     timer_impls = (\<lambda>_. construct_timer)\<rparr>"

definition due_of :: "(int \<Rightarrow> bool) \<Rightarrow> timer_service \<Rightarrow> nat \<Rightarrow> int option" where
  "due_of isinf s t =
     (let time = expiry_time (timer_impls s t) in if isinf time then None else Some time)"

text \<open>At most \<open>n\<close> operations wait for one timer.\<close>

definition timers_ok :: "(int \<Rightarrow> bool) \<Rightarrow> nat \<Rightarrow> nat \<Rightarrow> timer_service \<Rightarrow> bool" where
  "timers_ok isinf k n s \<longleftrightarrow> tq_inv (service_queue k s) \<and>
     (\<forall>t. case pending (service_queue k s) t of
        None \<Rightarrow> True
      | Some (e, ops) \<Rightarrow> might_have_pending_waits (timer_impls s t) \<and> e = due_of isinf s t \<and> length ops \<le> n)"

lemma service_okD:
  assumes "timers_ok isinf k n s" "pending (service_queue k s) t = Some (e, ops)"
  shows "might_have_pending_waits (timer_impls s t) \<and> e = due_of isinf s t \<and> length ops \<le> n"
  using assms unfolding timers_ok_def by (auto dest!: spec [of _ t])

lemma queue_simps [simp]:
  "service_queue k (s\<lparr>timers_of := set_queue k q r\<rparr>) = q"
  "service_queue k (set_impl t f s) = service_queue k s"
  "timer_impls (s\<lparr>timers_of := r\<rparr>) = timer_impls s"
  "timer_impls (set_impl t f s) = (timer_impls s)(t := f (timer_impls s t))"
  "timers_of (set_impl t f s) = timers_of s"
  by (simp_all add: service_queue_def set_queue_def set_impl_def)

lemma due_of_cong: "expiry_time (timer_impls s' t) = expiry_time (timer_impls s t) \<Longrightarrow> due_of isinf s' t = due_of isinf s t"
  by (simp add: due_of_def)

text \<open>A step that only takes operations away, and clears the flag only of a timer without any.\<close>

lemma timers_ok_fewer:
  assumes ok: "timers_ok isinf k n s" and q: "tq_inv (service_queue k s')"
    and p: "\<And>t e ops. pending (service_queue k s') t = Some (e, ops) \<Longrightarrow>
      (\<exists>os. pending (service_queue k s) t = Some (e, os) \<and> length ops \<le> length os) \<and>
      might_have_pending_waits (timer_impls s' t) = might_have_pending_waits (timer_impls s t) \<and>
      expiry_time (timer_impls s' t) = expiry_time (timer_impls s t)"
  shows "timers_ok isinf k n s'"
proof -
  have "might_have_pending_waits (timer_impls s' t) \<and> e = due_of isinf s' t \<and> length ops \<le> n"
    if "pending (service_queue k s') t = Some (e, ops)" for t e ops
  proof -
    note a = p [OF that]
    obtain os where os: "pending (service_queue k s) t = Some (e, os)" "length ops \<le> length os"
      using a by blast
    have "might_have_pending_waits (timer_impls s t) \<and> e = due_of isinf s t \<and> length os \<le> n"
      by (rule service_okD [OF ok os(1)])
    then show ?thesis using a os due_of_cong [of s' t s isinf] by auto
  qed
  then show ?thesis using q by (auto simp: timers_ok_def split: option.splits)
qed

text \<open>Cancelling takes all waits of the timer, and returns their number.\<close>

lemma timer_cancel_ok:
  assumes ok: "timers_ok isinf k n s" and n: "n \<le> size_max" and c: "timer_cancel k t s = (s', calls, cnt)"
  shows "timers_ok isinf k n s' \<and> pending (service_queue k s') = (pending (service_queue k s))(t := None) \<and>
    timer_impls s' = (timer_impls s)(t := (timer_impls s t)\<lparr>might_have_pending_waits := False\<rparr>) \<and>
    (case pending (service_queue k s) t of
       None \<Rightarrow> cnt = 0 \<and> (calls = [] \<or> calls = [Complete_Aborted []])
     | Some (e, ops) \<Rightarrow> calls = [Complete_Aborted ops] \<and> cnt = length ops)"
proof (cases "might_have_pending_waits (timer_impls s t)")
  case False
  then have "pending (service_queue k s) t = None"
    using service_okD [OF ok] by (cases "pending (service_queue k s) t") auto
  moreover have "s' = s \<and> calls = [] \<and> cnt = 0" using c False by (simp add: timer_cancel_def)
  ultimately show ?thesis using ok False by (auto simp: fun_eq_iff)
next
  case True
  obtain q ops m where q: "cancel_timer (service_queue k s) t size_max = (q, ops, m)" by (rule prod_cases3)
  have s': "s' = set_impl t (\<lambda>i. i\<lparr>might_have_pending_waits := False\<rparr>) (s\<lparr>timers_of := set_queue k q (timers_of s)\<rparr>)"
    "calls = [Complete_Aborted ops]" "cnt = m"
    using c True q by (auto simp: timer_cancel_def reactor_cancel_timer_def service_queue_def)
  have inv: "tq_inv (service_queue k s)" using ok by (simp add: timers_ok_def)
  note co = cancel_ok [OF inv q]
  have all: "pending q = (pending (service_queue k s))(t := None) \<and> tq_inv q \<and>
    (case pending (service_queue k s) t of None \<Rightarrow> m = 0 \<and> ops = [] | Some (e, os) \<Rightarrow> ops = os \<and> m = length os)"
  proof (cases "pending (service_queue k s) t")
    case None
    then show ?thesis using co by (auto simp: fun_eq_iff)
  next
    case (Some p)
    obtain e os where p: "p = (e, os)" by (rule prod.exhaust)
    have "length os \<le> size_max" using service_okD [OF ok, of t e os] Some p n by simp
    then show ?thesis using co Some p by simp
  qed
  have "timers_ok isinf k n s'"
    by (rule timers_ok_fewer [OF ok]) (use all in \<open>auto simp: s' split: if_splits\<close>)
  then show ?thesis using s' all by (auto split: option.splits)
qed

lemma timer_step_ok:
  assumes ok: "timers_ok isinf k n s" and n: "n < size_max" and sd: "\<not> reactor_shutdown (timers_of s)"
  shows "timers_ok isinf k (Suc n) (timer_step isinf k a s) \<and>
    \<not> reactor_shutdown (timers_of (timer_step isinf k a s))"
proof -
  have inv: "tq_inv (service_queue k s)" using ok by (simp add: timers_ok_def)
  have weaken: "timers_ok isinf k n s' \<Longrightarrow> timers_ok isinf k (Suc n) s'" for s'
    by (auto simp: timers_ok_def split: option.splits intro: le_SucI)
  have shut [simp]: "reactor_shutdown (set_queue k q r) = reactor_shutdown r" for q r
    by (simp add: set_queue_def)
  have sd_cancel: "\<not> reactor_shutdown (timers_of (fst (timer_cancel k t s)))" for t
    using sd by (simp add: timer_cancel_def reactor_cancel_timer_def split: prod.split)
  show ?thesis
  proof (cases a)
    case (Wait_For t op)
    let ?time = "expiry_time (timer_impls s t)"
    obtain q r where q: "enqueue_timer isinf True (service_queue k s) ?time t op = (q, r)" by (rule prod.exhaust)
    note e = enqueue_ok [OF inv q]
    have s': "timer_step isinf k a s =
        set_impl t (\<lambda>i. i\<lparr>might_have_pending_waits := True\<rparr>) s\<lparr>timers_of := set_queue k q (timers_of s)\<rparr>"
      using q sd by (auto simp: Wait_For timer_async_wait_def schedule_timer_def service_queue_def split: sum.splits)
    have all: "might_have_pending_waits (timer_impls s u) \<and> d = due_of isinf s u \<and> length os \<le> n"
      if "pending (service_queue k s) u = Some (d, os)" for u d os
      using service_okD [OF ok that] .
    have due: "due_of isinf (timer_step isinf k a s) u = due_of isinf s u" for u
      by (rule due_of_cong) (simp add: s')
    have "might_have_pending_waits (timer_impls (timer_step isinf k a s) u) \<and>
        d = due_of isinf (timer_step isinf k a s) u \<and> length os \<le> Suc n"
      if u: "pending q u = Some (d, os)" for u d os
    proof (cases "u = t \<and> (\<exists>b. r = Inr b)")
      case True
      then have "pending q = spec_enqueue (isinf ?time) ?time t op (pending (service_queue k s))" using e by auto
      then show ?thesis
        using u True all [of t] unfolding due
        by (auto simp: s' spec_enqueue_def due_of_def Let_def split: option.splits)
    next
      case False
      then have "pending q u = pending (service_queue k s) u"
        using e by (cases r) (auto simp: spec_enqueue_def)
      then show ?thesis using all [of u d os] u unfolding due by (auto simp: s')
    qed
    then show ?thesis using e sd by (auto simp: timers_ok_def s' split: option.splits)
  next
    case (Cancel_All t)
    then show ?thesis
      using timer_cancel_ok [OF ok less_imp_le [OF n], of t] weaken sd_cancel [of t] by (cases "timer_cancel k t s" rule: prod_cases3) simp
  next
    case (Set_Expiry t time)
    obtain s1 calls cnt where c: "timer_cancel k t s = (s1, calls, cnt)" by (rule prod_cases3)
    note co = timer_cancel_ok [OF ok less_imp_le [OF n] c]
    have "timers_ok isinf k n (set_impl t (\<lambda>i. i\<lparr>expiry_time := time\<rparr>) s1)"
      by (rule timers_ok_fewer [of _ _ _ s1]) (use co in \<open>auto simp: timers_ok_def split: if_splits\<close>)
    then show ?thesis using c weaken sd_cancel [of t] by (simp add: Set_Expiry timer_expires_at_def)
  next
    case (Cancel_One t)
    show ?thesis
    proof (cases "might_have_pending_waits (timer_impls s t)")
      case False
      then show ?thesis using ok sd weaken by (simp add: Cancel_One timer_cancel_one_def)
    next
      case True
      obtain q ops m where q: "cancel_timer (service_queue k s) t 1 = (q, ops, m)" by (rule prod_cases3)
      note co = cancel_ok [OF inv q]
      have s': "timer_step isinf k a s = (let s1 = s\<lparr>timers_of := set_queue k q (timers_of s)\<rparr>
          in if m = 0 then set_impl t (\<lambda>i. i\<lparr>might_have_pending_waits := False\<rparr>) s1 else s1)"
        using q True by (simp add: Cancel_One timer_cancel_one_def reactor_cancel_timer_def service_queue_def Let_def)
      have "pending (service_queue k s) t = None" if "m = 0"
      proof (rule ccontr)
        assume "pending (service_queue k s) t \<noteq> None"
        then obtain d os where os: "pending (service_queue k s) t = Some (d, os)" by auto
        then have "os \<noteq> []" by (auto simp: pending_def split: if_splits)
        then show False using co that os by (cases os) auto
      qed
      then have "timers_ok isinf k n (timer_step isinf k a s)"
        by (intro timers_ok_fewer [OF ok])
          (use co in \<open>auto simp: s' Let_def split: option.splits if_splits\<close>)
      then show ?thesis using weaken sd by (simp add: s' Let_def)
    qed
  next
    case (Fire now)
    obtain q ts where r: "ready_loop now (service_queue k s) [] = Some (q, concat (map (\<lambda>t. wait_ops (timer_data (service_queue k s) t)) ts))"
      "tq_inv q" "\<forall>u. pending q u = (if u \<in> set ts then None else pending (service_queue k s) u)"
      using ready_loop_ok [OF inv, of now "[]"] by auto
    have "timers_ok isinf k n (s\<lparr>timers_of := set_queue k q (timers_of s)\<rparr>)"
      by (rule timers_ok_fewer [OF ok]) (use r in \<open>auto split: if_splits\<close>)
    then show ?thesis using r(1) weaken sd by (simp add: Fire get_ready_timers_def)
  qed
qed

definition waits_of :: "nat \<Rightarrow> timer_service \<Rightarrow> nat \<Rightarrow> nat list" where
  "waits_of k s t = (case pending (service_queue k s) t of None \<Rightarrow> [] | Some (e, ops) \<Rightarrow> ops)"

lemma ready_service:
  assumes ok: "timers_ok isinf k n s"
  shows "\<exists>q ts. get_ready_timers now (service_queue k s) = Some (q, concat (map (waits_of k s) ts)) \<and>
    distinct ts \<and> sorted (map (\<lambda>t. expiry_time (timer_impls s t)) ts) \<and>
    set ts = {t. waits_of k s t \<noteq> [] \<and> \<not> isinf (expiry_time (timer_impls s t)) \<and>
      expiry_time (timer_impls s t) \<le> now} \<and>
    pending q = pending (service_queue k s) |` (- set ts)"
proof -
  let ?p = "pending (service_queue k s)"
  have inv: "tq_inv (service_queue k s)" using ok by (simp add: timers_ok_def)
  obtain q ts where r: "get_ready_timers now (service_queue k s) = Some (q, concat (map (\<lambda>t. snd (the (?p t))) ts))"
    "distinct ts" "set ts = {t. \<exists>e os. ?p t = Some (Some e, os) \<and> e \<le> now}"
    "sorted (map (\<lambda>t. the (fst (the (?p t)))) ts)" "pending q = ?p |` (- set ts)"
    using ready_timers_in_order [OF inv, of now] by blast
  have due: "e = due_of isinf s t \<and> os \<noteq> [] \<and> waits_of k s t = os" if "?p t = Some (e, os)" for t e os
    using service_okD [OF ok that] that by (auto simp: waits_of_def pending_def split: if_splits)
  have in_ts: "?p t = Some (Some (expiry_time (timer_impls s t)), waits_of k s t)" if t: "t \<in> set ts" for t
  proof -
    obtain e os where e: "?p t = Some (Some e, os)" using t r(3) by auto
    then show ?thesis using due [OF e] by (simp add: due_of_def Let_def split: if_splits)
  qed
  have 1: "map (\<lambda>t. snd (the (?p t))) ts = map (waits_of k s) ts"
    "map (\<lambda>t. the (fst (the (?p t)))) ts = map (\<lambda>t. expiry_time (timer_impls s t)) ts"
    using in_ts by simp_all
  have "t \<in> set ts \<longleftrightarrow> waits_of k s t \<noteq> [] \<and> \<not> isinf (expiry_time (timer_impls s t)) \<and> expiry_time (timer_impls s t) \<le> now" for t
  proof (cases "?p t")
    case None
    then show ?thesis using r(3) by (simp add: waits_of_def)
  next
    case (Some p)
    obtain e os where p: "?p t = Some (e, os)" using Some by (cases p) auto
    show ?thesis using due [OF p] p r(3) by (auto simp: due_of_def Let_def split: if_splits)
  qed
  then have "set ts = {t. waits_of k s t \<noteq> [] \<and> \<not> isinf (expiry_time (timer_impls s t)) \<and>
      expiry_time (timer_impls s t) \<le> now}" by blast
  then show ?thesis using r(1,2,4,5) unfolding 1 by blast
qed

lemma timer_steps_ok:
  assumes "timers_ok isinf k n s" "n + length as \<le> size_max" "\<not> reactor_shutdown (timers_of s)"
  shows "timers_ok isinf k (n + length as) (fold (timer_step isinf k) as s)"
  using assms
proof (induction as arbitrary: n s)
  case (Cons a as)
  have "timers_ok isinf k (Suc n) (timer_step isinf k a s) \<and> \<not> reactor_shutdown (timers_of (timer_step isinf k a s))"
    using Cons.prems by (intro timer_step_ok) auto
  then show ?case using Cons.IH [of "Suc n" "timer_step isinf k a s"] Cons.prems(2) by simp
qed simp

lemma timers_ok_new:
  assumes "queues qs k = timer_queue_new"
  shows "timers_ok isinf k 0 (timer_service_new qs fd)"
proof -
  have "service_queue k (timer_service_new qs fd) = timer_queue_new"
    using assms by (simp add: service_queue_def timer_service_new_def)
  moreover have "pending timer_queue_new t = None" for t
    by (simp add: pending_def timer_queue_new_def per_timer_data_new_def)
  ultimately show ?thesis by (simp add: timers_ok_def tq_inv_new)
qed

lemma expires_at_ok:
  assumes ok: "timers_ok isinf k n s" and n: "n \<le> size_max" and c: "timer_expires_at k t time s = (s', calls, cnt)"
  shows "pending (service_queue k s') = (pending (service_queue k s))(t := None) \<and>
    expiry_time (timer_impls s' t) = time \<and>
    concat (map (\<lambda>c. case c of Complete_Aborted ops \<Rightarrow> ops | _ \<Rightarrow> []) calls) = waits_of k s t \<and>
    cnt = length (waits_of k s t)"
proof -
  obtain s1 calls1 cnt1 where c1: "timer_cancel k t s = (s1, calls1, cnt1)" by (rule prod_cases3)
  note co = timer_cancel_ok [OF ok n c1]
  have s': "s' = set_impl t (\<lambda>i. i\<lparr>expiry_time := time\<rparr>) s1" "calls = calls1" "cnt = cnt1"
    using c c1 by (auto simp: timer_expires_at_def)
  show ?thesis
    using co unfolding s' by (cases "pending (service_queue k s) t") (auto simp: waits_of_def)
qed

text \<open>C36: A timer ends its waits as its expiry says. Whatever waits, cancellations, changes of expiries
  and expirations happened to the timers of a service, in whatever order: setting the expiry of a timer
  aborts every wait for it, in the order they were started, and returns their number, touches no
  other timer, and later waits see the new time; and when the reactor looks at the queue, it hands
  out the waits of exactly those timers whose current expiry is reached, timer by timer in the order of
  the expiries, each wait once.\<close>

theorem timer_service_waits:
  assumes new: "queues qs k = timer_queue_new" and len: "length as \<le> size_max"
    and s: "s = fold (timer_step isinf k) as (timer_service_new qs fd)"
  shows "(\<forall>t time s' calls cnt. timer_expires_at k t time s = (s', calls, cnt) \<longrightarrow>
      pending (service_queue k s') = (pending (service_queue k s))(t := None) \<and>
      expiry_time (timer_impls s' t) = time \<and>
      concat (map (\<lambda>c. case c of Complete_Aborted ops \<Rightarrow> ops | _ \<Rightarrow> []) calls) = waits_of k s t \<and>
      cnt = length (waits_of k s t)) \<and>
    (\<forall>now. \<exists>q ts. get_ready_timers now (service_queue k s) = Some (q, concat (map (waits_of k s) ts)) \<and>
      distinct ts \<and> sorted (map (\<lambda>t. expiry_time (timer_impls s t)) ts) \<and>
      set ts = {t. waits_of k s t \<noteq> [] \<and> \<not> isinf (expiry_time (timer_impls s t)) \<and>
        expiry_time (timer_impls s t) \<le> now} \<and>
      pending q = pending (service_queue k s) |` (- set ts))"
proof -
  have ok: "timers_ok isinf k (length as) s"
    using timer_steps_ok [OF timers_ok_new [OF new, of isinf fd], of as] len unfolding s
    by (simp add: timer_service_new_def)
  have "\<exists>q ts. get_ready_timers now (service_queue k s) = Some (q, concat (map (waits_of k s) ts)) \<and>
      distinct ts \<and> sorted (map (\<lambda>t. expiry_time (timer_impls s t)) ts) \<and>
      set ts = {t. waits_of k s t \<noteq> [] \<and> \<not> isinf (expiry_time (timer_impls s t)) \<and>
        expiry_time (timer_impls s t) \<le> now} \<and>
      pending q = pending (service_queue k s) |` (- set ts)" for now
    by (rule ready_service [OF ok])
  then show ?thesis using expires_at_ok [OF ok len] by blast
qed

theorem timer_service_waits_witness:
  "\<exists>s. expiry_time (timer_impls s 1) = 50 \<and> waits_of 0 s 1 = [7] \<and>
     snd (snd (timer_expires_at 0 1 90 s)) = 1 \<and>
     map_option snd (get_ready_timers 60 (service_queue 0 s)) = Some [7]"
proof -
  let ?qs = "\<lparr>first_queue = Some 0, next_queue = (\<lambda>_. None), queues = (\<lambda>_. timer_queue_new)\<rparr>"
    and ?as = "[Set_Expiry 1 50, Wait_For 1 7]"
  define s where "s = fold (timer_step (\<lambda>_. False) 0) ?as (timer_service_new ?qs (- 1))"
  have s: "service_queue 0 s = fst (enqueue_timer (\<lambda>_. False) True timer_queue_new 50 1 7)"
    "timer_impls s 1 = \<lparr>expiry_time = 50, might_have_pending_waits = True\<rparr>"
    by (simp_all add: s_def timer_service_new_def timer_expires_at_def timer_cancel_def construct_timer_def
        timer_async_wait_def schedule_timer_def set_queue_def set_impl_def service_queue_def split: prod.split sum.split)
  have "fst (enqueue_timer (\<lambda>_. False) True timer_queue_new 50 1 7) =
      \<lparr>first_timer = Some 1, heap = [(50, 1)], timer_data = (\<lambda>_. per_timer_data_new)
         (1 := \<lparr>wait_ops = [7], heap_index = 0, next_timer = None, prev_timer = None\<rparr>)\<rparr>"
    by (simp add: enqueue_timer_def active_def timer_queue_new_def per_timer_data_new_def vector_max_def
        up_heap.simps [of _ 0] link_first_def upd_timer_def Let_def)
  then have w: "waits_of 0 s = (\<lambda>_. [])(1 := [7])"
    by (simp add: s fun_eq_iff waits_of_def pending_def per_timer_data_new_def)
  have len: "length ?as \<le> size_max" by (simp add: size_max_def)
  have qs: "queues ?qs 0 = timer_queue_new" by simp
  note t = timer_service_waits [OF qs len s_def]
  obtain q ts where q: "get_ready_timers 60 (service_queue 0 s) = Some (q, concat (map (waits_of 0 s) ts))" "distinct ts"
    "set ts = {t. waits_of 0 s t \<noteq> [] \<and> \<not> False \<and> expiry_time (timer_impls s t) \<le> 60}"
    using spec [OF conjunct2 [OF t], of 60] by (elim exE conjE)
  have "t \<in> set ts \<longleftrightarrow> t = 1" for t unfolding q(3) w by (cases "t = 1") (simp_all add: s(2) [unfolded One_nat_def])
  then have one: "set ts = {1}" by blast
  then have "length ts = 1" using distinct_card [OF q(2)] by simp
  then obtain x where x: "ts = [x]" by (cases ts) auto
  then have ts: "ts = [1]" using one by simp
  obtain s' calls cnt where e: "timer_expires_at 0 1 90 s = (s', calls, cnt)" by (rule prod_cases3)
  have "cnt = length (waits_of 0 s 1)"
    by (rule conjunct1 [OF t, rule_format, OF e, THEN conjunct2, THEN conjunct2, THEN conjunct2])
  then have "cnt = 1" by (simp add: w)
  moreover have "concat (map (waits_of 0 s) ts) = [7]" by (simp add: ts w)
  moreover have "expiry_time (timer_impls s 1) = 50" by (simp only: s(2) timer_impl.simps)
  moreover have "waits_of 0 s 1 = [7]" by (simp add: w)
  moreover have "snd (snd (timer_expires_at 0 1 90 s)) = cnt" by (simp only: e snd_conv)
  moreover have "map_option snd (get_ready_timers 60 (service_queue 0 s)) = Some (concat (map (waits_of 0 s) ts))"
    by (simp only: q(1) option.map snd_conv)
  ultimately show ?thesis by metis
qed

end
