(* ===== verification/Epoll_Props.thy ===== *)
theory Epoll_Props
  imports Asio_Epoll "HOL-Library.Multiset"
begin

text \<open>
  What the reactor does with operations: any number of sockets register, start operations, cancel and
  deregister them, the system reports any events at any time, and the scheduler runs descriptors and
  completes operations in any order. The invariant accounts for every operation and for the work that
  the scheduler counts.
\<close>

section \<open>The reactor with its callers and the scheduler\<close>

text \<open>
  \<open>data_of\<close> are the callers' pointers to their descriptors. \<open>begun\<close> and \<open>finished\<close> record each
  operation that was started, and that was given to the scheduler, with its descriptor and its type;
  \<open>handed\<close> are those the scheduler still has, \<open>completed\<close> those it has completed. \<open>work\<close> is the
  scheduler's count.
\<close>

type_synonym op_log = "(ptr \<times> nat \<times> nat) list"

record 'w reactor_sys =
  rx :: reactor
  world :: 'w
  data_of :: "nat \<Rightarrow> ptr"
  begun :: op_log
  finished :: op_log
  handed :: "nat list"
  completed :: "nat list"
  work :: int

definition sys_new :: "'w \<Rightarrow> 'w reactor_sys" where
  "sys_new w = \<lparr>rx = reactor_new, world = w, data_of = (\<lambda>_. None), begun = [], finished = [],
     handed = [], completed = [], work = 0\<rparr>"

fun apply_call :: "sched_call \<Rightarrow> 'w reactor_sys \<Rightarrow> 'w reactor_sys" where
  "apply_call (Post_Immediate op c) s = s\<lparr>handed := handed s @ [op_id op], work := work s + 1\<rparr>"
| "apply_call (Post_Deferred ops) s = s\<lparr>handed := handed s @ map op_id ops\<rparr>"
| "apply_call Work_Started s = s\<lparr>work := work s + 1\<rparr>"
| "apply_call Compensating_Work_Started s = s\<lparr>work := work s + 1\<rparr>"
| "apply_call (Abandon ops) s = s"

definition set_state :: "nat \<Rightarrow> descriptor_state \<Rightarrow> 'w \<Rightarrow> 'w reactor_sys \<Rightarrow> 'w reactor_sys" where
  "set_state x d w s = s\<lparr>rx := (rx s)\<lparr>states := (states (rx s))(x := d)\<rparr>, world := w\<rparr>"

text \<open>The operations that a step has taken from the queues of a descriptor.\<close>

definition taken_of :: "nat \<Rightarrow> descriptor_state \<Rightarrow> descriptor_state \<Rightarrow> nat \<Rightarrow> op_log" where
  "taken_of x d d' ty = map (\<lambda>op. (Some x, ty, op_id op))
     (take (length (op_queues d ! ty) - length (op_queues d' ! ty)) (op_queues d ! ty))"

definition taken :: "nat \<Rightarrow> descriptor_state \<Rightarrow> descriptor_state \<Rightarrow> op_log" where
  "taken x d d' = concat (map (taken_of x d d') [0..<max_ops])"

definition sys_start :: "'w reactor_os \<Rightarrow> nat \<Rightarrow> nat \<Rightarrow> int \<Rightarrow> reactor_op \<Rightarrow> bool \<Rightarrow> bool \<Rightarrow> 'w reactor_sys \<Rightarrow>
    'w reactor_sys" where
  "sys_start os sock ty desc op cont allow s =
     (let entry = (data_of s sock, ty, op_id op); s1 = s\<lparr>begun := begun s @ [entry]\<rparr>
      in case data_of s sock of
           None \<Rightarrow> fold apply_call (start_op_unregistered op cont) (s1\<lparr>finished := finished s @ [entry]\<rparr>)
         | Some x \<Rightarrow>
             (case start_op os ty desc (states (rx s) x) op cont allow (world s) of
                (d, calls, w) \<Rightarrow>
                  fold apply_call calls
                    (set_state x d w
                      (if length (op_queues d ! ty) = length (op_queues (states (rx s) x) ! ty)
                       then s1\<lparr>finished := finished s @ [entry]\<rparr> else s1))))"

definition sys_complete :: "'w reactor_os \<Rightarrow> nat \<Rightarrow> 'w reactor_sys \<Rightarrow> 'w reactor_sys" where
  "sys_complete os x s =
     (let d = states (rx s) x; s0 = s\<lparr>rx := (rx s)\<lparr>enqueued := remove1 x (enqueued (rx s))\<rparr>\<rparr>
      in case descriptor_complete os True d (world s) of
           (d', first, calls, w) \<Rightarrow>
             (let s1 = set_state x d' w (s0\<lparr>finished := finished s @ taken x d d'\<rparr>);
                  s2 = (case first of None \<Rightarrow> s1 | Some op \<Rightarrow> s1\<lparr>handed := handed s1 @ [op_id op]\<rparr>);
                  s3 = fold apply_call calls s2
              in (if first = None then s3\<lparr>work := work s3 - 1\<rparr> else s3)))"

datatype 'w reactor_act =
    Register nat int
  | Start nat nat int reactor_op bool bool
  | Cancel nat
  | Deregister nat int bool
  | Cleanup nat
  | Move nat nat
  | Events "(nat \<times> uint32) list"
  | Run_Descriptor nat
  | Run_Operation nat
  | World 'w

text \<open>
  The scheduler runs a descriptor, or completes an operation that it has, and then counts one less. The
  work of a descriptor that completes its first operation is taken back with that operation.
\<close>

fun reactor_step :: "'w reactor_os \<Rightarrow> 'w reactor_act \<Rightarrow> 'w reactor_sys \<Rightarrow> 'w reactor_sys" where
  "reactor_step os (Register sock desc) s =
     (case register_descriptor os desc (rx s) (world s) of
        (r, x, errno, w) \<Rightarrow> s\<lparr>rx := r, world := w, data_of := (data_of s)(sock := Some x)\<rparr>)"
| "reactor_step os (Start sock ty desc op cont allow) s =
     (if ty < max_ops then sys_start os sock ty desc op cont allow s else s)"
| "reactor_step os (Cancel sock) s =
     (case data_of s sock of
        None \<Rightarrow> s
      | Some x \<Rightarrow>
          (case cancel_ops (states (rx s) x) of
             (d, calls) \<Rightarrow> fold apply_call calls (set_state x d (world s)
                (s\<lparr>finished := finished s @ taken x (states (rx s) x) d\<rparr>))))"
| "reactor_step os (Deregister sock desc closing) s =
     (case data_of s sock of
        None \<Rightarrow> s
      | Some x \<Rightarrow>
          (case deregister_descriptor os desc closing (states (rx s) x) (world s) of
             (d, calls, w, keeps) \<Rightarrow> fold apply_call calls (set_state x d w
                (s\<lparr>finished := finished s @ taken x (states (rx s) x) d,
                   data_of := (if keeps then data_of s else (data_of s)(sock := None))\<rparr>))))"
| "reactor_step os (Cleanup sock) s =
     (case cleanup_descriptor_data (data_of s sock) (rx s) of
        (r, data) \<Rightarrow> s\<lparr>rx := r, data_of := (data_of s)(sock := data)\<rparr>)"
| "reactor_step os (Move target source) s =
     (case move_descriptor (data_of s target) (data_of s source) of
        (t, u) \<Rightarrow> s\<lparr>data_of := (data_of s)(target := t, source := u)\<rparr>)"
| "reactor_step os (Events es) s = s\<lparr>rx := dispatch_events es (rx s)\<rparr>"
| "reactor_step os (Run_Descriptor x) s = (if x \<in> set (enqueued (rx s)) then sys_complete os x s else s)"
| "reactor_step os (Run_Operation i) s =
     (if i \<in> set (handed s)
      then s\<lparr>handed := remove1 i (handed s), completed := completed s @ [i], work := work s - 1\<rparr> else s)"
| "reactor_step os (World w) s = s\<lparr>world := w\<rparr>"

section \<open>What leaves the queues\<close>

abbreviation ids :: "reactor_op list \<Rightarrow> nat list" where
  "ids ops \<equiv> map op_id ops"

text \<open>A step takes the first operations of each queue; \<open>ops\<close> are all it takes.\<close>

definition takes :: "descriptor_state \<Rightarrow> descriptor_state \<Rightarrow> reactor_op list \<Rightarrow> bool" where
  "takes d d' ops \<longleftrightarrow>
     length (op_queues d') = length (op_queues d) \<and>
     (\<forall>ty < length (op_queues d). \<exists>n \<le> length (op_queues d ! ty).
        ids (op_queues d' ! ty) = drop n (ids (op_queues d ! ty))) \<and>
     mset (ids (all_ops d)) = mset (ids ops) + mset (ids (all_ops d'))"

lemma op_id_perform: "perform os w op = (st, op', w') \<Longrightarrow> op_id op' = op_id op"
  by (auto simp: perform_def split: prod.splits)

lemma perform_queue_takes:
  "perform_queue os q w = (q', ops, e, w') \<Longrightarrow> ids q = ids ops @ ids q'"
  by (induction os q w arbitrary: q' ops e w' rule: perform_queue.induct)
    (auto split: prod.splits status.splits dest: op_id_perform)

lemma mset_concat_update:
  assumes "j < length qs"
  shows "mset (concat qs) + mset q = mset (qs ! j) + mset (concat (qs[j := q]))"
  using assms
proof (induction qs arbitrary: j)
  case (Cons p qs)
  show ?case
  proof (cases j)
    case (Suc i)
    then show ?thesis using Cons.IH [of i] Cons.prems by (simp add: union_commute union_assoc)
  qed simp
qed simp

lemma takes_refl: "takes d d []"
  by (auto simp: takes_def intro: exI [of _ 0])

lemma takes_trans:
  assumes a: "takes d d1 ops1" and b: "takes d1 d2 ops2"
  shows "takes d d2 (ops1 @ ops2)"
proof -
  have "\<exists>n \<le> length (op_queues d ! ty). ids (op_queues d2 ! ty) = drop n (ids (op_queues d ! ty))"
    if ty: "ty < length (op_queues d)" for ty
  proof -
    obtain n where n: "n \<le> length (op_queues d ! ty)" "ids (op_queues d1 ! ty) = drop n (ids (op_queues d ! ty))"
      using a ty by (auto simp: takes_def)
    obtain m where m: "m \<le> length (op_queues d1 ! ty)" "ids (op_queues d2 ! ty) = drop m (ids (op_queues d1 ! ty))"
      using a b ty by (auto simp: takes_def)
    have "length (op_queues d1 ! ty) = length (op_queues d ! ty) - n"
      using arg_cong [OF n(2), of length] by simp
    then have "n + m \<le> length (op_queues d ! ty)" using n m by simp
    moreover have "ids (op_queues d2 ! ty) = drop (n + m) (ids (op_queues d ! ty))"
      using n m by (simp add: add.commute)
    ultimately show ?thesis by blast
  qed
  then show ?thesis using a b by (simp add: takes_def)
qed

lemma takes_queue:
  assumes j: "j < length (op_queues d)" and q: "ids (op_queues d ! j) = ids ops @ ids q"
    and d': "op_queues d' = (op_queues d)[j := q]"
  shows "takes d d' ops"
proof -
  have "mset (map op_id (concat (op_queues d))) + mset (ids q) =
      mset (ids (op_queues d ! j)) + mset (map op_id (concat ((op_queues d)[j := q])))"
    using arg_cong [OF mset_concat_update [OF j, of q], of "image_mset op_id"] by simp
  then have "mset (ids (all_ops d)) = mset (ids ops) + mset (ids (all_ops d'))"
    using q d' by (simp add: all_ops_def)
  moreover have "\<exists>n \<le> length (op_queues d ! ty). ids (op_queues d' ! ty) = drop n (ids (op_queues d ! ty))"
    if "ty < length (op_queues d)" for ty
  proof (cases "ty = j")
    case True
    have "length ops \<le> length (op_queues d ! j)" using arg_cong [OF q, of length] by simp
    then show ?thesis using True q d' j by (intro exI [of _ "length ops"]) simp
  next
    case False
    then show ?thesis using d' by (intro exI [of _ 0]) simp
  qed
  ultimately show ?thesis using d' by (simp add: takes_def)
qed

lemma perform_types_takes:
  "perform_types os events k d w = (d', ops, w') \<Longrightarrow> k \<le> length (op_queues d) \<Longrightarrow> takes d d' ops"
proof (induction os events k d w arbitrary: d' ops w' rule: perform_types.induct)
  case (1 os events d w)
  then show ?case by (simp add: takes_refl)
next
  case (2 os events j d w)
  show ?case
  proof (cases "events AND (flag j OR EPOLLERR OR EPOLLHUP) = 0")
    case True
    then show ?thesis using 2 by simp
  next
    case False
    obtain q ops1 e w1 where q: "perform_queue os (op_queues d ! j) w = (q, ops1, e, w1)"
      by (metis prod_cases4)
    define d1 where "d1 = d\<lparr>op_queues := (op_queues d)[j := q],
        try_speculative := (try_speculative d)[j := \<not> e]\<rparr>"
    obtain d2 ops2 w2 where r: "perform_types os events j d1 w1 = (d2, ops2, w2)" by (metis prod_cases3)
    have "takes d d1 ops1"
      using 2(4) perform_queue_takes [OF q] by (intro takes_queue) (auto simp: d1_def)
    moreover have "takes d1 d2 ops2"
      using 2(2) [OF False q [symmetric] refl refl r [unfolded d1_def]] 2(4) by (simp add: d1_def)
    ultimately have "takes d d2 (ops1 @ ops2)" by (rule takes_trans)
    then show ?thesis using 2(3) False q r by (simp add: d1_def)
  qed
qed

lemma clear_takes:
  "length (op_queues d) = max_ops \<Longrightarrow> takes d (clear_queues d) (map abort_op (all_ops d))"
  by (auto simp: takes_def clear_queues_def all_ops_def abort_op_def comp_def
      intro!: exI [of _ "length (op_queues d ! _)"])

section \<open>Logs\<close>

definition ops_of :: "ptr \<Rightarrow> nat \<Rightarrow> op_log \<Rightarrow> nat list" where
  "ops_of key ty log = map (snd \<circ> snd) (filter (\<lambda>e. fst e = key \<and> fst (snd e) = ty) log)"

lemma ops_of_simps [simp]:
  "ops_of key ty [] = []"
  "ops_of key ty (e # log) = (if fst e = key \<and> fst (snd e) = ty then [snd (snd e)] else []) @ ops_of key ty log"
  "ops_of key ty (log @ log') = ops_of key ty log @ ops_of key ty log'"
  by (simp_all add: ops_of_def)

lemma ops_of_taken_of:
  "ops_of key ty (taken_of x d d' ty') = (if key = Some x \<and> ty = ty'
     then take (length (op_queues d ! ty) - length (op_queues d' ! ty)) (ids (op_queues d ! ty)) else [])"
  by (auto simp: ops_of_def taken_of_def filter_map comp_def take_map)

lemma upt_max_ops: "[0..<max_ops] = [0, 1, 2]"
  by (simp add: max_ops_def upt_rec)

lemma less_max_ops: "ty < max_ops \<longleftrightarrow> ty = 0 \<or> ty = 1 \<or> ty = 2"
  by (auto simp: max_ops_def)

lemma ops_of_taken:
  assumes "ty < max_ops"
  shows "ops_of key ty (taken x d d') = (if key = Some x
     then take (length (op_queues d ! ty) - length (op_queues d' ! ty)) (ids (op_queues d ! ty)) else [])"
  using assms by (auto simp: taken_def upt_max_ops ops_of_taken_of less_max_ops)

lemma takes_split:
  assumes "takes d d' ops" "length (op_queues d) = max_ops" "ty < max_ops"
  shows "ids (op_queues d ! ty) =
    take (length (op_queues d ! ty) - length (op_queues d' ! ty)) (ids (op_queues d ! ty)) @ ids (op_queues d' ! ty)"
proof -
  obtain n where n: "n \<le> length (op_queues d ! ty)" "ids (op_queues d' ! ty) = drop n (ids (op_queues d ! ty))"
    using assms by (auto simp: takes_def)
  from arg_cong [OF n(2), of length] have "length (op_queues d' ! ty) = length (op_queues d ! ty) - n" by simp
  with n show ?thesis by simp
qed

lemma three_queues:
  assumes "length qs = max_ops" obtains a b c where "qs = [a, b, c]"
  using assms by (auto simp: max_ops_def numeral_3_eq_3 length_Suc_conv)

lemma map_taken_of: "map (snd \<circ> snd) (taken_of x d d' ty) =
    take (length (op_queues d ! ty) - length (op_queues d' ! ty)) (ids (op_queues d ! ty))"
  by (simp add: taken_of_def comp_def take_map)

lemma mset_taken:
  assumes t: "takes d d' ops" and d: "length (op_queues d) = max_ops"
  shows "mset (map (snd \<circ> snd) (taken x d d')) = mset (ids ops)"
proof -
  obtain a b c where q: "op_queues d = [a, b, c]" using d by (rule three_queues)
  have "length (op_queues d') = max_ops" using t d by (simp add: takes_def)
  then obtain a' b' c' where q': "op_queues d' = [a', b', c']" by (rule three_queues)
  have parts: "ids (op_queues d ! ty) = map (snd \<circ> snd) (taken_of x d d' ty) @ ids (op_queues d' ! ty)"
    if "ty < max_ops" for ty
    using takes_split [OF t d that] by (simp add: map_taken_of)
  have "ids (all_ops d) = ids a @ ids b @ ids c" "ids (all_ops d') = ids a' @ ids b' @ ids c'"
    using q q' by (simp_all add: all_ops_def)
  moreover have "map (snd \<circ> snd) (taken x d d') = map (snd \<circ> snd) (taken_of x d d' 0) @
      map (snd \<circ> snd) (taken_of x d d' 1) @ map (snd \<circ> snd) (taken_of x d d' 2)"
    by (simp add: taken_def upt_max_ops)
  moreover have "ids a = map (snd \<circ> snd) (taken_of x d d' 0) @ ids a'"
    "ids b = map (snd \<circ> snd) (taken_of x d d' 1) @ ids b'" "ids c = map (snd \<circ> snd) (taken_of x d d' 2) @ ids c'"
    using parts [of 0] parts [of 1] parts [of 2] q q' by (simp_all add: less_max_ops)
  moreover have "mset (ids (all_ops d)) = mset (ids ops) + mset (ids (all_ops d'))"
    using t by (simp add: takes_def)
  ultimately show ?thesis by (simp add: union_assoc union_commute union_lcomm)
qed

lemma length_taken:
  "takes d d' ops \<Longrightarrow> length (op_queues d) = max_ops \<Longrightarrow> length (taken x d d') = length ops"
  using arg_cong [OF mset_taken, of d d' ops size x] by simp

section \<open>The invariant\<close>

definition state_ok :: "descriptor_state \<Rightarrow> bool" where
  "state_ok d \<longleftrightarrow> length (op_queues d) = max_ops \<and> (state_shutdown d \<longrightarrow> all_ops d = [])"

definition waiting_ids :: "reactor \<Rightarrow> ptr \<Rightarrow> nat \<Rightarrow> nat list" where
  "waiting_ids r key ty = (case key of None \<Rightarrow> [] | Some x \<Rightarrow> ids (op_queues (states r x) ! ty))"

definition accounts :: "'w reactor_sys \<Rightarrow> bool" where
  "accounts s \<longleftrightarrow>
     mset (map (snd \<circ> snd) (finished s)) = mset (handed s) + mset (completed s) \<and>
     work s = int (length (handed s)) + int (length (begun s)) - int (length (finished s))"

definition sys_ok :: "'w reactor_sys \<Rightarrow> bool" where
  "sys_ok s \<longleftrightarrow> (\<forall>x. state_ok (states (rx s) x)) \<and>
     (\<forall>key ty. ty < max_ops \<longrightarrow> ops_of key ty (begun s) = ops_of key ty (finished s) @ waiting_ids (rx s) key ty) \<and>
     (\<forall>e \<in> set (finished s). fst (snd e) < max_ops) \<and> accounts s"

lemma sys_new_ok: "sys_ok (sys_new w)"
  by (auto simp: sys_ok_def sys_new_def accounts_def state_ok_def descriptor_state_new_def reactor_new_def
      waiting_ids_def all_ops_def split: option.split)

text \<open>A step on one descriptor that takes operations and hands them to the scheduler.\<close>

lemma sys_ok_takes:
  assumes ok: "sys_ok s" and t: "takes (states (rx s) x) d' ops"
    and sd: "state_shutdown d' \<longrightarrow> all_ops d' = []"
    and rx: "states (rx s') = (states (rx s))(x := d')"
    and logs: "begun s' = begun s" "finished s' = finished s @ taken x (states (rx s) x) d'"
    and handed: "mset (handed s') = mset (handed s) + mset (ids ops)" "completed s' = completed s"
    and work: "work s' = work s"
  shows "sys_ok s'"
proof -
  let ?d = "states (rx s) x"
  have len: "length (op_queues ?d) = max_ops" using ok by (simp add: sys_ok_def state_ok_def)
  have "state_ok d'" using t len sd by (simp add: state_ok_def takes_def)
  moreover have "ops_of key ty (begun s') = ops_of key ty (finished s') @ waiting_ids (rx s') key ty"
    if "ty < max_ops" for key ty
  proof -
    have "ops_of key ty (begun s) = ops_of key ty (finished s) @ waiting_ids (rx s) key ty"
      using ok that by (simp add: sys_ok_def)
    moreover have "waiting_ids (rx s) key ty = ops_of key ty (taken x ?d d') @ waiting_ids (rx s') key ty"
      using takes_split [OF t len that] ops_of_taken [OF that, of key x ?d d'] rx
      by (auto simp: waiting_ids_def split: option.split)
    ultimately show ?thesis using logs by simp
  qed
  moreover have "length (handed s') = length (handed s) + length ops"
    using arg_cong [OF handed(1), of size] by simp
  then have "accounts s'"
    using ok mset_taken [OF t len, of x] length_taken [OF t len, of x] logs handed work
    by (simp add: sys_ok_def accounts_def)
  moreover have "\<forall>e \<in> set (finished s'). fst (snd e) < max_ops"
    using ok logs by (auto simp: sys_ok_def taken_def taken_of_def)
  ultimately show ?thesis using ok rx by (auto simp: sys_ok_def)
qed

section \<open>Every step keeps it\<close>

lemma start_speculative_cases:
  assumes "start_speculative os ty desc d op cont w = (d', calls, w')"
  obtains (finished) op' where "op_queues d' = op_queues d" "calls = [Post_Immediate op' cont]" "op_id op' = op_id op"
      "state_shutdown d' = state_shutdown d"
  | (waits) op' where "op_queues d' = (op_queues d)[ty := op_queues d ! ty @ [op']]" "calls = [Work_Started]"
      "op_id op' = op_id op" "state_shutdown d' = state_shutdown d"
proof -
  obtain st op1 w1 where p: "(if try_speculative d ! ty then perform os w op else (Not_Done, op, w)) = (st, op1, w1)"
    by (rule prod_cases3)
  then have "op_id op1 = op_id op" by (auto split: if_splits dest: op_id_perform)
  then show thesis
    using assms finished [of op1] finished [of "op1\<lparr>op_ec := operation_not_supported\<rparr>"] waits [of op1]
      finished [of "op1\<lparr>op_ec := system_error (fst (epoll_ctl os w1 Ctl_Mod desc (registered_events d OR EPOLLOUT)))\<rparr>"]
    unfolding start_speculative_def p
    by (auto simp: complete_now_def wait_op_def split: if_splits prod.splits)
qed

lemma start_op_cases:
  assumes "start_op os ty desc d op cont allow w = (d', calls, w')"
  obtains (finished) op' where "op_queues d' = op_queues d" "calls = [Post_Immediate op' cont]" "op_id op' = op_id op"
      "state_shutdown d' = state_shutdown d" "op_queues d ! ty = [] \<or> state_shutdown d"
  | (waits) op' where "op_queues d' = (op_queues d)[ty := op_queues d ! ty @ [op']]" "calls = [Work_Started]"
      "op_id op' = op_id op" "state_shutdown d' = state_shutdown d" "\<not> state_shutdown d"
proof (cases "\<not> state_shutdown d \<and> op_queues d ! ty = [] \<and> allow \<and> (ty \<noteq> read_op \<or> op_queues d ! except_op = [])")
  case True
  then have "start_speculative os ty desc d op cont w = (d', calls, w')"
    using assms by (simp add: start_op_def split: if_splits)
  then show thesis
    by (cases rule: start_speculative_cases) (use True finished waits in auto)
next
  case False
  then show thesis
    using assms finished [of op] finished [of "op\<lparr>op_ec := operation_not_supported\<rparr>"] waits [of op]
    by (auto simp: start_op_def complete_now_def wait_op_def Let_def split: if_splits prod.splits)
qed

lemma all_ops_nil: "all_ops d = [] \<Longrightarrow> ty < length (op_queues d) \<Longrightarrow> op_queues d ! ty = []"
  by (simp add: all_ops_def)

lemma sys_start_ok:
  assumes ok: "sys_ok s" and ty: "ty < max_ops"
  shows "sys_ok (sys_start os sock ty desc op cont allow s)"
proof (cases "data_of s sock")
  case None
  then show ?thesis
    using ok ty by (auto simp: sys_ok_def sys_start_def Let_def start_op_unregistered_def accounts_def waiting_ids_def)
next
  case (Some x)
  let ?d = "states (rx s) x"
  have len: "length (op_queues ?d) = max_ops" and shut: "state_shutdown ?d \<Longrightarrow> all_ops ?d = []"
    using ok by (auto simp: sys_ok_def state_ok_def)
  obtain d calls w where st: "start_op os ty desc ?d op cont allow (world s) = (d, calls, w)" by (rule prod_cases3)
  from st show ?thesis
  proof (cases rule: start_op_cases)
    case (finished op')
    have empty: "op_queues ?d ! ty = []"
      using finished(5) all_ops_nil [of ?d ty] shut len ty by auto
    have "ops_of key t (begun s) = ops_of key t (finished s) @ waiting_ids (rx s) key t" if "t < max_ops" for key t
      using ok that by (simp add: sys_ok_def)
    then show ?thesis
      using ok ty Some st finished(1-4) len empty shut
      by (auto simp: sys_ok_def sys_start_def Let_def set_state_def accounts_def state_ok_def waiting_ids_def
          all_ops_def split: option.split)
  next
    case (waits op')
    have "ops_of key t (begun s) = ops_of key t (finished s) @ waiting_ids (rx s) key t" if "t < max_ops" for key t
      using ok that by (simp add: sys_ok_def)
    then show ?thesis
      using ok Some st waits len ty
      by (auto simp: sys_ok_def sys_start_def Let_def set_state_def accounts_def state_ok_def waiting_ids_def
          nth_list_update split: option.split)
  qed
qed

lemma perform_types_shutdown:
  "perform_types os events k d w = (d', ops, w') \<Longrightarrow> state_shutdown d' = state_shutdown d"
  by (induction os events k d w arbitrary: d' ops w' rule: perform_types.induct)
    (auto split: if_splits prod.splits)

lemma takes_nil: "takes d d' ops \<Longrightarrow> all_ops d = [] \<Longrightarrow> all_ops d' = []"
  by (simp add: takes_def)

lemma sys_complete_ok:
  assumes ok: "sys_ok s"
  shows "sys_ok (sys_complete os x s)"
proof -
  let ?d = "states (rx s) x"
  have len: "length (op_queues ?d) = max_ops" and shut: "state_shutdown ?d \<Longrightarrow> all_ops ?d = []"
    using ok by (auto simp: sys_ok_def state_ok_def)
  obtain d' ops w' where p: "perform_types os (task_result ?d) max_ops ?d (world s) = (d', ops, w')"
    by (rule prod_cases3)
  have t: "takes ?d d' ops" using perform_types_takes [OF p] len by simp
  show ?thesis
  proof (rule sys_ok_takes [OF ok t])
    show "state_shutdown d' \<longrightarrow> all_ops d' = []"
      using perform_types_shutdown [OF p] takes_nil [OF t] shut by auto
  qed (auto simp: sys_complete_def descriptor_complete_def perform_io_def p Let_def set_state_def
      split: list.split)
qed

lemma takes_cong: "takes d d1 ops \<Longrightarrow> op_queues d2 = op_queues d1 \<Longrightarrow> takes d d2 ops"
  by (simp add: takes_def all_ops_def)

lemma cancel_step_ok:
  assumes ok: "sys_ok s" and d': "op_queues d' = replicate max_ops []"
    and s': "states (rx s') = (states (rx s))(x := d')" "begun s' = begun s"
      "finished s' = finished s @ taken x (states (rx s) x) d'"
      "handed s' = handed s @ ids (map abort_op (all_ops (states (rx s) x)))" "completed s' = completed s" "work s' = work s"
  shows "sys_ok s'"
proof -
  have len: "length (op_queues (states (rx s) x)) = max_ops" using ok by (simp add: sys_ok_def state_ok_def)
  have "takes (states (rx s) x) d' (map abort_op (all_ops (states (rx s) x)))"
    using takes_cong [OF clear_takes [OF len]] d' by (simp add: clear_queues_def)
  then show ?thesis
    by (rule sys_ok_takes [OF ok]) (use d' s' in \<open>auto simp: all_ops_def\<close>)
qed

lemma dispatch_states: "op_queues (states (dispatch_events es r) y) = op_queues (states r y) \<and>
    state_shutdown (states (dispatch_events es r) y) = state_shutdown (states r y)"
  by (induction es r rule: dispatch_events.induct) (auto simp: set_ready_events_def add_ready_events_def)

text \<open>What a descriptor's queues and the logs are, is all the invariant is about.\<close>

lemma sys_ok_same:
  assumes ok: "sys_ok s"
    and st: "\<And>y. op_queues (states (rx s') y) = op_queues (states (rx s) y) \<and>
      (state_shutdown (states (rx s') y) \<longrightarrow> state_shutdown (states (rx s) y))"
    and logs: "begun s' = begun s" "finished s' = finished s" "handed s' = handed s" "completed s' = completed s"
      "work s' = work s"
  shows "sys_ok s'"
  using ok st logs by (auto simp: sys_ok_def state_ok_def all_ops_def waiting_ids_def accounts_def split: option.split)

lemma register_state_same: "register_state os desc d w = (d', errno, w') \<Longrightarrow>
    op_queues d' = op_queues d \<and> \<not> state_shutdown d'"
  by (auto simp: register_state_def prepare_state_def Let_def split: prod.splits if_splits)

lemma reactor_step_ok: "sys_ok s \<Longrightarrow> sys_ok (reactor_step os a s)"
proof (cases a)
  case (Register sock desc)
  assume ok: "sys_ok s"
  obtain p x where p: "pool_alloc (registered_descriptors (rx s)) = (p, x)" by (rule prod.exhaust)
  obtain d errno w where r: "register_state os desc (states (rx s) x) (world s) = (d, errno, w)"
    by (rule prod_cases3)
  show ?thesis
    by (rule sys_ok_same [OF ok])
      (use register_state_same [OF r] p r in
        \<open>auto simp: Register register_descriptor_def allocate_descriptor_state_def\<close>)
next
  case (Cancel sock)
  assume ok: "sys_ok s"
  show ?thesis
  proof (cases "data_of s sock")
    case (Some x)
    show ?thesis
      by (rule cancel_step_ok [OF ok, of "clear_queues (states (rx s) x)" _ x])
        (simp_all add: Cancel Some cancel_ops_def set_state_def clear_queues_def)
  qed (use ok Cancel in simp)
next
  case (Deregister sock desc closing)
  assume ok: "sys_ok s"
  show ?thesis
  proof (cases "data_of s sock")
    case (Some x)
    show ?thesis
    proof (cases "state_shutdown (states (rx s) x)")
      case True
      then show ?thesis
        by (intro sys_ok_same [OF ok])
          (auto simp: Deregister Some deregister_descriptor_def set_state_def taken_def taken_of_def)
    next
      case False
      show ?thesis
        by (rule cancel_step_ok [OF ok, of "(clear_queues (states (rx s) x))\<lparr>descriptor := - 1, state_shutdown := True\<rparr>" _ x])
          (use False in \<open>simp_all add: Deregister Some deregister_descriptor_def set_state_def clear_queues_def Let_def\<close>)
    qed
  qed (use ok Deregister in simp)
next
  case (Events es)
  assume ok: "sys_ok s"
  show ?thesis by (rule sys_ok_same [OF ok]) (auto simp: Events dispatch_states)
next
  case (Cleanup sock)
  assume ok: "sys_ok s"
  show ?thesis
    by (rule sys_ok_same [OF ok])
      (auto simp: Cleanup cleanup_descriptor_data_def free_descriptor_state_def split: option.split)
next
  case (Move t u)
  assume ok: "sys_ok s"
  show ?thesis by (rule sys_ok_same [OF ok]) (auto simp: Move move_descriptor_def)
next
  case (Run_Operation i)
  assume ok: "sys_ok s"
  have "int (length (handed s) - Suc 0) = int (length (handed s)) - 1" if "i \<in> set (handed s)"
    using that by (cases "handed s") simp_all
  then show ?thesis
    using ok by (auto simp: Run_Operation sys_ok_def accounts_def length_remove1)
qed (simp_all add: sys_start_ok sys_complete_ok sys_ok_same)

lemma reactor_run_ok: "sys_ok s \<Longrightarrow> sys_ok (fold (reactor_step os) as s)"
  by (induction as arbitrary: s) (simp_all add: reactor_step_ok)

section \<open>Properties\<close>

lemma count_ops_of: "count (mset log) (key, ty, i) = count (mset (ops_of key ty log)) i"
  by (induction log) auto

lemma finished_begun:
  assumes "sys_ok s"
  shows "mset (finished s) \<subseteq># mset (begun s)"
proof (rule mset_subset_eqI)
  fix e :: "ptr \<times> nat \<times> nat"
  obtain key ty i where e: "e = (key, ty, i)" by (rule prod_cases3)
  show "count (mset (finished s)) e \<le> count (mset (begun s)) e"
  proof (cases "ty < max_ops")
    case True
    then have "ops_of key ty (begun s) = ops_of key ty (finished s) @ waiting_ids (rx s) key ty"
      using assms by (simp add: sys_ok_def)
    then show ?thesis unfolding e count_ops_of by simp
  next
    case False
    then have "e \<notin> set (finished s)" using assms e by (auto simp: sys_ok_def)
    then have "count (mset (finished s)) e = 0" by (metis count_eq_zero_iff set_mset_mset)
    then show ?thesis by linarith
  qed
qed


text \<open>Two reads on a descriptor with one byte: the first is done at once, the second waits, is
  cancelled, and both are completed.\<close>

definition one_byte_os :: "nat reactor_os" where
  "one_byte_os = \<lparr>perform_func = (\<lambda>n op. if n = 0 then (Not_Done, op_ec op, op_bytes op, n) else (Done, no_error, 1, n - 1)),
     epoll_ctl = (\<lambda>n c desc ev. (0, n))\<rparr>"


end
