(* ===== verification/Epoll_Edge.thy ===== *)
theory Epoll_Edge
  imports Epoll_Props
begin

text \<open>
  No operation is forgotten under edge-triggered notification: the system reports that a descriptor
  becomes ready only once, so the reactor must remember, by its speculation flags, where it has not
  yet used up what was reported. What the system documents is a predicate on the functions the
  reactor calls; one registered descriptor, its callers, the system and the scheduler take steps.
\<close>

section \<open>What the system promises\<close>

text \<open>
  \<open>ready\<close>: an operation of the type would not block; \<open>reported\<close>: the events the next \<open>epoll_wait\<close>
  returns for the descriptor; \<open>watched\<close>: the events it is registered for; \<open>kind\<close>: the type that an
  operation belongs to.
\<close>

record 'w kernel =
  ready :: "'w \<Rightarrow> nat \<Rightarrow> bool"
  reported :: "'w \<Rightarrow> uint32"
  watched :: "'w \<Rightarrow> uint32"
  kind :: "nat \<Rightarrow> nat"

definition has_flag :: "uint32 \<Rightarrow> nat \<Rightarrow> bool" where
  "has_flag events j \<longleftrightarrow> events AND flag j \<noteq> 0"

text \<open>
  An operation that is not done, or that has used up the descriptor, leaves it not ready; one that
  finds it ready is done; none changes the readiness for others or takes back events. \<open>epoll_ctl\<close>
  with \<open>EPOLL_CTL_MOD\<close> succeeds on a registered descriptor and reports it anew if it is ready.
\<close>

definition edge_triggered :: "'w reactor_os \<Rightarrow> 'w kernel \<Rightarrow> bool" where
  "edge_triggered os K \<longleftrightarrow>
     (\<forall>w op st op' w'. perform os w op = (st, op', w') \<longrightarrow>
        (st \<noteq> Done \<longrightarrow> \<not> ready K w' (kind K (op_id op))) \<and>
        (ready K w (kind K (op_id op)) \<longrightarrow> st \<noteq> Not_Done) \<and>
        (\<forall>k. k \<noteq> kind K (op_id op) \<longrightarrow> ready K w' k = ready K w k) \<and>
        reported K w' = reported K w \<and> watched K w' = watched K w) \<and>
     (\<forall>w desc ev e w'. epoll_ctl os w Ctl_Mod desc ev = (e, w') \<longrightarrow>
        e = 0 \<and> ready K w' = ready K w \<and> watched K w' = ev \<and>
        (\<forall>k. ready K w k \<and> (has_flag ev k \<or> has_flag (reported K w) k) \<longrightarrow> has_flag (reported K w') k))"

text \<open>What happens in the system: what becomes ready is reported if it is watched, and stays so.\<close>

definition system_step :: "'w kernel \<Rightarrow> 'w \<Rightarrow> 'w \<Rightarrow> bool" where
  "system_step K w w' \<longleftrightarrow> watched K w' = watched K w \<and>
     (\<forall>k. ready K w' k \<and> has_flag (watched K w) k \<longrightarrow>
        (ready K w k \<and> (has_flag (reported K w) k \<longrightarrow> has_flag (reported K w') k)) \<or> has_flag (reported K w') k)"

text \<open>After \<open>epoll_wait\<close>, whatever is still to be reported.\<close>

definition events_taken :: "'w kernel \<Rightarrow> 'w \<Rightarrow> 'w \<Rightarrow> bool" where
  "events_taken K w w' \<longleftrightarrow> watched K w' = watched K w \<and> ready K w' = ready K w"

section \<open>One descriptor\<close>

text \<open>\<open>queued\<close>: the descriptor is in the scheduler's queue, with its events.\<close>

record 'w edge_sys =
  dstate :: descriptor_state
  queued :: bool
  eworld :: 'w

inductive edge_step :: "'w reactor_os \<Rightarrow> 'w kernel \<Rightarrow> 'w edge_sys \<Rightarrow> 'w edge_sys \<Rightarrow> bool"
  for os :: "'w reactor_os" and K :: "'w kernel" where
  start: "ty < max_ops \<Longrightarrow> kind K (op_id op) = ty \<Longrightarrow>
    start_op os ty desc (dstate s) op cont allow (eworld s) = (d, calls, w) \<Longrightarrow>
    edge_step os K s (s\<lparr>dstate := d, eworld := w\<rparr>)"
| cancel: "cancel_ops (dstate s) = (d, calls) \<Longrightarrow> edge_step os K s (s\<lparr>dstate := d\<rparr>)"
| system: "system_step K (eworld s) w \<Longrightarrow> edge_step os K s (s\<lparr>eworld := w\<rparr>)"
| wait: "events_taken K (eworld s) w \<Longrightarrow>
    edge_step os K s (s\<lparr>dstate := (if queued s then add_ready_events else set_ready_events) (reported K (eworld s)) (dstate s),
      queued := True, eworld := w\<rparr>)"
| run: "queued s \<Longrightarrow> descriptor_complete os True (dstate s) (eworld s) = (d, first, calls, w) \<Longrightarrow>
    edge_step os K s (s\<lparr>dstate := d, queued := False, eworld := w\<rparr>)"

text \<open>A descriptor right after its registration: the system reports what it is ready for.\<close>

definition edge_start :: "'w kernel \<Rightarrow> 'w edge_sys \<Rightarrow> bool" where
  "edge_start K s \<longleftrightarrow> \<not> state_shutdown (dstate s) \<and> op_queues (dstate s) = replicate max_ops [] \<and>
     try_speculative (dstate s) = replicate max_ops True \<and> registered_events (dstate s) = first_events \<and>
     watched K (eworld s) = first_events \<and> \<not> queued s"

inductive edge_reachable :: "'w reactor_os \<Rightarrow> 'w kernel \<Rightarrow> 'w edge_sys \<Rightarrow> bool"
  for os :: "'w reactor_os" and K :: "'w kernel" where
  init: "edge_start K s \<Longrightarrow> edge_reachable os K s"
| step: "edge_reachable os K s \<Longrightarrow> edge_step os K s s' \<Longrightarrow> edge_reachable os K s'"

section \<open>The invariant\<close>

text \<open>Somebody is going to look at the type: the system reports it, or the scheduler runs the descriptor.\<close>

definition announced :: "'w kernel \<Rightarrow> 'w edge_sys \<Rightarrow> nat \<Rightarrow> bool" where
  "announced K s j \<longleftrightarrow> has_flag (reported K (eworld s)) j \<or> (queued s \<and> has_flag (task_result (dstate s)) j)"

definition type_ok :: "'w kernel \<Rightarrow> 'w edge_sys \<Rightarrow> nat \<Rightarrow> bool" where
  "type_ok K s j \<longleftrightarrow>
     (\<forall>op \<in> set (op_queues (dstate s) ! j). kind K (op_id op) = j) \<and>
     (op_queues (dstate s) ! j \<noteq> [] \<longrightarrow> has_flag (watched K (eworld s)) j) \<and>
     (ready K (eworld s) j \<and> has_flag (watched K (eworld s)) j \<and>
       (op_queues (dstate s) ! j \<noteq> [] \<or> \<not> try_speculative (dstate s) ! j) \<longrightarrow> announced K s j)"

definition edge_ok :: "'w kernel \<Rightarrow> 'w edge_sys \<Rightarrow> bool" where
  "edge_ok K s \<longleftrightarrow> \<not> state_shutdown (dstate s) \<and> length (op_queues (dstate s)) = max_ops \<and>
     length (try_speculative (dstate s)) = max_ops \<and>
     registered_events (dstate s) = watched K (eworld s) \<and>
     watched K (eworld s) OR EPOLLOUT = first_events OR EPOLLOUT \<and>
     (\<forall>j < max_ops. type_ok K s j)"

lemma flags_first: "has_flag first_events 0" "\<not> has_flag first_events 1" "has_flag first_events 2"
  by (simp_all add: has_flag_def flag_def first_events_def epoll_flags)

lemma edge_start_ok: "edge_start K s \<Longrightarrow> edge_ok K s"
  by (auto simp: edge_start_def edge_ok_def type_ok_def)

section \<open>Every step keeps it\<close>

lemma has_flag_or [simp]: "has_flag (a OR b) j \<longleftrightarrow> has_flag a j \<or> has_flag b j"
proof -
  have "(a OR b) AND c = 0 \<longleftrightarrow> a AND c = 0 \<and> b AND c = 0" for c :: uint32
    by (auto simp: bit_eq_iff bit_simps)
  then show ?thesis by (simp add: has_flag_def)
qed

lemma flags_out: "\<not> has_flag EPOLLOUT 0" "has_flag EPOLLOUT 1" "\<not> has_flag EPOLLOUT 2"
  by (simp_all add: has_flag_def flag_def epoll_flags)

lemma watched_flags:
  assumes "e OR EPOLLOUT = first_events OR EPOLLOUT"
  shows "has_flag e 0" "has_flag e 2"
proof -
  have "has_flag (e OR EPOLLOUT) 0" "has_flag (e OR EPOLLOUT) 2"
    unfolding assms by (simp_all add: flags_first)
  then show "has_flag e 0" "has_flag e 2" by (simp_all add: flags_out)
qed

lemma out_flag: "e AND EPOLLOUT = 0 \<longleftrightarrow> \<not> has_flag e 1"
  by (simp add: has_flag_def flag_def)

lemma or_out: "(e OR EPOLLOUT) OR EPOLLOUT = e OR EPOLLOUT" "e OR (e OR EPOLLOUT) = e OR EPOLLOUT"
  for e :: uint32
  by (simp_all add: or.assoc)

lemma performD:
  assumes "edge_triggered os K" "perform os w op = (st, op', w')" "kind K (op_id op) = j"
  shows "st \<noteq> Done \<longrightarrow> \<not> ready K w' j" "ready K w j \<longrightarrow> st \<noteq> Not_Done"
    "k \<noteq> j \<Longrightarrow> ready K w' k = ready K w k" "reported K w' = reported K w" "watched K w' = watched K w"
    "kind K (op_id op') = j"
proof -
  show "kind K (op_id op') = j" using assms(3) op_id_perform [OF assms(2)] by simp
qed (use assms in \<open>unfold edge_triggered_def, blast+\<close>)

lemma ctlD:
  assumes "edge_triggered os K" "epoll_ctl os w Ctl_Mod desc ev = (e, w')"
  shows "e = 0" "ready K w' = ready K w" "watched K w' = ev"
    "ready K w k \<Longrightarrow> has_flag ev k \<or> has_flag (reported K w) k \<Longrightarrow> has_flag (reported K w') k"
  using assms unfolding edge_triggered_def by blast+

lemma perform_queue_edge:
  assumes "edge_triggered os K"
  shows "perform_queue os q w = (q', ops, e, w') \<Longrightarrow> \<forall>op \<in> set q. kind K (op_id op) = j \<Longrightarrow>
    (q' \<noteq> [] \<or> e \<longrightarrow> \<not> ready K w' j) \<and> (\<forall>k. k \<noteq> j \<longrightarrow> ready K w' k = ready K w k) \<and>
    reported K w' = reported K w \<and> watched K w' = watched K w \<and> (\<forall>op \<in> set q'. kind K (op_id op) = j) \<and>
    (q \<noteq> [] \<and> ready K w j \<longrightarrow> length q' < length q) \<and> length q' \<le> length q"
proof (induction q arbitrary: w q' ops e w')
  case Nil
  then show ?case by simp
next
  case (Cons op q)
  obtain st op1 w1 where p: "perform os w op = (st, op1, w1)" by (rule prod_cases3)
  note D = performD [OF assms p, of j]
  have kind: "kind K (op_id op) = j" using Cons.prems(2) by simp
  show ?case
  proof (cases st)
    case Not_Done
    then have "q' = op1 # q" "w' = w1" "\<not> e" using Cons.prems(1) p by simp_all
    then show ?thesis using D [OF kind] Not_Done Cons.prems(2) by auto
  next
    case Done
    obtain q2 ops2 e2 w2 where r: "perform_queue os q w1 = (q2, ops2, e2, w2)" by (rule prod_cases4)
    then have "q' = q2" "w' = w2" "e = e2" using Cons.prems(1) p Done by simp_all
    then show ?thesis using Cons.IH [OF r] Cons.prems(2) D [OF kind] by auto
  next
    case Done_And_Exhausted
    then have "q' = q" "w' = w1" "e" using Cons.prems(1) p by simp_all
    then show ?thesis using D [OF kind] Done_And_Exhausted Cons.prems(2) by auto
  qed
qed

definition processed :: "uint32 \<Rightarrow> nat \<Rightarrow> bool" where
  "processed events j \<longleftrightarrow> events AND (flag j OR EPOLLERR OR EPOLLHUP) \<noteq> 0"

lemma has_flag_processed: "has_flag events j \<Longrightarrow> processed events j"
proof -
  have "events AND (c OR a OR b) = 0 \<Longrightarrow> events AND c = 0" for c a b :: uint32
    by (auto simp: bit_eq_iff bit_simps)
  then show "has_flag events j \<Longrightarrow> processed events j" by (auto simp: has_flag_def processed_def)
qed

lemma perform_types_edge:
  assumes et: "edge_triggered os K"
  shows "perform_types os events m d w = (d', ops, w') \<Longrightarrow>
    (\<forall>j < max_ops. \<forall>op \<in> set (op_queues d ! j). kind K (op_id op) = j) \<Longrightarrow>
    length (op_queues d) = max_ops \<Longrightarrow> length (try_speculative d) = max_ops \<Longrightarrow> m \<le> max_ops \<Longrightarrow>
    (\<forall>j < max_ops. \<forall>op \<in> set (op_queues d' ! j). kind K (op_id op) = j) \<and>
    length (op_queues d') = max_ops \<and> length (try_speculative d') = max_ops \<and>
    state_shutdown d' = state_shutdown d \<and> registered_events d' = registered_events d \<and>
    reported K w' = reported K w \<and> watched K w' = watched K w \<and>
    (\<forall>j < max_ops. if j < m \<and> processed events j
       then (op_queues d' ! j \<noteq> [] \<or> \<not> try_speculative d' ! j \<longrightarrow> \<not> ready K w' j) \<and>
         (op_queues d ! j \<noteq> [] \<and> ready K w j \<longrightarrow> length (op_queues d' ! j) < length (op_queues d ! j))
       else op_queues d' ! j = op_queues d ! j \<and> try_speculative d' ! j = try_speculative d ! j \<and>
         ready K w' j = ready K w j)"
proof (induction m arbitrary: d w d' ops w')
  case 0
  then show ?case by simp
next
  case (Suc m)
  show ?case
  proof (cases "processed events m")
    case False
    then have "perform_types os events m d w = (d', ops, w')"
      using Suc.prems(1) by (simp add: processed_def)
    note IH = Suc.IH [OF this Suc.prems(2-4) Suc_leD [OF Suc.prems(5)]]
    have same: "j < Suc m \<and> processed events j \<longleftrightarrow> j < m \<and> processed events j" for j
      using False by (auto simp: less_Suc_eq)
    show ?thesis unfolding same by (rule IH)
  next
    case True
    obtain q ops1 e w1 where q: "perform_queue os (op_queues d ! m) w = (q, ops1, e, w1)" by (rule prod_cases4)
    define d1 where "d1 = d\<lparr>op_queues := (op_queues d)[m := q],
        try_speculative := (try_speculative d)[m := \<not> e]\<rparr>"
    obtain d2 ops2 w2 where r: "perform_types os events m d1 w1 = (d2, ops2, w2)" by (rule prod_cases3)
    have eq: "d' = d2" "w' = w2" using Suc.prems(1) True q r by (simp_all add: processed_def d1_def)
    have m: "m < max_ops" using Suc.prems(5) by simp
    have kinds: "\<forall>op \<in> set (op_queues d ! m). kind K (op_id op) = m" using Suc.prems(2) m by blast
    note Q = perform_queue_edge [OF et q kinds]
    have kinds1: "\<forall>j < max_ops. \<forall>op \<in> set (op_queues d1 ! j). kind K (op_id op) = j"
      using Suc.prems(2,3) Q m by (simp add: d1_def nth_list_update)
    have len1: "length (op_queues d1) = max_ops" "length (try_speculative d1) = max_ops"
      using Suc.prems(3,4) by (simp_all add: d1_def)
    note IH = Suc.IH [OF r kinds1 len1 less_imp_le [OF m]]
    have at_m: "op_queues d2 ! m = q \<and> (try_speculative d2 ! m \<longleftrightarrow> \<not> e) \<and> ready K w2 m = ready K w1 m"
      using IH m Suc.prems(3,4) by (simp add: d1_def)
    have others: "op_queues d1 ! j = op_queues d ! j \<and> try_speculative d1 ! j = try_speculative d ! j \<and>
        ready K w1 j = ready K w j" if "j \<noteq> m" for j
      using that Q by (simp add: d1_def)
    have "if j < Suc m \<and> processed events j
       then (op_queues d2 ! j \<noteq> [] \<or> \<not> try_speculative d2 ! j \<longrightarrow> \<not> ready K w2 j) \<and>
         (op_queues d ! j \<noteq> [] \<and> ready K w j \<longrightarrow> length (op_queues d2 ! j) < length (op_queues d ! j))
       else op_queues d2 ! j = op_queues d ! j \<and> try_speculative d2 ! j = try_speculative d ! j \<and>
         ready K w2 j = ready K w j" if j: "j < max_ops" for j
    proof (cases "j = m")
      case True
      then show ?thesis using at_m Q \<open>processed events m\<close> by auto
    next
      case False
      have less: "j < Suc m \<longleftrightarrow> j < m" using False by auto
      from IH j have "if j < m \<and> processed events j
         then (op_queues d2 ! j \<noteq> [] \<or> \<not> try_speculative d2 ! j \<longrightarrow> \<not> ready K w2 j) \<and>
           (op_queues d1 ! j \<noteq> [] \<and> ready K w1 j \<longrightarrow> length (op_queues d2 ! j) < length (op_queues d1 ! j))
         else op_queues d2 ! j = op_queues d1 ! j \<and> try_speculative d2 ! j = try_speculative d1 ! j \<and>
           ready K w2 j = ready K w1 j" by blast
      then show ?thesis
        unfolding less others [OF False, THEN conjunct1] others [OF False, THEN conjunct2, THEN conjunct1]
          others [OF False, THEN conjunct2, THEN conjunct2] .
    qed
    moreover have "state_shutdown d1 = state_shutdown d \<and> registered_events d1 = registered_events d"
      by (simp add: d1_def)
    ultimately show ?thesis using IH Q unfolding eq by simp
  qed
qed

lemma type_ok_same:
  assumes "type_ok K s j" "op_queues (dstate s') ! j = op_queues (dstate s) ! j"
    "try_speculative (dstate s') ! j = try_speculative (dstate s) ! j"
    "has_flag (watched K (eworld s')) j = has_flag (watched K (eworld s)) j"
    "ready K (eworld s') j \<Longrightarrow> ready K (eworld s) j"
    "ready K (eworld s') j \<Longrightarrow> announced K s j \<Longrightarrow> announced K s' j"
  shows "type_ok K s' j"
  using assms by (auto simp: type_ok_def)

text \<open>A step that starts an operation changes nothing for the other types.\<close>

lemma edge_ok_change:
  assumes ok: "edge_ok K s" and ty: "ty < max_ops" and this_type: "type_ok K s' ty"
    and q: "queued s' = queued s" "task_result (dstate s') = task_result (dstate s)"
    and d: "\<not> state_shutdown (dstate s')" "length (op_queues (dstate s')) = max_ops"
      "length (try_speculative (dstate s')) = max_ops" "registered_events (dstate s') = watched K (eworld s')"
    and w: "watched K (eworld s') OR EPOLLOUT = watched K (eworld s) OR EPOLLOUT"
    and rep: "\<And>k. ready K (eworld s') k \<Longrightarrow> has_flag (reported K (eworld s)) k \<Longrightarrow> has_flag (reported K (eworld s')) k"
    and oth: "\<And>k. k \<noteq> ty \<Longrightarrow> op_queues (dstate s') ! k = op_queues (dstate s) ! k"
      "\<And>k. k \<noteq> ty \<Longrightarrow> try_speculative (dstate s') ! k = try_speculative (dstate s) ! k"
      "\<And>k. k < max_ops \<Longrightarrow> k \<noteq> ty \<Longrightarrow> has_flag (watched K (eworld s')) k = has_flag (watched K (eworld s)) k"
      "\<And>k. k \<noteq> ty \<Longrightarrow> ready K (eworld s') k = ready K (eworld s) k"
  shows "edge_ok K s'"
proof -
  have "type_ok K s' k" if k: "k < max_ops" "k \<noteq> ty" for k
  proof (rule type_ok_same)
    show "type_ok K s k" using ok k by (simp add: edge_ok_def)
    show "announced K s k \<Longrightarrow> ready K (eworld s') k \<Longrightarrow> announced K s' k" using rep [of k] q by (auto simp: announced_def)
  qed (use oth [of k] k in auto)
  then show ?thesis using ok d w this_type ty unfolding edge_ok_def by metis
qed

lemma edge_okD:
  assumes "edge_ok K s"
  shows "\<not> state_shutdown (dstate s)" "length (op_queues (dstate s)) = max_ops"
    "length (try_speculative (dstate s)) = max_ops" "registered_events (dstate s) = watched K (eworld s)"
    "has_flag (watched K (eworld s)) 0" "has_flag (watched K (eworld s)) 2" "watched K (eworld s) \<noteq> 0"
    "j < max_ops \<Longrightarrow> type_ok K s j"
proof -
  have "watched K (eworld s) OR EPOLLOUT = first_events OR EPOLLOUT" using assms by (simp add: edge_ok_def)
  from watched_flags [OF this] show "has_flag (watched K (eworld s)) 0" "has_flag (watched K (eworld s)) 2"
    "watched K (eworld s) \<noteq> 0" by (auto simp: has_flag_def)
qed (use assms in \<open>simp_all add: edge_ok_def\<close>)

lemma start_waits:
  assumes ok: "edge_ok K s" and ty: "ty < max_ops" and kind: "kind K (op_id op) = ty"
    and w: "watched K w OR EPOLLOUT = watched K (eworld s) OR EPOLLOUT" "has_flag (watched K w) ty"
      "\<And>k. k < max_ops \<Longrightarrow> k \<noteq> ty \<Longrightarrow> has_flag (watched K w) k = has_flag (watched K (eworld s)) k"
      "\<And>k. ready K w k \<Longrightarrow> has_flag (reported K (eworld s)) k \<Longrightarrow> has_flag (reported K w) k"
      "\<And>k. k \<noteq> ty \<Longrightarrow> ready K w k = ready K (eworld s) k"
    and d1: "d1 = (dstate s)\<lparr>registered_events := watched K w\<rparr>"
    and ann: "ready K w ty \<Longrightarrow> has_flag (reported K w) ty \<or> announced K s ty"
  shows "edge_ok K (s\<lparr>dstate := fst (wait_op d1 ty op w), eworld := w\<rparr>)"
proof -
  note D = edge_okD [OF ok]
  have kinds: "\<forall>op \<in> set (op_queues (dstate s) ! ty). kind K (op_id op) = ty"
    using D(8) [OF ty] by (simp add: type_ok_def)
  show ?thesis
  proof (rule edge_ok_change [OF ok ty])
    show "type_ok K (s\<lparr>dstate := fst (wait_op d1 ty op w), eworld := w\<rparr>) ty"
      using kinds kind w(2,4) ann D(2) ty by (auto simp: type_ok_def wait_op_def d1 announced_def)
  qed (use D ty w in \<open>auto simp: wait_op_def d1\<close>)
qed

lemma edge_start_speculative:
  assumes et: "edge_triggered os K" and ok: "edge_ok K s" and ty: "ty < max_ops" and kind: "kind K (op_id op) = ty"
    and empty: "op_queues (dstate s) ! ty = []"
    and st: "start_speculative os ty desc (dstate s) op cont (eworld s) = (d, calls, w)"
  shows "edge_ok K (s\<lparr>dstate := d, eworld := w\<rparr>)"
proof -
  note D = edge_okD [OF ok]
  note T = D(8) [OF ty, unfolded type_ok_def]
  obtain stat op1 w1 where p: "(if try_speculative (dstate s) ! ty then perform os (eworld s) op else (Not_Done, op, eworld s)) =
      (stat, op1, w1)" by (rule prod_cases3)
  note st' = st [unfolded start_speculative_def p prod.case]
  have P: "reported K w1 = reported K (eworld s)" "watched K w1 = watched K (eworld s)"
    "\<And>k. k \<noteq> ty \<Longrightarrow> ready K w1 k = ready K (eworld s) k" "kind K (op_id op1) = ty"
    using p performD(3-6) [OF et _ kind] kind by (auto split: if_splits)
  have dry: "stat \<noteq> Done \<Longrightarrow> ready K w1 ty \<Longrightarrow> \<not> try_speculative (dstate s) ! ty \<and> w1 = eworld s"
    using p performD(1) [OF et _ kind] by (auto split: if_splits)
  show ?thesis
  proof (cases "stat = Not_Done")
    case False
    then have fin: "d = (if stat = Done_And_Exhausted
        then (dstate s)\<lparr>try_speculative := (try_speculative (dstate s))[ty := False]\<rparr> else dstate s)" "w = w1"
      using st' D(4,7) by (auto simp: complete_now_def split: if_splits)
    have tried: "try_speculative (dstate s) ! ty" using p False by (auto split: if_splits)
    have "type_ok K (s\<lparr>dstate := d, eworld := w\<rparr>) ty"
      using fin empty dry tried False D(3) ty by (auto simp: type_ok_def)
    then show ?thesis
      by (rule edge_ok_change [OF ok ty]) (use D P fin ty in auto)
  next
    case nd: True
    show ?thesis
    proof (cases "ty = write_op \<and> registered_events (dstate s) AND EPOLLOUT = 0")
      case True
      let ?ev = "registered_events (dstate s) OR EPOLLOUT"
      obtain e w2 where c: "epoll_ctl os w1 Ctl_Mod desc ?ev = (e, w2)" by (rule prod.exhaust)
      note C = ctlD [OF et c]
      have dw: "d = fst (wait_op ((dstate s)\<lparr>registered_events := watched K w2\<rparr>) ty op1 w2)" "w = w2"
        using st' D(4,7) nd True c C(1,3) by (auto simp: or_out wait_op_def)
      show ?thesis unfolding dw
      proof (rule start_waits [OF ok ty P(4)])
        show "has_flag (watched K w2) ty" using True C(3) flags_out by simp
        show "has_flag (reported K w2) ty \<or> announced K s ty" if "ready K w2 ty"
          using that C(2) C(4) [of ty] True flags_out by simp
        show "watched K w2 OR EPOLLOUT = watched K (eworld s) OR EPOLLOUT" using C(3) D(4) by (simp add: or_out)
        show "has_flag (watched K w2) k = has_flag (watched K (eworld s)) k"
          if "k < max_ops" "k \<noteq> ty" for k
          using that True C(3) D(4) flags_out by (auto simp: less_max_ops)
      qed (use C P in auto)
    next
      case False
      have dw: "d = fst (wait_op ((dstate s)\<lparr>registered_events := watched K w1\<rparr>) ty op1 w1)" "w = w1"
        using st' D(4,7) nd False P(2) by (auto simp: wait_op_def)
      have this_ty: "has_flag (watched K w1) ty"
        using False D(4,5,6) P(2) ty out_flag by (auto simp: less_max_ops)
      show ?thesis unfolding dw
        by (rule start_waits [OF ok ty P(4) _ this_ty]) (use P T dry nd D(4) this_ty in auto)
    qed
  qed
qed

lemma edge_start_op:
  assumes et: "edge_triggered os K" and ok: "edge_ok K s" and ty: "ty < max_ops" and kind: "kind K (op_id op) = ty"
    and st: "start_op os ty desc (dstate s) op cont allow (eworld s) = (d, calls, w)"
  shows "edge_ok K (s\<lparr>dstate := d, eworld := w\<rparr>)"
proof -
  note D = edge_okD [OF ok]
  note T = D(8) [OF ty, unfolded type_ok_def]
  consider (behind) "op_queues (dstate s) ! ty \<noteq> []"
    | (tries) "op_queues (dstate s) ! ty = []" "allow \<and> (ty \<noteq> read_op \<or> op_queues (dstate s) ! except_op = [])"
    | (renew) "op_queues (dstate s) ! ty = []" "\<not> (allow \<and> (ty \<noteq> read_op \<or> op_queues (dstate s) ! except_op = []))"
    by blast
  then show ?thesis
  proof cases
    case behind
    then have dw: "d = fst (wait_op ((dstate s)\<lparr>registered_events := watched K (eworld s)\<rparr>) ty op (eworld s))"
      "w = eworld s"
      using st D(1,4) by (auto simp: start_op_def wait_op_def)
    show ?thesis unfolding dw
      by (rule start_waits [OF ok ty kind]) (use T behind in auto)
  next
    case tries
    then have "start_speculative os ty desc (dstate s) op cont (eworld s) = (d, calls, w)"
      using st D(1) by (simp add: start_op_def split: if_splits)
    then show ?thesis by (rule edge_start_speculative [OF et ok ty kind tries(1)])
  next
    case renew
    let ?ev = "if ty = write_op then registered_events (dstate s) OR EPOLLOUT else registered_events (dstate s)"
    obtain e w1 where c: "epoll_ctl os (eworld s) Ctl_Mod desc ?ev = (e, w1)" by (rule prod.exhaust)
    note C = ctlD [OF et c]
    have dw: "d = fst (wait_op ((dstate s)\<lparr>registered_events := watched K w1\<rparr>) ty op w1)" "w = w1"
      using st D(1,4,7) renew c C(3) by (auto simp: start_op_def Let_def wait_op_def split: if_splits)
    have this_ty: "has_flag (watched K w1) ty"
      using C(3) D(4,5,6) ty flags_out by (auto simp: less_max_ops)
    show ?thesis unfolding dw
    proof (rule start_waits [OF ok ty kind _ this_ty])
      show "watched K w1 OR EPOLLOUT = watched K (eworld s) OR EPOLLOUT" using C(3) D(4) by (simp add: or_out)
      show "has_flag (watched K w1) k = has_flag (watched K (eworld s)) k" if "k < max_ops" "k \<noteq> ty" for k
        using that C(3) D(4) flags_out by (auto simp: less_max_ops)
      show "has_flag (reported K w1) ty \<or> announced K s ty" if "ready K w1 ty"
        using that C(2) C(4) [of ty] C(3) this_ty by simp
    qed (use C in auto)
  qed
qed

lemma edge_run:
  assumes et: "edge_triggered os K" and ok: "edge_ok K s"
    and r: "descriptor_complete os True (dstate s) (eworld s) = (d, first, calls, w)"
  shows "edge_ok K (s\<lparr>dstate := d, queued := False, eworld := w\<rparr>) \<and>
    (\<forall>j < max_ops. has_flag (task_result (dstate s)) j \<and> ready K (eworld s) j \<and> op_queues (dstate s) ! j \<noteq> [] \<longrightarrow>
      length (op_queues d ! j) < length (op_queues (dstate s) ! j))"
proof -
  note D = edge_okD [OF ok]
  let ?ev = "task_result (dstate s)"
  obtain d' ops w' where p: "perform_types os ?ev max_ops (dstate s) (eworld s) = (d', ops, w')" by (rule prod_cases3)
  have dw: "d = d'" "w = w'" using r p by (auto simp: descriptor_complete_def perform_io_def split: list.splits)
  have kinds: "\<forall>j < max_ops. \<forall>op \<in> set (op_queues (dstate s) ! j). kind K (op_id op) = j"
    using D(8) by (simp add: type_ok_def)
  note P = perform_types_edge [OF et p kinds D(2,3) order.refl]
  have "type_ok K (s\<lparr>dstate := d', queued := False, eworld := w'\<rparr>) j" if j: "j < max_ops" for j
  proof (cases "processed ?ev j")
    case True
    from P j True have "op_queues d' ! j \<noteq> [] \<or> \<not> try_speculative d' ! j \<longrightarrow> \<not> ready K w' j" by auto
    moreover have "has_flag (watched K w') j" if "op_queues d' ! j \<noteq> []"
    proof -
      have "op_queues (dstate s) ! j \<noteq> []"
      proof
        assume "op_queues (dstate s) ! j = []"
        moreover have "takes (dstate s) d' ops" using perform_types_takes [OF p] D(2) by simp
        ultimately show False using that j D(2) by (auto simp: takes_def)
      qed
      then show ?thesis using D(8) [OF j] P by (simp add: type_ok_def)
    qed
    ultimately show ?thesis using P j by (auto simp: type_ok_def)
  next
    case False
    from P j False have same: "op_queues d' ! j = op_queues (dstate s) ! j"
      "try_speculative d' ! j = try_speculative (dstate s) ! j" "ready K w' j = ready K (eworld s) j" by auto
    have "\<not> has_flag ?ev j" using False has_flag_processed by blast
    then show ?thesis
      using D(8) [OF j] same P by (auto simp: type_ok_def announced_def)
  qed
  moreover have "length (op_queues d ! j) < length (op_queues (dstate s) ! j)"
    if "j < max_ops" "has_flag ?ev j" "ready K (eworld s) j" "op_queues (dstate s) ! j \<noteq> []" for j
    using P that has_flag_processed [OF that(2)] dw by auto
  ultimately show ?thesis
    using P D ok dw unfolding edge_ok_def by (simp add: edge_ok_def)
qed

lemma edge_step_ok:
  assumes et: "edge_triggered os K" and ok: "edge_ok K s"
  shows "edge_step os K s s' \<Longrightarrow> edge_ok K s'"
proof (induction rule: edge_step.cases)
  case (start ty op desc s0 cont allow d calls w)
  then show ?case using edge_start_op [OF et ok] by blast
next
  case (cancel s0 d calls)
  then have "d = clear_queues (dstate s)" by (simp add: cancel_ops_def)
  moreover have "type_ok K (s\<lparr>dstate := clear_queues (dstate s)\<rparr>) j" if j: "j < max_ops" for j
    using edge_okD(8) [OF ok j] j by (auto simp: type_ok_def clear_queues_def announced_def)
  ultimately show ?case using ok cancel by (simp add: edge_ok_def clear_queues_def)
next
  case (system s0 w)
  then have w: "system_step K (eworld s) w" by simp
  have "type_ok K (s\<lparr>eworld := w\<rparr>) j" if j: "j < max_ops" for j
    using edge_okD(8) [OF ok j] w by (auto simp: type_ok_def announced_def system_step_def)
  then show ?case using ok system w by (simp add: edge_ok_def system_step_def)
next
  case (wait s0 w)
  then have w: "events_taken K (eworld s) w" by simp
  let ?d = "(if queued s then add_ready_events else set_ready_events) (reported K (eworld s)) (dstate s)"
  have "type_ok K (s\<lparr>dstate := ?d, queued := True, eworld := w\<rparr>) j" if j: "j < max_ops" for j
    using edge_okD(8) [OF ok j] w
    by (auto simp: type_ok_def announced_def events_taken_def add_ready_events_def set_ready_events_def)
  moreover have "op_queues ?d = op_queues (dstate s) \<and> try_speculative ?d = try_speculative (dstate s) \<and>
      state_shutdown ?d = state_shutdown (dstate s) \<and> registered_events ?d = registered_events (dstate s)"
    by (simp add: add_ready_events_def set_ready_events_def)
  ultimately show ?case using ok wait w by (simp add: edge_ok_def events_taken_def)
next
  case (run s0 d first calls w)
  then show ?case using edge_run [OF et ok] by blast
qed

lemma edge_reachable_ok:
  assumes "edge_reachable os K s" "edge_triggered os K"
  shows "edge_ok K s"
  using assms by (induction rule: edge_reachable.induct) (auto intro: edge_start_ok edge_step_ok)

section \<open>Properties\<close>

lemma edge_run_first:
  assumes r: "descriptor_complete os True d0 w0 = (d, first, calls, w)" and len: "length (op_queues d0) = max_ops"
    and j: "j < max_ops" "length (op_queues d ! j) < length (op_queues d0 ! j)"
  shows "first \<noteq> None"
proof
  assume none: "first = None"
  obtain d' ops w' where p: "perform_types os (task_result d0) max_ops d0 w0 = (d', ops, w')" by (rule prod_cases3)
  have d: "d = d'" and ops: "ops = []"
    using r p none by (auto simp: descriptor_complete_def perform_io_def split: list.splits)
  have t: "takes d0 d []" using perform_types_takes [OF p] len d ops by simp
  have "taken 0 d0 d = []" using length_taken [OF t len, of 0] by simp
  then have "taken_of 0 d0 d j = []" using j(1) by (simp add: taken_def)
  then have "map (snd \<circ> snd) (taken_of 0 d0 d j) = []" by simp
  then show False using j(2) by (simp add: map_taken_of del: map_is_Nil_conv)
qed


text \<open>A stream with so many bytes to read, of which an operation reads one.\<close>

definition byte_os :: "(nat \<times> uint32 \<times> uint32) reactor_os" where
  "byte_os = \<lparr>perform_func = (\<lambda>(n, r, v) op. if n = 0 then (Not_Done, op_ec op, op_bytes op, (n, r, v))
       else (Done, no_error, 1, (n - 1, r, v))),
     epoll_ctl = (\<lambda>(n, r, v) c desc ev.
       (0, (n, if 0 < n \<and> has_flag ev 0 then r OR EPOLLIN else r, ev)))\<rparr>"

definition byte_kernel :: "(nat \<times> uint32 \<times> uint32) kernel" where
  "byte_kernel = \<lparr>ready = (\<lambda>(n, r, v) k. k = 0 \<and> 0 < n), reported = (\<lambda>(n, r, v). r), watched = (\<lambda>(n, r, v). v),
     kind = (\<lambda>_. 0)\<rparr>"

lemma in_flag: "has_flag EPOLLIN 0"
  by (simp add: has_flag_def flag_def epoll_flags)

lemma byte_edge_triggered: "edge_triggered byte_os byte_kernel"
  by (auto simp: edge_triggered_def byte_os_def byte_kernel_def perform_def in_flag split: if_splits)


text \<open>
  At the end of a stream the law on \<open>done_and_exhausted\<close> fails: a receive of nothing says so, and the
  stream stays ready. The next read is not tried and the system is not asked to report again, so it
  waits for an event that may never come.
\<close>

lemma read_after_end_waits:
  assumes "\<not> state_shutdown d" "registered_events d \<noteq> 0" "op_queues d = [[], [], []]" "try_speculative d = [True, ts, us]"
    and "perform os w op1 = (Done_And_Exhausted, op1', w1)"
    and "start_op os read_op desc d op1 cont True w = (d1, calls1, w')"
  shows "calls1 = [Post_Immediate op1' cont] \<and> w' = w1 \<and>
    start_op os read_op desc d1 op2 cont True w1 = (d1\<lparr>op_queues := [[op2], [], []]\<rparr>, [Work_Started], w1)"
  using assms by (auto simp: start_op_def start_speculative_def complete_now_def wait_op_def)

end
