(* ===== verification/Asio_Strand.thy ===== *)
theory Asio_Strand
  imports Prelude "HOL-Library.Multiset" "HOL-Library.Sublist"
begin

text \<open>
  The strands of the bundled asio: \<open>strand_executor_service\<close> (detail/strand\_executor\_service.hpp,
  detail/impl/strand\_executor\_service.hpp and .ipp), behind \<open>asio::strand\<close>, and \<open>strand_service\<close>
  (detail/strand\_service.hpp, detail/impl/strand\_service.hpp and .ipp), behind \<open>io_context::strand\<close>.
  Any number of threads call them and run what they hand to the executor below. A step is what a
  thread does while it holds the mutex of a strand, or between two such places. Both services share
  the state of a strand, the loop over its ready handlers and what happens behind the loop.
\<close>

section \<open>State\<close>

record strand_impl =
  locked :: bool
  is_shutdown :: bool
  waiting_queue :: "nat list"
  ready_queue :: "nat list"

text \<open>
  The places of a thread in the code of one strand, as a stack of frames, since a handler may call
  the strand again and the executor may run the strand inside of such a call: behind the unlock in
  \<open>enqueue\<close>, in front of the push on the ready queue; about to hand the strand to the executor; in
  the loop over the ready handlers; in a handler that was popped there; about to lock behind
  the loop; about to hand the strand to the executor again; in a handler that a call inside of the
  strand runs at once; in a handler that \<open>strand_service::dispatch\<close> runs at once from outside.
\<close>

datatype frame =
    Pushing nat
  | Scheduling
  | Invoking
  | Handler nat
  | Exiting
  | Rescheduling
  | Inline_Handler nat
  | Dispatched nat

text \<open>
  \<open>pending\<close> is how often the executor has the strand and has not yet begun to run it, \<open>abandoned\<close>
  how often it has destroyed it instead. \<open>submitted\<close>, \<open>started\<close> and \<open>destroyed\<close> record the operations
  that were given to the strand, that were begun, and that were destroyed.
\<close>

record strand_sys =
  impl :: strand_impl
  pending :: nat
  abandoned :: nat
  stacks :: "frame list list"
  submitted :: "nat list"
  started :: "nat list"
  destroyed :: "nat list"

definition strand_impl_new :: strand_impl where
  "strand_impl_new = \<lparr>locked = False, is_shutdown = False, waiting_queue = [], ready_queue = []\<rparr>"

definition strand_new :: "nat \<Rightarrow> strand_sys" where
  "strand_new n = \<lparr>impl = strand_impl_new, pending = 0, abandoned = 0, stacks = replicate n [],
     submitted = [], started = [], destroyed = []\<rparr>"

text \<open>The frames below which \<open>call_stack<strand_impl>\<close> has an entry for the strand.\<close>

fun has_context :: "frame \<Rightarrow> bool" where
  "has_context Invoking = True"
| "has_context (Handler f) = True"
| "has_context Exiting = True"
| "has_context Rescheduling = True"
| "has_context (Dispatched f) = True"
| "has_context fr = False"

definition running_in_this_thread :: "frame list \<Rightarrow> bool" where
  "running_in_this_thread st \<longleftrightarrow> list_ex has_context st"

text \<open>Where the code of the user runs: outside of the strand, or in a handler.\<close>

fun user_code :: "frame list \<Rightarrow> bool" where
  "user_code [] = True"
| "user_code (Handler f # st) = True"
| "user_code (Inline_Handler f # st) = True"
| "user_code (Dispatched f # st) = True"
| "user_code st = False"

abbreviation set_stack :: "nat \<Rightarrow> frame list \<Rightarrow> strand_sys \<Rightarrow> strand_sys" where
  "set_stack t st s \<equiv> s\<lparr>stacks := (stacks s)[t := st]\<rparr>"

section \<open>What both services share\<close>

text \<open>The push on the ready queue, once the lock of the strand has been acquired.\<close>

definition push_ready :: "nat \<Rightarrow> strand_impl \<Rightarrow> strand_impl" where
  "push_ready op i = i\<lparr>ready_queue := ready_queue i @ [op]\<rparr>"

text \<open>The destructors \<open>on_invoker_exit\<close>, \<open>on_do_complete_exit\<close> and \<open>on_dispatch_exit\<close>, while they hold
  the mutex; the result is \<open>more_handlers\<close>.\<close>

definition on_exit :: "strand_impl \<Rightarrow> strand_impl \<times> bool" where
  "on_exit i =
     (let i1 = i\<lparr>ready_queue := ready_queue i @ waiting_queue i, waiting_queue := []\<rparr>;
          more_handlers = (ready_queue i1 \<noteq> [])
      in (i1\<lparr>locked := more_handlers\<rparr>, more_handlers))"

text \<open>The next step of thread \<open>t\<close> inside of the strand. \<open>at_once\<close>: the executor runs what it is handed
  before it returns, which it may do when a call is not required to return first.\<close>

definition strand_step :: "nat \<Rightarrow> bool \<Rightarrow> strand_sys \<Rightarrow> strand_sys" where
  "strand_step t at_once s =
     (case stacks s ! t of
        Pushing op # st \<Rightarrow> set_stack t (Scheduling # st) (s\<lparr>impl := push_ready op (impl s)\<rparr>)
      | Scheduling # st \<Rightarrow>
          if at_once then set_stack t (Invoking # st) s
          else set_stack t st (s\<lparr>pending := pending s + 1\<rparr>)
      | Invoking # st \<Rightarrow>
          (case ready_queue (impl s) of
             [] \<Rightarrow> set_stack t (Exiting # st) s
           | op # ops \<Rightarrow> set_stack t (Handler op # st)
               (s\<lparr>impl := (impl s)\<lparr>ready_queue := ops\<rparr>, started := started s @ [op]\<rparr>))
      | Exiting # st \<Rightarrow>
          (case on_exit (impl s) of
             (i, more_handlers) \<Rightarrow> set_stack t (if more_handlers then Rescheduling # st else st) (s\<lparr>impl := i\<rparr>))
      | Rescheduling # st \<Rightarrow> set_stack t st (s\<lparr>pending := pending s + 1\<rparr>)
      | _ \<Rightarrow> s)"

text \<open>A handler of thread \<open>t\<close> returns, or throws: then the loop over the ready handlers ends, and what
  is behind it is run by the destructors.\<close>

definition handler_ends :: "nat \<Rightarrow> bool \<Rightarrow> strand_sys \<Rightarrow> strand_sys" where
  "handler_ends t throws s =
     (case stacks s ! t of
        Handler op # st \<Rightarrow> set_stack t ((if throws then Exiting else Invoking) # st) s
      | Inline_Handler op # st \<Rightarrow> set_stack t st s
      | Dispatched op # st \<Rightarrow> set_stack t (Exiting # st) s
      | _ \<Rightarrow> s)"

text \<open>The executor begins to run the strand on a thread that is in its hands, or destroys it unrun.\<close>

definition executor_runs :: "nat \<Rightarrow> strand_sys \<Rightarrow> strand_sys" where
  "executor_runs t s =
     (if 0 < pending s \<and> user_code (stacks s ! t)
      then set_stack t (Invoking # stacks s ! t) (s\<lparr>pending := pending s - 1\<rparr>) else s)"

definition executor_abandons :: "strand_sys \<Rightarrow> strand_sys" where
  "executor_abandons s =
     (if 0 < pending s then s\<lparr>pending := pending s - 1, abandoned := abandoned s + 1\<rparr> else s)"

section \<open>The strand of an executor\<close>

text \<open>\<open>enqueue\<close> up to the unlock of the mutex: the strand, whether the caller has acquired its lock,
  and what was destroyed.\<close>

definition enqueue :: "strand_impl \<Rightarrow> nat \<Rightarrow> strand_impl \<times> bool \<times> nat list" where
  "enqueue i op =
     (if is_shutdown i then (i, False, [op])
      else if locked i then (i\<lparr>waiting_queue := waiting_queue i @ [op]\<rparr>, False, [])
      else (i\<lparr>locked := True\<rparr>, True, []))"

text \<open>\<open>post\<close> and \<open>defer\<close>, called by thread \<open>t\<close>.\<close>

definition strand_post :: "nat \<Rightarrow> nat \<Rightarrow> strand_sys \<Rightarrow> strand_sys" where
  "strand_post t op s =
     (case enqueue (impl s) op of
        (i, first, gone) \<Rightarrow>
          (let s1 = s\<lparr>impl := i, submitted := submitted s @ [op], destroyed := destroyed s @ gone\<rparr>
           in if first then set_stack t (Pushing op # stacks s ! t) s1 else s1))"

definition strand_dispatch :: "nat \<Rightarrow> nat \<Rightarrow> strand_sys \<Rightarrow> strand_sys" where
  "strand_dispatch t op s =
     (if running_in_this_thread (stacks s ! t) then set_stack t (Inline_Handler op # stacks s ! t) s
      else strand_post t op s)"

definition do_execute :: "bool \<Rightarrow> nat \<Rightarrow> nat \<Rightarrow> strand_sys \<Rightarrow> strand_sys" where
  "do_execute blocking_never t op s =
     (if \<not> blocking_never \<and> running_in_this_thread (stacks s ! t)
      then set_stack t (Inline_Handler op # stacks s ! t) s
      else strand_post t op s)"

text \<open>\<open>shutdown\<close> of the service, for one strand.\<close>

definition strand_shutdown :: "strand_sys \<Rightarrow> strand_sys" where
  "strand_shutdown s =
     s\<lparr>impl := (impl s)\<lparr>is_shutdown := True, waiting_queue := [], ready_queue := []\<rparr>,
       destroyed := destroyed s @ waiting_queue (impl s) @ ready_queue (impl s)\<rparr>"

datatype executor_act =
    Post nat nat
  | Dispatch nat nat
  | Execute bool nat nat
  | Step nat bool
  | Handler_Returns nat
  | Handler_Throws nat
  | Executor_Runs nat
  | Executor_Abandons
  | Service_Shutdown

text \<open>What a thread that does not exist, or that is not in the user's code, calls changes nothing.\<close>

definition user_thread :: "nat \<Rightarrow> strand_sys \<Rightarrow> bool" where
  "user_thread t s \<longleftrightarrow> t < length (stacks s) \<and> user_code (stacks s ! t)"

fun executor_strand_act :: "executor_act \<Rightarrow> strand_sys \<Rightarrow> strand_sys" where
  "executor_strand_act (Post t op) s = (if user_thread t s then strand_post t op s else s)"
| "executor_strand_act (Dispatch t op) s = (if user_thread t s then strand_dispatch t op s else s)"
| "executor_strand_act (Execute never t op) s = (if user_thread t s then do_execute never t op s else s)"
| "executor_strand_act (Step t at_once) s = (if t < length (stacks s) then strand_step t at_once s else s)"
| "executor_strand_act (Handler_Returns t) s = (if t < length (stacks s) then handler_ends t False s else s)"
| "executor_strand_act (Handler_Throws t) s = (if t < length (stacks s) then handler_ends t True s else s)"
| "executor_strand_act (Executor_Runs t) s = (if user_thread t s then executor_runs t s else s)"
| "executor_strand_act Executor_Abandons s = executor_abandons s"
| "executor_strand_act Service_Shutdown s = strand_shutdown s"

section \<open>The strand of an \<open>io_context\<close>\<close>

text \<open>\<open>do_dispatch\<close> up to the unlock: the strand, whether the handler may run at once, and whether the
  caller has acquired the lock to schedule the strand. \<open>can_dispatch\<close>: the thread runs the \<open>io_context\<close>.\<close>

definition strand_do_dispatch :: "bool \<Rightarrow> strand_impl \<Rightarrow> nat \<Rightarrow> strand_impl \<times> bool \<times> bool" where
  "strand_do_dispatch can_dispatch i op =
     (if can_dispatch \<and> \<not> locked i then (i\<lparr>locked := True\<rparr>, True, False)
      else if locked i then (i\<lparr>waiting_queue := waiting_queue i @ [op]\<rparr>, False, False)
      else (i\<lparr>locked := True\<rparr>, False, True))"

definition strand_do_post :: "strand_impl \<Rightarrow> nat \<Rightarrow> strand_impl \<times> bool" where
  "strand_do_post i op =
     (if locked i then (i\<lparr>waiting_queue := waiting_queue i @ [op]\<rparr>, False)
      else (i\<lparr>locked := True\<rparr>, True))"

definition service_post :: "nat \<Rightarrow> nat \<Rightarrow> strand_sys \<Rightarrow> strand_sys" where
  "service_post t op s =
     (case strand_do_post (impl s) op of
        (i, first) \<Rightarrow>
          (let s1 = s\<lparr>impl := i, submitted := submitted s @ [op]\<rparr>
           in if first then set_stack t (Pushing op # stacks s ! t) s1 else s1))"

definition service_dispatch :: "bool \<Rightarrow> nat \<Rightarrow> nat \<Rightarrow> strand_sys \<Rightarrow> strand_sys" where
  "service_dispatch can_dispatch t op s =
     (if running_in_this_thread (stacks s ! t) then set_stack t (Inline_Handler op # stacks s ! t) s
      else (case strand_do_dispatch can_dispatch (impl s) op of
        (i, dispatch_immediately, first) \<Rightarrow>
          (let s1 = s\<lparr>impl := i, submitted := submitted s @ [op]\<rparr>
           in if dispatch_immediately
              then set_stack t (Dispatched op # stacks s ! t) (s1\<lparr>started := started s @ [op]\<rparr>)
              else if first then set_stack t (Pushing op # stacks s ! t) s1 else s1)))"

definition service_shutdown :: "strand_sys \<Rightarrow> strand_sys" where
  "service_shutdown s =
     s\<lparr>impl := (impl s)\<lparr>waiting_queue := [], ready_queue := []\<rparr>,
       destroyed := destroyed s @ waiting_queue (impl s) @ ready_queue (impl s)\<rparr>"

datatype service_act =
    S_Post nat nat
  | S_Dispatch bool nat nat
  | S_Step nat
  | S_Handler_Returns nat
  | S_Handler_Throws nat
  | S_Scheduler_Runs nat
  | S_Scheduler_Abandons
  | S_Shutdown

text \<open>The scheduler never runs the strand inside of \<open>post_immediate_completion\<close>; destroying it, as its
  shutdown does, is \<open>do_complete\<close> without an owner.\<close>

fun service_strand_act :: "service_act \<Rightarrow> strand_sys \<Rightarrow> strand_sys" where
  "service_strand_act (S_Post t op) s = (if user_thread t s then service_post t op s else s)"
| "service_strand_act (S_Dispatch c t op) s = (if user_thread t s then service_dispatch c t op s else s)"
| "service_strand_act (S_Step t) s = (if t < length (stacks s) then strand_step t False s else s)"
| "service_strand_act (S_Handler_Returns t) s = (if t < length (stacks s) then handler_ends t False s else s)"
| "service_strand_act (S_Handler_Throws t) s = (if t < length (stacks s) then handler_ends t True s else s)"
| "service_strand_act (S_Scheduler_Runs t) s = (if user_thread t s then executor_runs t s else s)"
| "service_strand_act S_Scheduler_Abandons s = executor_abandons s"
| "service_strand_act S_Shutdown s = service_shutdown s"

end
