(* ===== verification/Strand_Props.thy ===== *)
theory Strand_Props
  imports Asio_Strand
begin

text \<open>
  The invariant of a strand: its lock counts the one thread, or the one entry in the executor, that
  is responsible for its handlers, and its queues are what was submitted and is not begun. The locale
  \<open>strand_machine\<close> gives what follows for any service that keeps the invariant.
\<close>

section \<open>The invariant\<close>

text \<open>Every frame but that of a handler inside of the strand owns the lock.\<close>

fun owns :: "frame \<Rightarrow> bool" where
  "owns (Inline_Handler op) = False"
| "owns fr = True"

definition owners :: "frame list \<Rightarrow> nat" where
  "owners fs = length (filter owns fs)"

fun pushing :: "frame \<Rightarrow> nat list" where
  "pushing (Pushing op) = [op]"
| "pushing fr = []"

definition pushes :: "frame list \<Rightarrow> nat list" where
  "pushes fs = concat (map pushing fs)"

text \<open>A handler calls from the top of the stack; one inside of the strand is above another one.\<close>

fun stack_ok :: "frame list \<Rightarrow> bool" where
  "stack_ok [] = True"
| "stack_ok (fr # st) \<longleftrightarrow> stack_ok st \<and> user_code st \<and> (owns fr \<or> st \<noteq> [])"

definition unstarted :: "strand_sys \<Rightarrow> nat list" where
  "unstarted s = pushes (concat (stacks s)) @ ready_queue (impl s) @ waiting_queue (impl s)"

definition lock_ok :: "strand_sys \<Rightarrow> bool" where
  "lock_ok s \<longleftrightarrow>
     list_all stack_ok (stacks s) \<and>
     pending s + abandoned s + owners (concat (stacks s)) = (if locked (impl s) then 1 else 0)"

definition queues_ok :: "strand_sys \<Rightarrow> bool" where
  "queues_ok s \<longleftrightarrow>
     (\<not> locked (impl s) \<longrightarrow> ready_queue (impl s) = [] \<and> waiting_queue (impl s) = []) \<and>
     (pushes (concat (stacks s)) \<noteq> [] \<longrightarrow> ready_queue (impl s) = [])"

definition order_ok :: "strand_sys \<Rightarrow> bool" where
  "order_ok s \<longleftrightarrow>
     (destroyed s = [] \<longrightarrow> submitted s = started s @ unstarted s) \<and>
     subseq (started s @ unstarted s) (submitted s) \<and>
     mset (submitted s) = mset (started s @ unstarted s) + mset (destroyed s)"

definition strand_ok :: "strand_sys \<Rightarrow> bool" where
  "strand_ok s \<longleftrightarrow> lock_ok s \<and> queues_ok s \<and> order_ok s"

lemma owners_simps [simp]:
  "owners [] = 0"
  "owners (fr # fs) = (if owns fr then 1 else 0) + owners fs"
  "owners (fs @ gs) = owners fs + owners gs"
  by (simp_all add: owners_def)

lemma pushes_simps [simp]:
  "pushes [] = []"
  "pushes (fr # fs) = pushing fr @ pushes fs"
  by (simp_all add: pushes_def)

lemma owners_concat: "owners (concat xss) = sum_list (map owners xss)"
  by (induction xss) auto

lemma stack_has_owner: "stack_ok st \<Longrightarrow> st \<noteq> [] \<Longrightarrow> 0 < owners st"
  by (induction st rule: stack_ok.induct) auto

lemma concat_empty_but:
  "t < length xss \<Longrightarrow> (\<And>u. u < length xss \<Longrightarrow> u \<noteq> t \<Longrightarrow> xss ! u = []) \<Longrightarrow> concat (xss[t := y]) = y"
proof (induction xss arbitrary: t)
  case Nil
  then show ?case by simp
next
  case (Cons xs xss)
  show ?case
  proof (cases t)
    case 0
    have "xss ! u = []" if "u < length xss" for u
      using Cons.prems(2) [of "Suc u"] that 0 by simp
    then have "concat xss = []" by (auto simp: in_set_conv_nth)
    with 0 show ?thesis by simp
  next
    case (Suc k)
    have "xs = []" using Cons.prems(2) [of 0] Suc by simp
    moreover have "xss ! u = []" if "u < length xss" "u \<noteq> k" for u
      using Cons.prems(2) [of "Suc u"] that Suc by simp
    then have "concat (xss[k := y]) = y"
      using Cons.prems(1) Suc by (intro Cons.IH) auto
    ultimately show ?thesis using Suc by simp
  qed
qed

section \<open>One owner\<close>

lemma sum_list_two_le:
  fixes ns :: "nat list"
  assumes "i < length ns" "j < length ns" "i \<noteq> j"
  shows "ns ! i + ns ! j \<le> sum_list ns"
proof -
  have "sum_list ns = (\<Sum>k = 0..<length ns. ns ! k)" by (rule sum_list_sum_nth)
  also have "\<dots> \<ge> (\<Sum>k \<in> {i, j}. ns ! k)"
    by (rule sum_mono2) (use assms in auto)
  finally show ?thesis using assms(3) by simp
qed

lemma one_stack:
  assumes ok: "lock_ok s" and t: "t < length (stacks s)" "stacks s ! t \<noteq> []"
    and u: "u < length (stacks s)" "u \<noteq> t"
  shows "stacks s ! u = []"
proof (rule ccontr)
  assume ne: "stacks s ! u \<noteq> []"
  have st: "stack_ok (stacks s ! t)" "stack_ok (stacks s ! u)"
    using ok t(1) u(1) by (auto simp: lock_ok_def list_all_length)
  have "map owners (stacks s) ! t + map owners (stacks s) ! u \<le> owners (concat (stacks s))"
    unfolding owners_concat by (rule sum_list_two_le) (use t u in auto)
  moreover have "0 < owners (stacks s ! t)" "0 < owners (stacks s ! u)"
    using stack_has_owner st ne t(2) by auto
  ultimately show False using ok t u by (simp add: lock_ok_def split: if_splits)
qed

lemma unlocked_no_stack:
  assumes "lock_ok s" "\<not> locked (impl s)" "u < length (stacks s)"
  shows "stacks s ! u = []"
proof (rule ccontr)
  assume "stacks s ! u \<noteq> []"
  then have "0 < owners (stacks s ! u)"
    using assms stack_has_owner by (auto simp: lock_ok_def list_all_length)
  moreover have "owners (stacks s ! u) \<le> owners (concat (stacks s))"
    using member_le_sum_list [of "owners (stacks s ! u)" "map owners (stacks s)"] assms(3)
    by (simp add: owners_concat)
  ultimately show False using assms by (simp add: lock_ok_def)
qed

text \<open>What a thread replaces its stack by is then all there is.\<close>

lemma concat_stacks_update:
  assumes "lock_ok s" "t < length (stacks s)" "stacks s ! t \<noteq> [] \<or> \<not> locked (impl s)"
  shows "concat ((stacks s)[t := st]) = st"
  using assms by (intro concat_empty_but) (auto intro: one_stack unlocked_no_stack)

lemma concat_stacks_owner:
  assumes "lock_ok s" "t < length (stacks s)" "stacks s ! t \<noteq> []"
  shows "concat (stacks s) = stacks s ! t"
  using concat_stacks_update [OF assms(1,2), of "stacks s ! t"] assms(3) by simp

lemma stack_ok_nth: "lock_ok s \<Longrightarrow> t < length (stacks s) \<Longrightarrow> stack_ok (stacks s ! t)"
  by (simp add: lock_ok_def list_all_length)

lemma stacks_update_ok:
  "lock_ok s \<Longrightarrow> stack_ok st \<Longrightarrow> list_all stack_ok ((stacks s)[t := st])"
  by (auto simp: lock_ok_def list_all_iff dest!: set_update_subset_insert [THEN subsetD])

section \<open>Every step keeps it\<close>

lemma owner_alone:
  assumes ok: "lock_ok s" and t: "t < length (stacks s)" and st: "stacks s ! t = fr # st" "owns fr"
  shows "st = [] \<and> concat (stacks s) = [fr] \<and> pending s = 0 \<and> abandoned s = 0 \<and> locked (impl s)"
proof -
  have all: "concat (stacks s) = fr # st"
    using concat_stacks_owner [OF ok t] st(1) by simp
  with ok st(2) have "pending s = 0 \<and> abandoned s = 0 \<and> locked (impl s) \<and> owners st = 0"
    by (auto simp: lock_ok_def split: if_splits)
  moreover have "stack_ok st" using stack_ok_nth [OF ok t] st(1) by simp
  ultimately show ?thesis using all stack_has_owner [of st] by auto
qed

text \<open>Replacing the stack of the owner, or of anybody where the strand is free.\<close>

lemma strand_ok_set_stack:
  assumes ok: "lock_ok s0" and t: "t < length (stacks s0)"
    and own: "stacks s0 ! t \<noteq> [] \<or> \<not> locked (impl s0)"
    and st: "stacks s = (stacks s0)[t := st]" "stack_ok st"
    and lock: "pending s + abandoned s + owners st = (if locked (impl s) then 1 else 0)"
    and queues: "\<not> locked (impl s) \<Longrightarrow> ready_queue (impl s) = [] \<and> waiting_queue (impl s) = []"
      "pushes st \<noteq> [] \<Longrightarrow> ready_queue (impl s) = []"
    and order: "destroyed s = [] \<Longrightarrow>
        submitted s = started s @ pushes st @ ready_queue (impl s) @ waiting_queue (impl s)"
      "subseq (started s @ pushes st @ ready_queue (impl s) @ waiting_queue (impl s)) (submitted s)"
      "mset (submitted s) =
         mset (started s @ pushes st @ ready_queue (impl s) @ waiting_queue (impl s)) + mset (destroyed s)"
  shows "strand_ok s"
proof -
  have [simp]: "concat (stacks s) = st"
    using concat_stacks_update [OF ok t own] st(1) by simp
  have "list_all stack_ok (stacks s)"
    using stacks_update_ok [OF ok st(2)] st(1) by simp
  with lock queues order show ?thesis
    by (simp add: strand_ok_def lock_ok_def queues_ok_def order_ok_def unstarted_def)
qed

lemma strand_step_ok:
  assumes ok: "strand_ok s" and t: "t < length (stacks s)"
  shows "strand_ok (strand_step t at_once s)"
proof (cases "\<exists>fr st. stacks s ! t = fr # st \<and> owns fr")
  case False
  then show ?thesis using ok by (auto simp: strand_step_def split: list.split frame.split)
next
  case True
  then obtain fr st0 where st0: "stacks s ! t = fr # st0" "owns fr" by blast
  have lock: "lock_ok s" using ok by (simp add: strand_ok_def)
  note alone = owner_alone [OF lock t st0]
  have st: "stacks s ! t = [fr]" using st0 alone by simp
  then have own: "stacks s ! t \<noteq> [] \<or> \<not> locked (impl s)" by simp
  note ok' = ok [unfolded strand_ok_def queues_ok_def order_ok_def unstarted_def]
  show ?thesis
  proof (cases fr)
    case (Pushing op)
    then show ?thesis
      using ok' alone unfolding strand_step_def st push_ready_def
      by (simp only: list.case frame.case)
        (rule strand_ok_set_stack [OF lock t own, where st = "[Scheduling]"], auto)
  next
    case Scheduling
    show ?thesis
    proof (cases at_once)
      case True
      then show ?thesis
        using ok' alone Scheduling unfolding strand_step_def st
        by (simp only: list.case frame.case if_True)
          (rule strand_ok_set_stack [OF lock t own, where st = "[Invoking]"], simp_all)
    next
      case False
      then show ?thesis
        using ok' alone Scheduling unfolding strand_step_def st
        by (simp only: list.case frame.case if_False)
          (rule strand_ok_set_stack [OF lock t own, where st = "[]"], simp_all)
    qed
  next
    case Invoking
    show ?thesis
    proof (cases "ready_queue (impl s)")
      case Nil
      then show ?thesis
        using ok' alone Invoking unfolding strand_step_def st
        by (simp only: list.case frame.case)
          (rule strand_ok_set_stack [OF lock t own, where st = "[Exiting]"], simp_all)
    next
      case (Cons op ops)
      then show ?thesis
        using ok' alone Invoking unfolding strand_step_def st
        by (simp only: list.case frame.case)
          (rule strand_ok_set_stack [OF lock t own, where st = "[Handler op]"], simp_all)
    qed
  next
    case Exiting
    show ?thesis
    proof (cases "ready_queue (impl s) @ waiting_queue (impl s) = []")
      case True
      then show ?thesis
        using ok' alone Exiting unfolding strand_step_def st on_exit_def Let_def
        by (simp only: list.case frame.case prod.case)
          (rule strand_ok_set_stack [OF lock t own, where st = "[]"], simp_all)
    next
      case False
      then show ?thesis
        using ok' alone Exiting unfolding strand_step_def st on_exit_def Let_def
        by (simp only: list.case frame.case prod.case)
          (rule strand_ok_set_stack [OF lock t own, where st = "[Rescheduling]"], simp_all)
    qed
  next
    case Rescheduling
    then show ?thesis
      using ok' alone unfolding strand_step_def st
      by (simp only: list.case frame.case)
        (rule strand_ok_set_stack [OF lock t own, where st = "[]"], simp_all)
  qed (use ok st in \<open>simp_all add: strand_step_def\<close>)
qed

lemma handler_ends_ok:
  assumes ok: "strand_ok s" and t: "t < length (stacks s)"
  shows "strand_ok (handler_ends t throws s)"
proof (cases "\<exists>fr st. stacks s ! t = fr # st \<and> handler_ends t throws s \<noteq> s")
  case False
  then have "handler_ends t throws s = s"
    by (cases "stacks s ! t") (auto simp: handler_ends_def)
  then show ?thesis using ok by simp
next
  case True
  then obtain fr st where st: "stacks s ! t = fr # st" and moves: "handler_ends t throws s \<noteq> s" by blast
  have lock: "lock_ok s" using ok by (simp add: strand_ok_def)
  have own: "stacks s ! t \<noteq> [] \<or> \<not> locked (impl s)" using st by simp
  have all: "concat (stacks s) = fr # st" using concat_stacks_owner [OF lock t] st by simp
  have good: "stack_ok (fr # st)" using stack_ok_nth [OF lock t] st by simp
  note ok' = ok [unfolded strand_ok_def queues_ok_def order_ok_def unstarted_def lock_ok_def all]
  show ?thesis
  proof (cases fr)
    case (Handler op)
    then show ?thesis
      using ok' good unfolding handler_ends_def st
      by (simp only: list.case frame.case)
        (rule strand_ok_set_stack [OF lock t own, where st = "(if throws then Exiting else Invoking) # st"],
          simp_all split: if_splits)
  next
    case (Inline_Handler op)
    then show ?thesis
      using ok' good unfolding handler_ends_def st
      by (simp only: list.case frame.case)
        (rule strand_ok_set_stack [OF lock t own, where st = "st"], simp_all)
  next
    case (Dispatched op)
    then show ?thesis
      using ok' good unfolding handler_ends_def st
      by (simp only: list.case frame.case)
        (rule strand_ok_set_stack [OF lock t own, where st = "Exiting # st"], simp_all)
  qed (use moves st in \<open>simp_all add: handler_ends_def\<close>)
qed

lemma executor_runs_ok:
  assumes ok: "strand_ok s" and t: "t < length (stacks s)"
  shows "strand_ok (executor_runs t s)"
proof (cases "0 < pending s \<and> user_code (stacks s ! t)")
  case False
  then show ?thesis using ok by (auto simp: executor_runs_def)
next
  case True
  note ok' = ok [unfolded strand_ok_def queues_ok_def order_ok_def unstarted_def]
  have lock: "lock_ok s" using ok' by simp
  have none: "owners (concat (stacks s)) = 0 \<and> abandoned s = 0 \<and> pending s = 1 \<and> locked (impl s)"
    using lock True by (auto simp: lock_ok_def split: if_splits)
  have empty: "stacks s ! u = []" if u: "u < length (stacks s)" for u
  proof (rule ccontr)
    assume ne: "stacks s ! u \<noteq> []"
    then show False
      using concat_stacks_owner [OF lock u ne] stack_has_owner [OF stack_ok_nth [OF lock u] ne] none by simp
  qed
  have [simp]: "concat ((stacks s)[t := st']) = st'" for st'
    using t empty by (intro concat_empty_but) auto
  have all: "concat (stacks s) = []"
    using empty by (auto simp: in_set_conv_nth)
  show ?thesis
    using ok' True none all stacks_update_ok [OF lock, of "[Invoking]" t]
    by (simp add: executor_runs_def strand_ok_def lock_ok_def queues_ok_def order_ok_def unstarted_def
        empty [OF t])
qed

lemma executor_abandons_ok: "strand_ok s \<Longrightarrow> strand_ok (executor_abandons s)"
  by (auto simp: executor_abandons_def strand_ok_def lock_ok_def queues_ok_def order_ok_def unstarted_def
      split: if_splits)

section \<open>Calls keep it\<close>

text \<open>A call queues behind the others, or acquires the lock of a free strand.\<close>

lemma strand_ok_waits:
  assumes "strand_ok s" "locked (impl s)"
  shows "strand_ok (s\<lparr>impl := (impl s)\<lparr>waiting_queue := waiting_queue (impl s) @ [op]\<rparr>,
      submitted := submitted s @ [op]\<rparr>)"
  using assms list_emb_append_mono [of "(=)" "started s @ unstarted s" "submitted s" "[op]" "[op]"]
  by (auto simp: strand_ok_def lock_ok_def queues_ok_def order_ok_def unstarted_def)

lemma strand_ok_acquires:
  assumes ok: "strand_ok s" and free: "\<not> locked (impl s)" and t: "t < length (stacks s)"
  shows "strand_ok (set_stack t [Pushing op]
      (s\<lparr>impl := (impl s)\<lparr>locked := True\<rparr>, submitted := submitted s @ [op]\<rparr>))"
proof -
  have lock: "lock_ok s" using ok by (simp add: strand_ok_def)
  have none: "concat (stacks s) = []"
    using unlocked_no_stack [OF lock free] by (auto simp: in_set_conv_nth)
  note ok' = ok [unfolded strand_ok_def queues_ok_def order_ok_def unstarted_def lock_ok_def none]
  show ?thesis
    by (rule strand_ok_set_stack [OF lock t, where st = "[Pushing op]"])
      (use ok' free in \<open>auto intro: list_emb_append_mono\<close>)
qed

lemma strand_post_ok:
  assumes ok: "strand_ok s" and t: "t < length (stacks s)"
  shows "strand_ok (strand_post t op s)"
proof -
  have lock: "lock_ok s" using ok by (simp add: strand_ok_def)
  consider "is_shutdown (impl s)" | "\<not> is_shutdown (impl s)" "locked (impl s)"
    | "\<not> is_shutdown (impl s)" "\<not> locked (impl s)" by blast
  then show ?thesis
  proof cases
    case 1
    then show ?thesis
      using ok
      by (auto simp: strand_post_def enqueue_def strand_ok_def lock_ok_def queues_ok_def order_ok_def
          unstarted_def subseq_append_iff intro: list_emb_append2)
  next
    case 2
    then show ?thesis
      using strand_ok_waits [OF ok 2(2), of op] by (simp add: strand_post_def enqueue_def)
  next
    case 3
    then show ?thesis
      using strand_ok_acquires [OF ok 3(2) t, of op] unlocked_no_stack [OF lock 3(2) t]
      by (simp add: strand_post_def enqueue_def)
  qed
qed

lemma inline_handler_ok:
  assumes ok: "strand_ok s" and t: "user_thread t s" and within: "running_in_this_thread (stacks s ! t)"
  shows "strand_ok (set_stack t (Inline_Handler op # stacks s ! t) s)"
proof -
  have lock: "lock_ok s" using ok by (simp add: strand_ok_def)
  have t': "t < length (stacks s)" "user_code (stacks s ! t)" using t by (simp_all add: user_thread_def)
  have ne: "stacks s ! t \<noteq> []" using within by (auto simp: running_in_this_thread_def)
  note all = concat_stacks_owner [OF lock t'(1) ne]
  note ok' = ok [unfolded strand_ok_def queues_ok_def order_ok_def unstarted_def lock_ok_def all]
  show ?thesis
    by (rule strand_ok_set_stack [OF lock t'(1), where st = "Inline_Handler op # stacks s ! t"])
      (use ok' ne t'(2) stack_ok_nth [OF lock t'(1)] in auto)
qed

lemma strand_shutdown_ok:
  assumes "strand_ok s"
  shows "strand_ok (strand_shutdown s)" "strand_ok (service_shutdown s)"
proof -
  have "subseq (started s @ pushes (concat (stacks s))) (started s @ unstarted s)"
    using subseq_rev_drop_many [OF subseq_order.order_refl, of "started s @ pushes (concat (stacks s))"
        "ready_queue (impl s) @ waiting_queue (impl s)"]
    by (simp add: unstarted_def)
  then have "subseq (started s @ pushes (concat (stacks s))) (submitted s)"
    using assms subseq_order.trans by (auto simp: strand_ok_def order_ok_def)
  then show "strand_ok (strand_shutdown s)" "strand_ok (service_shutdown s)"
    using assms
    by (auto simp: strand_shutdown_def service_shutdown_def strand_ok_def lock_ok_def queues_ok_def
        order_ok_def unstarted_def)
qed

lemma executor_strand_act_ok: "strand_ok s \<Longrightarrow> strand_ok (executor_strand_act a s)"
  by (cases a)
    (auto simp: user_thread_def strand_dispatch_def do_execute_def
      intro: strand_post_ok strand_step_ok handler_ends_ok executor_runs_ok executor_abandons_ok
        strand_shutdown_ok inline_handler_ok)

lemma service_post_ok:
  assumes ok: "strand_ok s" and t: "t < length (stacks s)"
  shows "strand_ok (service_post t op s)"
  using strand_ok_waits [OF ok, of op] strand_ok_acquires [OF ok _ t, of op] ok
    unlocked_no_stack [of s t] t
  by (auto simp: service_post_def strand_do_post_def strand_ok_def)

lemma service_dispatch_ok:
  assumes ok: "strand_ok s" and t: "user_thread t s"
  shows "strand_ok (service_dispatch can_dispatch t op s)"
proof (cases "running_in_this_thread (stacks s ! t)")
  case True
  then show ?thesis using inline_handler_ok [OF ok t] by (simp add: service_dispatch_def)
next
  case out: False
  have lock: "lock_ok s" using ok by (simp add: strand_ok_def)
  have t': "t < length (stacks s)" using t by (simp add: user_thread_def)
  show ?thesis
  proof (cases "locked (impl s)")
    case True
    then show ?thesis
      using out strand_ok_waits [OF ok, of op] by (simp add: service_dispatch_def strand_do_dispatch_def)
  next
    case free: False
    have none: "concat (stacks s) = []"
      using unlocked_no_stack [OF lock free] by (auto simp: in_set_conv_nth)
    note ok' = ok [unfolded strand_ok_def queues_ok_def order_ok_def unstarted_def lock_ok_def none]
    have "strand_ok (set_stack t [Dispatched op] (s\<lparr>impl := (impl s)\<lparr>locked := True\<rparr>,
        submitted := submitted s @ [op], started := started s @ [op]\<rparr>))"
      by (rule strand_ok_set_stack [OF lock t', where st = "[Dispatched op]"])
        (use ok' free in \<open>auto intro: list_emb_append_mono\<close>)
    then show ?thesis
      using out free strand_ok_acquires [OF ok free t', of op] unlocked_no_stack [OF lock free t']
      by (auto simp: service_dispatch_def strand_do_dispatch_def)
  qed
qed

lemma service_strand_act_ok: "strand_ok s \<Longrightarrow> strand_ok (service_strand_act a s)"
  by (cases a)
    (auto simp: user_thread_def
      intro: service_post_ok service_dispatch_ok strand_step_ok handler_ends_ok executor_runs_ok
        executor_abandons_ok strand_shutdown_ok)

section \<open>What a strand promises\<close>

text \<open>A thread that is in a handler of the strand.\<close>

fun is_handler :: "frame \<Rightarrow> bool" where
  "is_handler (Handler op) = True"
| "is_handler (Inline_Handler op) = True"
| "is_handler (Dispatched op) = True"
| "is_handler fr = False"

definition runs_handler :: "frame list \<Rightarrow> bool" where
  "runs_handler st \<longleftrightarrow> list_ex is_handler st"

lemma strand_new_ok: "strand_ok (strand_new n)"
  by (simp add: strand_new_def strand_impl_new_def strand_ok_def lock_ok_def queues_ok_def order_ok_def
      unstarted_def list_all_iff)

lemma user_code_in_context: "stack_ok st \<Longrightarrow> user_code st \<Longrightarrow> st \<noteq> [] \<Longrightarrow> running_in_this_thread st"
proof (induction st)
  case (Cons fr st)
  then show ?case by (cases fr) (auto simp: running_in_this_thread_def)
qed simp

lemma lock_ok_exclusive:
  assumes ok: "lock_ok s" and t: "t < length (stacks s)" "stacks s ! t \<noteq> []"
  shows "pending s = 0 \<and> abandoned s = 0 \<and> locked (impl s)"
  using ok stack_has_owner [OF stack_ok_nth [OF ok t(1)] t(2)] concat_stacks_owner [OF ok t]
  by (auto simp: lock_ok_def split: if_splits)

locale strand_machine =
  fixes act :: "'a \<Rightarrow> strand_sys \<Rightarrow> strand_sys"
  assumes act_ok: "strand_ok s \<Longrightarrow> strand_ok (act a s)"
begin

lemma run_ok: "strand_ok (fold act as (strand_new n))"
proof -
  have "strand_ok s \<Longrightarrow> strand_ok (fold act as s)" for s
    by (induction as arbitrary: s) (simp_all add: act_ok)
  then show ?thesis using strand_new_ok by blast
qed

lemma run_lock: "lock_ok (fold act as (strand_new n))"
  using run_ok by (simp add: strand_ok_def)

lemma exclusive:
  assumes "t < length (stacks (fold act as (strand_new n)))" "u < length (stacks (fold act as (strand_new n)))"
    "stacks (fold act as (strand_new n)) ! t \<noteq> []" "stacks (fold act as (strand_new n)) ! u \<noteq> []"
  shows "t = u"
  using one_stack [OF run_lock] assms by blast

lemma alone:
  assumes "t < length (stacks (fold act as (strand_new n)))" "stacks (fold act as (strand_new n)) ! t \<noteq> []"
  shows "pending (fold act as (strand_new n)) = 0"
  using lock_ok_exclusive [OF run_lock] assms by blast

lemma scheduled_once: "pending (fold act as (strand_new n)) \<le> 1"
  using run_lock [of as n] by (auto simp: lock_ok_def split: if_splits)

lemma knows_itself:
  assumes "t < length (stacks (fold act as (strand_new n)))" "stacks (fold act as (strand_new n)) ! t \<noteq> []"
    "user_code (stacks (fold act as (strand_new n)) ! t)"
  shows "running_in_this_thread (stacks (fold act as (strand_new n)) ! t)"
  using user_code_in_context stack_ok_nth [OF run_lock] assms by blast

lemma in_order:
  "subseq (started (fold act as (strand_new n))) (submitted (fold act as (strand_new n)))"
proof -
  define s where "s = fold act as (strand_new n)"
  have "subseq (started s) (started s @ unstarted s)" by (simp add: subseq_rev_drop_many)
  moreover have "subseq (started s @ unstarted s) (submitted s)"
    using run_ok [of as n] by (simp add: s_def strand_ok_def order_ok_def)
  ultimately show ?thesis unfolding s_def by (rule subseq_order.trans)
qed

lemma none_skipped:
  assumes "destroyed (fold act as (strand_new n)) = []"
  shows "submitted (fold act as (strand_new n)) =
    started (fold act as (strand_new n)) @ unstarted (fold act as (strand_new n))"
  using run_ok [of as n] assms by (simp add: strand_ok_def order_ok_def)

lemma none_lost:
  "mset (submitted (fold act as (strand_new n))) =
    mset (started (fold act as (strand_new n))) + mset (unstarted (fold act as (strand_new n))) +
    mset (destroyed (fold act as (strand_new n)))"
  using run_ok [of as n] by (simp add: strand_ok_def order_ok_def)

lemma none_stranded:
  assumes "unstarted (fold act as (strand_new n)) \<noteq> []" "abandoned (fold act as (strand_new n)) = 0"
  shows "pending (fold act as (strand_new n)) = 1 \<or>
    (\<exists>t < length (stacks (fold act as (strand_new n))). stacks (fold act as (strand_new n)) ! t \<noteq> [])"
proof (rule ccontr)
  define s where "s = fold act as (strand_new n)"
  assume "\<not> ?thesis"
  then have "pending s \<noteq> 1" and empty: "\<And>t. t < length (stacks s) \<Longrightarrow> stacks s ! t = []"
    by (auto simp: s_def)
  moreover have none: "concat (stacks s) = []" using empty by (auto simp: in_set_conv_nth)
  then have "owners (concat (stacks s)) = 0" by (simp only: owners_simps)
  ultimately have "\<not> locked (impl s)"
    using run_lock [of as n, folded s_def] assms(2) [folded s_def]
    by (auto simp: lock_ok_def split: if_splits)
  moreover have "pushes (concat (stacks s)) = []" by (simp only: none pushes_simps)
  ultimately have "unstarted s = []"
    using run_ok [of as n, folded s_def] by (simp add: strand_ok_def queues_ok_def unstarted_def)
  then show False using assms(1) by (simp add: s_def)
qed

end

interpretation executor_strand: strand_machine executor_strand_act
  by unfold_locales (rule executor_strand_act_ok)

interpretation service_strand: strand_machine service_strand_act
  by unfold_locales (rule service_strand_act_ok)

section \<open>Properties\<close>

text \<open>C32: A strand runs one handler at a time. Whatever threads post, defer, dispatch and execute, in
  handlers or outside of them, wherever the executor runs the strand, and if handlers throw: no two
  threads are in handlers of the strand, and while one is, the executor has nothing of the strand to
  run; it never has the strand twice. A handler knows that it is in the strand, so what it dispatches
  is run at once. The same holds of the strands of an \<open>io_context\<close>.\<close>

theorem strand_one_at_a_time:
  assumes "s = fold executor_strand_act as (strand_new n) \<or> s = fold service_strand_act bs (strand_new n)"
  shows "pending s \<le> 1 \<and>
    (\<forall>t u. t < length (stacks s) \<and> u < length (stacks s) \<and>
       runs_handler (stacks s ! t) \<and> runs_handler (stacks s ! u) \<longrightarrow> t = u) \<and>
    (\<forall>t. t < length (stacks s) \<and> runs_handler (stacks s ! t) \<longrightarrow>
       pending s = 0 \<and> (user_code (stacks s ! t) \<longrightarrow> running_in_this_thread (stacks s ! t)))"
proof -
  have ne: "runs_handler st \<Longrightarrow> st \<noteq> []" for st by (auto simp: runs_handler_def)
  from assms show ?thesis
    by (elim disjE)
      (auto dest!: ne intro: executor_strand.exclusive executor_strand.alone executor_strand.knows_itself
        service_strand.exclusive service_strand.alone service_strand.knows_itself
        simp: executor_strand.scheduled_once [simplified] service_strand.scheduled_once [simplified])
qed

theorem strand_one_at_a_time_witness:
  "let s = fold executor_strand_act [Post 0 1, Step 0 False, Step 0 False, Executor_Runs 1, Step 1 False,
       Post 0 2, Dispatch 1 3] (strand_new 2)
   in runs_handler (stacks s ! 1) \<and> \<not> runs_handler (stacks s ! 0) \<and> pending s = 0 \<and>
      waiting_queue (impl s) = [2] \<and> stacks s ! 1 = [Inline_Handler 3, Handler 1] \<and>
      running_in_this_thread (stacks s ! 1)"
proof -
  define s where "s = fold executor_strand_act [Post 0 1, Step 0 False, Step 0 False, Executor_Runs 1,
       Step 1 False, Post 0 2, Dispatch 1 3] (strand_new 2)"
  have s: "s = \<lparr>impl = \<lparr>locked = True, is_shutdown = False, waiting_queue = [2], ready_queue = []\<rparr>,
      pending = 0, abandoned = 0, stacks = [[], [Inline_Handler 3, Handler 1]],
      submitted = [1, 2], started = [1], destroyed = []\<rparr>"
    unfolding s_def by code_simp
  have "1 < length (stacks s) \<and> runs_handler (stacks s ! 1) \<and> user_code (stacks s ! 1)"
    unfolding s by (simp add: runs_handler_def)
  then have "pending s = 0 \<and> running_in_this_thread (stacks s ! 1)"
    using strand_one_at_a_time [OF disjI1, OF s_def] by blast
  then show ?thesis unfolding s_def [symmetric] Let_def by (simp add: s runs_handler_def)
qed

text \<open>C33: A strand runs its handlers in the order they were given to it, each at most once, and
  neither loses nor skips one: what was submitted is what was begun, what waits, and what a shutdown
  destroyed; without a shutdown the handlers begun are the first ones submitted. As long as one waits
  and the executor has not destroyed the strand, the executor has the strand to run or a thread is in
  it. The same holds of the strands of an \<open>io_context\<close>.\<close>

theorem strand_runs_in_order:
  assumes "s = fold executor_strand_act as (strand_new n) \<or> s = fold service_strand_act bs (strand_new n)"
  shows "subseq (started s) (submitted s) \<and>
    mset (submitted s) = mset (started s) + mset (unstarted s) + mset (destroyed s) \<and>
    (destroyed s = [] \<longrightarrow> submitted s = started s @ unstarted s) \<and>
    (unstarted s \<noteq> [] \<and> abandoned s = 0 \<longrightarrow>
       pending s = 1 \<or> (\<exists>t < length (stacks s). stacks s ! t \<noteq> []))"
  using assms
proof
  assume s: "s = fold executor_strand_act as (strand_new n)"
  show ?thesis
    unfolding s
    using executor_strand.in_order executor_strand.none_lost executor_strand.none_skipped
      executor_strand.none_stranded by blast
next
  assume s: "s = fold service_strand_act bs (strand_new n)"
  show ?thesis
    unfolding s
    using service_strand.in_order service_strand.none_lost service_strand.none_skipped
      service_strand.none_stranded by blast
qed

theorem strand_runs_in_order_witness:
  "let s = fold service_strand_act [S_Dispatch True 0 1, S_Post 1 2, S_Dispatch True 1 3,
       S_Handler_Returns 0, S_Step 0, S_Step 0, S_Scheduler_Runs 1, S_Step 1, S_Handler_Returns 1] (strand_new 2)
   in started s = [1, 2] \<and> unstarted s = [3] \<and> submitted s = started s @ unstarted s"
proof -
  define s where "s = fold service_strand_act [S_Dispatch True 0 1, S_Post 1 2, S_Dispatch True 1 3,
       S_Handler_Returns 0, S_Step 0, S_Step 0, S_Scheduler_Runs 1, S_Step 1, S_Handler_Returns 1] (strand_new 2)"
  have s: "s = \<lparr>impl = \<lparr>locked = True, is_shutdown = False, waiting_queue = [], ready_queue = [3]\<rparr>,
      pending = 0, abandoned = 0, stacks = [[], [Invoking]],
      submitted = [1, 2, 3], started = [1, 2], destroyed = []\<rparr>"
    unfolding s_def by code_simp
  have "destroyed s = []" unfolding s by simp
  then have "submitted s = started s @ unstarted s"
    using strand_runs_in_order [OF disjI2, OF s_def] by blast
  then show ?thesis unfolding s_def [symmetric] Let_def by (simp add: s unstarted_def)
qed

end
