(* ===== verification/Asio_Strand_List.thy ===== *)
theory Asio_Strand_List
  imports Asio_Strand Asio_Object_Pool
begin

text \<open>
  The two services that own strands: \<open>strand_executor_service\<close> keeps a linked list of all its strands,
  which share a pool of mutexes; \<open>strand_service\<close> shares a pool of strands among its users.
\<close>

section \<open>The strands of executors\<close>

text \<open>Strands are named by their addresses.\<close>

record strand_list =
  impls :: "nat \<Rightarrow> strand_impl"
  impl_links :: links2
  impl_list :: ptr
  salt :: size_t
  mutexes :: "bool list"
  mutex_of :: "nat \<Rightarrow> nat"

definition num_mutexes :: nat where
  "num_mutexes = 193"

definition strand_list_new :: strand_list where
  "strand_list_new = \<lparr>impls = (\<lambda>_. strand_impl_new), impl_links = \<lparr>next_of = (\<lambda>_. None), prev_of = (\<lambda>_. None)\<rparr>,
     impl_list = None, salt = 0, mutexes = replicate num_mutexes False, mutex_of = (\<lambda>_. 0)\<rparr>"

text \<open>The choice of a mutex by the address of the strand.\<close>

definition mutex_hash :: "size_t \<Rightarrow> size_t \<Rightarrow> size_t" where
  "mutex_hash address salt_now =
     (let index = address + drop_bit 3 address
      in index XOR (salt_now + 0x9e3779b9 + push_bit 6 index + drop_bit 2 index))"

definition mutex_index :: "size_t \<Rightarrow> size_t \<Rightarrow> nat" where
  "mutex_index address salt_now = unat (mutex_hash address salt_now mod of_nat num_mutexes)"

definition create_implementation :: "nat \<Rightarrow> strand_list \<Rightarrow> strand_list" where
  "create_implementation new_impl s =
     (let salt_now = salt s;
          index = mutex_index (of_nat new_impl) salt_now;
          (l, head) = link_front new_impl (impl_links s, impl_list s)
      in s\<lparr>impls := (impls s)(new_impl := strand_impl_new), salt := salt_now + 1,
           mutexes := (mutexes s)[index := True], mutex_of := (mutex_of s)(new_impl := index),
           impl_links := l, impl_list := head\<rparr>)"

definition destroy_implementation :: "nat \<Rightarrow> strand_list \<Rightarrow> strand_list" where
  "destroy_implementation old_impl s =
     (let (l, head) = unlink_object old_impl (impl_links s, impl_list s)
      in s\<lparr>impl_links := l, impl_list := head\<rparr>)"

text \<open>\<open>shutdown\<close>: its loop over the list, with the operations that are then destroyed.\<close>

definition shut_impl :: "strand_impl \<Rightarrow> strand_impl \<times> nat list" where
  "shut_impl i = (i\<lparr>is_shutdown := True, waiting_queue := [], ready_queue := []\<rparr>,
     waiting_queue i @ ready_queue i)"

partial_function (option) shutdown_loop ::
  "(nat \<Rightarrow> strand_impl) \<Rightarrow> links2 \<Rightarrow> ptr \<Rightarrow> nat list \<Rightarrow> ((nat \<Rightarrow> strand_impl) \<times> nat list) option" where
  "shutdown_loop is l p ops =
     (case p of None \<Rightarrow> Some (is, ops)
      | Some x \<Rightarrow> (case shut_impl (is x) of
          (i, gone) \<Rightarrow> shutdown_loop (is(x := i)) l (next_of l x) (ops @ gone)))"

definition strand_list_shutdown :: "strand_list \<Rightarrow> (strand_list \<times> nat list) option" where
  "strand_list_shutdown s =
     map_option (\<lambda>(is, ops). (s\<lparr>impls := is\<rparr>, ops)) (shutdown_loop (impls s) (impl_links s) (impl_list s) [])"

definition strands :: "strand_list \<Rightarrow> nat list \<Rightarrow> bool" where
  "strands s xs \<longleftrightarrow> distinct xs \<and> dlist (impl_links s) None (impl_list s) xs \<and>
     length (mutexes s) = num_mutexes \<and> (\<forall>x \<in> set xs. mutex_of s x < num_mutexes \<and> mutexes s ! mutex_of s x)"

lemma mutex_index_bound: "mutex_index a v < num_mutexes"
  by (simp add: mutex_index_def num_mutexes_def unat_mod)

lemma strands_new: "strands strand_list_new []"
  by (simp add: strands_def strand_list_new_def)

lemma strands_create:
  assumes s: "strands s xs" and x: "x \<notin> set xs"
  shows "strands (create_implementation x s) (x # xs)"
proof -
  obtain l head where lh: "link_front x (impl_links s, impl_list s) = (l, head)" by (rule prod.exhaust)
  have "dlist l None head (x # xs)"
    by (rule dlist_link_front [OF _ _ lh]) (use s x in \<open>auto simp: strands_def\<close>)
  then show ?thesis
    using s x lh mutex_index_bound
    by (auto simp: strands_def create_implementation_def Let_def nth_list_update simp del: dlist.simps)
qed

lemma strands_destroy:
  assumes s: "strands s xs" and x: "x \<in> set xs"
  shows "strands (destroy_implementation x s) (remove1 x xs)"
proof -
  obtain l head where lh: "unlink_object x (impl_links s, impl_list s) = (l, head)" by (rule prod.exhaust)
  obtain as bs where xs: "xs = as @ x # bs" using x by (auto simp: in_set_conv_decomp)
  have "dlist l None head (as @ bs)"
    by (rule dlist_unlink [OF _ _ lh]) (use s xs in \<open>auto simp: strands_def\<close>)
  then show ?thesis
    using s xs lh by (auto simp: strands_def destroy_implementation_def remove1_append)
qed

lemma shutdown_loop_all:
  "dlist l b p xs \<Longrightarrow> distinct xs \<Longrightarrow>
    shutdown_loop is l p ops =
      Some (\<lambda>x. if x \<in> set xs then fst (shut_impl (is x)) else is x,
        ops @ concat (map (\<lambda>x. snd (shut_impl (is x))) xs))"
proof (induction xs arbitrary: b p "is" ops)
  case Nil
  then show ?case by (subst shutdown_loop.simps) simp
next
  case (Cons x xs)
  obtain i more_ops where i: "shut_impl (is x) = (i, more_ops)" by (rule prod.exhaust)
  have same: "map (\<lambda>y. snd (shut_impl ((is(x := i)) y))) xs = map (\<lambda>y. snd (shut_impl (is y))) xs"
    using Cons.prems(2) by auto
  have "shutdown_loop is l p ops = shutdown_loop (is(x := i)) l (next_of l x) (ops @ more_ops)"
    using Cons.prems(1) i by (subst shutdown_loop.simps) simp
  also have "\<dots> = Some (\<lambda>y. if y \<in> set xs then fst (shut_impl ((is(x := i)) y)) else (is(x := i)) y,
      (ops @ more_ops) @ concat (map (\<lambda>y. snd (shut_impl ((is(x := i)) y))) xs))"
    using Cons.prems by (intro Cons.IH [of "Some x"]) auto
  finally show ?case
    unfolding same using Cons.prems(2) i by (auto simp: fun_eq_iff)
qed

text \<open>After \<open>shutdown\<close> no strand of the service takes operations, and what any of them had is destroyed.\<close>

lemma shutdown_reaches_all:
  assumes "strands s xs"
  shows "\<exists>s'. strand_list_shutdown s = Some (s', concat (map (\<lambda>x. waiting_queue (impls s x) @ ready_queue (impls s x)) xs)) \<and>
    (\<forall>x \<in> set xs. enqueue (impls s' x) op = (impls s' x, False, [op]) \<and>
       waiting_queue (impls s' x) = [] \<and> ready_queue (impls s' x) = [])"
  using assms shutdown_loop_all [of "impl_links s" None "impl_list s" xs "impls s" "[]"]
  by (auto simp: strands_def strand_list_shutdown_def shut_impl_def enqueue_def)

section \<open>The strands of an \<open>io_context\<close>\<close>

record strand_pool =
  implementations :: "strand_impl option list"
  pool_salt :: size_t

definition num_implementations :: nat where
  "num_implementations = 193"

definition strand_pool_new :: strand_pool where
  "strand_pool_new = \<lparr>implementations = replicate num_implementations None, pool_salt = 0\<rparr>"

text \<open>\<open>construct\<close>, for a user at an address; the strand is given by its index.\<close>

definition construct_strand :: "size_t \<Rightarrow> strand_pool \<Rightarrow> strand_pool \<times> nat" where
  "construct_strand user s =
     (let salt_now = pool_salt s;
          index = unat (mutex_hash user salt_now mod of_nat num_implementations);
          s1 = s\<lparr>pool_salt := salt_now + 1\<rparr>
      in case implementations s ! index of
           None \<Rightarrow> (s1\<lparr>implementations := (implementations s)[index := Some strand_impl_new]\<rparr>, index)
         | Some i \<Rightarrow> (s1, index))"

definition strand_pool_shutdown :: "strand_pool \<Rightarrow> strand_pool \<times> nat list" where
  "strand_pool_shutdown s =
     (s\<lparr>implementations := map (map_option (\<lambda>i. i\<lparr>waiting_queue := [], ready_queue := []\<rparr>)) (implementations s)\<rparr>,
      concat (map (\<lambda>i. case i of None \<Rightarrow> [] | Some i \<Rightarrow> waiting_queue i @ ready_queue i) (implementations s)))"

text \<open>Every user gets a strand of the pool, and users that had one keep it.\<close>

lemma construct_strand_ok:
  assumes "length (implementations s) = num_implementations" "construct_strand user s = (s', k)"
  shows "k < num_implementations \<and> length (implementations s') = num_implementations \<and>
    implementations s' ! k \<noteq> None \<and>
    (\<forall>j < num_implementations. implementations s ! j \<noteq> None \<longrightarrow> implementations s' ! j = implementations s ! j)"
proof -
  have k: "k = unat (mutex_hash user (pool_salt s) mod of_nat num_implementations)"
    using assms(2) by (auto simp: construct_strand_def Let_def split: option.splits)
  then have "k < num_implementations" by (simp add: num_implementations_def unat_mod)
  then show ?thesis
    using assms k by (auto simp: construct_strand_def Let_def nth_list_update split: option.splits)
qed

end
