(* ===== verification/Ring_Buffer.thy ===== *)
theory Ring_Buffer
  imports Prelude
begin

text \<open>
  The single-producer single-consumer ring buffer of pss_tcp_client_test/ring_buffer.hpp
  (\<open>jnk0le::Ringbuffer\<close>), with \<open>index_t = size_t\<close> as the program instantiates it: two free
  running 64-bit indexes and an array whose length is the template argument
  \<open>buffer_size\<close>. The client uses one ring from one thread, so the atomic loads and stores
  are plain reads and writes here. First the operations, then the invariant the class's
  static assertions start, then the refinement to a list of the unread elements.
\<close>

section \<open>State and operations\<close>

record 'a ringbuffer =
  head :: size_t
  tail :: size_t
  data_buff :: "'a list"

definition buffer_size :: "'a ringbuffer \<Rightarrow> size_t" where
  "buffer_size rb = of_nat (length (data_buff rb))"

definition buffer_mask :: "'a ringbuffer \<Rightarrow> size_t" where
  "buffer_mask rb = buffer_size rb - 1"

text \<open>The constructor sets the two indexes and leaves the array as its memory was.\<close>

definition Ringbuffer :: "'a list \<Rightarrow> 'a ringbuffer" where
  "Ringbuffer memory = \<lparr>head = 0, tail = 0, data_buff = memory\<rparr>"

definition consumerClear :: "'a ringbuffer \<Rightarrow> 'a ringbuffer" where
  "consumerClear rb = rb\<lparr>tail := head rb\<rparr>"

definition producerClear :: "'a ringbuffer \<Rightarrow> 'a ringbuffer" where
  "producerClear rb = consumerClear rb"

definition readAvailable :: "'a ringbuffer \<Rightarrow> size_t" where
  "readAvailable rb = head rb - tail rb"

definition writeAvailable :: "'a ringbuffer \<Rightarrow> size_t" where
  "writeAvailable rb = buffer_size rb - (head rb - tail rb)"

definition isEmpty :: "'a ringbuffer \<Rightarrow> bool" where
  "isEmpty rb \<longleftrightarrow> readAvailable rb = 0"

definition isFull :: "'a ringbuffer \<Rightarrow> bool" where
  "isFull rb \<longleftrightarrow> writeAvailable rb = 0"

text \<open>The array slot of a free running index: \<open>data_buff[i & buffer_mask]\<close>.\<close>

definition slot :: "'a ringbuffer \<Rightarrow> size_t \<Rightarrow> nat" where
  "slot rb i = unat (i AND buffer_mask rb)"

definition insert_elem :: "'a ringbuffer \<Rightarrow> 'a \<Rightarrow> 'a ringbuffer \<times> bool" where
  "insert_elem rb x =
     (let tmp_head = head rb in
      if tmp_head - tail rb = buffer_size rb then (rb, False)
      else (rb\<lparr>data_buff := (data_buff rb)[slot rb tmp_head := x],
               head := tmp_head + 1\<rparr>, True))"

text \<open>The overload that takes a pointer reads the element through it first.\<close>

definition insert_ptr :: "'a ringbuffer \<Rightarrow> 'a option \<Rightarrow> ('a ringbuffer \<times> bool) result" where
  "insert_ptr rb p =
     (let tmp_head = head rb in
      if tmp_head - tail rb = buffer_size rb then Inr (rb, False)
      else (case p of
              None \<Rightarrow> Inl Null_Deref
            | Some x \<Rightarrow>
                Inr (rb\<lparr>data_buff := (data_buff rb)[slot rb tmp_head := x],
                        head := tmp_head + 1\<rparr>, True)))"

text \<open>
  The callback overload calls its argument only when there is room; the callback acts on a
  state of its own, which the result returns.
\<close>

definition insertFromCallbackWhenAvailable ::
  "'a ringbuffer \<Rightarrow> ('s \<Rightarrow> 'a \<times> 's) \<Rightarrow> 's \<Rightarrow> ('a ringbuffer \<times> bool) \<times> 's" where
  "insertFromCallbackWhenAvailable rb get_data s =
     (let tmp_head = head rb in
      if tmp_head - tail rb = buffer_size rb then ((rb, False), s)
      else (case get_data s of (x, s') \<Rightarrow>
        ((rb\<lparr>data_buff := (data_buff rb)[slot rb tmp_head := x],
             head := tmp_head + 1\<rparr>, True), s')))"

definition remove_one :: "'a ringbuffer \<Rightarrow> 'a ringbuffer \<times> bool" where
  "remove_one rb =
     (let tmp_tail = tail rb in
      if tmp_tail = head rb then (rb, False)
      else (rb\<lparr>tail := tmp_tail + 1\<rparr>, True))"

definition remove_cnt :: "'a ringbuffer \<Rightarrow> size_t \<Rightarrow> 'a ringbuffer \<times> size_t" where
  "remove_cnt rb cnt =
     (let tmp_tail = tail rb;
          avail = head rb - tmp_tail;
          cnt' = (if cnt > avail then avail else cnt)
      in (rb\<lparr>tail := tmp_tail + cnt'\<rparr>, cnt'))"

text \<open>\<open>remove(T*)\<close> and \<open>remove(T&)\<close>: the removed element, where there is one.\<close>

definition remove_out :: "'a ringbuffer \<Rightarrow> 'a ringbuffer \<times> 'a option" where
  "remove_out rb =
     (let tmp_tail = tail rb in
      if tmp_tail = head rb then (rb, None)
      else (rb\<lparr>tail := tmp_tail + 1\<rparr>, Some (data_buff rb ! slot rb tmp_tail)))"

text \<open>
  \<open>peek\<close> and \<open>at\<close> return a pointer into the array: the offset of its element, or none for
  \<open>nullptr\<close>.
\<close>

definition peek :: "'a ringbuffer \<Rightarrow> nat option" where
  "peek rb =
     (let tmp_tail = tail rb in
      if tmp_tail = head rb then None else Some (slot rb tmp_tail))"

definition at :: "'a ringbuffer \<Rightarrow> size_t \<Rightarrow> nat option" where
  "at rb index =
     (let tmp_tail = tail rb in
      if head rb - tmp_tail \<le> index then None else Some (slot rb (tmp_tail + index)))"

definition index_op :: "'a ringbuffer \<Rightarrow> size_t \<Rightarrow> 'a" where
  "index_op rb index = data_buff rb ! slot rb (tail rb + index)"

text \<open>The copy loops of \<open>writeBuff\<close> and \<open>readBuff\<close>, over the elements still to copy.\<close>

fun write_slots :: "'a ringbuffer \<Rightarrow> size_t \<Rightarrow> 'a list \<Rightarrow> 'a ringbuffer \<times> size_t" where
  "write_slots rb tmp_head [] = (rb, tmp_head)"
| "write_slots rb tmp_head (x # xs) =
     write_slots (rb\<lparr>data_buff := (data_buff rb)[slot rb tmp_head := x]\<rparr>) (tmp_head + 1) xs"

definition writeBuff :: "'a ringbuffer \<Rightarrow> 'a list \<Rightarrow> size_t \<Rightarrow> ('a ringbuffer \<times> size_t) result" where
  "writeBuff rb buff count =
     (let tmp_head = head rb;
          available = buffer_size rb - (tmp_head - tail rb);
          to_write = (if available < count then available else count)
      in if length buff < unat to_write then Inl Out_Of_Bounds
         else (case write_slots rb tmp_head (take (unat to_write) buff) of
                 (rb', tmp_head') \<Rightarrow> Inr (rb'\<lparr>head := tmp_head'\<rparr>, to_write)))"

fun read_slots :: "'a ringbuffer \<Rightarrow> size_t \<Rightarrow> nat \<Rightarrow> 'a list \<times> size_t" where
  "read_slots rb tmp_tail 0 = ([], tmp_tail)"
| "read_slots rb tmp_tail (Suc n) =
     (case read_slots rb (tmp_tail + 1) n of
        (xs, t) \<Rightarrow> (data_buff rb ! slot rb tmp_tail # xs, t))"

definition readBuff :: "'a ringbuffer \<Rightarrow> size_t \<Rightarrow> 'a ringbuffer \<times> 'a list" where
  "readBuff rb count =
     (let tmp_tail = tail rb;
          available = head rb - tmp_tail;
          to_read = (if available < count then available else count)
      in case read_slots rb tmp_tail (unat to_read) of
           (xs, tmp_tail') \<Rightarrow> (rb\<lparr>tail := tmp_tail'\<rparr>, xs))"

section \<open>The invariant\<close>

text \<open>
  The static assertions of the class: the array's length is a power of two, and at most half
  of what the index type counts. With the third conjunct the indexes are never further apart
  than the array is long, which is what the operations keep.
\<close>

definition rb_shape :: "'a ringbuffer \<Rightarrow> bool" where
  "rb_shape rb \<longleftrightarrow> (\<exists>k\<le>63. length (data_buff rb) = 2 ^ k)"

definition rb_inv :: "'a ringbuffer \<Rightarrow> bool" where
  "rb_inv rb \<longleftrightarrow> rb_shape rb \<and> unat (head rb - tail rb) \<le> length (data_buff rb)"

text \<open>The unread elements, oldest first: what the ring stands for.\<close>

definition rb_list :: "'a ringbuffer \<Rightarrow> 'a list" where
  "rb_list rb =
     map (\<lambda>i. data_buff rb ! slot rb (tail rb + of_nat i)) [0..<unat (head rb - tail rb)]"

lemma length_rb_list [simp]: "length (rb_list rb) = unat (head rb - tail rb)"
  by (simp add: rb_list_def)

lemma rb_invD:
  assumes "rb_inv rb"
  obtains k where "k \<le> 63" "length (data_buff rb) = 2 ^ k"
    "unat (head rb - tail rb) \<le> 2 ^ k"
  using assms by (auto simp: rb_inv_def rb_shape_def)

lemma slot_mod:
  assumes "rb_shape rb"
  shows "slot rb i = unat i mod length (data_buff rb)"
proof -
  from assms obtain k where k: "k \<le> 63" "length (data_buff rb) = 2 ^ k"
    by (auto simp: rb_shape_def)
  then show ?thesis
    using unat_and_mask_mod [OF k(1), of i]
    by (simp add: slot_def buffer_mask_def buffer_size_def)
qed

lemma shape_pos: "rb_shape rb \<Longrightarrow> 0 < length (data_buff rb)"
  by (auto simp: rb_shape_def)

lemma slot_less: "rb_shape rb \<Longrightarrow> slot rb i < length (data_buff rb)"
  using shape_pos [of rb] by (simp add: slot_mod)

lemma shape_bound: "rb_shape rb \<Longrightarrow> length (data_buff rb) \<le> 2 ^ 63"
proof -
  assume "rb_shape rb"
  then obtain k where k: "k \<le> 63" "length (data_buff rb) = 2 ^ k"
    by (auto simp: rb_shape_def)
  then show ?thesis using power_increasing [of k 63 "2::nat"] by simp
qed

lemma unat_buffer_size: "rb_shape rb \<Longrightarrow> unat (buffer_size rb) = length (data_buff rb)"
  using shape_bound [of rb] by (simp add: buffer_size_def unat_of_nat)

lemma slot_add:
  assumes "rb_shape rb"
  shows "slot rb (i + of_nat j) = (unat i + j) mod length (data_buff rb)"
proof -
  from assms obtain k where k: "k \<le> 63" "length (data_buff rb) = 2 ^ k"
    by (auto simp: rb_shape_def)
  have "slot rb (i + of_nat j) = (unat i + unat (of_nat j :: size_t)) mod 2 ^ k"
    using unat_add_mod_pow2 [OF k(1), of i "of_nat j"] slot_mod [OF assms] k by simp
  also have "\<dots> = (unat i + j mod 2 ^ 64) mod 2 ^ k"
    by (simp add: unat_of_nat)
  also have "\<dots> = (unat i + j) mod 2 ^ k"
    using pow2_dvd_2_64 [OF k(1)] by (metis mod_add_right_eq mod_mod_cancel)
  finally show ?thesis using k by simp
qed

text \<open>Two indexes less than the array's length apart have different slots.\<close>

lemma slot_neq:
  assumes "rb_shape rb" "i < j" "j < i + length (data_buff rb)"
  shows "slot rb (t + of_nat i) \<noteq> slot rb (t + of_nat j)"
  using mod_add_neq [OF assms(2,3)] by (simp add: slot_add [OF assms(1)])

lemma rb_shape_cong: "length (data_buff rb') = length (data_buff rb) \<Longrightarrow>
    rb_shape rb' = rb_shape rb"
  by (simp add: rb_shape_def)

lemma slot_cong: "length (data_buff rb') = length (data_buff rb) \<Longrightarrow> slot rb' = slot rb"
  by (rule ext) (simp add: slot_def buffer_mask_def buffer_size_def)

lemma head_as_tail: "head rb = tail rb + of_nat (unat (head rb - tail rb))" for rb :: "'a ringbuffer"
  by simp

section \<open>Reads and clears\<close>

lemma rb_list_Ringbuffer [simp]: "rb_list (Ringbuffer m) = []"
  by (simp add: rb_list_def Ringbuffer_def)

lemma rb_inv_Ringbuffer: "k \<le> 63 \<Longrightarrow> length m = 2 ^ k \<Longrightarrow> rb_inv (Ringbuffer m)"
  by (auto simp: rb_inv_def rb_shape_def Ringbuffer_def)

lemma rb_inv_consumerClear: "rb_inv rb \<Longrightarrow> rb_inv (consumerClear rb)"
  by (auto simp: rb_inv_def rb_shape_def consumerClear_def)

lemma rb_list_consumerClear [simp]: "rb_list (consumerClear rb) = []"
  by (simp add: rb_list_def consumerClear_def)

lemma rb_list_nth:
  "i < unat (head rb - tail rb) \<Longrightarrow> rb_list rb ! i = data_buff rb ! slot rb (tail rb + of_nat i)"
  by (simp add: rb_list_def)

lemma advance_tail:
  assumes "unat n \<le> unat (head rb - tail rb)"
  shows "unat (head rb - (tail rb + n)) = unat (head rb - tail rb) - unat n"
  using assms unat_sub [of n "head rb - tail rb"] by (simp add: word_le_nat_alt algebra_simps)

lemma rb_list_advance:
  assumes "unat n \<le> unat (head rb - tail rb)"
  shows "rb_list (rb\<lparr>tail := tail rb + n\<rparr>) = drop (unat n) (rb_list rb)"
proof (rule nth_equalityI)
  show "length (rb_list (rb\<lparr>tail := tail rb + n\<rparr>)) = length (drop (unat n) (rb_list rb))"
    using advance_tail [OF assms] by simp
next
  fix i
  assume "i < length (rb_list (rb\<lparr>tail := tail rb + n\<rparr>))"
  then have i: "i < unat (head rb - tail rb) - unat n"
    using advance_tail [OF assms] by simp
  have w: "tail rb + n + of_nat i = tail rb + of_nat (unat n + i)"
    by (simp add: algebra_simps)
  have s: "slot (rb\<lparr>tail := tail rb + n\<rparr>) = slot rb"
    by (rule slot_cong) simp
  show "rb_list (rb\<lparr>tail := tail rb + n\<rparr>) ! i = drop (unat n) (rb_list rb) ! i"
    using i advance_tail [OF assms] by (simp add: rb_list_nth s w)
qed

lemma rb_inv_advance:
  assumes "rb_inv rb" "unat n \<le> unat (head rb - tail rb)"
  shows "rb_inv (rb\<lparr>tail := tail rb + n\<rparr>)"
  using assms advance_tail [OF assms(2)] by (auto simp: rb_inv_def rb_shape_def)

lemma data_buff_consumerClear: "data_buff (consumerClear rb) = data_buff rb"
  by (simp add: consumerClear_def)

section \<open>Writes\<close>

text \<open>One element stored at the head: what \<open>insert\<close> does when there is room.\<close>

definition put :: "'a ringbuffer \<Rightarrow> 'a \<Rightarrow> 'a ringbuffer" where
  "put rb x = rb\<lparr>data_buff := (data_buff rb)[slot rb (head rb) := x], head := head rb + 1\<rparr>"

lemma put_length: "unat (head rb - tail rb) < length (data_buff rb) \<Longrightarrow> rb_shape rb \<Longrightarrow>
    unat (head (put rb x) - tail (put rb x)) = Suc (unat (head rb - tail rb))"
proof -
  assume a: "unat (head rb - tail rb) < length (data_buff rb)" "rb_shape rb"
  have "Suc (unat (head rb - tail rb)) < 2 ^ 64"
    using a shape_bound [of rb] by simp
  then have "unat (head rb - tail rb + 1) = unat (head rb - tail rb) + 1"
    by (simp add: unat_word_ariths)
  then show ?thesis by (simp add: put_def algebra_simps)
qed

lemma rb_inv_put: "rb_inv rb \<Longrightarrow> unat (head rb - tail rb) < length (data_buff rb) \<Longrightarrow>
    rb_inv (put rb x)"
  using put_length [of rb x]
  by (auto simp: rb_inv_def put_def rb_shape_def)

lemma rb_list_put:
  assumes "rb_inv rb" "unat (head rb - tail rb) < length (data_buff rb)"
  shows "rb_list (put rb x) = rb_list rb @ [x]"
proof (rule nth_equalityI)
  have sh: "rb_shape rb" using assms by (simp add: rb_inv_def)
  let ?n = "unat (head rb - tail rb)"
  show len: "length (rb_list (put rb x)) = length (rb_list rb @ [x])"
    using put_length [OF assms(2) sh] by simp
  fix i
  assume "i < length (rb_list (put rb x))"
  then have i: "i < Suc ?n" using put_length [OF assms(2) sh] by simp
  have s: "slot (put rb x) = slot rb" by (rule slot_cong) (simp add: put_def)
  have eq: "rb_list (put rb x) ! i
      = (data_buff rb)[slot rb (head rb) := x] ! slot rb (tail rb + of_nat i)"
    using i put_length [OF assms(2) sh] by (simp add: rb_list_nth s) (simp add: put_def)
  show "rb_list (put rb x) ! i = (rb_list rb @ [x]) ! i"
  proof (cases "i = ?n")
    case True
    then show ?thesis using eq slot_less [OF sh] by (simp add: nth_append)
  next
    case False
    then have "i < ?n" using i by simp
    moreover from this have "slot rb (tail rb + of_nat i) \<noteq> slot rb (head rb)"
      using slot_neq [OF sh, of i ?n "tail rb"] assms(2) by simp
    ultimately show ?thesis using eq by (simp add: nth_append rb_list_nth)
  qed
qed

lemma write_slots_head:
  "write_slots (rb\<lparr>head := v\<rparr>) h xs =
     (case write_slots rb h xs of (r, h') \<Rightarrow> (r\<lparr>head := v\<rparr>, h'))"
proof (induction xs arbitrary: rb h)
  case Nil
  then show ?case by simp
next
  case (Cons x xs)
  have s: "slot (rb\<lparr>head := v\<rparr>) h = slot rb h" by (rule fun_cong [OF slot_cong]) simp
  let ?d = "(data_buff rb)[slot rb h := x]"
  have c: "rb\<lparr>head := v, data_buff := ?d\<rparr> = rb\<lparr>data_buff := ?d, head := v\<rparr>"
    by simp
  show ?case
    using Cons [of "rb\<lparr>data_buff := ?d\<rparr>" "h + 1"] by (simp add: s c)
qed

text \<open>The copy loop followed by the store of the head is repeated \<^const>\<open>put\<close>.\<close>

lemma write_slots_puts:
  "(case write_slots rb (head rb) xs of (r, h') \<Rightarrow> r\<lparr>head := h'\<rparr>) = foldl put rb xs"
proof (induction xs arbitrary: rb)
  case Nil
  then show ?case by simp
next
  case (Cons x xs)
  let ?r = "rb\<lparr>data_buff := (data_buff rb)[slot rb (head rb) := x]\<rparr>"
  have "(case write_slots (put rb x) (head rb + 1) xs of (r, h') \<Rightarrow> r\<lparr>head := h'\<rparr>)
      = (case write_slots ?r (head rb + 1) xs of (r, h') \<Rightarrow> r\<lparr>head := h'\<rparr>)"
    using write_slots_head [where rb = ?r and v = "head rb + 1" and h = "head rb + 1" and xs = xs]
    by (simp add: put_def split: prod.splits)
  then show ?case using Cons [of "put rb x"] by (simp add: put_def)
qed

lemma puts_ok:
  "rb_inv rb \<Longrightarrow> unat (head rb - tail rb) + length xs \<le> length (data_buff rb) \<Longrightarrow>
     rb_inv (foldl put rb xs) \<and> rb_list (foldl put rb xs) = rb_list rb @ xs \<and>
     tail (foldl put rb xs) = tail rb \<and>
     length (data_buff (foldl put rb xs)) = length (data_buff rb)"
proof (induction xs arbitrary: rb)
  case Nil
  then show ?case by simp
next
  case (Cons x xs)
  have room: "unat (head rb - tail rb) < length (data_buff rb)" using Cons.prems by simp
  have sh: "rb_shape rb" using Cons.prems by (simp add: rb_inv_def)
  have "unat (head (put rb x) - tail (put rb x)) + length xs \<le> length (data_buff (put rb x))"
    using put_length [OF room sh, of x] Cons.prems by (simp add: put_def)
  from Cons.IH [OF rb_inv_put [OF Cons.prems(1) room] this] rb_list_put [OF Cons.prems(1) room]
  show ?case by (simp add: put_def)
qed

lemma available_unat:
  "rb_inv rb \<Longrightarrow> unat (buffer_size rb - (head rb - tail rb))
     = length (data_buff rb) - unat (head rb - tail rb)"
  using unat_sub [of "head rb - tail rb" "buffer_size rb"] unat_buffer_size [of rb]
  by (simp add: rb_inv_def word_le_nat_alt)

lemma insert_elem_alt:
  assumes "rb_inv rb"
  shows "insert_elem rb x =
     (if unat (head rb - tail rb) < length (data_buff rb) then (put rb x, True) else (rb, False))"
proof -
  have "unat (buffer_size rb) = length (data_buff rb)"
    using assms by (simp add: rb_inv_def unat_buffer_size)
  then have "head rb - tail rb = buffer_size rb \<longleftrightarrow>
      \<not> unat (head rb - tail rb) < length (data_buff rb)"
    using assms by (auto simp: rb_inv_def word_unat_eq_iff)
  then show ?thesis by (simp add: insert_elem_def put_def Let_def)
qed

lemma writeBuff_ok:
  assumes inv: "rb_inv rb"
    and room: "unat (head rb - tail rb) + unat count \<le> length (data_buff rb)"
    and src: "unat count \<le> length buff"
  shows "writeBuff rb buff count = Inr (foldl put rb (take (unat count) buff), count)"
proof -
  have "\<not> buffer_size rb - (head rb - tail rb) < count"
    using available_unat [OF inv] room by (simp add: word_less_nat_alt)
  with src show ?thesis
    using write_slots_puts [of rb "take (unat count) buff"]
    by (auto simp: writeBuff_def Let_def not_less split: prod.splits)
qed

text \<open>Without room for all of it, \<open>writeBuff\<close> stores the longest prefix that fits.\<close>

lemma writeBuff_prefix:
  assumes inv: "rb_inv rb" and src: "unat count \<le> length buff"
  defines "n \<equiv> min (unat count) (length (data_buff rb) - unat (head rb - tail rb))"
  shows "writeBuff rb buff count = Inr (foldl put rb (take n buff), of_nat n)"
proof -
  let ?av = "buffer_size rb - (head rb - tail rb)"
  let ?w = "if ?av < count then ?av else count"
  have w: "unat ?w = n"
    using available_unat [OF inv] by (simp add: n_def word_less_nat_alt min_def)
  then have "?w = of_nat n" by (rule subst) (rule word_of_nat_unat [symmetric])
  then show ?thesis
    using write_slots_puts [of rb "take n buff"] src w
    by (auto simp: writeBuff_def Let_def n_def split: prod.splits)
qed

lemma read_slots_eq:
  "read_slots rb t n = (map (\<lambda>i. data_buff rb ! slot rb (t + of_nat i)) [0..<n], t + of_nat n)"
proof (induction n arbitrary: t)
  case 0
  then show ?case by simp
next
  case (Suc n)
  have "map (\<lambda>i. data_buff rb ! slot rb (t + of_nat i)) [0..<Suc n]
      = data_buff rb ! slot rb t # map (\<lambda>i. data_buff rb ! slot rb (t + 1 + of_nat i)) [0..<n]"
    by (simp add: map_upt_Suc algebra_simps del: upt_Suc)
  with Suc show ?case by (simp add: algebra_simps)
qed

lemma readBuff_eq:
  "readBuff rb count =
     (let n = min (unat count) (unat (head rb - tail rb))
      in (rb\<lparr>tail := tail rb + of_nat n\<rparr>, take n (rb_list rb)))"
proof -
  let ?r = "if head rb - tail rb < count then head rb - tail rb else count"
  have r: "unat ?r = min (unat count) (unat (head rb - tail rb))"
    by (simp add: word_less_nat_alt min_def)
  then have "?r = of_nat (min (unat count) (unat (head rb - tail rb)))"
    by (rule subst) (rule word_of_nat_unat [symmetric])
  moreover note r
  moreover have "take n (rb_list rb) = map (\<lambda>i. data_buff rb ! slot rb (tail rb + of_nat i)) [0..<n]"
    if "n \<le> unat (head rb - tail rb)" for n
    using that by (simp add: rb_list_def take_map)
  ultimately show ?thesis
    by (simp only: readBuff_def read_slots_eq Let_def prod.case min.cobounded2)
qed

lemma remove_cnt_eq:
  "unat cnt \<le> unat (head rb - tail rb) \<Longrightarrow> remove_cnt rb cnt = (rb\<lparr>tail := tail rb + cnt\<rparr>, cnt)"
  by (simp add: remove_cnt_def Let_def word_less_nat_alt)

lemma remove_cnt_all:
  "unat (head rb - tail rb) < unat cnt \<Longrightarrow>
     remove_cnt rb cnt = (rb\<lparr>tail := head rb\<rparr>, head rb - tail rb)"
  by (simp add: remove_cnt_def Let_def word_less_nat_alt)

lemma rb_empty_iff: "tail rb = head rb \<longleftrightarrow> rb_list rb = []"
  by (metis length_rb_list length_0_conv right_minus_eq unat_eq_zero)

lemma remove_out_eq:
  "remove_out rb =
     (case rb_list rb of [] \<Rightarrow> (rb, None) | x # _ \<Rightarrow> (rb\<lparr>tail := tail rb + 1\<rparr>, Some x))"
proof (cases "tail rb = head rb")
  case True
  then show ?thesis using rb_empty_iff [of rb] by (simp add: remove_out_def)
next
  case False
  then have "0 < unat (head rb - tail rb)" by (simp add: unat_gt_0)
  then have "rb_list rb ! 0 = data_buff rb ! slot rb (tail rb)" by (simp add: rb_list_nth)
  moreover have "rb_list rb \<noteq> []" using False rb_empty_iff by metis
  ultimately show ?thesis using False by (cases "rb_list rb") (auto simp: remove_out_def Let_def)
qed

lemma peek_eq:
  "peek rb = (if rb_list rb = [] then None else Some (slot rb (tail rb)))"
  using rb_empty_iff [of rb] by (simp add: peek_def Let_def)

section \<open>The interface the packet parser relies on\<close>

text \<open>
  A bounded first-in first-out buffer of which a client may append a block, drop a block from
  the front, and drop everything. The laws speak of the unread contents only.
\<close>

locale fifo_buffer =
  fixes inv :: "'b \<Rightarrow> bool"
    and contents :: "'b \<Rightarrow> 'a list"
    and capacity :: "'b \<Rightarrow> nat"
    and append_block :: "'b \<Rightarrow> 'a list \<Rightarrow> size_t \<Rightarrow> ('b \<times> size_t) result"
    and drop_block :: "'b \<Rightarrow> size_t \<Rightarrow> 'b \<times> size_t"
    and clear :: "'b \<Rightarrow> 'b"
  assumes bounded: "inv b \<Longrightarrow> length (contents b) \<le> capacity b"
    and append_law: "inv b \<Longrightarrow> length (contents b) + unat n \<le> capacity b \<Longrightarrow>
      unat n \<le> length xs \<Longrightarrow>
      \<exists>b'. append_block b xs n = Inr (b', n) \<and> inv b' \<and> capacity b' = capacity b \<and>
           contents b' = contents b @ take (unat n) xs"
    and drop_law: "inv b \<Longrightarrow> unat n \<le> length (contents b) \<Longrightarrow>
      \<exists>b'. drop_block b n = (b', n) \<and> inv b' \<and> capacity b' = capacity b \<and>
           contents b' = drop (unat n) (contents b)"
    and clear_law: "inv b \<Longrightarrow> inv (clear b) \<and> capacity (clear b) = capacity b \<and>
      contents (clear b) = []"
begin

text \<open>A block appended to an empty buffer and dropped again leaves an empty buffer.\<close>

lemma append_drop:
  assumes "inv b" "contents b = []" "unat n \<le> capacity b" "unat n \<le> length xs"
  shows "\<exists>b' b''. append_block b xs n = Inr (b', n) \<and> contents b' = take (unat n) xs \<and>
     drop_block b' n = (b'', n) \<and> inv b'' \<and> contents b'' = []"
proof -
  from append_law [of b n xs] assms obtain b' where
    b': "append_block b xs n = Inr (b', n)" "inv b'" "contents b' = take (unat n) xs"
    by auto
  with drop_law [of b' n] assms show ?thesis by auto
qed

lemma drop_length:
  assumes "inv b" "unat n \<le> length (contents b)"
  shows "length (contents (fst (drop_block b n))) = length (contents b) - unat n"
  using drop_law [OF assms] by auto

end

interpretation rb: fifo_buffer rb_inv rb_list "\<lambda>rb. length (data_buff rb)"
  writeBuff remove_cnt consumerClear
proof unfold_locales
  fix b :: "'a ringbuffer" and n :: size_t and xs :: "'a list"
  show "rb_inv b \<Longrightarrow> length (rb_list b) \<le> length (data_buff b)"
    by (simp add: rb_inv_def)
  show "\<exists>b'. writeBuff b xs n = Inr (b', n) \<and> rb_inv b' \<and>
      length (data_buff b') = length (data_buff b) \<and> rb_list b' = rb_list b @ take (unat n) xs"
    if "rb_inv b" "length (rb_list b) + unat n \<le> length (data_buff b)" "unat n \<le> length xs"
    using that writeBuff_ok [of b n xs] puts_ok [of b "take (unat n) xs"] by simp
  show "\<exists>b'. remove_cnt b n = (b', n) \<and> rb_inv b' \<and>
      length (data_buff b') = length (data_buff b) \<and> rb_list b' = drop (unat n) (rb_list b)"
    if "rb_inv b" "unat n \<le> length (rb_list b)"
    using that remove_cnt_eq [of n b] rb_inv_advance [of b n] rb_list_advance [of n b] by simp
  show "rb_inv b \<Longrightarrow> rb_inv (consumerClear b) \<and>
      length (data_buff (consumerClear b)) = length (data_buff b) \<and> rb_list (consumerClear b) = []"
    using rb_inv_consumerClear [of b] by (simp add: data_buff_consumerClear)
qed

section \<open>Blocks read through the pointer that peek returns\<close>

text \<open>
  A raw read of \<open>n\<close> bytes at offset \<open>off\<close> of the array: outside the array it is undefined
  behaviour.
\<close>

definition read_block :: "'a list \<Rightarrow> nat \<Rightarrow> nat \<Rightarrow> 'a list result" where
  "read_block mem off n =
     (if off + n \<le> length mem then Inr (take n (drop off mem)) else Inl Out_Of_Bounds)"

text \<open>As long as the block does not reach past the end of the array, it is the unread data.\<close>

lemma read_block_contents:
  assumes inv: "rb_inv rb"
    and avail: "off + n \<le> unat (head rb - tail rb)"
    and flat: "slot rb (tail rb) + off + n \<le> length (data_buff rb)"
  shows "read_block (data_buff rb) (slot rb (tail rb) + off) n = Inr (take n (drop off (rb_list rb)))"
proof -
  have sh: "rb_shape rb" using inv by (simp add: rb_inv_def)
  have "take n (drop (slot rb (tail rb) + off) (data_buff rb)) = take n (drop off (rb_list rb))"
  proof (rule nth_equalityI)
    show "length (take n (drop (slot rb (tail rb) + off) (data_buff rb)))
        = length (take n (drop off (rb_list rb)))"
      using avail flat by simp
  next
    fix i
    assume "i < length (take n (drop (slot rb (tail rb) + off) (data_buff rb)))"
    then have i: "i < n" using flat by simp
    have "slot rb (tail rb + of_nat (off + i)) = slot rb (tail rb) + (off + i)"
    proof -
      have "unat (tail rb) mod length (data_buff rb) + (off + i) < length (data_buff rb)"
        using flat i by (simp add: slot_mod [OF sh])
      then have "(unat (tail rb) + (off + i)) mod length (data_buff rb)
          = unat (tail rb) mod length (data_buff rb) + (off + i)"
        by (metis mod_add_left_eq mod_less)
      then show ?thesis by (subst slot_add [OF sh], subst slot_mod [OF sh])
    qed
    then show "take n (drop (slot rb (tail rb) + off) (data_buff rb)) ! i
        = take n (drop off (rb_list rb)) ! i"
      using i avail flat by (simp add: rb_list_nth add.assoc)
  qed
  then show ?thesis using flat by (simp add: read_block_def)
qed

end
