(* ===== verification/Ring_Callback.thy ===== *)
theory Ring_Callback
  imports Ring_Buffer
begin

text \<open>
  The overloads of \<open>writeBuff\<close> and \<open>readBuff\<close> of ring\_buffer.hpp that copy in rounds and call back
  between them, so that the other side can take out or put in elements. The callback is a function
  on the ring and a state of its own, or the null pointer. What either side promises is a locale,
  interpreted on the ring's own \<open>readBuff\<close> and \<open>writeBuff\<close>.
\<close>

section \<open>Writing and reading in rounds\<close>

type_synonym ('a, 's) hook = "('a ringbuffer \<times> 's \<Rightarrow> 'a ringbuffer \<times> 's) option"

definition call_back :: "('a, 's) hook \<Rightarrow> 'a ringbuffer \<times> 's \<Rightarrow> 'a ringbuffer \<times> 's" where
  "call_back execute_data_callback p = (case execute_data_callback of None \<Rightarrow> p | Some f \<Rightarrow> f p)"

definition first_round :: "size_t \<Rightarrow> size_t \<Rightarrow> size_t" where
  "first_round count count_to_callback =
     (if count_to_callback \<noteq> 0 \<and> count_to_callback < count then count_to_callback else count)"

text \<open>A round of \<open>writeBuff\<close>, with the number of elements it is to write.\<close>

definition write_round :: "('a, 's) hook \<Rightarrow> 'a list \<Rightarrow> 'a ringbuffer \<Rightarrow> 's \<Rightarrow> size_t \<Rightarrow> size_t \<Rightarrow> size_t \<Rightarrow>
    ('a ringbuffer \<times> 's \<times> size_t \<times> size_t) result" where
  "write_round cb buff rb s tmp_head written to_write =
     (let available = buffer_size rb - (tmp_head - tail rb);
          n = (if to_write > available then available else to_write)
      in if length buff < unat written + unat n then Inl Out_Of_Bounds
         else (case write_slots rb tmp_head (take (unat n) (drop (unat written) buff)) of (rb1, h1) \<Rightarrow>
           (case call_back cb (rb1\<lparr>head := h1\<rparr>, s) of (rb2, s2) \<Rightarrow> Inr (rb2, s2, h1, written + n))))"

lemma step_down:
  fixes w c n :: size_t
  assumes "w < c" "n \<le> c - w" "n \<noteq> 0"
  shows "unat (c - (w + n)) < unat (c - w)" "unat (w + n) = unat w + unat n" "w + n \<le> c"
proof -
  have c: "unat (c - w) = unat c - unat w" using assms(1) by (simp add: unat_sub order.strict_implies_order)
  have n: "unat n \<le> unat c - unat w" using assms(2) c by (simp add: word_le_nat_alt)
  have "unat c < 2 ^ 64" using unsigned_less [of c] by simp
  then have "unat w + unat n < 2 ^ 64" using n assms(1) by (simp add: word_less_nat_alt)
  then show a: "unat (w + n) = unat w + unat n" by (simp add: unat_word_ariths)
  show l: "w + n \<le> c" using n assms(1) by (simp add: word_le_nat_alt word_less_nat_alt a)
  have "0 < unat n" using assms(3) by (simp add: unat_gt_0)
  then show "unat (c - (w + n)) < unat (c - w)"
    using l assms(1) n by (simp add: unat_sub c a word_less_nat_alt)
qed

lemma some_left: "w < c \<Longrightarrow> 0 < unat (c - w)" for w c :: size_t
  by (simp add: unat_sub order.strict_implies_order word_less_nat_alt)

function write_rounds :: "('a, 's) hook \<Rightarrow> 'a list \<Rightarrow> size_t \<Rightarrow> 'a ringbuffer \<Rightarrow> 's \<Rightarrow> size_t \<Rightarrow> size_t \<Rightarrow>
    ('a ringbuffer \<times> 's \<times> size_t) result" where
  "write_rounds cb buff count rb s tmp_head written =
     (if \<not> written < count \<or> buffer_size rb - (tmp_head - tail rb) = 0 then Inr (rb, s, written)
      else (case write_round cb buff rb s tmp_head written (count - written) of
          Inl e \<Rightarrow> Inl e
        | Inr (rb', s', h', w') \<Rightarrow> write_rounds cb buff count rb' s' h' w'))"
  by pat_completeness auto

termination
  by (relation "measure (\<lambda>(cb, buff, count, rb, s, h, w). unat (count - w))")
    (auto simp: write_round_def Let_def intro!: step_down(1) some_left split: if_splits prod.splits)

declare write_rounds.simps [simp del]

definition writeBuff_callback :: "('a, 's) hook \<Rightarrow> 'a ringbuffer \<Rightarrow> 's \<Rightarrow> 'a list \<Rightarrow> size_t \<Rightarrow> size_t \<Rightarrow>
    ('a ringbuffer \<times> 's \<times> size_t) result" where
  "writeBuff_callback cb rb s buff count count_to_callback =
     (if \<not> 0 < count \<or> buffer_size rb - (head rb - tail rb) = 0 then Inr (rb, s, 0)
      else (case write_round cb buff rb s (head rb) 0 (first_round count count_to_callback) of
          Inl e \<Rightarrow> Inl e
        | Inr (rb', s', h', w') \<Rightarrow> write_rounds cb buff count rb' s' h' w'))"

text \<open>A round of \<open>readBuff\<close>; the elements go to the caller's buffer.\<close>

definition read_round :: "('a, 's) hook \<Rightarrow> 'a ringbuffer \<Rightarrow> 's \<Rightarrow> size_t \<Rightarrow> size_t \<Rightarrow>
    'a ringbuffer \<times> 's \<times> size_t \<times> 'a list" where
  "read_round cb rb s tmp_tail to_read =
     (let available = head rb - tmp_tail;
          n = (if to_read > available then available else to_read)
      in case read_slots rb tmp_tail (unat n) of (xs, t1) \<Rightarrow>
           (case call_back cb (rb\<lparr>tail := t1\<rparr>, s) of (rb2, s2) \<Rightarrow> (rb2, s2, t1, xs)))"

function read_rounds :: "('a, 's) hook \<Rightarrow> size_t \<Rightarrow> 'a ringbuffer \<Rightarrow> 's \<Rightarrow> size_t \<Rightarrow> size_t \<Rightarrow>
    'a ringbuffer \<times> 's \<times> 'a list" where
  "read_rounds cb count rb s tmp_tail n_read =
     (if \<not> n_read < count \<or> head rb - tmp_tail = 0 then (rb, s, [])
      else (case read_round cb rb s tmp_tail (count - n_read) of (rb', s', t', xs) \<Rightarrow>
        (case read_rounds cb count rb' s' t' (n_read + of_nat (length xs)) of (rb2, s2, ys) \<Rightarrow>
          (rb2, s2, xs @ ys))))"
  by pat_completeness auto

termination
  by (relation "measure (\<lambda>(cb, count, rb, s, t, r). unat (count - r))")
    (auto simp: read_round_def read_slots_eq Let_def intro!: step_down(1) some_left split: if_splits prod.splits)

declare read_rounds.simps [simp del]

definition readBuff_callback :: "('a, 's) hook \<Rightarrow> 'a ringbuffer \<Rightarrow> 's \<Rightarrow> size_t \<Rightarrow> size_t \<Rightarrow>
    'a ringbuffer \<times> 's \<times> 'a list" where
  "readBuff_callback cb rb s count count_to_callback =
     (if \<not> 0 < count \<or> head rb - tail rb = 0 then (rb, s, [])
      else (case read_round cb rb s (tail rb) (first_round count count_to_callback) of (rb', s', t', xs) \<Rightarrow>
        (case read_rounds cb count rb' s' t' (of_nat (length xs)) of (rb2, s2, ys) \<Rightarrow> (rb2, s2, xs @ ys))))"

section \<open>What a callback promises\<close>

text \<open>A consumer takes elements out at the front and keeps what it took.\<close>

locale ring_consumer =
  fixes take_out :: "'a ringbuffer \<times> 's \<Rightarrow> 'a ringbuffer \<times> 's" and got :: "'s \<Rightarrow> 'a list"
  assumes consumes: "rb_inv rb \<Longrightarrow> take_out (rb, s) = (rb', s') \<Longrightarrow>
      rb_inv rb' \<and> head rb' = head rb \<and> length (data_buff rb') = length (data_buff rb) \<and>
      got s @ rb_list rb = got s' @ rb_list rb'"
begin

text \<open>The ring as it was called back with after elements were written, and as the callback left it.\<close>

definition called :: "'a ringbuffer \<Rightarrow> 's \<Rightarrow> bool" where
  "called rb' s' \<longleftrightarrow> (\<exists>rb s. rb_inv rb \<and> rb_list rb \<noteq> [] \<and> take_out (rb, s) = (rb', s'))"

lemma write_round_ok:
  assumes "rb_inv rb" "unat written + unat to_write \<le> length buff" "to_write \<noteq> 0"
    and "buffer_size rb - (head rb - tail rb) \<noteq> 0"
  shows "\<exists>rb' s' n. write_round (Some take_out) buff rb s (head rb) written to_write =
      Inr (rb', s', head rb', written + n) \<and> n \<noteq> 0 \<and> n \<le> to_write \<and> rb_inv rb' \<and> called rb' s' \<and>
      got s' @ rb_list rb' = got s @ rb_list rb @ take (unat n) (drop (unat written) buff)"
proof -
  define n where "n = (if to_write > buffer_size rb - (head rb - tail rb)
     then buffer_size rb - (head rb - tail rb) else to_write)"
  have n: "n \<noteq> 0" "n \<le> to_write" "n \<le> buffer_size rb - (head rb - tail rb)"
    using assms(3,4) by (auto simp: n_def not_less)
  let ?xs = "take (unat n) (drop (unat written) buff)"
  have l: "unat written + unat n \<le> length buff" using assms(2) n(2) by (simp add: word_le_nat_alt)
  have r: "unat (head rb - tail rb) + length ?xs \<le> length (data_buff rb)"
  proof -
    have "unat n \<le> length (data_buff rb) - unat (head rb - tail rb)"
      using n(3) available_unat [OF assms(1)] by (simp add: word_le_nat_alt)
    moreover have "unat (head rb - tail rb) \<le> length (data_buff rb)" using assms(1) by (simp add: rb_inv_def)
    moreover have "length ?xs = unat n" using l by simp
    ultimately show ?thesis by linarith
  qed
  obtain rb1 h1 where w: "write_slots rb (head rb) ?xs = (rb1, h1)" by (cases "write_slots rb (head rb) ?xs")
  have p: "rb1\<lparr>head := h1\<rparr> = foldl put rb ?xs" using write_slots_puts [of rb ?xs] w by simp
  obtain rb2 s2 where c: "take_out (rb1\<lparr>head := h1\<rparr>, s) = (rb2, s2)" by (cases "take_out (rb1\<lparr>head := h1\<rparr>, s)")
  have "0 < unat n" using n(1) by (simp add: unat_gt_0)
  then have "?xs \<noteq> []" using l by auto
  then have e: "rb_inv (rb1\<lparr>head := h1\<rparr>)" "rb_list (rb1\<lparr>head := h1\<rparr>) \<noteq> []"
    using puts_ok [OF assms(1) r] p by simp_all
  then have "called rb2 s2" using c unfolding called_def by blast
  moreover from consumes [OF e(1) c] puts_ok [OF assms(1) r]
  have "rb_inv rb2 \<and> head rb2 = h1 \<and> got s2 @ rb_list rb2 = got s @ rb_list rb @ ?xs" by (simp add: p) (metis p ringbuffer.select_convs(1) ringbuffer.surjective ringbuffer.update_convs(1))
  moreover have "write_round (Some take_out) buff rb s (head rb) written to_write = Inr (rb2, s2, h1, written + n)"
    using l w c by (simp add: write_round_def Let_def call_back_def n_def [symmetric])
  ultimately show ?thesis using n by blast
qed

lemma write_rounds_ok:
  assumes "rb_inv rb" "unat count \<le> length buff" "written \<le> count"
  shows "\<exists>rb' s' w. write_rounds (Some take_out) buff count rb s (head rb) written = Inr (rb', s', w) \<and>
      rb_inv rb' \<and> written \<le> w \<and> w \<le> count \<and> (w < count \<longrightarrow> length (rb_list rb') = length (data_buff rb')) \<and>
      (rb' = rb \<and> s' = s \<or> called rb' s') \<and>
      got s' @ rb_list rb' = got s @ rb_list rb @ take (unat w - unat written) (drop (unat written) buff)"
  using assms
proof (induction "unat (count - written)" arbitrary: rb s written rule: less_induct)
  case less
  note step = write_rounds.simps [of "Some take_out" buff count rb s "head rb" written]
  show ?case
  proof (cases "\<not> written < count \<or> buffer_size rb - (head rb - tail rb) = 0")
    case True
    have "length (rb_list rb) = length (data_buff rb)" if "written < count"
      using available_unat [OF less.prems(1)] True that less.prems(1) by (simp add: rb_inv_def)
    then show ?thesis using True step less.prems by auto
  next
    case False
    have u: "unat written + unat (count - written) \<le> length buff"
      using less.prems(2,3) by (simp add: unat_sub word_le_nat_alt)
    obtain rb' s' n where r: "write_round (Some take_out) buff rb s (head rb) written (count - written) =
      Inr (rb', s', head rb', written + n)" "n \<noteq> 0" "n \<le> count - written" "rb_inv rb'" "called rb' s'"
      "got s' @ rb_list rb' = got s @ rb_list rb @ take (unat n) (drop (unat written) buff)"
      using write_round_ok [OF less.prems(1) u, of s] False by auto
    have w: "written < count" using False by simp
    note d = step_down [OF w r(3,2)]
    obtain rb2 s2 w2 where i: "write_rounds (Some take_out) buff count rb' s' (head rb') (written + n) = Inr (rb2, s2, w2)"
      "rb_inv rb2" "written + n \<le> w2" "w2 \<le> count" "w2 < count \<longrightarrow> length (rb_list rb2) = length (data_buff rb2)"
      "rb2 = rb' \<and> s2 = s' \<or> called rb2 s2"
      "got s2 @ rb_list rb2 = got s' @ rb_list rb' @ take (unat w2 - unat (written + n)) (drop (unat (written + n)) buff)"
      using less.hyps [OF d(1) r(4) less.prems(2) d(3), of s'] by blast
    have "unat written + unat n \<le> unat w2" using i(3) d(2) by (simp add: word_le_nat_alt)
    then have "take (unat w2 - unat written) (drop (unat written) buff) =
        take (unat n) (drop (unat written) buff) @ take (unat w2 - unat (written + n)) (drop (unat (written + n)) buff)"
      using take_add [of "unat n" "unat w2 - (unat written + unat n)" "drop (unat written) buff"]
      by (simp add: d(2) add.commute [of "unat n"])
    moreover have "written \<le> w2" using \<open>unat written + unat n \<le> unat w2\<close> by (simp add: word_le_nat_alt)
    moreover have "called rb2 s2" using i r(5) by auto
    ultimately show ?thesis unfolding step using False r(1,6) i by (simp del: take_drop)
  qed
qed

lemma writeBuff_callback_ok:
  assumes "rb_inv rb" "unat count \<le> length buff"
  shows "\<exists>rb' s' w. writeBuff_callback (Some take_out) rb s buff count limit = Inr (rb', s', w) \<and>
      rb_inv rb' \<and> w \<le> count \<and> (w < count \<longrightarrow> length (rb_list rb') = length (data_buff rb')) \<and>
      (rb' = rb \<and> s' = s \<or> called rb' s') \<and>
      got s' @ rb_list rb' = got s @ rb_list rb @ take (unat w) buff"
proof (cases "\<not> 0 < count \<or> buffer_size rb - (head rb - tail rb) = 0")
  case True
  have "length (rb_list rb) = length (data_buff rb)" if "0 < count"
    using available_unat [OF assms(1)] True that assms(1) by (simp add: rb_inv_def)
  then show ?thesis using True assms by (auto simp: writeBuff_callback_def)
next
  case False
  let ?n = "first_round count limit"
  have f: "?n \<noteq> 0" "?n \<le> count" using False by (auto simp: first_round_def)
  then have "unat (0 :: size_t) + unat ?n \<le> length buff" using assms(2) by (simp add: word_le_nat_alt)
  then obtain rb1 s1 n where r: "write_round (Some take_out) buff rb s (head rb) 0 ?n = Inr (rb1, s1, head rb1, 0 + n)"
    "n \<noteq> 0" "n \<le> ?n" "rb_inv rb1" "called rb1 s1" "got s1 @ rb_list rb1 = got s @ rb_list rb @ take (unat n) buff"
    using write_round_ok [OF assms(1) _ f(1), of 0 buff s] False by auto
  have n: "n \<le> count" using r(3) f(2) by (rule order_trans)
  obtain rb2 s2 w where i: "write_rounds (Some take_out) buff count rb1 s1 (head rb1) n = Inr (rb2, s2, w)" "rb_inv rb2"
    "n \<le> w" "w \<le> count" "w < count \<longrightarrow> length (rb_list rb2) = length (data_buff rb2)"
    "rb2 = rb1 \<and> s2 = s1 \<or> called rb2 s2"
    "got s2 @ rb_list rb2 = got s1 @ rb_list rb1 @ take (unat w - unat n) (drop (unat n) buff)"
    using write_rounds_ok [OF r(4) assms(2) n, of s1] by blast
  have "take (unat w) buff = take (unat n) buff @ take (unat w - unat n) (drop (unat n) buff)"
    using take_add [of "unat n" "unat w - unat n" buff] i(3) by (simp add: word_le_nat_alt)
  moreover have "called rb2 s2" using i r(5) by auto
  ultimately show ?thesis unfolding writeBuff_callback_def using False r(1,6) i by (simp del: take_drop)
qed

end

text \<open>A consumer that takes something whenever there is something.\<close>

locale eager_consumer = ring_consumer +
  assumes makes_room: "rb_inv rb \<Longrightarrow> rb_list rb \<noteq> [] \<Longrightarrow> take_out (rb, s) = (rb', s') \<Longrightarrow>
      length (rb_list rb') < length (data_buff rb')"
begin

lemma writes_all:
  assumes "rb_inv rb" "unat count \<le> length buff" "length (rb_list rb) < length (data_buff rb)"
  shows "\<exists>rb' s'. writeBuff_callback (Some take_out) rb s buff count limit = Inr (rb', s', count) \<and>
      rb_inv rb' \<and> got s' @ rb_list rb' = got s @ rb_list rb @ take (unat count) buff"
proof -
  obtain rb' s' w where w: "writeBuff_callback (Some take_out) rb s buff count limit = Inr (rb', s', w)"
    "rb_inv rb'" "w \<le> count" "w < count \<longrightarrow> length (rb_list rb') = length (data_buff rb')"
    "rb' = rb \<and> s' = s \<or> called rb' s'" "got s' @ rb_list rb' = got s @ rb_list rb @ take (unat w) buff"
    using writeBuff_callback_ok [OF assms(1,2), of s limit] by blast
  then have "length (rb_list rb') < length (data_buff rb')"
    using assms(3) makes_room by (auto simp: called_def)
  then have "w = count" using w(3,4) by auto
  then show ?thesis using w by blast
qed

end

text \<open>A producer puts elements in at the back.\<close>

locale ring_producer =
  fixes put_in :: "'a ringbuffer \<times> 's \<Rightarrow> 'a ringbuffer \<times> 's" and given :: "'s \<Rightarrow> 'a list"
  assumes produces: "rb_inv rb \<Longrightarrow> put_in (rb, s) = (rb', s') \<Longrightarrow>
      rb_inv rb' \<and> tail rb' = tail rb \<and> (\<exists>ys. rb_list rb' = rb_list rb @ ys \<and> given s' = given s @ ys)"
begin

lemma read_round_ok:
  assumes "rb_inv rb" "to_read \<noteq> 0" "head rb - tail rb \<noteq> 0"
  shows "\<exists>rb' s' xs ys. read_round (Some put_in) rb s (tail rb) to_read = (rb', s', tail rb', xs) \<and> xs \<noteq> [] \<and>
      length xs \<le> unat to_read \<and> rb_inv rb' \<and> given s' = given s @ ys \<and> xs @ rb_list rb' = rb_list rb @ ys"
proof -
  define n where "n = (if to_read > head rb - tail rb then head rb - tail rb else to_read)"
  have n: "n \<noteq> 0" "n \<le> to_read" "n \<le> head rb - tail rb"
    using assms(2,3) by (auto simp: n_def not_less)
  let ?rb1 = "rb\<lparr>tail := tail rb + n\<rparr>" and ?xs = "take (unat n) (rb_list rb)"
  have u: "unat n \<le> unat (head rb - tail rb)" using n(3) by (simp add: word_le_nat_alt)
  have "?xs = map (\<lambda>i. data_buff rb ! slot rb (tail rb + of_nat i)) [0..<unat n]"
    using u by (simp add: rb_list_def take_map)
  then have r: "read_slots rb (tail rb) (unat n) = (?xs, tail rb + n)" by (simp add: read_slots_eq)
  obtain rb2 s2 where c: "put_in (?rb1, s) = (rb2, s2)" by (cases "put_in (?rb1, s)")
  have "read_round (Some put_in) rb s (tail rb) to_read = (rb2, s2, tail rb + n, ?xs)"
    using r c by (simp add: read_round_def Let_def call_back_def n_def [symmetric])
  moreover have "rb_inv rb2 \<and> tail rb2 = tail rb + n \<and>
      (\<exists>ys. rb_list rb2 = drop (unat n) (rb_list rb) @ ys \<and> given s2 = given s @ ys)"
    using produces [OF rb_inv_advance [OF assms(1) u] c] by (simp add: rb_list_advance [OF u])
  moreover have "0 < unat n" using n(1) by (simp add: unat_gt_0)
  moreover from this have "?xs \<noteq> []" using u by (metis le_zero_eq length_rb_list list.size(3) not_gr_zero take_eq_Nil)
  ultimately show ?thesis using n(2) by (fastforce simp: word_le_nat_alt)
qed

lemma read_rounds_ok:
  assumes "rb_inv rb" "n_read \<le> count"
  shows "\<exists>rb' s' xs ys. read_rounds (Some put_in) count rb s (tail rb) n_read = (rb', s', xs) \<and> rb_inv rb' \<and>
      length xs \<le> unat (count - n_read) \<and> (length xs < unat (count - n_read) \<longrightarrow> rb_list rb' = []) \<and>
      given s' = given s @ ys \<and> xs @ rb_list rb' = rb_list rb @ ys"
  using assms
proof (induction "unat (count - n_read)" arbitrary: rb s n_read rule: less_induct)
  case less
  note step = read_rounds.simps [of "Some put_in" count rb s "tail rb" n_read]
  show ?case
  proof (cases "\<not> n_read < count \<or> head rb - tail rb = 0")
    case True
    then have "unat (count - n_read) = 0 \<or> rb_list rb = []"
      using less.prems(2) rb_empty_iff [of rb] by auto
    then show ?thesis using True step less.prems(1) by auto
  next
    case False
    have "count - n_read \<noteq> 0" "n_read < count" using False by auto
    then obtain rb1 s1 xs ys where r: "read_round (Some put_in) rb s (tail rb) (count - n_read) = (rb1, s1, tail rb1, xs)"
      "xs \<noteq> []" "length xs \<le> unat (count - n_read)" "rb_inv rb1" "given s1 = given s @ ys"
      "xs @ rb_list rb1 = rb_list rb @ ys"
      using read_round_ok [OF less.prems(1), of "count - n_read" s] False by auto
    let ?n = "of_nat (length xs) :: size_t"
    have "unat (count - n_read) < 2 ^ 64" using unsigned_less [of "count - n_read"] by simp
    then have u: "unat ?n = length xs" using r(3) by (simp add: unat_of_nat)
    have n: "?n \<le> count - n_read" "?n \<noteq> 0" using r(2,3) u by (auto simp: word_le_nat_alt simp flip: unat_gt_0)
    note d = step_down [OF \<open>n_read < count\<close> n]
    obtain rb2 s2 xs2 ys2 where i: "read_rounds (Some put_in) count rb1 s1 (tail rb1) (n_read + ?n) = (rb2, s2, xs2)"
      "rb_inv rb2" "length xs2 \<le> unat (count - (n_read + ?n))"
      "length xs2 < unat (count - (n_read + ?n)) \<longrightarrow> rb_list rb2 = []"
      "given s2 = given s1 @ ys2" "xs2 @ rb_list rb2 = rb_list rb1 @ ys2"
      using less.hyps [OF d(1) r(4) d(3), of s1] by blast
    have "unat (count - n_read) = length xs + unat (count - (n_read + ?n))"
      using d(2,3) r(3) u less.prems(2) by (simp add: unat_sub)
    moreover have "(xs @ xs2) @ rb_list rb2 = rb_list rb @ (ys @ ys2)" "given s2 = given s @ (ys @ ys2)"
      using r(5,6) i(5,6) by simp_all
    moreover have "read_rounds (Some put_in) count rb s (tail rb) n_read = (rb2, s2, xs @ xs2)"
      unfolding step using False r(1) i(1) by simp
    ultimately show ?thesis using i(2-4) by (intro exI [of _ rb2] exI [of _ s2] exI [of _ "xs @ xs2"]
        exI [of _ "ys @ ys2"]) simp
  qed
qed

lemma readBuff_callback_ok:
  assumes "rb_inv rb"
  shows "\<exists>rb' s' xs ys. readBuff_callback (Some put_in) rb s count limit = (rb', s', xs) \<and> rb_inv rb' \<and>
      length xs \<le> unat count \<and> (length xs < unat count \<longrightarrow> rb_list rb' = []) \<and>
      given s' = given s @ ys \<and> xs @ rb_list rb' = rb_list rb @ ys"
proof (cases "\<not> 0 < count \<or> head rb - tail rb = 0")
  case True
  then have "unat count = 0 \<or> rb_list rb = []" using rb_empty_iff [of rb] word_gt_0 [of count] by auto
  then show ?thesis using True assms by (auto simp: readBuff_callback_def)
next
  case False
  let ?n = "first_round count limit"
  have f: "?n \<noteq> 0" "?n \<le> count" using False by (auto simp: first_round_def)
  obtain rb1 s1 xs ys where r: "read_round (Some put_in) rb s (tail rb) ?n = (rb1, s1, tail rb1, xs)"
    "xs \<noteq> []" "length xs \<le> unat ?n" "rb_inv rb1" "given s1 = given s @ ys" "xs @ rb_list rb1 = rb_list rb @ ys"
    using read_round_ok [OF assms f(1), of s] False by auto
  let ?k = "of_nat (length xs) :: size_t"
  have l: "length xs \<le> unat count" using r(3) f(2) by (simp add: word_le_nat_alt)
  moreover have "unat count < 2 ^ 64" using unsigned_less [of count] by simp
  ultimately have u: "unat ?k = length xs" by (simp add: unat_of_nat)
  then have k: "?k \<le> count" using l by (simp add: word_le_nat_alt)
  obtain rb2 s2 xs2 ys2 where i: "read_rounds (Some put_in) count rb1 s1 (tail rb1) ?k = (rb2, s2, xs2)"
    "rb_inv rb2" "length xs2 \<le> unat (count - ?k)" "length xs2 < unat (count - ?k) \<longrightarrow> rb_list rb2 = []"
    "given s2 = given s1 @ ys2" "xs2 @ rb_list rb2 = rb_list rb1 @ ys2"
    using read_rounds_ok [OF r(4) k, of s1] by blast
  have "unat count = length xs + unat (count - ?k)" using k u l by (simp add: unat_sub)
  moreover have "(xs @ xs2) @ rb_list rb2 = rb_list rb @ (ys @ ys2)" "given s2 = given s @ (ys @ ys2)"
    using r(5,6) i(5,6) by simp_all
  moreover have "readBuff_callback (Some put_in) rb s count limit = (rb2, s2, xs @ xs2)"
    unfolding readBuff_callback_def using False r(1) i(1) by simp
  ultimately show ?thesis using i(2-4) by (intro exI [of _ rb2] exI [of _ s2] exI [of _ "xs @ xs2"]
      exI [of _ "ys @ ys2"]) simp
qed

end

section \<open>The ring's own operations as callbacks\<close>

definition reader :: "size_t \<Rightarrow> 'a ringbuffer \<times> 'a list \<Rightarrow> 'a ringbuffer \<times> 'a list" where
  "reader k p = (case p of (rb, xs) \<Rightarrow> (case readBuff rb k of (rb', ys) \<Rightarrow> (rb', xs @ ys)))"

text \<open>Everything there is.\<close>

definition drain :: "'a ringbuffer \<times> 'a list \<Rightarrow> 'a ringbuffer \<times> 'a list" where
  "drain p = reader (readAvailable (fst p)) p"

text \<open>A producer with elements left to write; what it has written, and what is left.\<close>

definition writer :: "'a ringbuffer \<times> 'a list \<times> 'a list \<Rightarrow> 'a ringbuffer \<times> 'a list \<times> 'a list" where
  "writer p = (case p of (rb, done_part, xs) \<Rightarrow>
     (case xs of
        [] \<Rightarrow> p
      | x # rest \<Rightarrow> (case insert_elem rb x of (rb', ok) \<Rightarrow> if ok then (rb', done_part @ [x], rest) else p)))"

lemma reader_ok:
  assumes "rb_inv rb" "reader k (rb, xs) = (rb', xs')"
  shows "rb_inv rb' \<and> head rb' = head rb \<and> length (data_buff rb') = length (data_buff rb) \<and>
    xs @ rb_list rb = xs' @ rb_list rb'"
proof -
  let ?n = "min (unat k) (unat (head rb - tail rb))"
  have "unat k < 2 ^ 64" using unsigned_less [of k] by simp
  then have "?n < 2 ^ 64" by (simp add: min.strict_coboundedI1)
  then have u: "unat (of_nat ?n :: size_t) = ?n" by (simp add: unat_of_nat)
  then have "unat (of_nat ?n :: size_t) \<le> unat (head rb - tail rb)" by simp
  from rb_list_advance [OF this] rb_inv_advance [OF assms(1) this] assms(2) show ?thesis
    unfolding u by (auto simp: reader_def readBuff_eq Let_def)
qed

interpretation reader: ring_consumer "reader k" "\<lambda>xs. xs" for k
  by unfold_locales (rule reader_ok)

interpretation drain: eager_consumer drain "\<lambda>xs. xs"
proof unfold_locales
  fix rb rb' :: "'a ringbuffer" and s s'
  assume a: "rb_inv rb" "drain (rb, s) = (rb', s')"
  then show "rb_inv rb' \<and> head rb' = head rb \<and> length (data_buff rb') = length (data_buff rb) \<and>
      s @ rb_list rb = s' @ rb_list rb'"
    unfolding drain_def by (intro reader_ok) simp_all
  have "rb_list rb' = []"
    using a(2) by (auto simp: drain_def reader_def readBuff_eq readAvailable_def Let_def rb_list_def)
  then show "length (rb_list rb') < length (data_buff rb')"
    using reader_ok [of rb "readAvailable rb" s rb' s'] a shape_pos [of rb']
    by (simp add: drain_def rb_inv_def)
qed

lemma tail_put: "tail (put rb x) = tail rb"
  by (simp add: put_def)

interpretation writer: ring_producer writer fst
proof unfold_locales
  fix rb rb' :: "'a ringbuffer" and s s'
  assume "rb_inv rb" "writer (rb, s) = (rb', s')"
  then show "rb_inv rb' \<and> tail rb' = tail rb \<and> (\<exists>ys. rb_list rb' = rb_list rb @ ys \<and> fst s' = fst s @ ys)"
    by (auto simp: writer_def insert_elem_alt rb_inv_put rb_list_put tail_put
        split: prod.splits list.splits if_splits)
qed

section \<open>Property\<close>

text \<open>With callbacks that work on the other end of the ring, the overloads of \<open>writeBuff\<close> and
  \<open>readBuff\<close> move any number of elements, whatever the size of the ring and of their first round. A
  write to a ring with room, whose callback empties it, writes all elements; what was taken out
  followed by what is in the ring is what was in the ring followed by what was to be written. A
  read whose callback puts in one element at a time stops short only with the ring empty, and what
  it has read followed by what is in the ring is what was in it followed by what was put in.\<close>

lemma callbacks_move_everything:
  assumes "rb_inv rb" "unat count \<le> length buff" "length (rb_list rb) < length (data_buff rb)"
  shows "(\<exists>rb' taken. writeBuff_callback (Some drain) rb [] buff count limit = Inr (rb', taken, count) \<and>
      rb_inv rb' \<and> taken @ rb_list rb' = rb_list rb @ take (unat count) buff) \<and>
    (\<exists>rb' xs put_in rest. readBuff_callback (Some writer) rb ([], buff) count limit = (rb', (put_in, rest), xs) \<and>
      rb_inv rb' \<and> xs @ rb_list rb' = rb_list rb @ put_in \<and> length xs \<le> unat count \<and>
      (length xs = unat count \<or> rb_list rb' = []))"
  using drain.writes_all [OF assms, of "[]" limit]
    writer.readBuff_callback_ok [OF assms(1), of "([], buff)" count limit]
  by (auto simp: le_less)

lemma callbacks_move_everything_witness:
  "\<exists>rb' taken. writeBuff_callback (Some drain) (Ringbuffer [0, 0 :: byte]) [] [1, 2, 3, 4, 5] 5 1 = Inr (rb', taken, 5) \<and>
     rb_inv rb' \<and> taken @ rb_list rb' = [1, 2, 3, 4, 5]"
proof -
  have "\<exists>k\<le>63. (2::nat) = 2 ^ k" by (rule exI [of _ 1]) simp
  then have "rb_inv (Ringbuffer [0, 0 :: byte])"
    by (auto simp: rb_inv_def rb_shape_def Ringbuffer_def numeral_2_eq_2)
  moreover have "length (data_buff (Ringbuffer [0, 0 :: byte])) = 2" by (simp add: Ringbuffer_def)
  moreover have "length (rb_list (Ringbuffer [0, 0 :: byte])) = 0" by (simp only: rb_list_Ringbuffer list.size)
  ultimately show ?thesis
    using callbacks_move_everything [of "Ringbuffer [0, 0 :: byte]" 5 "[1, 2, 3, 4, 5]" 1]
    by simp
qed

end
