(* ===== verification/Pss_Common.thy ===== *)
theory Pss_Common
  imports Ring_Buffer
begin

text \<open>
  The types of pss_common.h and IOClient.h that every part of the client shares: a received
  packet, the reserved command ids, the size of a receive buffer, and the C memory operations
  the code performs on byte buffers (a block write, and the conversion of a C string to
  \<open>std::string\<close>). The classes a user implements (\<open>ipacket_format\<close>, \<open>ipacket_dispose\<close>) are
  parameters of the client model; Packet_Format holds the implementation the repository ships.
\<close>

section \<open>Packets and command ids\<close>

record crecv_packet =
  command_id :: uint16
  packet_body :: "byte list"
  packet_size :: size_t

text \<open>A packet as its member initialisers make it.\<close>

definition crecv_packet_init :: crecv_packet where
  "crecv_packet_init = \<lparr>command_id = 0, packet_body = [], packet_size = 0\<rparr>"

definition connect_command_id :: uint16 where "connect_command_id = 1"
definition disconnect_command_id :: uint16 where "disconnect_command_id = 2"
definition time_check_command_id :: uint16 where "time_check_command_id = 3"

definition recv_buffer_max_size :: nat where "recv_buffer_max_size = 10240"

section \<open>Memory operations\<close>

text \<open>A raw write of a block at an offset of an array, and the frame it leaves.\<close>

definition write_block :: "'a list \<Rightarrow> nat \<Rightarrow> 'a list \<Rightarrow> 'a list result" where
  "write_block mem off bs =
     (if off + length bs \<le> length mem
      then Inr (take off mem @ bs @ drop (off + length bs) mem) else Inl Out_Of_Bounds)"

lemma length_write_block: "write_block mem off bs = Inr mem' \<Longrightarrow> length mem' = length mem"
  by (auto simp: write_block_def split: if_splits)

text \<open>
  \<open>std::string(const char*)\<close>: the bytes before the first NUL of the object pointed into. A
  \<open>std::string\<close> holds its characters and a NUL after them, so that is what \<open>c_str()\<close> points to.
\<close>

definition c_str :: "byte list \<Rightarrow> byte list" where
  "c_str s = s @ [0]"

definition string_of_cstr :: "byte list \<Rightarrow> byte list result" where
  "string_of_cstr mem =
     (if 0 \<in> set mem then Inr (takeWhile (\<lambda>b. b \<noteq> 0) mem) else Inl Out_Of_Bounds)"

lemma string_of_cstr_c_str: "string_of_cstr (c_str s) = Inr (takeWhile (\<lambda>b. b \<noteq> 0) s)"
proof -
  have "takeWhile (\<lambda>b. b \<noteq> 0) (s @ [0]) = takeWhile (\<lambda>b. b \<noteq> 0) s"
    by (cases "0 \<in> set s") (auto simp: takeWhile_append takeWhile_eq_all_conv [THEN iffD2])
  then show ?thesis by (simp add: string_of_cstr_def c_str_def)
qed

text \<open>\<open>int\<close> to \<open>size_t\<close>: the sign is extended, so a negative number becomes a huge one.\<close>

definition int_to_size_t :: "uint32 \<Rightarrow> size_t" where
  "int_to_size_t i = scast i"

lemma uint_int_to_size_t: "uint (int_to_size_t i) = sint i mod 2 ^ 64"
  unfolding int_to_size_t_def scast_eq by (subst uint_word_of_int) simp

lemma unat_int_to_size_t:
  assumes "0 \<le> sint i"
  shows "unat (int_to_size_t i) = nat (sint i)"
proof -
  have "sint i < 2 ^ 31" using sint_lt [of i] by simp
  with assms have "uint (int_to_size_t i) = sint i"
    by (simp add: uint_int_to_size_t)
  then show ?thesis by (simp add: unat_eq_nat_uint)
qed

lemma uint_int_to_size_t_neg:
  assumes "sint i < 0"
  shows "uint (int_to_size_t i) = sint i + 2 ^ 64"
proof -
  have "- (2 ^ 31) \<le> sint i" using sint_ge [of i] by simp
  then have "(sint i + 2 ^ 64) mod 2 ^ 64 = sint i + 2 ^ 64"
    using assms by (intro mod_pos_pos_trivial) simp_all
  then have "sint i mod 2 ^ 64 = sint i + 2 ^ 64"
    by (simp only: mod_add_self2)
  then show ?thesis by (simp add: uint_int_to_size_t)
qed

lemma unat_int_to_size_t_neg:
  assumes "sint i < 0"
  shows "2 ^ 63 \<le> unat (int_to_size_t i)"
proof -
  have "- (2 ^ 31) \<le> sint i" using sint_ge [of i] by simp
  then have "2 ^ 63 \<le> uint (int_to_size_t i)"
    using uint_int_to_size_t_neg [OF assms] by simp
  then have "nat (2 ^ 63) \<le> nat (uint (int_to_size_t i))" by (rule nat_mono)
  moreover have "nat (2 ^ 63) = 2 ^ 63" by simp
  ultimately show ?thesis unfolding unat_eq_nat_uint by (simp only:)
qed

end
