(* ===== verification/Packet_Format.thy ===== *)
theory Packet_Format
  imports Pss_Common
begin

text \<open>
  The packet format the repository ships, pss_tcp_client_test/packet_format.h and
  packet_format.cpp: \<open>format_recv_buffer\<close> joins the received bytes in a ring buffer and cuts
  complete packets out of it, \<open>format_send_buffer\<close> puts a header before a body. A packet is a
  40 byte header (version, command id, body length, 32 bytes that are skipped) and a body. The
  diagnostic lines the code prints are left out.
\<close>

section \<open>Operations\<close>

definition MAX_BUFFER_SIZE :: size_t where "MAX_BUFFER_SIZE = 16384"
definition PACKET_HEAD_SIZE :: size_t where "PACKET_HEAD_SIZE = 2 * 2 + 4 + 32 * 1"
definition MAX_PACKET_BUFFER_SIZE :: size_t where "MAX_PACKET_BUFFER_SIZE = 2048"
definition MAX_PACKET_SEND_SIZE :: size_t where "MAX_PACKET_SEND_SIZE = 2048"

record cpacket_format =
  recv_buffer :: "byte ringbuffer"
  send_buffer :: "byte list"
  curr_buffer_size :: size_t

text \<open>A fresh object: empty ring, zeroed send buffer; the ring's memory is arbitrary.\<close>

definition cpacket_format_init :: "byte list \<Rightarrow> cpacket_format" where
  "cpacket_format_init memory =
     \<lparr>recv_buffer = Ringbuffer memory,
      send_buffer = replicate (unat MAX_PACKET_SEND_SIZE) 0,
      curr_buffer_size = 0\<rparr>"

text \<open>
  The loop that cuts packets: one call is one pass of \<open>while (true)\<close>, with the packets found
  so far. The header and the body are read with raw reads behind the pointer of \<open>peek\<close>. The
  body length is a signed \<open>int\<close> and is compared as \<open>size_t\<close>.
\<close>

function recv_loop ::
  "cpacket_format \<Rightarrow> crecv_packet list \<Rightarrow> (cpacket_format \<times> crecv_packet list) result" where
  "recv_loop st recv_packet_list_info =
     (if PACKET_HEAD_SIZE > curr_buffer_size st then Inr (st, recv_packet_list_info)
      else case peek (recv_buffer st) of
        None \<Rightarrow> Inl Null_Deref
      | Some buffer_head \<Rightarrow>
          bindR (read_block (data_buff (recv_buffer st)) (buffer_head + 2) 2) (\<lambda>command_bytes.
          bindR (read_block (data_buff (recv_buffer st)) (buffer_head + 4) 4) (\<lambda>size_bytes.
            let command = (of_nat (le_nat command_bytes) :: uint32);
                packet_body_size = (of_nat (le_nat size_bytes) :: uint32)
            in if MAX_PACKET_BUFFER_SIZE \<le> int_to_size_t packet_body_size
               then Inr (st\<lparr>curr_buffer_size := 0,
                            recv_buffer := consumerClear (recv_buffer st)\<rparr>,
                         recv_packet_list_info)
               else let curr_packet_size = int_to_size_t packet_body_size + PACKET_HEAD_SIZE
                 in if curr_packet_size \<le> curr_buffer_size st
                    then bindR (read_block (data_buff (recv_buffer st))
                                 (buffer_head + unat PACKET_HEAD_SIZE)
                                 (unat (int_to_size_t packet_body_size))) (\<lambda>body.
                      let recv_packet = \<lparr>command_id = ucast command, packet_body = body,
                                         packet_size = int_to_size_t packet_body_size\<rparr>;
                          list' = recv_packet_list_info @ [recv_packet];
                          st' = st\<lparr>recv_buffer := fst (remove_cnt (recv_buffer st) curr_packet_size),
                                   curr_buffer_size := curr_buffer_size st - curr_packet_size\<rparr>
                      in if curr_buffer_size st' = 0 then Inr (st', list')
                         else recv_loop st' list')
                    else Inr (st, recv_packet_list_info))))"
  by pat_completeness auto
termination
proof (relation "measure (\<lambda>(st, _). unat (curr_buffer_size st))", goal_cases)
  case 1
  show ?case by simp
next
  case (2 st l p cb sb c n s x pk l' st')
  have n: "unat (int_to_size_t n) < 2048"
    using 2 by (simp add: MAX_PACKET_BUFFER_SIZE_def not_le word_less_nat_alt)
  then have "unat s = unat (int_to_size_t n) + 40"
    using 2 by (simp add: PACKET_HEAD_SIZE_def unat_word_ariths)
  then have "0 < unat s" by simp
  then show ?case
    using 2 by (simp add: unat_sub word_le_nat_alt)
qed

declare recv_loop.simps [simp del]

definition format_recv_buffer ::
  "cpacket_format \<Rightarrow> byte list \<Rightarrow> size_t \<Rightarrow> (cpacket_format \<times> crecv_packet list) result" where
  "format_recv_buffer st received buffer_length =
     (if curr_buffer_size st + buffer_length \<ge> MAX_BUFFER_SIZE then Inr (st, [])
      else bindR (writeBuff (recv_buffer st) received buffer_length) (\<lambda>(ring, _).
        recv_loop (st\<lparr>recv_buffer := ring,
                      curr_buffer_size := curr_buffer_size st + buffer_length\<rparr>) []))"

text \<open>
  The body arrives as a \<open>std::string\<close> and is copied from its \<open>c_str()\<close>; \<open>buffer_length\<close> is
  the caller's. The out parameter \<open>format_length\<close> is set on success only.
\<close>

definition format_send_buffer ::
  "cpacket_format \<Rightarrow> uint16 \<Rightarrow> byte list \<Rightarrow> size_t \<Rightarrow> size_t
     \<Rightarrow> (cpacket_format \<times> byte list \<times> size_t) result" where
  "format_send_buffer st command body buffer_length format_length =
     (if buffer_length + PACKET_HEAD_SIZE > MAX_PACKET_SEND_SIZE
      then Inr (st, [], format_length)
      else
        let client_version = (1 :: uint16);
            client_command_id = command;
            client_packet_length = (ucast buffer_length :: uint32)
        in bindR (write_block (send_buffer st) 0 (nat_le 2 (unat client_version))) (\<lambda>b1.
           bindR (write_block b1 2 (nat_le 2 (unat client_command_id))) (\<lambda>b2.
           bindR (write_block b2 4 (nat_le 4 (unat client_packet_length))) (\<lambda>b3.
           bindR (read_block (c_str body) 0 (unat buffer_length)) (\<lambda>bytes.
           bindR (write_block b3 40 bytes) (\<lambda>b4.
             let nPos = 8 + 32 + buffer_length
             in Inr (st\<lparr>send_buffer := b4\<rparr>, take (unat nPos) b4, nPos)))))))"

end
