(* ===== verification/IO_Client.thy ===== *)
theory IO_Client
  imports Packet_Format Asio_Serial "HOL-Library.Signed_Division"
begin

text \<open>
  What the three IO clients share (IOClient.h, and the members ASIOClient.h, ASIOUDPClient.h and
  ASIOTTYClient.h have in common): the state of a client, the asynchronous operations it has
  started, the messages it has put on the logic threads, and the packets it has handed to the
  user. The packet format, the address parser and the texts of errors are parameters, in
  \<open>io_env\<close>.

  An asynchronous operation is pending until its handler runs. Closing a socket forces what is
  pending on it to complete with \<open>operation_aborted\<close>, and an operation started on a closed one
  completes with \<open>bad_descriptor\<close>, as asio documents; otherwise it may complete with any result.
\<close>

section \<open>State\<close>

datatype io_op = Op_Connect | Op_Read | Op_Write "byte list"

text \<open>
  The closures given to \<open>AddMessage\<close>: to hand a packet to the user's \<open>do_message\<close>, holding the
  client alive or only its \<open>packet_dispose\<close>, or to reconnect.
\<close>

datatype client_task = Do_Message int crecv_packet | Dispose_Message int crecv_packet | Reconnect

fun holds_self :: "client_task \<Rightarrow> bool" where
  "holds_self (Dispose_Message _ _) = False"
| "holds_self _ = True"

record 'pf io_client =
  connect_id :: int
  is_connect :: bool
  is_client_close :: bool
  recv_last_timer :: int
  write_last_timer :: int
  server_ip :: string
  server_port :: uint16
  packet_format :: 'pf
  sock_open :: bool
  pending_ops :: "(io_op \<times> error_code) list"
  posted :: "(int \<times> client_task) list"
  dispatched :: "(int \<times> crecv_packet) list"
  wire_out :: "byte list"

definition io_client_new :: "'pf \<Rightarrow> int \<Rightarrow> 'pf io_client" where
  "io_client_new pf now =
     \<lparr>connect_id = 0, is_connect = False, is_client_close = False, recv_last_timer = now,
      write_last_timer = now, server_ip = [], server_port = 0, packet_format = pf,
      sock_open = False, pending_ops = [], posted = [], dispatched = [], wire_out = []\<rparr>"

record 'pf io_env =
  message :: "asio_error \<Rightarrow> byte list"
  valid_address :: "string \<Rightarrow> bool"
  recv_format :: "'pf \<Rightarrow> int \<Rightarrow> byte list \<Rightarrow> size_t \<Rightarrow> ('pf \<times> crecv_packet list) result"
  send_format :: "'pf \<Rightarrow> int \<Rightarrow> uint16 \<Rightarrow> byte list \<Rightarrow> size_t \<Rightarrow> size_t \<Rightarrow> ('pf \<times> byte list \<times> size_t) result"

section \<open>Operations on sockets and queues\<close>

definition start_op :: "('pf, 'm) io_client_scheme \<Rightarrow> io_op \<Rightarrow> ('pf, 'm) io_client_scheme" where
  "start_op cl op =
     cl\<lparr>pending_ops := pending_ops cl @ [(op, if sock_open cl then None else Some Bad_Descriptor)]\<rparr>"

definition sock_close :: "('pf, 'm) io_client_scheme \<Rightarrow> ('pf, 'm) io_client_scheme" where
  "sock_close cl =
     cl\<lparr>sock_open := False,
        pending_ops := map (\<lambda>(op, e). (op, case e of None \<Rightarrow> Some Operation_Aborted | Some x \<Rightarrow> Some x))
                         (pending_ops cl)\<rparr>"

text \<open>\<open>async_connect\<close> opens the socket if it is closed.\<close>

definition async_connect :: "('pf, 'm) io_client_scheme \<Rightarrow> ('pf, 'm) io_client_scheme" where
  "async_connect cl = start_op (cl\<lparr>sock_open := True\<rparr>) Op_Connect"

definition post :: "('pf, 'm) io_client_scheme \<Rightarrow> int \<Rightarrow> client_task \<Rightarrow> ('pf, 'm) io_client_scheme" where
  "post cl logic_id task = cl\<lparr>posted := posted cl @ [(logic_id, task)]\<rparr>"

definition do_message :: "('pf, 'm) io_client_scheme \<Rightarrow> int \<Rightarrow> crecv_packet \<Rightarrow> ('pf, 'm) io_client_scheme" where
  "do_message cl cid packet = cl\<lparr>dispatched := dispatched cl @ [(cid, packet)]\<rparr>"

definition ascii :: "string \<Rightarrow> byte list" where
  "ascii s = map of_char s"

definition disconnect_packet :: "byte list \<Rightarrow> crecv_packet" where
  "disconnect_packet body =
     crecv_packet_init\<lparr>command_id := disconnect_command_id, packet_body := body\<rparr>"

definition connect_packet :: crecv_packet where
  "connect_packet = crecv_packet_init\<lparr>command_id := connect_command_id\<rparr>"

text \<open>\<open>std::to_string\<close> of an \<open>int\<close>.\<close>

fun digits :: "nat \<Rightarrow> byte list" where
  "digits n = (if n < 10 then [of_nat (48 + n)] else digits (n div 10) @ [of_nat (48 + n mod 10)])"

declare digits.simps [simp del]

definition to_string :: "int \<Rightarrow> byte list" where
  "to_string i = (if i < 0 then 45 # digits (nat (- i)) else digits (nat i))"

definition timeout_packet :: "int \<Rightarrow> crecv_packet" where
  "timeout_packet seconds =
     crecv_packet_init\<lparr>command_id := time_check_command_id, packet_body := to_string seconds\<rparr>"

text \<open>Nanoseconds to whole seconds, as \<open>duration_cast\<close> rounds, and then to \<open>int\<close>.\<close>

definition to_seconds :: "int \<Rightarrow> int" where
  "to_seconds ns = ns sdiv 1000000000"

definition to_int :: "int \<Rightarrow> int" where
  "to_int x = sint (word_of_int x :: uint32)"

text \<open>A \<open>new char[length]\<close> of more than half the address space throws.\<close>

definition new_array :: "size_t \<Rightarrow> unit result" where
  "new_array n =
     (if n < 0x8000000000000000 then Inr ()
      else Inl (Exception ''std::bad_array_new_length'' ''''))"

section \<open>What the operations leave alone\<close>

lemma op_simps [simp]:
  "posted (start_op cl op) = posted cl" "posted (sock_close cl) = posted cl"
  "posted (async_connect cl) = posted cl" "posted (do_message cl i p) = posted cl"
  "posted (post cl i t) = posted cl @ [(i, t)]"
  "dispatched (start_op cl op) = dispatched cl" "dispatched (sock_close cl) = dispatched cl"
  "dispatched (async_connect cl) = dispatched cl" "dispatched (post cl i t) = dispatched cl"
  "packet_format (start_op cl op) = packet_format cl" "packet_format (sock_close cl) = packet_format cl"
  "packet_format (async_connect cl) = packet_format cl" "packet_format (post cl i t) = packet_format cl"
  "connect_id (start_op cl op) = connect_id cl" "connect_id (sock_close cl) = connect_id cl"
  "connect_id (async_connect cl) = connect_id cl" "connect_id (post cl i t) = connect_id cl"
  "is_connect (start_op cl op) = is_connect cl" "is_connect (sock_close cl) = is_connect cl"
  "is_connect (async_connect cl) = is_connect cl" "is_connect (post cl i t) = is_connect cl"
  "is_client_close (start_op cl op) = is_client_close cl"
  "is_client_close (sock_close cl) = is_client_close cl"
  "is_client_close (async_connect cl) = is_client_close cl"
  "is_client_close (post cl i t) = is_client_close cl"
  "sock_open (start_op cl op) = sock_open cl" "sock_open (post cl i t) = sock_open cl"
  "\<not> sock_open (sock_close cl)" "sock_open (async_connect cl)"
  "pending_ops (post cl i t) = pending_ops cl"
  by (simp_all add: start_op_def sock_close_def async_connect_def post_def do_message_def)

lemma foldl_post:
  "foldl (\<lambda>c p. post c i (f p)) cl ps = cl\<lparr>posted := posted cl @ map (\<lambda>p. (i, f p)) ps\<rparr>"
  by (induction ps arbitrary: cl) (simp_all add: post_def)

end
