(* ===== verification/TCP_Client.thy ===== *)
theory TCP_Client
  imports IO_Client
begin

text \<open>
  \<open>CASIOClient\<close> of ASIOClient.h and ASIOClient.cpp: the TCP client. Each function and each handler
  is one definition; \<open>count\<close> is what \<open>Get_Logic_Count\<close> returns, \<open>now\<close> the clock.
\<close>

definition tcp_get_tms_logic_id :: "'pf io_client \<Rightarrow> int \<Rightarrow> int" where
  "tcp_get_tms_logic_id cl logic_thread_count =
     (if logic_thread_count = 0 then 0 else connect_id cl smod logic_thread_count)"

definition tcp_do_read :: "'pf io_client \<Rightarrow> 'pf io_client" where
  "tcp_do_read cl = start_op cl Op_Read"

definition tcp_close_socket :: "'pf io_client \<Rightarrow> 'pf io_client" where
  "tcp_close_socket cl = sock_close (cl\<lparr>is_connect := False\<rparr>)"

definition tcp_close_client_socket :: "'pf io_client \<Rightarrow> 'pf io_client" where
  "tcp_close_client_socket cl = tcp_close_socket (cl\<lparr>is_client_close := True\<rparr>)"

definition tcp_get_connect_state :: "'pf io_client \<Rightarrow> bool" where
  "tcp_get_connect_state cl = is_connect cl"

text \<open>The handler of a read: packets to the logic thread, or the end of the connection.\<close>

definition tcp_on_read ::
  "'pf io_env \<Rightarrow> 'pf io_client \<Rightarrow> int \<Rightarrow> int \<Rightarrow> error_code \<Rightarrow> byte list \<Rightarrow> 'pf io_client result" where
  "tcp_on_read env cl count now ec received =
     (case ec of
        None \<Rightarrow>
          bindR (recv_format env (packet_format cl) (connect_id cl) received (of_nat (length received)))
            (\<lambda>(pf, recv_packet_list_info).
               let logic_thread_id = tcp_get_tms_logic_id cl count;
                   cl1 = foldl (\<lambda>c recv_packet. post c logic_thread_id (Do_Message (connect_id cl) recv_packet))
                           (cl\<lparr>packet_format := pf\<rparr>) recv_packet_list_info
               in Inr (tcp_do_read (cl1\<lparr>recv_last_timer := now\<rparr>)))
      | Some e \<Rightarrow>
          (let cl1 = post cl (tcp_get_tms_logic_id cl count)
                       (Do_Message (connect_id cl) (disconnect_packet (message env e)))
           in Inr (if is_client_close cl1 then cl1
                   else post (tcp_close_socket cl1) (tcp_get_tms_logic_id cl1 count) Reconnect)))"

definition tcp_set_write_time :: "'pf io_client \<Rightarrow> int \<Rightarrow> 'pf io_client" where
  "tcp_set_write_time cl now = cl\<lparr>write_last_timer := now\<rparr>"

text \<open>The two calls of \<open>system_clock::now\<close> are two arguments.\<close>

definition tcp_get_time_pass_seconds :: "'pf io_client \<Rightarrow> int \<Rightarrow> int \<Rightarrow> int" where
  "tcp_get_time_pass_seconds cl now1 now2 =
     (let recv_pass = to_seconds (now1 - recv_last_timer cl);
          write_pass = to_seconds (now2 - recv_last_timer cl)
      in if write_pass > recv_pass then to_int write_pass else to_int recv_pass)"

text \<open>The handler of a write.\<close>

definition tcp_on_write ::
  "'pf io_env \<Rightarrow> 'pf io_client \<Rightarrow> int \<Rightarrow> int \<Rightarrow> error_code \<Rightarrow> nat \<Rightarrow> 'pf io_client" where
  "tcp_on_write env cl count now ec send_length =
     (let cl1 = (case ec of
                   None \<Rightarrow> cl
                 | Some e \<Rightarrow>
                     (let c = post cl (tcp_get_tms_logic_id cl count)
                                (Do_Message (connect_id cl) (disconnect_packet (message env e)))
                      in if is_client_close c then c
                         else post (tcp_close_socket c) (tcp_get_tms_logic_id c count) Reconnect))
      in tcp_set_write_time cl1 now)"

definition tcp_do_write_immediately ::
  "'pf io_client \<Rightarrow> byte list \<Rightarrow> size_t \<Rightarrow> 'pf io_client result" where
  "tcp_do_write_immediately cl data len =
     bindR (new_array len) (\<lambda>_.
     bindR (read_block data 0 (unat len)) (\<lambda>send_buffer.
       Inr (start_op cl (Op_Write send_buffer))))"

definition tcp_do_write_format_data ::
  "'pf io_env \<Rightarrow> 'pf io_client \<Rightarrow> int \<Rightarrow> uint16 \<Rightarrow> byte list \<Rightarrow> size_t \<Rightarrow> 'pf io_client result" where
  "tcp_do_write_format_data env cl count command data len =
     (if \<not> is_connect cl
      then Inr (post cl (tcp_get_tms_logic_id cl count)
                  (Dispose_Message (connect_id cl) (disconnect_packet (ascii ''socket is close,write error.''))))
      else bindR (string_of_cstr data) (\<lambda>body.
           bindR (send_format env (packet_format cl) (connect_id cl) command body len 0)
             (\<lambda>(pf, send_packet, format_length).
                tcp_do_write_immediately (cl\<lparr>packet_format := pf\<rparr>) (c_str send_packet) format_length)))"

text \<open>\<open>connect_handler\<close>, bound to the client by a plain pointer.\<close>

definition tcp_connect_handler ::
  "'pf io_env \<Rightarrow> 'pf io_client \<Rightarrow> int \<Rightarrow> int \<Rightarrow> error_code \<Rightarrow> 'pf io_client" where
  "tcp_connect_handler env cl count now ec =
     (case ec of
        None \<Rightarrow>
          (let cl1 = post (cl\<lparr>is_connect := True\<rparr>) (tcp_get_tms_logic_id cl count)
                       (Do_Message (connect_id cl) connect_packet)
           in tcp_do_read (cl1\<lparr>recv_last_timer := now\<rparr>))
      | Some e \<Rightarrow>
          post (cl\<lparr>is_connect := False\<rparr>) (tcp_get_tms_logic_id cl count)
            (Dispose_Message (connect_id cl) (disconnect_packet (message env e))))"

text \<open>The client as \<open>start\<close> leaves it, and what it returns or throws.\<close>

definition tcp_start ::
  "'pf io_env \<Rightarrow> 'pf io_client \<Rightarrow> int \<Rightarrow> string \<Rightarrow> uint16 \<Rightarrow> 'pf io_client \<times> bool result" where
  "tcp_start env cl cid ip port =
     (let cl1 = cl\<lparr>connect_id := cid, server_ip := ip, server_port := port\<rparr>
      in if valid_address env ip then (async_connect cl1, Inr True)
         else (cl1, Inl (Exception ''std::system_error'' ''address'')))"

definition tcp_reconnect :: "'pf io_env \<Rightarrow> 'pf io_client \<Rightarrow> 'pf io_client result" where
  "tcp_reconnect env cl =
     (if \<not> is_connect cl
      then (if valid_address env (server_ip cl) then Inr (async_connect cl)
            else Inl (Exception ''std::system_error'' ''address''))
      else Inr cl)"

definition tcp_do_check_timeout :: "'pf io_env \<Rightarrow> 'pf io_client \<Rightarrow> int \<Rightarrow> 'pf io_client result" where
  "tcp_do_check_timeout env cl seconds =
     (if is_connect cl then Inr (do_message cl (connect_id cl) (timeout_packet seconds))
      else tcp_reconnect env cl)"

end
