(* ===== verification/UDP_Client.thy ===== *)
theory UDP_Client
  imports IO_Client
begin

text \<open>
  \<open>CASIOUDPClient\<close> of ASIOUDPClient.h and ASIOUDPClient.cpp: the UDP client. It differs from the
  TCP client in that a formatted write does not look whether it is connected.
\<close>

definition udp_get_tms_logic_id :: "'pf io_client \<Rightarrow> int \<Rightarrow> int" where
  "udp_get_tms_logic_id cl logic_thread_count =
     (if logic_thread_count = 0 then 0 else connect_id cl smod logic_thread_count)"

definition udp_do_read :: "'pf io_client \<Rightarrow> 'pf io_client" where
  "udp_do_read cl = start_op cl Op_Read"

definition udp_close_socket :: "'pf io_client \<Rightarrow> 'pf io_client" where
  "udp_close_socket cl = sock_close (cl\<lparr>is_connect := False\<rparr>)"

definition udp_close_client_socket :: "'pf io_client \<Rightarrow> 'pf io_client" where
  "udp_close_client_socket cl = udp_close_socket (cl\<lparr>is_client_close := True\<rparr>)"

definition udp_get_connect_state :: "'pf io_client \<Rightarrow> bool" where
  "udp_get_connect_state cl = is_connect cl"

text \<open>The handler of a read: packets to the logic thread, or the end of the connection.\<close>

definition udp_on_read ::
  "'pf io_env \<Rightarrow> 'pf io_client \<Rightarrow> int \<Rightarrow> int \<Rightarrow> error_code \<Rightarrow> byte list \<Rightarrow> 'pf io_client result" where
  "udp_on_read env cl count now ec received =
     (case ec of
        None \<Rightarrow>
          bindR (recv_format env (packet_format cl) (connect_id cl) received (of_nat (length received)))
            (\<lambda>(pf, recv_packet_list_info).
               let logic_thread_id = udp_get_tms_logic_id cl count;
                   cl1 = foldl (\<lambda>c recv_packet. post c logic_thread_id (Do_Message (connect_id cl) recv_packet))
                           (cl\<lparr>packet_format := pf\<rparr>) recv_packet_list_info
               in Inr (udp_do_read (cl1\<lparr>recv_last_timer := now\<rparr>)))
      | Some e \<Rightarrow>
          (let cl1 = post cl (udp_get_tms_logic_id cl count)
                       (Dispose_Message (connect_id cl) (disconnect_packet (message env e)))
           in Inr (if is_client_close cl1 then cl1
                   else post (udp_close_socket cl1) (udp_get_tms_logic_id cl1 count) Reconnect)))"

definition udp_set_write_time :: "'pf io_client \<Rightarrow> int \<Rightarrow> 'pf io_client" where
  "udp_set_write_time cl now = cl\<lparr>write_last_timer := now\<rparr>"

text \<open>The two calls of \<open>system_clock::now\<close> are two arguments.\<close>

definition udp_get_time_pass_seconds :: "'pf io_client \<Rightarrow> int \<Rightarrow> int \<Rightarrow> int" where
  "udp_get_time_pass_seconds cl now1 now2 =
     (let recv_pass = to_seconds (now1 - recv_last_timer cl);
          write_pass = to_seconds (now2 - recv_last_timer cl)
      in if write_pass > recv_pass then to_int write_pass else to_int recv_pass)"

text \<open>The handler of a write.\<close>

definition udp_on_write ::
  "'pf io_env \<Rightarrow> 'pf io_client \<Rightarrow> int \<Rightarrow> int \<Rightarrow> error_code \<Rightarrow> nat \<Rightarrow> 'pf io_client" where
  "udp_on_write env cl count now ec send_length =
     (let cl1 = (case ec of
                   None \<Rightarrow> cl
                 | Some e \<Rightarrow>
                     (let c = post cl (udp_get_tms_logic_id cl count)
                                (Do_Message (connect_id cl) (disconnect_packet (message env e)))
                      in if is_client_close c then c
                         else post (udp_close_socket c) (udp_get_tms_logic_id c count) Reconnect))
      in udp_set_write_time cl1 now)"

definition udp_do_write_immediately ::
  "'pf io_client \<Rightarrow> byte list \<Rightarrow> size_t \<Rightarrow> 'pf io_client result" where
  "udp_do_write_immediately cl data len =
     bindR (new_array len) (\<lambda>_.
     bindR (read_block data 0 (unat len)) (\<lambda>send_buffer.
       Inr (start_op cl (Op_Write send_buffer))))"

definition udp_do_write_format_data ::
  "'pf io_env \<Rightarrow> 'pf io_client \<Rightarrow> uint16 \<Rightarrow> byte list \<Rightarrow> size_t \<Rightarrow> 'pf io_client result" where
  "udp_do_write_format_data env cl command data len =
     bindR (string_of_cstr data) (\<lambda>body.
     bindR (send_format env (packet_format cl) (connect_id cl) command body len 0)
       (\<lambda>(pf, send_packet, format_length).
          udp_do_write_immediately (cl\<lparr>packet_format := pf\<rparr>) (c_str send_packet) format_length))"

text \<open>\<open>connect_handler\<close>, bound to the client by a plain pointer.\<close>

definition udp_connect_handler ::
  "'pf io_env \<Rightarrow> 'pf io_client \<Rightarrow> int \<Rightarrow> int \<Rightarrow> error_code \<Rightarrow> 'pf io_client" where
  "udp_connect_handler env cl count now ec =
     (case ec of
        None \<Rightarrow>
          (let cl1 = post (cl\<lparr>is_connect := True\<rparr>) (udp_get_tms_logic_id cl count)
                       (Do_Message (connect_id cl) connect_packet)
           in udp_do_read (cl1\<lparr>recv_last_timer := now\<rparr>))
      | Some e \<Rightarrow>
          post (cl\<lparr>is_connect := False\<rparr>) (udp_get_tms_logic_id cl count)
            (Dispose_Message (connect_id cl) (disconnect_packet (message env e))))"

text \<open>The client as \<open>start\<close> leaves it, and what it returns or throws.\<close>

definition udp_start ::
  "'pf io_env \<Rightarrow> 'pf io_client \<Rightarrow> int \<Rightarrow> string \<Rightarrow> uint16 \<Rightarrow> 'pf io_client \<times> bool result" where
  "udp_start env cl cid ip port =
     (let cl1 = cl\<lparr>connect_id := cid, server_ip := ip, server_port := port\<rparr>
      in if valid_address env ip then (async_connect cl1, Inr True)
         else (cl1, Inl (Exception ''std::system_error'' ''address'')))"

definition udp_reconnect :: "'pf io_env \<Rightarrow> 'pf io_client \<Rightarrow> 'pf io_client result" where
  "udp_reconnect env cl =
     (if \<not> is_connect cl
      then (if valid_address env (server_ip cl) then Inr (async_connect cl)
            else Inl (Exception ''std::system_error'' ''address''))
      else Inr cl)"

definition udp_do_check_timeout :: "'pf io_env \<Rightarrow> 'pf io_client \<Rightarrow> int \<Rightarrow> 'pf io_client result" where
  "udp_do_check_timeout env cl seconds =
     (if is_connect cl then Inr (do_message cl (connect_id cl) (timeout_packet seconds))
      else udp_reconnect env cl)"

end
