(* ===== verification/TTY_Client.thy ===== *)
theory TTY_Client
  imports IO_Client
begin

text \<open>
  \<open>CASIOTTYClient\<close> of ASIOTTYClient.h and ASIOTTYClient.cpp: the serial port client. \<open>server_ip\<close> and
  \<open>server_port\<close> stand for its \<open>tty_name_\<close> and \<open>tty_port_\<close>.
\<close>

text \<open>
  The attributes of the port are kept with the client; \<open>open_device\<close>, a parameter, says whether
  the operating system opens a device and which attributes it then has.
\<close>

record 'pf tty_client = "'pf io_client" +
  port_attributes :: termios

type_synonym open_device = "string \<Rightarrow> asio_error + termios"

definition tty_get_tms_logic_id :: "'pf tty_client \<Rightarrow> int \<Rightarrow> int" where
  "tty_get_tms_logic_id cl logic_thread_count =
     (if logic_thread_count = 0 then 0 else connect_id cl smod logic_thread_count)"

definition tty_do_read :: "'pf tty_client \<Rightarrow> 'pf tty_client" where
  "tty_do_read cl = start_op cl Op_Read"

definition tty_close_socket :: "'pf tty_client \<Rightarrow> 'pf tty_client" where
  "tty_close_socket cl = sock_close (cl\<lparr>is_connect := False\<rparr>)"

definition tty_close_client_socket :: "'pf tty_client \<Rightarrow> 'pf tty_client" where
  "tty_close_client_socket cl = tty_close_socket (cl\<lparr>is_client_close := True\<rparr>)"

definition tty_get_connect_state :: "'pf tty_client \<Rightarrow> bool" where
  "tty_get_connect_state cl = is_connect cl"

text \<open>The handler of a read: packets to the logic thread, or the end of the connection.\<close>

definition tty_on_read ::
  "'pf io_env \<Rightarrow> 'pf tty_client \<Rightarrow> int \<Rightarrow> int \<Rightarrow> error_code \<Rightarrow> byte list \<Rightarrow> 'pf tty_client result" where
  "tty_on_read env cl count now ec received =
     (case ec of
        None \<Rightarrow>
          bindR (recv_format env (packet_format cl) (connect_id cl) received (of_nat (length received)))
            (\<lambda>(pf, recv_packet_list_info).
               let logic_thread_id = tty_get_tms_logic_id cl count;
                   cl1 = foldl (\<lambda>c recv_packet. post c logic_thread_id (Do_Message (connect_id cl) recv_packet))
                           (cl\<lparr>packet_format := pf\<rparr>) recv_packet_list_info
               in Inr (tty_do_read (cl1\<lparr>recv_last_timer := now\<rparr>)))
      | Some e \<Rightarrow>
          (let cl1 = post cl (tty_get_tms_logic_id cl count)
                       (Dispose_Message (connect_id cl) (disconnect_packet (message env e)))
           in Inr (if is_client_close cl1 then cl1
                   else post (tty_close_socket cl1) (tty_get_tms_logic_id cl1 count) Reconnect)))"

definition tty_set_write_time :: "'pf tty_client \<Rightarrow> int \<Rightarrow> 'pf tty_client" where
  "tty_set_write_time cl now = cl\<lparr>write_last_timer := now\<rparr>"

text \<open>The two calls of \<open>system_clock::now\<close> are two arguments.\<close>

definition tty_get_time_pass_seconds :: "'pf tty_client \<Rightarrow> int \<Rightarrow> int \<Rightarrow> int" where
  "tty_get_time_pass_seconds cl now1 now2 =
     (let recv_pass = to_seconds (now1 - recv_last_timer cl);
          write_pass = to_seconds (now2 - recv_last_timer cl)
      in if write_pass > recv_pass then to_int write_pass else to_int recv_pass)"

text \<open>The handler of a write.\<close>

definition tty_on_write ::
  "'pf io_env \<Rightarrow> 'pf tty_client \<Rightarrow> int \<Rightarrow> int \<Rightarrow> error_code \<Rightarrow> nat \<Rightarrow> 'pf tty_client" where
  "tty_on_write env cl count now ec send_length =
     (let cl1 = (case ec of
                   None \<Rightarrow> cl
                 | Some e \<Rightarrow>
                     (let c = post cl (tty_get_tms_logic_id cl count)
                                (Do_Message (connect_id cl) (disconnect_packet (message env e)))
                      in if is_client_close c then c
                         else post (tty_close_socket c) (tty_get_tms_logic_id c count) Reconnect))
      in tty_set_write_time cl1 now)"

definition tty_do_write_immediately ::
  "'pf tty_client \<Rightarrow> byte list \<Rightarrow> size_t \<Rightarrow> 'pf tty_client result" where
  "tty_do_write_immediately cl data len =
     bindR (new_array len) (\<lambda>_.
     bindR (read_block data 0 (unat len)) (\<lambda>send_buffer.
       Inr (start_op cl (Op_Write send_buffer))))"

definition tty_do_write_format_data ::
  "'pf io_env \<Rightarrow> 'pf tty_client \<Rightarrow> int \<Rightarrow> uint16 \<Rightarrow> byte list \<Rightarrow> size_t \<Rightarrow> 'pf tty_client result" where
  "tty_do_write_format_data env cl count command data len =
     (if \<not> is_connect cl
      then Inr (post cl (tty_get_tms_logic_id cl count)
                  (Dispose_Message (connect_id cl) (disconnect_packet (ascii ''socket is close,write error.''))))
      else bindR (string_of_cstr data) (\<lambda>body.
           bindR (send_format env (packet_format cl) (connect_id cl) command body len 0)
             (\<lambda>(pf, send_packet, format_length).
                tty_do_write_immediately (cl\<lparr>packet_format := pf\<rparr>) (c_str send_packet) format_length)))"

text \<open>
  \<open>add_serial_port\<close>. The new port replaces the old one, which closes it. The error of each
  \<open>set_option\<close> is overwritten by the next; the last option cannot be made for a character size
  outside 5 to 8, and the exception leaves the function.
\<close>

definition tty_set_options :: "nat \<Rightarrow> termios \<Rightarrow> termios" where
  "tty_set_options baud ios =
     fst (do_set_option (stop_bits_store stop_one) (fst (do_set_option (parity_store parity_none)
       (fst (do_set_option (flow_control_store flow_none)
         (fst (do_set_option (baud_rate_store baud) ios)))))))"

definition tty_add_serial_port ::
  "'pf io_env \<Rightarrow> open_device \<Rightarrow> 'pf tty_client \<Rightarrow> int \<Rightarrow> string \<Rightarrow> uint16 \<Rightarrow> nat
     \<Rightarrow> 'pf tty_client \<times> bool result" where
  "tty_add_serial_port env open_device cl count tty_name tty_port char_size =
     (case open_device tty_name of
        Inl e \<Rightarrow>
          (post ((sock_close cl)\<lparr>is_connect := False\<rparr>) (tty_get_tms_logic_id cl count)
             (Dispose_Message (connect_id cl) (disconnect_packet (message env e))), Inr False)
      | Inr ios \<Rightarrow>
          (let cl1 = (sock_close cl)\<lparr>sock_open := True,
                 port_attributes := tty_set_options (unat tty_port) ios\<rparr>
           in case character_size char_size of
                Inl f \<Rightarrow> (cl1, Inl f)
              | Inr bits \<Rightarrow>
                  (cl1\<lparr>port_attributes :=
                     fst (do_set_option (character_size_store bits) (port_attributes cl1))\<rparr>, Inr True)))"

text \<open>The default argument of \<open>char_size\<close>.\<close>

definition tty_char_size :: nat where
  "tty_char_size = 1"

text \<open>What \<open>start\<close> and \<open>reconnect\<close> do once the port is there: test it and read.\<close>

definition tty_begin_read ::
  "'pf io_env \<Rightarrow> 'pf tty_client \<Rightarrow> int \<Rightarrow> 'pf tty_client \<times> bool" where
  "tty_begin_read env cl count =
     (case do_get_option baud_rate_load (port_attributes cl) of
        (_, Some e) \<Rightarrow>
          (post cl (tty_get_tms_logic_id cl count)
             (Dispose_Message (connect_id cl) (disconnect_packet (message env e))), False)
      | (_, None) \<Rightarrow> (tty_do_read (cl\<lparr>is_connect := True\<rparr>), True))"

definition tty_start ::
  "'pf io_env \<Rightarrow> open_device \<Rightarrow> 'pf tty_client \<Rightarrow> int \<Rightarrow> int \<Rightarrow> int \<Rightarrow> string \<Rightarrow> uint16
     \<Rightarrow> 'pf tty_client \<times> bool result" where
  "tty_start env open_device cl count now cid tty_name tty_port =
     (case tty_add_serial_port env open_device (cl\<lparr>connect_id := cid\<rparr>) count tty_name tty_port tty_char_size of
        (cl1, Inl f) \<Rightarrow> (cl1, Inl f)
      | (cl1, Inr False) \<Rightarrow> (cl1, Inr False)
      | (cl1, Inr True) \<Rightarrow>
          (case tty_begin_read env
                  (cl1\<lparr>recv_last_timer := now, server_ip := tty_name, server_port := tty_port\<rparr>) count of
             (cl2, ok) \<Rightarrow> (cl2, Inr ok)))"

definition tty_reconnect ::
  "'pf io_env \<Rightarrow> open_device \<Rightarrow> 'pf tty_client \<Rightarrow> int \<Rightarrow> int \<Rightarrow> 'pf tty_client \<times> unit result" where
  "tty_reconnect env open_device cl count now =
     (case tty_add_serial_port env open_device cl count (server_ip cl) (server_port cl) tty_char_size of
        (cl1, Inl f) \<Rightarrow> (cl1, Inl f)
      | (cl1, Inr False) \<Rightarrow> (cl1, Inr ())
      | (cl1, Inr True) \<Rightarrow>
          (fst (tty_begin_read env (cl1\<lparr>recv_last_timer := now\<rparr>) count), Inr ()))"

definition tty_do_check_timeout ::
  "'pf io_env \<Rightarrow> open_device \<Rightarrow> 'pf tty_client \<Rightarrow> int \<Rightarrow> int \<Rightarrow> int \<Rightarrow> 'pf tty_client \<times> unit result" where
  "tty_do_check_timeout env open_device cl count now seconds =
     (if is_connect cl then (do_message cl (connect_id cl) (timeout_packet seconds), Inr ())
      else tty_reconnect env open_device cl count now)"

end
