(* ===== verification/Packet_Stream.thy ===== *)
theory Packet_Stream
  imports Packet_Format
begin

text \<open>
  What the packet format promises: an abstract parser of a byte stream, the refinement of
  \<open>format_recv_buffer\<close> to it while the unread bytes lie in one piece of the ring's array, the
  round trip with \<open>format_send_buffer\<close>, the independence of how the stream is chopped into
  reads, and the faults on the other side of these conditions.
\<close>

section \<open>The abstract parser\<close>

datatype header = Incomplete | Malformed | Complete nat

text \<open>The length field of a header, and what it says of the stream that starts with it.\<close>

definition body_len :: "byte list \<Rightarrow> uint32" where
  "body_len bs = of_nat (le_nat (take 4 (drop 4 bs)))"

definition header_of :: "byte list \<Rightarrow> header" where
  "header_of bs =
     (if length bs < 40 then Incomplete
      else if sint (body_len bs) < 0 \<or> 2048 \<le> sint (body_len bs) then Malformed
      else if length bs < 40 + nat (sint (body_len bs)) then Incomplete
      else Complete (nat (sint (body_len bs))))"

definition packet_of :: "byte list \<Rightarrow> nat \<Rightarrow> crecv_packet" where
  "packet_of bs n =
     \<lparr>command_id = of_nat (le_nat (take 2 (drop 2 bs))),
      packet_body = take n (drop 40 bs), packet_size = of_nat n\<rparr>"

lemma header_of_Complete:
  "header_of bs = Complete n \<Longrightarrow> 40 + n \<le> length bs \<and> n < 2048"
  by (auto simp: header_of_def split: if_splits)

function parse_stream :: "byte list \<Rightarrow> crecv_packet list \<times> byte list" where
  "parse_stream bs =
     (case header_of bs of
        Incomplete \<Rightarrow> ([], bs)
      | Malformed \<Rightarrow> ([], [])
      | Complete n \<Rightarrow>
          (case parse_stream (drop (40 + n) bs) of (ps, rest) \<Rightarrow> (packet_of bs n # ps, rest)))"
  by pat_completeness auto
termination
  by (relation "measure length") (auto dest: header_of_Complete)

declare parse_stream.simps [simp del]

function stream_ok :: "byte list \<Rightarrow> bool" where
  "stream_ok bs =
     (case header_of bs of
        Incomplete \<Rightarrow> True
      | Malformed \<Rightarrow> False
      | Complete n \<Rightarrow> stream_ok (drop (40 + n) bs))"
  by pat_completeness auto
termination
  by (relation "measure length") (auto dest: header_of_Complete)

declare stream_ok.simps [simp del]

lemma parse_stream_cases [simp]:
  "header_of bs = Incomplete \<Longrightarrow> parse_stream bs = ([], bs)"
  "header_of bs = Malformed \<Longrightarrow> parse_stream bs = ([], [])"
  "header_of bs = Complete n \<Longrightarrow> parse_stream bs =
     (packet_of bs n # fst (parse_stream (drop (40 + n) bs)), snd (parse_stream (drop (40 + n) bs)))"
  by (simp_all add: parse_stream.simps [of bs] split: prod.split)

lemma stream_ok_cases [simp]:
  "header_of bs = Incomplete \<Longrightarrow> stream_ok bs"
  "header_of bs = Malformed \<Longrightarrow> \<not> stream_ok bs"
  "header_of bs = Complete n \<Longrightarrow> stream_ok bs = stream_ok (drop (40 + n) bs)"
  by (simp_all add: stream_ok.simps [of bs])

text \<open>What the parser keeps is an incomplete packet: parsing it again gives nothing.\<close>

lemma parse_stream_rest: "header_of (snd (parse_stream bs)) = Incomplete"
proof (induction bs rule: parse_stream.induct)
  case (1 bs)
  show ?case
    using 1 by (cases "header_of bs") (auto simp: header_of_def [of "[]"])
qed

lemma parse_stream_rest_length: "length (snd (parse_stream bs)) \<le> length bs"
proof (induction bs rule: parse_stream.induct)
  case (1 bs)
  show ?case
    using 1 by (cases "header_of bs") (auto intro: le_trans)
qed

text \<open>A header that is complete stays what it is when more bytes arrive.\<close>

lemma header_of_append:
  "header_of bs \<noteq> Incomplete \<Longrightarrow> header_of (bs @ xs) = header_of bs"
  by (auto simp: header_of_def body_len_def split: if_splits)

lemma packet_of_append:
  "40 + n \<le> length bs \<Longrightarrow> packet_of (bs @ xs) n = packet_of bs n"
  by (simp add: packet_of_def)

text \<open>Parsing a prefix first and the rest with what was kept is parsing it all at once.\<close>

lemma parse_stream_append:
  "stream_ok bs \<Longrightarrow>
     parse_stream (bs @ xs) =
       (fst (parse_stream bs) @ fst (parse_stream (snd (parse_stream bs) @ xs)),
        snd (parse_stream (snd (parse_stream bs) @ xs)))"
proof (induction bs rule: parse_stream.induct)
  case (1 bs)
  show ?case
  proof (cases "header_of bs")
    case (Complete n)
    then have n: "40 + n \<le> length bs" using header_of_Complete by blast
    have h: "header_of (bs @ xs) = Complete n"
      using Complete by (simp add: header_of_append)
    show ?thesis
      using 1 Complete h n by (simp add: packet_of_append)
  qed (use 1 in simp_all)
qed

lemma stream_ok_append:
  "stream_ok (bs @ xs) \<Longrightarrow> stream_ok bs \<and> stream_ok (snd (parse_stream bs) @ xs)"
proof (induction bs rule: parse_stream.induct)
  case (1 bs)
  show ?case
  proof (cases "header_of bs")
    case (Complete n)
    then have n: "40 + n \<le> length bs" using header_of_Complete by blast
    have h: "header_of (bs @ xs) = Complete n"
      using Complete by (simp add: header_of_append)
    show ?thesis
      using 1 Complete h n by simp
  next
    case Malformed
    then show ?thesis using 1 by (simp add: header_of_append)
  qed (use 1 in simp_all)
qed

section \<open>The parser loop refines the abstract parser\<close>

text \<open>
  The class invariant: a ring of 16384 bytes whose count of unread bytes is what
  \<open>curr_buffer_size\<close> says, and a send buffer of 2048 bytes.
\<close>

definition pf_inv :: "cpacket_format \<Rightarrow> bool" where
  "pf_inv st \<longleftrightarrow> rb_inv (recv_buffer st) \<and> length (data_buff (recv_buffer st)) = 16384 \<and>
     curr_buffer_size st = readAvailable (recv_buffer st) \<and> length (send_buffer st) = 2048"

text \<open>The unread bytes lie in one piece: they do not wrap around the end of the array.\<close>

definition flat :: "cpacket_format \<Rightarrow> bool" where
  "flat st \<longleftrightarrow> slot (recv_buffer st) (tail (recv_buffer st)) + unat (curr_buffer_size st) \<le> 16384"

definition unread :: "cpacket_format \<Rightarrow> byte list" where
  "unread st = rb_list (recv_buffer st)"

lemma length_unread: "pf_inv st \<Longrightarrow> length (unread st) = unat (curr_buffer_size st)"
  by (simp add: pf_inv_def unread_def readAvailable_def)

lemma pf_inv_init: "length m = 16384 \<Longrightarrow> pf_inv (cpacket_format_init m) \<and> unread (cpacket_format_init m) = []"
  using rb_inv_Ringbuffer [of 14 m]
  by (simp add: pf_inv_def cpacket_format_init_def unread_def readAvailable_def
      MAX_PACKET_SEND_SIZE_def) (simp add: Ringbuffer_def)

definition consume :: "cpacket_format \<Rightarrow> size_t \<Rightarrow> cpacket_format" where
  "consume st n = st\<lparr>recv_buffer := fst (remove_cnt (recv_buffer st) n),
                    curr_buffer_size := curr_buffer_size st - n\<rparr>"

definition discard_all :: "cpacket_format \<Rightarrow> cpacket_format" where
  "discard_all st = st\<lparr>curr_buffer_size := 0, recv_buffer := consumerClear (recv_buffer st)\<rparr>"

lemma pf_inv_discard_all: "pf_inv st \<Longrightarrow> pf_inv (discard_all st) \<and> unread (discard_all st) = []"
  using rb.clear_law [of "recv_buffer st"]
  by (simp add: pf_inv_def discard_all_def unread_def readAvailable_def)
    (simp add: consumerClear_def)

lemma pf_inv_consume:
  assumes inv: "pf_inv st" and n: "unat n \<le> unat (curr_buffer_size st)"
  shows "pf_inv (consume st n) \<and> unread (consume st n) = drop (unat n) (unread st) \<and>
    tail (recv_buffer (consume st n)) = tail (recv_buffer st) + n \<and>
    head (recv_buffer (consume st n)) = head (recv_buffer st) \<and>
    unat (curr_buffer_size (consume st n)) = unat (curr_buffer_size st) - unat n"
proof -
  have n': "unat n \<le> unat (head (recv_buffer st) - tail (recv_buffer st))"
    using inv n by (simp add: pf_inv_def readAvailable_def)
  have r: "remove_cnt (recv_buffer st) n = ((recv_buffer st)\<lparr>tail := tail (recv_buffer st) + n\<rparr>, n)"
    by (rule remove_cnt_eq [OF n'])
  have "rb_inv ((recv_buffer st)\<lparr>tail := tail (recv_buffer st) + n\<rparr>)"
    using inv n' by (intro rb_inv_advance) (auto simp: pf_inv_def)
  moreover have "unat (curr_buffer_size st - n) = unat (curr_buffer_size st) - unat n"
    using n by (simp add: unat_sub word_le_nat_alt)
  ultimately show ?thesis
    using inv n' rb_list_advance [OF n']
    by (simp add: pf_inv_def consume_def unread_def r readAvailable_def algebra_simps)
qed

lemma flat_consume:
  assumes inv: "pf_inv st" and fl: "flat st" and n: "unat n \<le> unat (curr_buffer_size st)"
  shows "flat (consume st n)"
proof -
  let ?rb = "recv_buffer st" and ?rb' = "recv_buffer (consume st n)"
  have sh: "rb_shape ?rb" "length (data_buff ?rb) = 16384"
    using inv by (auto simp: pf_inv_def rb_inv_def)
  have sh': "rb_shape ?rb'" "length (data_buff ?rb') = 16384"
    using pf_inv_consume [OF inv n] by (auto simp: pf_inv_def rb_inv_def)
  have "slot ?rb' (tail ?rb') = (unat (tail ?rb) + unat n) mod 16384"
    using pf_inv_consume [OF inv n] slot_add [OF sh'(1), of "tail ?rb" "unat n"] sh' by simp
  also have "\<dots> = (slot ?rb (tail ?rb) + unat n) mod 16384"
    using sh by (simp add: slot_mod mod_add_left_eq)
  also have "\<dots> \<le> slot ?rb (tail ?rb) + unat n" by simp
  finally have "slot ?rb' (tail ?rb') \<le> slot ?rb (tail ?rb) + unat n" .
  then show ?thesis
    using fl n pf_inv_consume [OF inv n] by (simp add: flat_def)
qed

text \<open>The length check on the signed length field, made on \<open>size_t\<close>.\<close>

lemma size_check:
  "MAX_PACKET_BUFFER_SIZE \<le> int_to_size_t b \<longleftrightarrow> sint b < 0 \<or> 2048 \<le> sint b"
proof (cases "sint b < 0")
  case True
  then show ?thesis
    using unat_int_to_size_t_neg [of b]
    by (simp add: MAX_PACKET_BUFFER_SIZE_def word_le_nat_alt)
next
  case False
  then show ?thesis
    using unat_int_to_size_t [of b]
    by (simp add: MAX_PACKET_BUFFER_SIZE_def word_le_nat_alt le_nat_iff)
qed

lemma packet_size_word:
  assumes "0 \<le> sint b" "sint b < 2048"
  shows "unat (int_to_size_t b + PACKET_HEAD_SIZE) = 40 + nat (sint b)"
    "int_to_size_t b = of_nat (nat (sint b))"
proof -
  have u: "unat (int_to_size_t b) = nat (sint b)" using assms by (simp add: unat_int_to_size_t)
  then show "int_to_size_t b = of_nat (nat (sint b))"
    using word_of_nat_unat [of "int_to_size_t b"] by simp
  have "nat (sint b) < 2048" using assms by simp
  then show "unat (int_to_size_t b + PACKET_HEAD_SIZE) = 40 + nat (sint b)"
    using u by (simp add: PACKET_HEAD_SIZE_def unat_word_ariths)
qed

lemma read_unread:
  assumes "pf_inv st" "flat st" "off + n \<le> length (unread st)"
  shows "read_block (data_buff (recv_buffer st)) (slot (recv_buffer st) (tail (recv_buffer st)) + off) n
     = Inr (take n (drop off (unread st)))"
  using assms read_block_contents [of "recv_buffer st" off n]
  by (simp add: pf_inv_def flat_def unread_def readAvailable_def)

lemma ucast_le_nat: "ucast (of_nat (le_nat (take 2 bs)) :: uint32) = (of_nat (le_nat (take 2 bs)) :: uint16)"
proof -
  have "le_nat (take 2 bs) < 256 ^ 2"
    using le_nat_bound [of "take 2 bs"] power_increasing [of "length (take 2 bs)" 2 "256::nat"]
    by simp
  then show ?thesis by (simp add: unsigned_of_nat take_bit_nat_eq_self)
qed

text \<open>
  One pass over a complete header that lies in one piece; where the body lies is left open.
\<close>

lemma recv_loop_unfold:
  assumes inv: "pf_inv st" and len: "40 \<le> length (unread st)"
    and p: "p = slot (recv_buffer st) (tail (recv_buffer st))" and hd: "p + 8 \<le> 16384"
  shows "recv_loop st acc =
      (let b = body_len (unread st) in
       if MAX_PACKET_BUFFER_SIZE \<le> int_to_size_t b then Inr (discard_all st, acc)
       else let s = int_to_size_t b + PACKET_HEAD_SIZE in
         if s \<le> curr_buffer_size st
         then bindR (read_block (data_buff (recv_buffer st)) (p + unat PACKET_HEAD_SIZE)
                (unat (int_to_size_t b))) (\<lambda>body.
             let st' = consume st s;
                 acc' = acc @ [\<lparr>command_id = of_nat (le_nat (take 2 (drop 2 (unread st)))),
                               packet_body = body, packet_size = int_to_size_t b\<rparr>]
             in if curr_buffer_size st' = 0 then Inr (st', acc') else recv_loop st' acc')
         else Inr (st, acc))"
proof -
  have pk: "peek (recv_buffer st) = Some p"
  proof -
    have "unread st \<noteq> []" using len by auto
    then show ?thesis by (simp add: peek_eq unread_def p)
  qed
  have h: "\<not> PACKET_HEAD_SIZE > curr_buffer_size st"
    using len length_unread [OF inv] by (simp add: PACKET_HEAD_SIZE_def word_less_nat_alt)
  have rd: "read_block (data_buff (recv_buffer st)) (p + off) n = Inr (take n (drop off (unread st)))"
    if "off + n \<le> 8" for off n
    using that inv len hd read_block_contents [of "recv_buffer st" off n]
    by (simp add: pf_inv_def unread_def p)
  show ?thesis
    using h pk rd [of 2 2] rd [of 4 4]
    by (simp add: recv_loop.simps [of st] body_len_def Let_def consume_def discard_all_def
        ucast_le_nat)
qed

lemma recv_loop_header_fault:
  assumes inv: "pf_inv st" and len: "40 \<le> length (unread st)"
    and hd: "16384 < slot (recv_buffer st) (tail (recv_buffer st)) + 8"
  shows "recv_loop st acc = Inl Out_Of_Bounds"
proof -
  let ?p = "slot (recv_buffer st) (tail (recv_buffer st))"
  have pk: "peek (recv_buffer st) = Some ?p"
  proof -
    have "unread st \<noteq> []" using len by auto
    then show ?thesis by (simp add: peek_eq unread_def)
  qed
  have h: "\<not> PACKET_HEAD_SIZE > curr_buffer_size st"
    using len length_unread [OF inv] by (simp add: PACKET_HEAD_SIZE_def word_less_nat_alt)
  have "length (data_buff (recv_buffer st)) = 16384" using inv by (simp add: pf_inv_def)
  then show ?thesis
    using h pk hd by (simp add: recv_loop.simps [of st] read_block_def)
qed

lemma recv_loop_step:
  assumes inv: "pf_inv st" and fl: "flat st"
  shows "recv_loop st acc =
     (case header_of (unread st) of
        Incomplete \<Rightarrow> Inr (st, acc)
      | Malformed \<Rightarrow> Inr (discard_all st, acc)
      | Complete n \<Rightarrow>
          (let st' = consume st (of_nat (40 + n)); acc' = acc @ [packet_of (unread st) n]
           in if curr_buffer_size st' = 0 then Inr (st', acc') else recv_loop st' acc'))"
proof (cases "length (unread st) < 40")
  case True
  then show ?thesis
    using length_unread [OF inv]
    by (simp add: recv_loop.simps [of st] header_of_def PACKET_HEAD_SIZE_def word_less_nat_alt)
next
  case False
  let ?b = "body_len (unread st)" and ?p = "slot (recv_buffer st) (tail (recv_buffer st))"
  note rd = read_unread [OF inv fl]
  have p8: "?p + 8 \<le> 16384" and l40: "40 \<le> length (unread st)"
    using False fl length_unread [OF inv] by (simp_all add: flat_def)
  note step = recv_loop_unfold [OF inv l40 refl p8, of acc]
  show ?thesis
  proof (cases "sint ?b < 0 \<or> 2048 \<le> sint ?b")
    case True
    then show ?thesis using False step by (simp add: size_check header_of_def Let_def)
  next
    case ok: False
    obtain n where n: "n = nat (sint ?b)" by blast
    have sz: "unat (int_to_size_t ?b + PACKET_HEAD_SIZE) = 40 + n" "int_to_size_t ?b = of_nat n"
      using packet_size_word [of ?b] ok n by auto
    have sw: "int_to_size_t ?b + PACKET_HEAD_SIZE = of_nat (40 + n)"
      using word_of_nat_unat [of "int_to_size_t ?b + PACKET_HEAD_SIZE"] sz(1) by simp
    have un: "unat (int_to_size_t ?b) = n" using ok n by (simp add: unat_int_to_size_t)
    have le: "int_to_size_t ?b + PACKET_HEAD_SIZE \<le> curr_buffer_size st \<longleftrightarrow>
        40 + n \<le> length (unread st)"
      using length_unread [OF inv] sz(1) by (simp add: word_le_nat_alt)
    have hd: "header_of (unread st)
        = (if length (unread st) < 40 + n then Incomplete else Complete n)"
      using False ok n by (simp add: header_of_def)
    have nocheck: "\<not> MAX_PACKET_BUFFER_SIZE \<le> int_to_size_t ?b"
      using ok by (simp add: size_check)
    have u40: "unat PACKET_HEAD_SIZE = 40" by (simp add: PACKET_HEAD_SIZE_def)
    show ?thesis
      using rd [of 40 n]
      unfolding step hd Let_def
      unfolding if_not_P [OF nocheck] le un u40
      unfolding sw
      unfolding sz(2) packet_of_def
      by (simp add: not_less)
  qed
qed

text \<open>
  The whole loop, by computation induction on the abstract parser: it returns the packets the
  abstract parser finds, keeps the rest, and never reads outside the array.
\<close>

lemma recv_loop_parse:
  assumes "pf_inv st" "flat st" "unread st = bs"
  shows "\<exists>st'. recv_loop st acc = Inr (st', acc @ fst (parse_stream bs)) \<and> pf_inv st' \<and>
    unread st' = snd (parse_stream bs) \<and> flat st' \<and>
    head (recv_buffer st') = head (recv_buffer st)"
  using assms
proof (induction bs arbitrary: st acc rule: parse_stream.induct)
  case (1 bs)
  note inv = "1.prems"(1) and fl = "1.prems"(2) and un = "1.prems"(3)
  note step = recv_loop_step [OF inv fl, of acc, unfolded un]
  show ?case
  proof (cases "header_of bs")
    case Incomplete
    then show ?thesis using step inv fl un by simp
  next
    case Malformed
    have "flat (discard_all st)"
      using pf_inv_discard_all [OF inv] slot_less [of "recv_buffer (discard_all st)"]
      by (simp add: flat_def pf_inv_def rb_inv_def discard_all_def less_imp_le)
    then show ?thesis
      using Malformed step pf_inv_discard_all [OF inv]
      by (simp add: discard_all_def consumerClear_def)
  next
    case (Complete n)
    let ?w = "of_nat (40 + n) :: size_t"
    have n: "40 + n \<le> length bs" "n < 2048" using header_of_Complete [OF Complete] by auto
    have w: "unat ?w = 40 + n" using n by (simp add: unat_of_nat del: of_nat_add)
    have le: "unat ?w \<le> unat (curr_buffer_size st)"
      using n w length_unread [OF inv] un by simp
    note c = pf_inv_consume [OF inv le]
    have fl': "flat (consume st ?w)" by (rule flat_consume [OF inv fl le])
    have un': "unread (consume st ?w) = drop (40 + n) bs" using c un w by simp
    let ?acc = "acc @ [packet_of bs n]"
    show ?thesis
    proof (cases "curr_buffer_size (consume st ?w) = 0")
      case True
      then have "drop (40 + n) bs = []"
        using length_unread [of "consume st ?w"] c un' by simp
      moreover have "header_of [] = Incomplete" by (simp add: header_of_def)
      ultimately show ?thesis
        using True step Complete c un' fl' by (simp add: Let_def del: of_nat_add)
    next
      case False
      have "\<exists>st'. recv_loop (consume st ?w) ?acc =
            Inr (st', ?acc @ fst (parse_stream (drop (40 + n) bs))) \<and> pf_inv st' \<and>
          unread st' = snd (parse_stream (drop (40 + n) bs)) \<and> flat st' \<and>
          head (recv_buffer st') = head (recv_buffer (consume st ?w))"
        using "1.IH" [OF Complete, of "consume st ?w" ?acc] c fl' un' by simp
      then show ?thesis
        using False step Complete c by (simp add: Let_def del: of_nat_add)
    qed
  qed
qed

text \<open>
  One call of \<open>format_recv_buffer\<close>: the guard keeps the unread bytes below 16384; past it the
  received bytes join the unread ones and the abstract parser is applied.
\<close>

definition room :: "cpacket_format \<Rightarrow> nat \<Rightarrow> bool" where
  "room st n \<longleftrightarrow> slot (recv_buffer st) (tail (recv_buffer st)) + length (unread st) + n \<le> 16384 \<and>
     length (unread st) + n < 16384"

lemma curr_less: "pf_inv st \<Longrightarrow> unat (curr_buffer_size st) \<le> 16384"
  by (auto simp: pf_inv_def rb_inv_def readAvailable_def)

lemma full_check:
  assumes "pf_inv st" "unat len < 2 ^ 32"
  shows "curr_buffer_size st + len \<ge> MAX_BUFFER_SIZE \<longleftrightarrow> 16384 \<le> length (unread st) + unat len"
    "unat (curr_buffer_size st + len) = length (unread st) + unat len"
proof -
  have "unat (curr_buffer_size st) + unat len < 2 ^ 64"
    using curr_less [OF assms(1)] assms(2) by simp
  then show u: "unat (curr_buffer_size st + len) = length (unread st) + unat len"
    using length_unread [OF assms(1)] by (simp add: unat_word_ariths)
  show "curr_buffer_size st + len \<ge> MAX_BUFFER_SIZE \<longleftrightarrow> 16384 \<le> length (unread st) + unat len"
    using u by (simp add: word_le_nat_alt MAX_BUFFER_SIZE_def)
qed

text \<open>The received bytes in the ring, before the loop runs.\<close>

definition receive :: "cpacket_format \<Rightarrow> byte list \<Rightarrow> size_t \<Rightarrow> cpacket_format" where
  "receive st received len =
     st\<lparr>recv_buffer := foldl put (recv_buffer st) (take (unat len) received),
        curr_buffer_size := curr_buffer_size st + len\<rparr>"

lemma receive_ok:
  assumes inv: "pf_inv st" and len: "unat len \<le> length received" "length (unread st) + unat len < 16384"
  shows "pf_inv (receive st received len)"
    "unread (receive st received len) = unread st @ take (unat len) received"
    "tail (recv_buffer (receive st received len)) = tail (recv_buffer st)"
    "head (recv_buffer (receive st received len)) = head (recv_buffer st) + len"
    "format_recv_buffer st received len = recv_loop (receive st received len) []"
proof -
  let ?rb = "recv_buffer st" and ?xs = "take (unat len) received"
  have rb: "rb_inv ?rb" "length (data_buff ?rb) = 16384"
    "length (unread st) = unat (head ?rb - tail ?rb)"
    using inv by (auto simp: pf_inv_def unread_def)
  have fits: "unat (head ?rb - tail ?rb) + length ?xs \<le> length (data_buff ?rb)"
    using rb len by simp
  note p = puts_ok [OF rb(1) fits]
  have hd: "unat (head (foldl put ?rb ?xs) - tail ?rb) = unat (head ?rb - tail ?rb) + unat len"
    using p len length_rb_list [of "foldl put ?rb ?xs"] by simp
  have c: "curr_buffer_size st = head ?rb - tail ?rb"
    using inv by (simp add: pf_inv_def readAvailable_def)
  have "unat (head (foldl put ?rb ?xs) - tail ?rb) = unat (head ?rb - tail ?rb + len)"
    using hd full_check(2) [OF inv, of len] len rb(3) unfolding c by simp
  then have "head (foldl put ?rb ?xs) - tail ?rb = head ?rb - tail ?rb + len"
    by (simp only: word_unat_eq_iff)
  then have h: "head (foldl put ?rb ?xs) = head ?rb + len"
    by (simp add: algebra_simps)
  show "head (recv_buffer (receive st received len)) = head ?rb + len"
    using h by (simp add: receive_def)
  show "pf_inv (receive st received len)"
    using inv p h by (simp add: pf_inv_def receive_def readAvailable_def algebra_simps rb(2))
  show "unread (receive st received len) = unread st @ ?xs"
    using p by (simp add: unread_def receive_def)
  show "tail (recv_buffer (receive st received len)) = tail ?rb"
    using p by (simp add: receive_def)
  show "format_recv_buffer st received len = recv_loop (receive st received len) []"
    using full_check(1) [OF inv, of len] len writeBuff_ok [OF rb(1), of len received] rb
    by (simp add: format_recv_buffer_def receive_def)
qed

lemma format_recv_refines_aux:
  assumes "pf_inv st" "unat len \<le> length received" "room st (unat len)"
  shows "\<exists>st'. format_recv_buffer st received len
      = Inr (st', fst (parse_stream (unread st @ take (unat len) received))) \<and>
    pf_inv st' \<and> unread st' = snd (parse_stream (unread st @ take (unat len) received)) \<and>
    head (recv_buffer st') = head (recv_buffer st) + len"
proof -
  let ?r = "receive st received len"
  have lt: "length (unread st) + unat len < 16384" using assms(3) by (simp add: room_def)
  note r = receive_ok [OF assms(1,2) lt]
  have "slot (recv_buffer ?r) = slot (recv_buffer st)"
    using r(1) assms(1) by (intro slot_cong) (simp add: pf_inv_def)
  then have "flat ?r"
    using r(3) length_unread [OF r(1)] assms(2,3) by (simp add: flat_def room_def r(2))
  from recv_loop_parse [OF r(1) this r(2), of "[]"] r(4,5) show ?thesis by auto
qed

text \<open>A block that does not fit is dropped whole, with nothing changed.\<close>

lemma format_recv_full_aux:
  assumes "pf_inv st" "unat len < 2 ^ 32" "16384 \<le> length (unread st) + unat len"
  shows "format_recv_buffer st received len = Inr (st, [])"
  using full_check(1) [OF assms(1,2)] assms(3) by (simp add: format_recv_buffer_def)

text \<open>
  A complete packet that reaches past the end of the array is read outside of it: the raw
  reads behind \<open>peek\<close> do not wrap around as the ring does.
\<close>

lemma recv_loop_straddle:
  assumes inv: "pf_inv st" and hd: "header_of (unread st) = Complete n"
    and out: "16384 < slot (recv_buffer st) (tail (recv_buffer st)) + 40 + n"
  shows "recv_loop st acc = Inl Out_Of_Bounds"
proof -
  let ?b = "body_len (unread st)" and ?p = "slot (recv_buffer st) (tail (recv_buffer st))"
  have len: "40 + n \<le> length (unread st)" using header_of_Complete [OF hd] by simp
  show ?thesis
  proof (cases "?p + 8 \<le> 16384")
    case False
    then show ?thesis using recv_loop_header_fault [OF inv] len by simp
  next
    case True
    have b: "0 \<le> sint ?b" "sint ?b < 2048" "n = nat (sint ?b)"
      using hd by (auto simp: header_of_def split: if_splits)
    have un: "unat (int_to_size_t ?b) = n" using b by (simp add: unat_int_to_size_t)
    have sz: "unat (int_to_size_t ?b + PACKET_HEAD_SIZE) = 40 + n"
      using packet_size_word(1) [of ?b] b by simp
    have le: "int_to_size_t ?b + PACKET_HEAD_SIZE \<le> curr_buffer_size st"
      using length_unread [OF inv] len sz by (simp add: word_le_nat_alt)
    have nocheck: "\<not> MAX_PACKET_BUFFER_SIZE \<le> int_to_size_t ?b"
      using b by (simp add: size_check)
    have u40: "unat PACKET_HEAD_SIZE = 40" by (simp add: PACKET_HEAD_SIZE_def)
    have f: "read_block (data_buff (recv_buffer st)) (?p + unat PACKET_HEAD_SIZE)
        (unat (int_to_size_t ?b)) = Inl Out_Of_Bounds"
      using out inv by (simp add: read_block_def un u40 pf_inv_def)
    show ?thesis
      using recv_loop_unfold [OF inv _ refl True, of acc] len
      by (simp only: Let_def nocheck le f if_True if_False bindR_simps)
  qed
qed

lemma format_recv_straddle_aux:
  assumes inv: "pf_inv st" and len: "unat len \<le> length received" "length (unread st) + unat len < 16384"
    and hd: "header_of (unread st @ take (unat len) received) = Complete n"
    and out: "16384 < slot (recv_buffer st) (tail (recv_buffer st)) + 40 + n"
  shows "format_recv_buffer st received len = Inl Out_Of_Bounds"
proof -
  note r = receive_ok [OF inv len]
  have "slot (recv_buffer (receive st received len)) = slot (recv_buffer st)"
    using r(1) inv by (intro slot_cong) (simp add: pf_inv_def)
  then show ?thesis
    using recv_loop_straddle [OF r(1), of n] hd out r by simp
qed

end
