(* ===== verification/Packet_Props.thy ===== *)
theory Packet_Props
  imports Packet_Stream
begin

text \<open>
  The properties of the packet format: sending, receiving, the round trip between them, runs
  over a sequence of reads, and the faults that raw pointers and unsigned arithmetic allow.
\<close>

section \<open>The wire format and format\_send\_buffer\<close>

text \<open>A packet on the wire: version, command, body length, 32 filler bytes, body.\<close>

definition wire :: "uint16 \<Rightarrow> byte list \<Rightarrow> byte list \<Rightarrow> byte list" where
  "wire command filler body =
     nat_le 2 1 @ nat_le 2 (unat command) @ nat_le 4 (length body) @ filler @ body"

lemma take_drop_wire:
  assumes "length filler = 32"
  shows "take 2 (drop 2 (wire c filler body @ xs)) = nat_le 2 (unat c)"
    "take 4 (drop 4 (wire c filler body @ xs)) = nat_le 4 (length body)"
    "drop 40 (wire c filler body @ xs) = body @ xs"
    "length (wire c filler body) = 40 + length body"
  using assms by (simp_all add: wire_def)

lemma header_of_wire:
  assumes "length filler = 32" "length body < 2048"
  shows "header_of (wire c filler body @ xs) = Complete (length body)"
proof -
  have "body_len (wire c filler body @ xs) = of_nat (length body)"
    unfolding body_len_def take_drop_wire(2) [OF assms(1)]
    using assms(2) by (simp add: le_nat_nat_le)
  moreover have "sint (of_nat (length body) :: uint32) = int (length body)"
    using assms(2) by (simp add: signed_of_nat signed_take_bit_int_eq_self)
  ultimately show ?thesis
    using assms by (simp add: header_of_def take_drop_wire)
qed

lemma packet_of_wire:
  assumes "length filler = 32" "length body < 2048"
  shows "packet_of (wire c filler body @ xs) (length body) =
    \<lparr>command_id = c, packet_body = body, packet_size = of_nat (length body)\<rparr>"
proof -
  have "unat c < 256 ^ 2" using unsigned_less [of c] by simp
  then have "(of_nat (unat c mod 256 ^ 2) :: uint16) = c" by simp
  then show ?thesis
    unfolding packet_of_def take_drop_wire(1,3) [OF assms(1)] le_nat_nat_le by simp
qed

lemma drop_wire:
  "length filler = 32 \<Longrightarrow> drop (40 + length body) (wire c filler body @ xs) = xs"
  by (simp add: wire_def)

lemma parse_stream_wire:
  assumes "length filler = 32" "length body < 2048"
  shows "parse_stream (wire c filler body @ xs) =
    (\<lparr>command_id = c, packet_body = body, packet_size = of_nat (length body)\<rparr> # fst (parse_stream xs),
     snd (parse_stream xs))"
  "stream_ok (wire c filler body @ xs) = stream_ok xs"
  using header_of_wire [OF assms, of c xs] packet_of_wire [OF assms, of c xs] drop_wire [OF assms(1), of body c xs]
  by simp_all

lemma parse_stream_Nil [simp]: "parse_stream [] = ([], [])" "stream_ok []"
  by (simp_all add: header_of_def)

text \<open>The writes into the send buffer lay the wire format out.\<close>

lemma frame_layout:
  assumes "length v = 2" "length c = 2" "length l = 4" "length sb = 2048"
    "40 + length bytes \<le> 2048"
  shows "bindR (write_block sb 0 v) (\<lambda>b1. bindR (write_block b1 2 c) (\<lambda>b2.
      bindR (write_block b2 4 l) (\<lambda>b3. bindR (write_block b3 40 bytes) f)))
    = f (v @ c @ l @ take 32 (drop 8 sb) @ bytes @ drop (40 + length bytes) sb)"
  using assms by (simp add: write_block_def)

lemma format_send_wire:
  assumes inv: "length (send_buffer st) = 2048"
    and len: "unat n + 40 \<le> 2048" and src: "unat n \<le> length body"
  shows "\<exists>st'. format_send_buffer st c body n fl
      = Inr (st', wire c (take 32 (drop 8 (send_buffer st))) (take (unat n) body), 40 + n) \<and>
    recv_buffer st' = recv_buffer st \<and> curr_buffer_size st' = curr_buffer_size st \<and>
    length (send_buffer st') = 2048"
proof -
  have w: "unat (n + 40) = unat n + 40" using len by (simp add: unat_word_ariths)
  have guard: "\<not> n + PACKET_HEAD_SIZE > MAX_PACKET_SEND_SIZE"
    using len w by (simp add: PACKET_HEAD_SIZE_def MAX_PACKET_SEND_SIZE_def word_less_nat_alt)
  have u: "unat (ucast n :: uint32) = unat n"
    using len by (simp add: unsigned_ucast_eq take_bit_nat_eq_self)
  let ?bytes = "take (unat n) body"
  define frame where "frame = nat_le 2 1 @ nat_le 2 (unat c) @ nat_le 4 (unat n) @
      take 32 (drop 8 (send_buffer st)) @ ?bytes @ drop (40 + unat n) (send_buffer st)"
  have rb: "read_block (c_str body) 0 (unat n) = Inr ?bytes"
    using src by (simp add: read_block_def c_str_def)
  have lay: "bindR (write_block (send_buffer st) 0 (nat_le 2 1)) (\<lambda>b1.
      bindR (write_block b1 2 (nat_le 2 (unat c))) (\<lambda>b2.
      bindR (write_block b2 4 (nat_le 4 (unat n))) (\<lambda>b3. bindR (write_block b3 40 ?bytes) f)))
      = f frame" for f :: "byte list \<Rightarrow> (cpacket_format \<times> byte list \<times> size_t) result"
    unfolding frame_def using len src by (subst frame_layout) (simp_all add: inv)
  have "format_send_buffer st c body n fl =
      Inr (st\<lparr>send_buffer := frame\<rparr>, take (unat (8 + 32 + n)) frame, 8 + 32 + n)"
    using guard lay by (simp add: format_send_buffer_def Let_def u rb)
  moreover have "take (unat (8 + 32 + n)) frame = wire c (take 32 (drop 8 (send_buffer st))) ?bytes"
    using w src inv by (simp add: frame_def wire_def add.commute)
  moreover have "length frame = 2048" using inv len src by (simp add: frame_def)
  ultimately show ?thesis by simp
qed

section \<open>Runs over a sequence of reads\<close>

text \<open>The calls a connection's read handler makes, one per completed read.\<close>

fun feed :: "cpacket_format \<Rightarrow> byte list list \<Rightarrow> (cpacket_format \<times> crecv_packet list) result" where
  "feed st [] = Inr (st, [])"
| "feed st (c # cs) =
     bindR (format_recv_buffer st c (of_nat (length c))) (\<lambda>(st', ps).
     bindR (feed st' cs) (\<lambda>(st'', qs). Inr (st'', ps @ qs)))"

text \<open>During the first 16383 bytes of a connection the head of the ring counts them.\<close>

definition early :: "cpacket_format \<Rightarrow> nat \<Rightarrow> bool" where
  "early st cnt \<longleftrightarrow> pf_inv st \<and> unat (head (recv_buffer st)) = cnt \<and>
     unat (tail (recv_buffer st)) + length (unread st) = cnt"

lemma early_init: "length m = 16384 \<Longrightarrow> early (cpacket_format_init m) 0"
  using pf_inv_init [of m]
  by (simp add: early_def) (simp add: cpacket_format_init_def Ringbuffer_def)

lemma early_step:
  assumes e: "early st cnt" and lt: "cnt + length c < 16384"
  shows "\<exists>st'. format_recv_buffer st c (of_nat (length c))
      = Inr (st', fst (parse_stream (unread st @ c))) \<and>
    early st' (cnt + length c) \<and> unread st' = snd (parse_stream (unread st @ c))"
proof -
  let ?n = "of_nat (length c) :: size_t"
  have u: "unat ?n = length c" using lt by (simp add: unat_of_nat)
  have inv: "pf_inv st" and t: "unat (tail (recv_buffer st)) + length (unread st) = cnt"
    and h: "unat (head (recv_buffer st)) = cnt"
    using e by (auto simp: early_def)
  have "slot (recv_buffer st) (tail (recv_buffer st)) \<le> unat (tail (recv_buffer st))"
    using inv slot_mod [of "recv_buffer st"] by (simp add: pf_inv_def rb_inv_def)
  then have "room st (length c)" using t lt by (simp add: room_def)
  then obtain st' where st': "format_recv_buffer st c ?n = Inr (st', fst (parse_stream (unread st @ c)))"
      "pf_inv st'" "unread st' = snd (parse_stream (unread st @ c))"
      "head (recv_buffer st') = head (recv_buffer st) + ?n"
    using format_recv_refines_aux [OF inv, of ?n c] u by auto
  have h': "unat (head (recv_buffer st')) = cnt + length c"
    using h lt u st'(4) by (simp add: unat_word_ariths)
  have len: "length (unread st') \<le> cnt + length c"
    using st'(3) parse_stream_rest_length [of "unread st @ c"] t by simp
  have "head (recv_buffer st') - tail (recv_buffer st') = of_nat (length (unread st'))"
    by (simp add: unread_def)
  then have "tail (recv_buffer st') = head (recv_buffer st') - of_nat (length (unread st'))"
    by (simp add: algebra_simps)
  moreover have "unat (of_nat (length (unread st')) :: size_t) = length (unread st')"
    using len lt by (simp add: unat_of_nat)
  ultimately have "unat (tail (recv_buffer st')) = cnt + length c - length (unread st')"
    using h' len by (simp add: unat_sub word_le_nat_alt)
  then show ?thesis using st' h' len by (simp add: early_def)
qed

lemma feed_early:
  "early st cnt \<Longrightarrow> header_of (unread st) = Incomplete \<Longrightarrow>
     cnt + length (concat cs) < 16384 \<Longrightarrow> stream_ok (unread st @ concat cs) \<Longrightarrow>
     \<exists>st'. feed st cs = Inr (st', fst (parse_stream (unread st @ concat cs))) \<and>
       early st' (cnt + length (concat cs)) \<and> unread st' = snd (parse_stream (unread st @ concat cs))"
proof (induction cs arbitrary: st cnt)
  case Nil
  then show ?case by simp
next
  case (Cons c cs)
  have lt: "cnt + length c < 16384" using Cons.prems(3) by simp
  obtain st' where st': "format_recv_buffer st c (of_nat (length c))
        = Inr (st', fst (parse_stream (unread st @ c)))"
      "early st' (cnt + length c)" "unread st' = snd (parse_stream (unread st @ c))"
    using early_step [OF Cons.prems(1) lt] by blast
  have ok: "stream_ok (unread st @ c)" "stream_ok (unread st' @ concat cs)"
    using stream_ok_append [of "unread st @ c" "concat cs"] Cons.prems(4) st'(3) by auto
  have split: "parse_stream (unread st @ concat (c # cs)) =
      (fst (parse_stream (unread st @ c)) @ fst (parse_stream (unread st' @ concat cs)),
       snd (parse_stream (unread st' @ concat cs)))"
    using parse_stream_append [OF ok(1), of "concat cs"] st'(3) by simp
  have "cnt + length c + length (concat cs) < 16384" using Cons.prems(3) by simp
  moreover have "header_of (unread st') = Incomplete" using st'(3) parse_stream_rest by simp
  ultimately show ?case using Cons.IH [OF st'(2) _ _ ok(2)] st'(1) split
    by (auto simp: add.assoc)
qed

lemma feed_init:
  assumes "length m = 16384" "length (concat cs) < 16384" "stream_ok (concat cs)"
  shows "\<exists>st'. feed (cpacket_format_init m) cs = Inr (st', fst (parse_stream (concat cs))) \<and>
    early st' (length (concat cs)) \<and> unread st' = snd (parse_stream (concat cs))"
proof -
  have "header_of [] = Incomplete" by (simp add: header_of_def)
  then show ?thesis
    using feed_early [OF early_init [OF assms(1)], of cs] pf_inv_init [OF assms(1)] assms(2,3)
    by simp
qed

lemma feed_append:
  "feed st (xs @ ys) = bindR (feed st xs) (\<lambda>(st', ps).
     bindR (feed st' ys) (\<lambda>(st'', qs). Inr (st'', ps @ qs)))"
proof (induction xs arbitrary: st)
  case Nil
  then show ?case by (cases "feed st ys") auto
next
  case (Cons c cs)
  show ?case
  proof (cases "format_recv_buffer st c (of_nat (length c))")
    case (Inr r)
    obtain st1 ps where "r = (st1, ps)" by fastforce
    with Inr Cons [of st1] show ?thesis
      by (cases "feed st1 cs"; auto; case_tac "feed a ys"; auto)
  qed simp
qed

lemma parse_stream_replicate:
  assumes "length filler = 32" "length body < 2048"
  shows "snd (parse_stream (concat (replicate k (wire c filler body)))) = [] \<and>
    stream_ok (concat (replicate k (wire c filler body)))"
proof (induction k)
  case 0
  then show ?case by simp
next
  case (Suc k)
  then show ?case using parse_stream_wire [OF assms] by simp
qed

text \<open>Eight packets of 2040 bytes fill the ring to 16320; the next 140 bytes cross its end.\<close>

lemma straddle_run:
  assumes m: "length m = 16384"
  defines "P \<equiv> wire 1 (replicate 32 0) (replicate 2000 0)"
    and "Q \<equiv> wire 1 (replicate 32 0) (replicate 100 0)"
  shows "feed (cpacket_format_init m) (replicate 8 P @ [Q]) = Inl Out_Of_Bounds"
proof -
  have lP: "length P = 2040" and lQ: "length Q = 140"
    by (simp_all add: P_def Q_def wire_def)
  have len: "length (concat (replicate 8 P)) = 16320"
    by (simp add: length_concat lP sum_list_replicate)
  have pr: "snd (parse_stream (concat (replicate 8 P))) = []" "stream_ok (concat (replicate 8 P))"
    using parse_stream_replicate [of "replicate 32 0" "replicate 2000 0" 8 1] by (simp_all add: P_def)
  obtain st ps where st: "feed (cpacket_format_init m) (replicate 8 P) = Inr (st, ps)"
      "early st 16320" "unread st = []"
    using feed_init [OF m, of "replicate 8 P"] pr len by auto
  have inv: "pf_inv st" and t: "unat (tail (recv_buffer st)) = 16320"
    using st(2,3) by (auto simp: early_def)
  have sl: "slot (recv_buffer st) (tail (recv_buffer st)) = 16320"
    using inv t slot_mod [of "recv_buffer st"] by (simp add: pf_inv_def rb_inv_def)
  have "header_of (unread st @ take (length Q) Q) = Complete 100"
    using header_of_wire [of "replicate 32 0" "replicate 100 0" 1 "[]"] st(3) by (simp add: Q_def)
  then have "format_recv_buffer st Q (of_nat (length Q)) = Inl Out_Of_Bounds"
    using format_recv_straddle_aux [OF inv, of "of_nat (length Q)" Q 100] sl st(3) lQ by simp
  then show ?thesis by (simp add: feed_append st(1))
qed

section \<open>Properties\<close>

text \<open>C1: While the unread bytes together with the received block lie in one piece of the ring,
  \<open>format_recv_buffer\<close> returns without a fault exactly the packets the abstract stream parser
  finds in the unread bytes followed by the block, and keeps the parser's rest as unread.\<close>
theorem format_recv_refines_stream:
  assumes "pf_inv st" "unat len \<le> length received" "room st (unat len)"
  shows "\<exists>st'. format_recv_buffer st received len
      = Inr (st', fst (parse_stream (unread st @ take (unat len) received))) \<and>
    pf_inv st' \<and> unread st' = snd (parse_stream (unread st @ take (unat len) received))"
  using format_recv_refines_aux [OF assms] by blast

theorem format_recv_refines_stream_witness:
  "\<exists>st'. format_recv_buffer (cpacket_format_init (replicate 16384 0)) [1, 2, 3] 3
      = Inr (st', fst (parse_stream ([] @ take 3 [1, 2, 3]))) \<and>
    pf_inv st' \<and> unread st' = snd (parse_stream ([] @ take 3 [1, 2, 3]))"
proof -
  let ?st = "cpacket_format_init (replicate 16384 0)"
  have i: "pf_inv ?st" "unread ?st = []" using pf_inv_init [of "replicate 16384 0"] by simp_all
  have "room ?st (unat (3 :: size_t))"
    using i by (simp add: room_def) (simp add: cpacket_format_init_def Ringbuffer_def slot_def)
  then show ?thesis
    using format_recv_refines_stream [OF i(1), of 3 "[1, 2, 3]"] i(2) by simp
qed





text \<open>A complete packet that reaches past the end of the ring's array is read outside the
  array: the call ends in undefined behaviour, whatever was received before.\<close>
lemma recv_straddle_out_of_bounds:
  assumes "pf_inv st" "unat len \<le> length received" "length (unread st) + unat len < 16384"
    and "header_of (unread st @ take (unat len) received) = Complete n"
    and "16384 < slot (recv_buffer st) (tail (recv_buffer st)) + 40 + n"
  shows "format_recv_buffer st received len = Inl Out_Of_Bounds"
  by (rule format_recv_straddle_aux [OF assms])

lemma pf_inv_shifted:
  "pf_inv \<lparr>recv_buffer = \<lparr>head = 16380, tail = 16380, data_buff = replicate 16384 0\<rparr>,
           send_buffer = replicate 2048 0, curr_buffer_size = 0\<rparr>"
proof -
  have "\<exists>k\<le>63. (16384::nat) = 2 ^ k" by (rule exI [of _ 14]) simp
  then show ?thesis by (simp add: pf_inv_def rb_inv_def rb_shape_def readAvailable_def)
qed

lemma recv_straddle_out_of_bounds_witness:
  "format_recv_buffer \<lparr>recv_buffer = \<lparr>head = 16380, tail = 16380, data_buff = replicate 16384 0\<rparr>,
      send_buffer = replicate 2048 0, curr_buffer_size = 0\<rparr> (wire 7 (replicate 32 0) [1]) 41
    = Inl Out_Of_Bounds"
proof (rule recv_straddle_out_of_bounds [where n = 1])
  let ?st = "\<lparr>recv_buffer = \<lparr>head = 16380, tail = 16380, data_buff = replicate 16384 0\<rparr>,
      send_buffer = replicate 2048 0, curr_buffer_size = 0\<rparr> :: cpacket_format"
  show "pf_inv ?st" by (rule pf_inv_shifted)
  have u: "unread ?st = []" by (simp add: unread_def rb_list_def)
  have l: "length (wire 7 (replicate 32 0) [1]) = 41" by (simp add: wire_def)
  then show "unat (41 :: size_t) \<le> length (wire 7 (replicate 32 0) [1])" by simp
  show "length (unread ?st) + unat (41 :: size_t) < 16384" by (simp add: u)
  show "header_of (unread ?st @ take (unat (41 :: size_t)) (wire 7 (replicate 32 0) [1])) = Complete 1"
    using header_of_wire [of "replicate 32 0" "[1]" 7 "[]"] l u by simp
  have "slot (recv_buffer ?st) (tail (recv_buffer ?st)) = 16380"
    using slot_mod [of "recv_buffer ?st" 16380] pf_inv_shifted by (simp add: pf_inv_def rb_inv_def)
  then show "16384 < slot (recv_buffer ?st) (tail (recv_buffer ?st)) + 40 + 1" by simp
qed

text \<open>The out-of-bounds read is reached from a fresh object by well-formed packets alone, in
  reads no longer than the client's receive buffer, within the first 16460 bytes.\<close>
lemma recv_straddle_reachable:
  assumes "length memory = 16384"
  shows "\<exists>cs. stream_ok (concat cs) \<and> (\<forall>c \<in> set cs. length c \<le> recv_buffer_max_size) \<and>
    length (concat cs) = 16460 \<and> feed (cpacket_format_init memory) cs = Inl Out_Of_Bounds"
proof -
  define P where "P = wire 1 (replicate 32 0) (replicate 2000 0)"
  define Q where "Q = wire 1 (replicate 32 0) (replicate 100 0)"
  have l: "length P = 2040" "length Q = 140" by (simp_all add: P_def Q_def wire_def)
  have run: "feed (cpacket_format_init memory) (replicate 8 P @ [Q]) = Inl Out_Of_Bounds"
    unfolding P_def Q_def by (rule straddle_run [OF assms])
  have "stream_ok (concat (replicate 8 P) @ xs) = stream_ok xs" for xs
    by (simp add: numeral_eq_Suc P_def parse_stream_wire(2))
  moreover have "stream_ok Q"
    using parse_stream_wire(2) [of "replicate 32 0" "replicate 100 0" 1 "[]"] by (simp add: Q_def)
  ultimately have "stream_ok (concat (replicate 8 P @ [Q]))" by simp
  moreover have "length (concat (replicate 8 P @ [Q])) = 16460"
    by (simp add: length_concat l sum_list_replicate)
  ultimately show ?thesis
    using run l by (intro exI [of _ "replicate 8 P @ [Q]"]) (auto simp: recv_buffer_max_size_def)
qed

lemma recv_straddle_reachable_witness:
  "\<exists>cs. stream_ok (concat cs) \<and> (\<forall>c \<in> set cs. length c \<le> recv_buffer_max_size) \<and>
    length (concat cs) = 16460 \<and>
    feed (cpacket_format_init (replicate 16384 0)) cs = Inl Out_Of_Bounds"
  by (rule recv_straddle_reachable) simp

text \<open>A block that would fill the ring is dropped whole: nothing of the state changes and no
  packet comes back, so the bytes are lost to the stream.\<close>
lemma recv_full_drops_block:
  assumes "pf_inv st" "unat len \<le> recv_buffer_max_size" "16384 \<le> length (unread st) + unat len"
  shows "format_recv_buffer st received len = Inr (st, [])"
  using format_recv_full_aux [OF assms(1) _ assms(3)] assms(2) by (simp add: recv_buffer_max_size_def)

lemma recv_full_drops_block_witness:
  "\<exists>st. pf_inv st \<and> format_recv_buffer st (replicate 10240 0) 10240 = Inr (st, [])"
proof -
  let ?st = "\<lparr>recv_buffer = \<lparr>head = 10240, tail = 0, data_buff = replicate 16384 0\<rparr>,
      send_buffer = replicate 2048 0, curr_buffer_size = 10240\<rparr> :: cpacket_format"
  have "\<exists>k\<le>63. (16384::nat) = 2 ^ k" by (rule exI [of _ 14]) simp
  then have i: "pf_inv ?st" by (simp add: pf_inv_def rb_inv_def rb_shape_def readAvailable_def)
  have "length (unread ?st) = 10240" using length_unread [OF i] by simp
  then show ?thesis
    using recv_full_drops_block [OF i, of 10240 "replicate 10240 0"] i
    by (auto simp: recv_buffer_max_size_def)
qed

text \<open>A body longer than 2008 bytes is refused: the result is the empty string, the object is
  unchanged, and the out parameter keeps the value the caller put there.\<close>
lemma send_too_long_refused:
  assumes "2008 < unat n" "unat n < 2 ^ 64 - 40"
  shows "format_send_buffer st c body n fl = Inr (st, [], fl)"
proof -
  have "unat (n + 40) = unat n + 40" using assms(2) by (simp add: unat_word_ariths)
  then have "n + PACKET_HEAD_SIZE > MAX_PACKET_SEND_SIZE"
    using assms(1) by (simp add: PACKET_HEAD_SIZE_def MAX_PACKET_SEND_SIZE_def word_less_nat_alt)
  then show ?thesis by (simp add: format_send_buffer_def)
qed

lemma send_too_long_refused_witness:
  "format_send_buffer (cpacket_format_init []) 1 [] 2009 0 = Inr (cpacket_format_init [], [], 0)"
  by (rule send_too_long_refused) simp_all

text \<open>A length that is a small negative \<open>int\<close> of the caller wraps past the length check, and
  the body copy then reads outside the string.\<close>
lemma send_negative_length_out_of_bounds:
  assumes "- 40 \<le> sint i" "sint i < 0" "length body < 2 ^ 62"
  shows "format_send_buffer st c body (int_to_size_t i) fl = Inl Out_Of_Bounds"
proof -
  let ?n = "int_to_size_t i"
  have big: "2 ^ 63 \<le> unat ?n" by (rule unat_int_to_size_t_neg [OF assms(2)])
  have "uint (?n + 40) = (uint ?n + 40) mod 2 ^ 64" by (simp add: uint_word_ariths)
  also have "\<dots> = (sint i + 40 + 2 ^ 64) mod 2 ^ 64"
    using uint_int_to_size_t_neg [OF assms(2)] by (simp add: algebra_simps)
  also have "\<dots> = (sint i + 40) mod 2 ^ 64" by (rule mod_add_self2)
  also have "\<dots> = sint i + 40"
    using assms(1,2) by (intro mod_pos_pos_trivial) simp_all
  finally have "uint (?n + 40) = sint i + 40" .
  then have guard: "\<not> ?n + PACKET_HEAD_SIZE > MAX_PACKET_SEND_SIZE"
    using assms(2) by (simp add: PACKET_HEAD_SIZE_def MAX_PACKET_SEND_SIZE_def word_less_def)
  have rd: "read_block (c_str body) 0 (unat ?n) = Inl Out_Of_Bounds"
    using big assms(3) by (simp add: read_block_def c_str_def)
  have wr: "write_block m p b = Inl Out_Of_Bounds \<or> (\<exists>m'. write_block m p b = Inr m')"
    for m p and b :: "byte list" by (simp add: write_block_def)
  show ?thesis
    using guard rd unfolding format_send_buffer_def Let_def
    by (auto simp: write_block_def bindR_def split: sum.splits if_splits)
qed

lemma send_negative_length_out_of_bounds_witness:
  "format_send_buffer (cpacket_format_init []) 1 [65, 66] (int_to_size_t (- 1)) 0 = Inl Out_Of_Bounds"
  by (rule send_negative_length_out_of_bounds) simp_all

end
