(* ===== verification/IO_System.thy ===== *)
theory IO_System
  imports TCP_Client UDP_Client TTY_Client Packet_Props
begin

text \<open>
  The IO clients at work: the handlers of their asynchronous operations as the io thread calls
  them, the messages they post as a logic thread runs them, and the calls of other threads. The
  contract the three clients share is a locale, interpreted on each of them; the repository's
  packet format is one instance of the format parameter.
\<close>

section \<open>The repository's packet format as the format of a client\<close>

definition repo_env :: "(asio_error \<Rightarrow> byte list) \<Rightarrow> (string \<Rightarrow> bool) \<Rightarrow> cpacket_format io_env" where
  "repo_env msg addr =
     \<lparr>message = msg, valid_address = addr,
      recv_format = (\<lambda>pf _ received n. format_recv_buffer pf received n),
      send_format = (\<lambda>pf _ command body n fl. format_send_buffer pf command body n fl)\<rparr>"

section \<open>Completions, tasks and calls\<close>

text \<open>
  What happens to a client: operation \<open>n\<close> completes with an error or with data (what a read
  received; of a write, the bytes that went out); a logic thread runs the next message; another
  thread calls.
\<close>

datatype client_event =
    Ev_Done nat error_code "byte list"
  | Ev_Run
  | Ev_Close
  | Ev_Reconnect
  | Ev_Timeout int
  | Ev_Write "byte list" size_t
  | Ev_Send uint16 "byte list" size_t

definition drop_nth :: "nat \<Rightarrow> 'a list \<Rightarrow> 'a list" where
  "drop_nth n xs = take n xs @ drop (Suc n) xs"

text \<open>A result an operation may have: the forced error, or any error, or success.\<close>

definition may_complete :: "io_op \<times> error_code \<Rightarrow> error_code \<Rightarrow> byte list \<Rightarrow> bool" where
  "may_complete p ec data =
     (case p of
        (op, Some e) \<Rightarrow> ec = Some e
      | (Op_Connect, None) \<Rightarrow> data = []
      | (Op_Read, None) \<Rightarrow> length data \<le> recv_buffer_max_size
      | (Op_Write b, None) \<Rightarrow> (ec = None \<longrightarrow> data = b))"

definition tcp_done ::
  "'pf io_env \<Rightarrow> 'pf io_client \<Rightarrow> int \<Rightarrow> int \<Rightarrow> nat \<Rightarrow> error_code \<Rightarrow> byte list \<Rightarrow> 'pf io_client result option" where
  "tcp_done env cl count now n ec data =
     (if n < length (pending_ops cl) \<and> may_complete (pending_ops cl ! n) ec data
      then let cl1 = cl\<lparr>pending_ops := drop_nth n (pending_ops cl)\<rparr>
        in Some (case fst (pending_ops cl ! n) of
             Op_Connect \<Rightarrow> Inr (tcp_connect_handler env cl1 count now ec)
           | Op_Read \<Rightarrow> tcp_on_read env cl1 count now ec data
           | Op_Write b \<Rightarrow>
               Inr (tcp_on_write env (if ec = None then cl1\<lparr>wire_out := wire_out cl1 @ data\<rparr> else cl1)
                      count now ec (length data)))
      else None)"

definition udp_done ::
  "'pf io_env \<Rightarrow> 'pf io_client \<Rightarrow> int \<Rightarrow> int \<Rightarrow> nat \<Rightarrow> error_code \<Rightarrow> byte list \<Rightarrow> 'pf io_client result option" where
  "udp_done env cl count now n ec data =
     (if n < length (pending_ops cl) \<and> may_complete (pending_ops cl ! n) ec data
      then let cl1 = cl\<lparr>pending_ops := drop_nth n (pending_ops cl)\<rparr>
        in Some (case fst (pending_ops cl ! n) of
             Op_Connect \<Rightarrow> Inr (udp_connect_handler env cl1 count now ec)
           | Op_Read \<Rightarrow> udp_on_read env cl1 count now ec data
           | Op_Write b \<Rightarrow>
               Inr (udp_on_write env (if ec = None then cl1\<lparr>wire_out := wire_out cl1 @ data\<rparr> else cl1)
                      count now ec (length data)))
      else None)"

text \<open>A write to a serial port is one \<open>async_write_some\<close>, so it may end after a part of the bytes.\<close>

definition tty_done ::
  "'pf io_env \<Rightarrow> 'pf tty_client \<Rightarrow> int \<Rightarrow> int \<Rightarrow> nat \<Rightarrow> error_code \<Rightarrow> byte list \<Rightarrow> 'pf tty_client result option" where
  "tty_done env cl count now n ec data =
     (if n < length (pending_ops cl)
      then let cl1 = cl\<lparr>pending_ops := drop_nth n (pending_ops cl)\<rparr>
        in (case pending_ops cl ! n of
             (Op_Write b, None) \<Rightarrow>
               (if data = take (length data) b
                then Some (Inr (tty_on_write env
                       (if ec = None then cl1\<lparr>wire_out := wire_out cl1 @ data\<rparr> else cl1) count now ec (length data)))
                else None)
           | (op, forced) \<Rightarrow>
               (if may_complete (op, forced) ec data
                then Some (case op of
                  Op_Write b \<Rightarrow> Inr (tty_on_write env cl1 count now ec 0)
                | _ \<Rightarrow> tty_on_read env cl1 count now ec data)
                else None))
      else None)"

definition tcp_run_task :: "'pf io_env \<Rightarrow> 'pf io_client \<Rightarrow> 'pf io_client result option" where
  "tcp_run_task env cl =
     (case posted cl of
        [] \<Rightarrow> None
      | (_, Do_Message cid packet) # rest \<Rightarrow> Some (Inr (do_message (cl\<lparr>posted := rest\<rparr>) cid packet))
      | (_, Dispose_Message cid packet) # rest \<Rightarrow> Some (Inr (do_message (cl\<lparr>posted := rest\<rparr>) cid packet))
      | (_, Reconnect) # rest \<Rightarrow> Some (tcp_reconnect env (cl\<lparr>posted := rest\<rparr>)))"

definition tcp_step ::
  "'pf io_env \<Rightarrow> int \<Rightarrow> int \<Rightarrow> 'pf io_client \<Rightarrow> client_event \<Rightarrow> 'pf io_client result option" where
  "tcp_step env count now cl e =
     (case e of
        Ev_Done n ec data \<Rightarrow> tcp_done env cl count now n ec data
      | Ev_Run \<Rightarrow> tcp_run_task env cl
      | Ev_Close \<Rightarrow> Some (Inr (tcp_close_client_socket cl))
      | Ev_Reconnect \<Rightarrow> Some (tcp_reconnect env cl)
      | Ev_Timeout seconds \<Rightarrow> Some (tcp_do_check_timeout env cl seconds)
      | Ev_Write data len \<Rightarrow> Some (tcp_do_write_immediately cl data len)
      | Ev_Send command data len \<Rightarrow> Some (tcp_do_write_format_data env cl count command data len))"

fun tcp_run ::
  "'pf io_env \<Rightarrow> int \<Rightarrow> int \<Rightarrow> 'pf io_client \<Rightarrow> client_event list \<Rightarrow> 'pf io_client result option" where
  "tcp_run env count now cl [] = Some (Inr cl)"
| "tcp_run env count now cl (e # es) =
     (case tcp_step env count now cl e of
        None \<Rightarrow> None
      | Some (Inl f) \<Rightarrow> Some (Inl f)
      | Some (Inr cl') \<Rightarrow> tcp_run env count now cl' es)"

section \<open>The contract the clients share\<close>

text \<open>
  A client at the level of its users: an end of the connection is reported once, by a message
  posted before anything else, and unless the user has closed the client it closes itself and
  posts a reconnect behind the report.
\<close>

locale connection =
  fixes on_read :: "'pf io_env \<Rightarrow> 'c \<Rightarrow> int \<Rightarrow> int \<Rightarrow> error_code \<Rightarrow> byte list \<Rightarrow> 'c result"
    and close_client :: "'c \<Rightarrow> 'c"
    and posts :: "'c \<Rightarrow> (int \<times> client_task) list"
    and user_closed :: "'c \<Rightarrow> bool"
    and opened :: "'c \<Rightarrow> bool"
    and forced :: "'c \<Rightarrow> bool"
    and report :: "'pf io_env \<Rightarrow> 'c \<Rightarrow> int \<Rightarrow> asio_error \<Rightarrow> (int \<times> client_task)"
  assumes lost_posts: "on_read env c count now (Some e) data = Inr c' \<Longrightarrow>
      posts c' = posts c @ report env c count e # (if user_closed c then [] else [(fst (report env c count e), Reconnect)])"
    and lost_total: "\<exists>c'. on_read env c count now (Some e) data = Inr c'"
    and lost_closed: "on_read env c count now (Some e) data = Inr c' \<Longrightarrow> user_closed c' = user_closed c"
    and lost_forced: "on_read env c count now (Some e) data = Inr c' \<Longrightarrow> forced c \<Longrightarrow> forced c'"
    and lost_forces: "on_read env c count now (Some e) data = Inr c' \<Longrightarrow> user_closed c \<or> forced c'"
    and close_posts: "posts (close_client c) = posts c"
    and close_closed: "user_closed (close_client c)"
    and close_forced: "forced (close_client c)"
    and close_opened: "\<not> opened (close_client c)"
begin

text \<open>After the user's close, an aborted read is reported and nothing is posted to reconnect.\<close>

lemma closed_no_reconnect:
  assumes "on_read env (close_client c) count now (Some e) data = Inr c'"
  shows "posts c' = posts c @ [report env (close_client c) count e] \<and> user_closed c' \<and> forced c'"
  using lost_posts [OF assms] lost_closed [OF assms] lost_forced [OF assms close_forced]
  by (simp add: close_posts close_closed)

lemma lost_reconnects:
  assumes "\<not> user_closed c" "on_read env c count now (Some e) data = Inr c'"
  shows "\<exists>i. posts c' = posts c @ [report env c count e, (i, Reconnect)]"
  using lost_posts [OF assms(2)] assms(1) by auto

end

text \<open>Every pending operation is bound to fail.\<close>

definition all_forced :: "('pf, 'm) io_client_scheme \<Rightarrow> bool" where
  "all_forced cl \<longleftrightarrow> \<not> sock_open cl \<and> (\<forall>p \<in> set (pending_ops cl). snd p \<noteq> None)"

lemma all_forced_close [simp]: "all_forced (sock_close cl)"
  by (auto simp: all_forced_def sock_close_def split: option.split)

lemma all_forced_post [simp]: "all_forced (post cl i t) = all_forced cl"
  by (simp add: all_forced_def post_def)

definition tcp_report :: "'pf io_env \<Rightarrow> 'pf io_client \<Rightarrow> int \<Rightarrow> asio_error \<Rightarrow> int \<times> client_task" where
  "tcp_report env cl count e =
     (tcp_get_tms_logic_id cl count, Do_Message (connect_id cl) (disconnect_packet (message env e)))"

lemmas tcp_defs = tcp_on_read_def tcp_close_client_socket_def tcp_close_socket_def tcp_report_def
  tcp_get_tms_logic_id_def tcp_do_read_def Let_def
lemmas udp_defs = udp_on_read_def udp_close_client_socket_def udp_close_socket_def
  udp_get_tms_logic_id_def udp_do_read_def Let_def
lemmas tty_defs = tty_on_read_def tty_close_client_socket_def tty_close_socket_def
  tty_get_tms_logic_id_def tty_do_read_def Let_def

interpretation tcp: connection tcp_on_read tcp_close_client_socket posted is_client_close sock_open
    all_forced tcp_report
  by unfold_locales (auto simp: tcp_defs split: if_splits)

definition udp_report :: "'pf io_env \<Rightarrow> 'pf io_client \<Rightarrow> int \<Rightarrow> asio_error \<Rightarrow> int \<times> client_task" where
  "udp_report env cl count e =
     (udp_get_tms_logic_id cl count, Dispose_Message (connect_id cl) (disconnect_packet (message env e)))"

interpretation udp: connection udp_on_read udp_close_client_socket posted is_client_close sock_open
    all_forced udp_report
  by unfold_locales (auto simp: udp_defs udp_report_def split: if_splits)

definition tty_report :: "'pf io_env \<Rightarrow> 'pf tty_client \<Rightarrow> int \<Rightarrow> asio_error \<Rightarrow> int \<times> client_task" where
  "tty_report env cl count e =
     (tty_get_tms_logic_id cl count, Dispose_Message (connect_id cl) (disconnect_packet (message env e)))"

interpretation tty: connection tty_on_read tty_close_client_socket posted is_client_close sock_open
    all_forced tty_report
  by unfold_locales (auto simp: tty_defs tty_report_def split: if_splits)

end
