(* ===== verification/Std_Map.thy ===== *)
theory Std_Map
  imports Prelude
begin

text \<open>
  \<open>std::map\<close> as the program uses it: an association list in ascending order of its keys, so
  that an iteration visits the entries as the C++ one does. \<open>map_find\<close> is \<open>find\<close>,
  \<open>map_assign\<close> is assignment through \<open>operator[]\<close>, and \<open>map_erase\<close> erases by key.
\<close>

type_synonym ('k, 'v) std_map = "('k \<times> 'v) list"

abbreviation map_find :: "('k, 'v) std_map \<Rightarrow> 'k \<Rightarrow> 'v option" where
  "map_find m k \<equiv> map_of m k"

fun map_assign :: "'k::linorder \<Rightarrow> 'v \<Rightarrow> ('k, 'v) std_map \<Rightarrow> ('k, 'v) std_map" where
  "map_assign k v [] = [(k, v)]"
| "map_assign k v ((k', v') # m) =
     (if k < k' then (k, v) # (k', v') # m
      else if k = k' then (k, v) # m
      else (k', v') # map_assign k v m)"

definition map_erase :: "'k \<Rightarrow> ('k, 'v) std_map \<Rightarrow> ('k, 'v) std_map" where
  "map_erase k m = filter (\<lambda>e. fst e \<noteq> k) m"

definition map_sorted :: "('k::linorder, 'v) std_map \<Rightarrow> bool" where
  "map_sorted m \<longleftrightarrow> sorted (map fst m) \<and> distinct (map fst m)"

text \<open>The contract of an ordered map that the components rely on.\<close>

locale ordered_map =
  fixes assign :: "'k::linorder \<Rightarrow> 'v \<Rightarrow> ('k \<times> 'v) list \<Rightarrow> ('k \<times> 'v) list"
    and erase :: "'k \<Rightarrow> ('k \<times> 'v) list \<Rightarrow> ('k \<times> 'v) list"
    and wf :: "('k \<times> 'v) list \<Rightarrow> bool"
  assumes wf_empty: "wf []"
    and wf_assign: "wf m \<Longrightarrow> wf (assign k v m)"
    and wf_erase: "wf m \<Longrightarrow> wf (erase k m)"
    and wf_distinct: "wf m \<Longrightarrow> distinct (map fst m)"
    and find_assign: "wf m \<Longrightarrow> map_of (assign k v m) = (map_of m)(k \<mapsto> v)"
    and find_erase: "map_of (erase k m) = (map_of m)(k := None)"
begin

lemma length_dom: "wf m \<Longrightarrow> length m = card (dom (map_of m))"
  by (metis dom_map_of_conv_image_fst wf_distinct distinct_card image_set length_map)

lemma finite_dom: "finite (dom (map_of m :: 'k \<Rightarrow> 'v option))"
  by (rule finite_dom_map_of)

lemma length_assign:
  "wf m \<Longrightarrow> length (assign k v m) = (if map_of m k = None then Suc (length m) else length m)"
  by (auto simp: length_dom wf_assign find_assign card_insert_if [OF finite_dom] domIff insert_absorb)

lemma length_erase:
  "wf m \<Longrightarrow> length (erase k m) = (if map_of m k = None then length m else length m - 1)"
  by (auto simp: length_dom wf_erase find_erase card_Diff_singleton_if domIff)

lemma erase_assign: "wf m \<Longrightarrow> map_of (erase k (assign k v m)) = (map_of m)(k := None)"
  by (simp add: find_assign find_erase)

lemma entry_iff: "wf m \<Longrightarrow> (k, v) \<in> set m \<longleftrightarrow> map_of m k = Some v"
  by (simp add: wf_distinct)

end

lemma map_assign_keys: "fst ` set (map_assign k v m) = insert k (fst ` set m)"
proof (induction m)
  case (Cons e m)
  then show ?case by (cases e) (simp add: insert_commute insert_absorb)
qed simp

lemma map_assign_sorted: "map_sorted m \<Longrightarrow> map_sorted (map_assign k v m)"
proof (induction m)
  case (Cons e m)
  obtain k' v' where e: "e = (k', v')" by fastforce
  have "map_sorted (map_assign k v m)" using Cons by (simp add: map_sorted_def)
  then show ?case
    using Cons.prems map_assign_keys [of k v m] by (auto simp: e map_sorted_def)
qed (simp add: map_sorted_def)

lemma map_find_assign: "map_sorted m \<Longrightarrow> map_of (map_assign k v m) = (map_of m)(k \<mapsto> v)"
proof (induction m)
  case (Cons e m)
  obtain k' v' where e: "e = (k', v')" by fastforce
  then show ?case using Cons by (auto simp: map_sorted_def fun_eq_iff)
qed simp

lemma map_find_erase: "map_of (map_erase k m) = (map_of m)(k := None)"
  by (induction m) (auto simp: map_erase_def fun_eq_iff)

interpretation sm: ordered_map map_assign map_erase map_sorted
proof unfold_locales
  fix m :: "('a::linorder, 'b) std_map" and k v
  show "map_sorted []" by (simp add: map_sorted_def)
  show "map_sorted m \<Longrightarrow> map_sorted (map_assign k v m)" by (rule map_assign_sorted)
  show "map_sorted m \<Longrightarrow> map_sorted (map_erase k m)"
    by (auto simp: map_sorted_def map_erase_def sorted_filter distinct_map_filter)
  show "map_sorted m \<Longrightarrow> distinct (map fst m)" by (simp add: map_sorted_def)
  show "map_sorted m \<Longrightarrow> map_of (map_assign k v m) = (map_of m)(k \<mapsto> v)" by (rule map_find_assign)
  show "map_of (map_erase k m) = (map_of m)(k := None)" by (rule map_find_erase)
qed

end
