(* ===== verification/Message_Queue.thy ===== *)
theory Message_Queue
  imports Prelude
begin

text \<open>
  \<open>CMessageQueue\<close> of ThreadQueue.h: a queue under a mutex with a condition variable on which
  \<open>Pop\<close> waits. First the operations as functions on the queue, then the same operations of any
  number of threads, interleaved: each test of \<open>Pop\<close>, with the wait or the pop that follows it
  under the same lock, is one step.
\<close>

section \<open>Operations\<close>

record 'm CMessageQueue =
  queue :: "'m list"

definition CMessageQueue_init :: "'m CMessageQueue" where
  "CMessageQueue_init = \<lparr>queue = []\<rparr>"

definition Push :: "'m CMessageQueue \<Rightarrow> 'm \<Rightarrow> 'm CMessageQueue" where
  "Push q msg = q\<lparr>queue := queue q @ [msg]\<rparr>"

text \<open>\<open>Pop\<close> that does not block; \<open>None\<close> is the return of \<open>false\<close>.\<close>

definition Pop_nonblocked :: "'m CMessageQueue \<Rightarrow> ('m \<times> 'm CMessageQueue) option" where
  "Pop_nonblocked q =
     (if queue q = [] then None
      else Some (hd (queue q), q\<lparr>queue := tl (queue q)\<rparr>))"

text \<open>One turn of the loop of a \<open>Pop\<close> that blocks: it waits, or it has the message.\<close>

datatype 'm pop_turn = Pop_Wait | Pop_Got 'm "'m CMessageQueue"

definition Pop_blocked :: "'m CMessageQueue \<Rightarrow> 'm pop_turn" where
  "Pop_blocked q =
     (if queue q = [] then Pop_Wait
      else Pop_Got (hd (queue q)) (q\<lparr>queue := tl (queue q)\<rparr>))"

definition Size :: "'m CMessageQueue \<Rightarrow> int" where
  "Size q = sint (word_of_nat (length (queue q)) :: 32 word)"

definition Empty :: "'m CMessageQueue \<Rightarrow> bool" where
  "Empty q \<longleftrightarrow> queue q = []"

text \<open>What a client may rely on: a queue of messages, first in, first out.\<close>

locale message_fifo =
  fixes push :: "'q \<Rightarrow> 'm \<Rightarrow> 'q"
    and pop :: "'q \<Rightarrow> ('m \<times> 'q) option"
    and contents :: "'q \<Rightarrow> 'm list"
  assumes contents_push: "contents (push q m) = contents q @ [m]"
    and pop_None: "pop q = None \<longleftrightarrow> contents q = []"
    and pop_Some: "pop q = Some (m, q') \<Longrightarrow> contents q = m # contents q'"
begin

primrec pops :: "nat \<Rightarrow> 'q \<Rightarrow> 'm list \<times> 'q" where
  "pops 0 q = ([], q)"
| "pops (Suc n) q =
     (case pop q of None \<Rightarrow> ([], q)
      | Some (m, q') \<Rightarrow> (case pops n q' of (ms, q'') \<Rightarrow> (m # ms, q'')))"

lemma pops_contents:
  "fst (pops n q) = take n (contents q) \<and> contents (snd (pops n q)) = drop n (contents q)"
proof (induction n arbitrary: q)
  case (Suc n)
  show ?case
  proof (cases "pop q")
    case None
    then show ?thesis using pop_None [of q] by simp
  next
    case (Some p)
    obtain m q' where p: "p = (m, q')" by fastforce
    then have "contents q = m # contents q'" using pop_Some Some by simp
    then show ?thesis using Suc.IH [of q'] Some p by (simp add: case_prod_beta)
  qed
qed simp

lemma foldl_push: "contents (foldl push q ms) = contents q @ ms"
  by (induction ms arbitrary: q) (simp_all add: contents_push)

text \<open>Messages come out in the order in which they went in.\<close>

lemma push_pop_order:
  "contents q = [] \<Longrightarrow> fst (pops (length ms) (foldl push q ms)) = ms"
  by (simp add: pops_contents foldl_push)

end

lemma queue_Push [simp]: "queue (Push q m) = queue q @ [m]"
  by (simp add: Push_def)

interpretation mq: message_fifo Push Pop_nonblocked queue
  by unfold_locales (auto simp: Pop_nonblocked_def split: if_splits)

lemma Pop_blocked_eq:
  "Pop_blocked q = (case Pop_nonblocked q of None \<Rightarrow> Pop_Wait | Some (m, q') \<Rightarrow> Pop_Got m q')"
  by (simp add: Pop_blocked_def Pop_nonblocked_def)

section \<open>Threads on a queue\<close>

text \<open>
  A thread that pops is about to test, waits, has been woken and is about to test again, or is
  done. \<open>pushed\<close> and \<open>popped\<close> record what has gone through the queue.
\<close>

datatype pop_pc = P_Idle | P_Test | P_Waiting | P_Woken

record 'm mq_system =
  mq :: "'m CMessageQueue"
  poppers :: "nat \<Rightarrow> pop_pc"
  pushed :: "'m list"
  popped :: "'m list"

definition at :: "(nat \<Rightarrow> pop_pc) \<Rightarrow> pop_pc \<Rightarrow> nat set" where
  "at f p = {t. f t = p}"

abbreviation waiters :: "'m mq_system \<Rightarrow> nat set" where
  "waiters s \<equiv> at (poppers s) P_Waiting"

abbreviation woken :: "'m mq_system \<Rightarrow> nat set" where
  "woken s \<equiv> at (poppers s) P_Woken"

definition mq_start :: "'m mq_system" where
  "mq_start = \<lparr>mq = CMessageQueue_init, poppers = (\<lambda>_. P_Idle), pushed = [], popped = []\<rparr>"

inductive mq_step :: "'m mq_system \<Rightarrow> 'm mq_system \<Rightarrow> bool" where
  push_wakes: "poppers s t = P_Waiting \<Longrightarrow>
    mq_step s (s\<lparr>mq := Push (mq s) m, pushed := pushed s @ [m],
                 poppers := (poppers s)(t := P_Woken)\<rparr>)"
| push_alone: "waiters s = {} \<Longrightarrow>
    mq_step s (s\<lparr>mq := Push (mq s) m, pushed := pushed s @ [m]\<rparr>)"
| pop_call: "poppers s t = P_Idle \<Longrightarrow> mq_step s (s\<lparr>poppers := (poppers s)(t := P_Test)\<rparr>)"
| pop_wait: "poppers s t \<in> {P_Test, P_Woken} \<Longrightarrow> Pop_blocked (mq s) = Pop_Wait \<Longrightarrow>
    mq_step s (s\<lparr>poppers := (poppers s)(t := P_Waiting)\<rparr>)"
| pop_got: "poppers s t \<in> {P_Test, P_Woken} \<Longrightarrow> Pop_blocked (mq s) = Pop_Got m q \<Longrightarrow>
    mq_step s (s\<lparr>mq := q, poppers := (poppers s)(t := P_Idle), popped := popped s @ [m]\<rparr>)"
| spurious: "poppers s t = P_Waiting \<Longrightarrow> mq_step s (s\<lparr>poppers := (poppers s)(t := P_Woken)\<rparr>)"

inductive mq_reachable :: "'m mq_system \<Rightarrow> bool" where
  mq_init: "mq_reachable mq_start"
| mq_next: "mq_reachable s \<Longrightarrow> mq_step s s' \<Longrightarrow> mq_reachable s'"

inductive_cases mq_stepE: "mq_step s s'"

text \<open>
  Nothing is lost, duplicated or reordered, and while a thread waits every message in the queue
  has a woken thread coming for it.
\<close>

definition mq_inv :: "'m mq_system \<Rightarrow> bool" where
  "mq_inv s \<longleftrightarrow> pushed s = popped s @ queue (mq s) \<and> finite (woken s) \<and>
     (waiters s \<noteq> {} \<longrightarrow> length (queue (mq s)) \<le> card (woken s))"

lemma Pop_blocked_simps:
  "Pop_blocked q = Pop_Wait \<longleftrightarrow> queue q = []"
  "Pop_blocked q = Pop_Got m q' \<longleftrightarrow> queue q = m # queue q'"
  by (auto simp: Pop_blocked_def neq_Nil_conv intro: CMessageQueue.equality)

lemma at_upd: "at (f(t := p)) q = (if p = q then insert t (at f q) else at f q - {t})"
  by (auto simp: at_def)

lemma at_iff: "t \<in> at f p \<longleftrightarrow> f t = p"
  by (simp add: at_def)

lemma mq_inv_start: "mq_inv mq_start"
  by (simp add: mq_inv_def mq_start_def CMessageQueue_init_def at_def)

lemma mq_inv_step: "mq_step s s' \<Longrightarrow> mq_inv s \<Longrightarrow> mq_inv s'"
proof (induction rule: mq_step.induct)
  case (push_wakes s t m)
  then have "t \<notin> woken s" "waiters s \<noteq> {}" by (auto simp: at_def)
  with push_wakes show ?case by (simp add: mq_inv_def at_upd)
next
  case (push_alone s m)
  then show ?case by (simp add: mq_inv_def)
next
  case (pop_call s t)
  then have "t \<notin> woken s" "t \<notin> waiters s" by (simp_all add: at_def)
  with pop_call show ?case by (simp add: mq_inv_def at_upd)
next
  case (pop_wait s t)
  then show ?case by (simp add: mq_inv_def at_upd Pop_blocked_simps)
next
  case (pop_got s t m q)
  have "t \<in> woken s \<or> (t \<notin> woken s \<and> poppers s t = P_Test)" "t \<notin> waiters s"
    using pop_got by (auto simp: at_def)
  with pop_got show ?case
    by (auto simp: mq_inv_def at_upd Pop_blocked_simps card_Diff_singleton)
next
  case (spurious s t)
  then have "t \<notin> woken s" "waiters s \<noteq> {}" by (auto simp: at_def)
  with spurious show ?case by (simp add: mq_inv_def at_upd)
qed

lemma mq_inv_reachable: "mq_reachable s \<Longrightarrow> mq_inv s"
  by (induction rule: mq_reachable.induct) (auto intro: mq_inv_start mq_inv_step)

section \<open>Properties\<close>

text \<open>C9: The queue loses no message and no wake-up, for any number of threads: in every
  reachable state what was pushed is what was popped followed by what is queued, in order, and
  while some thread waits in \<open>Pop\<close> there is a woken thread for every message queued.\<close>

theorem queue_keeps_messages:
  assumes "mq_reachable s"
  shows "pushed s = popped s @ queue (mq s) \<and>
     (\<forall>t. poppers s t = P_Waiting \<longrightarrow> length (queue (mq s)) \<le> card (woken s))"
  using mq_inv_reachable [OF assms] by (auto simp: mq_inv_def at_def)

lemma two_waiting:
  "\<exists>s :: 'm mq_system. mq_reachable s \<and> poppers s = (\<lambda>_. P_Idle)(0 := P_Waiting, 1 := P_Waiting) \<and>
     mq s = CMessageQueue_init"
proof -
  let ?s = "mq_start :: 'm mq_system"
  let ?f = "\<lambda>p q. ?s\<lparr>poppers := (\<lambda>_. P_Idle)(0 := p, 1 := q)\<rparr>"
  have e: "Pop_blocked (CMessageQueue_init :: 'm CMessageQueue) = Pop_Wait"
    by (simp add: Pop_blocked_def CMessageQueue_init_def)
  have "mq_step ?s (?s\<lparr>poppers := (poppers ?s)(0 := P_Test)\<rparr>)"
    using pop_call [of ?s 0] by (simp add: mq_start_def)
  then have 1: "mq_reachable (?f P_Test P_Idle)"
    using mq_next [OF mq_init] by (simp add: mq_start_def fun_upd_idem)
  have "mq_step (?f P_Test P_Idle) (?f P_Waiting P_Idle)"
    using pop_wait [of "?f P_Test P_Idle" 0] e by (simp add: mq_start_def fun_upd_twist)
  then have 2: "mq_reachable (?f P_Waiting P_Idle)" using mq_next [OF 1] by blast
  have "mq_step (?f P_Waiting P_Idle) (?f P_Waiting P_Test)"
    using pop_call [of "?f P_Waiting P_Idle" 1] by (simp add: mq_start_def)
  then have 3: "mq_reachable (?f P_Waiting P_Test)" using mq_next [OF 2] by blast
  have "mq_step (?f P_Waiting P_Test) (?f P_Waiting P_Waiting)"
    using pop_wait [of "?f P_Waiting P_Test" 1] e by (simp add: mq_start_def)
  then have "mq_reachable (?f P_Waiting P_Waiting)" using mq_next [OF 3] by blast
  then show ?thesis by (intro exI [of _ "?f P_Waiting P_Waiting"]) (simp add: mq_start_def)
qed

theorem queue_keeps_messages_witness:
  "\<exists>s. mq_reachable s \<and> poppers s 1 = P_Waiting \<and> queue (mq s) = [7 :: nat] \<and>
     length (queue (mq s)) \<le> card (woken s)"
proof -
  obtain s :: "nat mq_system" where s: "mq_reachable s" "mq s = CMessageQueue_init"
    "poppers s = (\<lambda>_. P_Idle)(0 := P_Waiting, 1 := P_Waiting)"
    using two_waiting by blast
  let ?s = "s\<lparr>mq := Push (mq s) 7, pushed := pushed s @ [7], poppers := (poppers s)(0 := P_Woken)\<rparr>"
  have "mq_reachable ?s" by (rule mq_next [OF s(1)]) (rule push_wakes, simp add: s)
  then show ?thesis
    using queue_keeps_messages [of ?s] s by (intro exI [of _ ?s]) (auto simp: CMessageQueue_init_def)
qed

end
