(* ===== verification/Logic_Task.thy ===== *)
theory Logic_Task
  imports Message_Queue
begin

text \<open>
  \<open>CLogicTasK\<close> of tms.hpp: a thread that takes messages from its queue and runs them, and the
  calls other threads make on it. The functions of the messages are a type parameter; running
  one is recorded, and what it does to the rest of the program is for the components that make
  the messages. The steps of the thread and of its callers may interleave in any way.
\<close>

datatype EM_LOGIC_TYPE = LOGIC_TYPE_RUN | LOGIC_TYPE_CLOSE

record 'f CLogicMessage =
  m_func :: "'f option"
  m_emType :: EM_LOGIC_TYPE

text \<open>
  Where \<open>svc\<close> is: not started, at its \<open>while (m_run)\<close>, in \<open>Pop\<close>, holding a message, returned.
\<close>

datatype 'f svc_pc = S_Begin | S_While | S_Pop | S_Msg "'f CLogicMessage" | S_Over

record 'f CLogicTasK =
  m_thread_queue :: "'f CLogicMessage CMessageQueue"
  m_run :: bool
  m_u4ThreadID :: uint32
  thread_id :: nat
  svc_at :: "'f svc_pc"
  executed :: "'f list"

text \<open>\<open>start\<close> on a new task; \<open>tid\<close> is the id of the thread it makes.\<close>

definition start :: "nat \<Rightarrow> uint32 \<Rightarrow> 'f CLogicTasK" where
  "start tid u4ThreadID =
     \<lparr>m_thread_queue = CMessageQueue_init, m_run = True, m_u4ThreadID = u4ThreadID,
      thread_id = tid, svc_at = S_Begin, executed = []\<rparr>"

definition Put :: "'f CLogicTasK \<Rightarrow> 'f CLogicMessage \<Rightarrow> 'f CLogicTasK" where
  "Put t msg = t\<lparr>m_thread_queue := Push (m_thread_queue t) msg\<rparr>"

definition run_message :: "'f \<Rightarrow> 'f CLogicMessage" where
  "run_message f = \<lparr>m_func = Some f, m_emType = LOGIC_TYPE_RUN\<rparr>"

definition close_message :: "'f CLogicMessage" where
  "close_message = \<lparr>m_func = None, m_emType = LOGIC_TYPE_CLOSE\<rparr>"

text \<open>\<open>Close\<close> up to the \<open>join\<close>, as its two steps, and when the join returns.\<close>

definition Close_flag :: "'f CLogicTasK \<Rightarrow> 'f CLogicTasK" where
  "Close_flag t = t\<lparr>m_run := False\<rparr>"

definition Close_put :: "'f CLogicTasK \<Rightarrow> 'f CLogicTasK" where
  "Close_put t = Put t close_message"

definition joined :: "'f CLogicTasK \<Rightarrow> bool" where
  "joined t \<longleftrightarrow> svc_at t = S_Over"

text \<open>
  A step of \<open>svc\<close>; \<open>None\<close> where it cannot move, in \<open>Pop\<close> on an empty queue or after its return.
  A message to run without a function makes \<open>std::function\<close> throw.
\<close>

definition svc_step :: "'f CLogicTasK \<Rightarrow> 'f CLogicTasK result option" where
  "svc_step t =
     (case svc_at t of
        S_Begin \<Rightarrow> Some (Inr (t\<lparr>svc_at := S_While\<rparr>))
      | S_While \<Rightarrow> Some (Inr (t\<lparr>svc_at := (if m_run t then S_Pop else S_Over)\<rparr>))
      | S_Pop \<Rightarrow>
          (case Pop_blocked (m_thread_queue t) of
             Pop_Wait \<Rightarrow> None
           | Pop_Got msg q \<Rightarrow> Some (Inr (t\<lparr>m_thread_queue := q, svc_at := S_Msg msg\<rparr>)))
      | S_Msg msg \<Rightarrow>
          (if m_emType msg = LOGIC_TYPE_RUN
           then (case m_func msg of
                   None \<Rightarrow> Some (Inl (Exception ''std::bad_function_call'' ''''))
                 | Some f \<Rightarrow> Some (Inr (t\<lparr>svc_at := S_While, executed := executed t @ [f]\<rparr>)))
           else Some (Inr (t\<lparr>svc_at := S_Over\<rparr>)))
      | S_Over \<Rightarrow> None)"

section \<open>Interleaving\<close>

datatype 'f task_event = Put_Run 'f | Task_Close_Flag | Task_Close_Put | Svc

definition task_step :: "'f CLogicTasK \<Rightarrow> 'f task_event \<Rightarrow> 'f CLogicTasK option" where
  "task_step t e =
     (case e of
        Put_Run f \<Rightarrow> Some (Put t (run_message f))
      | Task_Close_Flag \<Rightarrow> Some (Close_flag t)
      | Task_Close_Put \<Rightarrow> Some (Close_put t)
      | Svc \<Rightarrow> (case svc_step t of Some (Inr t') \<Rightarrow> Some t' | _ \<Rightarrow> None))"

fun task_run :: "'f CLogicTasK \<Rightarrow> 'f task_event list \<Rightarrow> 'f CLogicTasK option" where
  "task_run t [] = Some t"
| "task_run t (e # es) = (case task_step t e of None \<Rightarrow> None | Some t' \<Rightarrow> task_run t' es)"

fun puts :: "'f task_event list \<Rightarrow> 'f list" where
  "puts [] = []"
| "puts (Put_Run f # es) = f # puts es"
| "puts (_ # es) = puts es"

text \<open>The functions of the messages a task still has: the one in hand, then the queued ones.\<close>

definition funcs :: "'f CLogicMessage list \<Rightarrow> 'f list" where
  "funcs ms = concat (map (\<lambda>m. case m_func m of None \<Rightarrow> [] | Some f \<Rightarrow> [f]) ms)"

fun in_hand :: "'f svc_pc \<Rightarrow> 'f CLogicMessage list" where
  "in_hand (S_Msg m) = [m]"
| "in_hand _ = []"

definition pending :: "'f CLogicTasK \<Rightarrow> 'f list" where
  "pending t = funcs (in_hand (svc_at t) @ queue (m_thread_queue t))"

text \<open>Every message is one that \<open>AddMessage\<close> or \<open>Close\<close> makes.\<close>

definition msg_ok :: "'f CLogicMessage \<Rightarrow> bool" where
  "msg_ok m \<longleftrightarrow> (m_emType m = LOGIC_TYPE_RUN \<longleftrightarrow> m_func m \<noteq> None)"

definition task_ok :: "'f CLogicTasK \<Rightarrow> bool" where
  "task_ok t \<longleftrightarrow> (\<forall>m \<in> set (in_hand (svc_at t) @ queue (m_thread_queue t)). msg_ok m)"

lemma msg_ok_simps [simp]: "msg_ok (run_message f)" "msg_ok close_message"
  by (simp_all add: msg_ok_def run_message_def close_message_def)

lemma funcs_simps [simp]:
  "funcs [] = []" "funcs (xs @ ys) = funcs xs @ funcs ys"
  "funcs (m # ms) = (case m_func m of None \<Rightarrow> [] | Some f \<Rightarrow> [f]) @ funcs ms"
  "m_func (run_message f) = Some f" "m_func close_message = None"
  by (simp_all add: funcs_def run_message_def close_message_def)

lemmas task_defs = task_step_def Put_def Close_flag_def Close_put_def pending_def task_ok_def

lemma svc_step_ok:
  assumes "task_ok t" "svc_step t = Some r"
  shows "\<exists>t'. r = Inr t' \<and> task_ok t' \<and> executed t' @ pending t' = executed t @ pending t"
proof (cases "svc_at t")
  case S_Pop
  with assms show ?thesis
    by (auto simp: svc_step_def task_ok_def pending_def Pop_blocked_def neq_Nil_conv split: if_splits)
next
  case (S_Msg m)
  then have "msg_ok m" using assms by (simp add: task_ok_def)
  with S_Msg assms show ?thesis
    by (cases "m_func m") (auto simp: svc_step_def task_ok_def pending_def msg_ok_def split: if_splits)
qed (use assms in \<open>auto simp: svc_step_def task_ok_def pending_def\<close>)

lemma task_step_ok:
  "task_ok t \<Longrightarrow> task_step t e = Some t' \<Longrightarrow>
     task_ok t' \<and> executed t' @ pending t' = executed t @ pending t @ puts [e]"
proof (cases e)
  case Svc
  assume "task_ok t" "task_step t e = Some t'"
  then show ?thesis
    using svc_step_ok [of t] Svc by (auto simp: task_step_def split: option.splits sum.splits)
qed (auto simp: task_defs)

lemma puts_Cons: "puts (e # es) = puts [e] @ puts es"
  by (cases e) simp_all

lemma task_run_ok:
  "task_run t es = Some t' \<Longrightarrow> task_ok t \<Longrightarrow>
     task_ok t' \<and> executed t' @ pending t' = executed t @ pending t @ puts es"
proof (induction es arbitrary: t)
  case (Cons e es)
  then obtain u where "task_step t e = Some u" "task_run u es = Some t'"
    by (auto split: option.splits)
  with Cons show ?case using task_step_ok [of t e u] by (auto simp: puts_Cons [of e es])
qed simp

lemma task_ok_start [simp]: "task_ok (start tid i)" "pending (start tid i) = []"
  "executed (start tid i) = []"
  by (simp_all add: task_ok_def start_def CMessageQueue_init_def pending_def)

section \<open>Closing\<close>

text \<open>With the run flag down, the thread runs at most the message it already waits for or holds.\<close>

fun may_run :: "'f svc_pc \<Rightarrow> nat" where
  "may_run S_Pop = 1"
| "may_run (S_Msg m) = 1"
| "may_run _ = 0"

lemma flag_down_step:
  assumes "\<not> m_run t" "task_step t e = Some t'"
  shows "\<not> m_run t' \<and>
    length (executed t') + may_run (svc_at t') \<le> length (executed t) + may_run (svc_at t)"
proof (cases e)
  case Svc
  then show ?thesis using assms
    by (cases "svc_at t") (auto simp: task_step_def svc_step_def
        split: if_splits pop_turn.splits option.splits)
qed (use assms in \<open>auto simp: task_defs\<close>)

lemma flag_down_run:
  "task_run t es = Some t' \<Longrightarrow> \<not> m_run t \<Longrightarrow>
     length (executed t') \<le> length (executed t) + may_run (svc_at t)"
proof (induction es arbitrary: t)
  case (Cons e es)
  then obtain u where "task_step t e = Some u" "task_run u es = Some t'"
    by (auto split: option.splits)
  with Cons show ?case using flag_down_step [of t e u] by fastforce
qed simp

lemma may_run_le: "may_run p \<le> 1"
  by (cases p) simp_all

lemma svc_runs:
  "svc_step t = Some (Inr t1) \<Longrightarrow> task_run t1 (replicate k Svc) = Some t2 \<Longrightarrow>
     task_run t (replicate (Suc k) Svc) = Some t2"
  by (simp add: task_step_def)

lemma ends_from_while:
  "svc_at t = S_While \<Longrightarrow> \<not> m_run t \<Longrightarrow> \<exists>v. task_run t (replicate 1 Svc) = Some v \<and> joined v"
  by (simp add: task_step_def svc_step_def joined_def)

lemma ends_from_msg:
  assumes "svc_at t = S_Msg m" "msg_ok m" "\<not> m_run t"
  shows "\<exists>k \<le> 2. \<exists>v. task_run t (replicate k Svc) = Some v \<and> joined v"
proof (cases "m_func m")
  case None
  then have "task_run t (replicate 1 Svc) = Some (t\<lparr>svc_at := S_Over\<rparr>)"
    using assms by (simp add: task_step_def svc_step_def msg_ok_def)
  then show ?thesis by (intro exI [of _ 1]) (auto simp: joined_def)
next
  case (Some f)
  let ?t = "t\<lparr>svc_at := S_While, executed := executed t @ [f]\<rparr>"
  have "svc_step t = Some (Inr ?t)" using assms Some by (simp add: svc_step_def msg_ok_def)
  moreover obtain v where "task_run ?t (replicate 1 Svc) = Some v" "joined v"
    using ends_from_while [of ?t] assms by auto
  ultimately have "task_run t (replicate (Suc 1) Svc) = Some v" "joined v"
    using svc_runs by blast+
  then show ?thesis by (intro exI [of _ "Suc 1"]) auto
qed

lemma closed_task_ends:
  assumes ok: "task_ok t" and "\<not> m_run t" "queue (m_thread_queue t) \<noteq> []"
  shows "\<exists>k \<le> 3. \<exists>v. task_run t (replicate k Svc) = Some v \<and> joined v"
proof (cases "svc_at t")
  case S_Begin
  let ?t = "t\<lparr>svc_at := S_While\<rparr>"
  have "svc_step t = Some (Inr ?t)" using S_Begin by (simp add: svc_step_def)
  moreover obtain v where "task_run ?t (replicate 1 Svc) = Some v" "joined v"
    using ends_from_while [of ?t] assms by auto
  ultimately have "task_run t (replicate (Suc 1) Svc) = Some v" "joined v"
    using svc_runs by blast+
  then show ?thesis by (intro exI [of _ "Suc 1"]) auto
next
  case S_While
  then show ?thesis using ends_from_while [of t] assms by (intro exI [of _ 1]) auto
next
  case S_Pop
  obtain m ms where q: "queue (m_thread_queue t) = m # ms" using assms(3) by (cases "queue (m_thread_queue t)") auto
  let ?t = "t\<lparr>m_thread_queue := (m_thread_queue t)\<lparr>queue := ms\<rparr>, svc_at := S_Msg m\<rparr>"
  have "svc_step t = Some (Inr ?t)" using S_Pop q by (simp add: svc_step_def Pop_blocked_def)
  moreover have "msg_ok m" using ok q by (simp add: task_ok_def)
  moreover from this obtain k v where "k \<le> 2" "task_run ?t (replicate k Svc) = Some v" "joined v"
    using ends_from_msg [of ?t m] assms by auto
  ultimately have "Suc k \<le> 3" "task_run t (replicate (Suc k) Svc) = Some v" "joined v"
    using svc_runs by (simp, blast+)
  then show ?thesis by blast
next
  case (S_Msg m)
  then have "msg_ok m" using ok by (simp add: task_ok_def)
  then obtain k v where "k \<le> 2" "task_run t (replicate k Svc) = Some v" "joined v"
    using ends_from_msg [OF S_Msg] assms by blast
  then show ?thesis by (intro exI [of _ k]) auto
next
  case S_Over
  then show ?thesis by (intro exI [of _ 0]) (simp add: joined_def)
qed

section \<open>Properties\<close>



text \<open>C11: \<open>Close\<close> ends a logic thread: once its flag is down and its message is put, the
  thread returns within three steps of its own, so the join returns; and in no interleaving
  does it run more than one further message, whatever is queued.\<close>

theorem close_ends_logic:
  assumes "task_run (start tid i) es = Some t"
  shows "(\<exists>k \<le> 3. \<exists>v. task_run (Close_put (Close_flag t)) (replicate k Svc) = Some v \<and> joined v) \<and>
     (\<forall>es' v. task_run (Close_put (Close_flag t)) es' = Some v \<longrightarrow>
        length (executed v) \<le> Suc (length (executed t)))"
proof -
  let ?t = "Close_put (Close_flag t)"
  have "task_ok t" using task_run_ok [OF assms] by simp
  then have t: "task_ok ?t" "\<not> m_run ?t" "queue (m_thread_queue ?t) \<noteq> []" "executed ?t = executed t"
    by (auto simp: task_defs)
  have "length (executed v) \<le> Suc (length (executed t))" if "task_run ?t es' = Some v" for es' v
    using flag_down_run [OF that t(2)] may_run_le [of "svc_at ?t"] t(4) by simp
  with closed_task_ends [OF t(1-3)] show ?thesis by blast
qed

theorem close_ends_logic_witness:
  "\<exists>t. task_run (start 1 7) [Put_Run ''a'', Put_Run ''b'', Svc, Svc] = Some t \<and>
     (\<exists>k \<le> 3. \<exists>v. task_run (Close_put (Close_flag t)) (replicate k Svc) = Some v \<and> joined v)"
proof -
  let ?es = "[Put_Run ''a'', Put_Run ''b'', Svc, Svc]"
  obtain t where t: "task_run (start 1 7) ?es = Some t"
    by (simp add: task_defs svc_step_def start_def CMessageQueue_init_def)
  then show ?thesis using close_ends_logic [OF t] by blast
qed

text \<open>Messages that are queued when a logic thread is closed can be lost: the thread ends
  with a message that was put before \<open>Close\<close> still in its queue, never run.\<close>

lemma close_drops_messages:
  "\<exists>t. task_run (start 1 7) [Put_Run ''a'', Put_Run ''b'', Svc, Svc, Task_Close_Flag,
      Task_Close_Put, Svc, Svc, Svc] = Some t \<and>
     joined t \<and> executed t = [''a''] \<and> pending t = [''b'']"
  by (simp add: task_defs svc_step_def start_def CMessageQueue_init_def Pop_blocked_def
      run_message_def close_message_def joined_def)

end
