(* ===== verification/Timer_Manager.thy ===== *)
theory Timer_Manager
  imports Prelude
begin

text \<open>
  The timer component of TimerManager.hpp: the \<open>Timer\<close> objects, the priority queue of the
  manager, and the thread that waits for the earliest timer and runs it. Times are in
  nanoseconds of the steady clock, as unbounded integers; the delay of a timer is in seconds,
  as in the code. The standard leaves open which of two elements with equal keys a
  \<open>std::priority_queue\<close> gives first; here it is the one pushed first.

  The timer thread and the threads that add, cancel and close are interleaved step by step:
  \<open>mtx\<close> is held by the thread except while it waits and between two calls of \<open>timer_run\<close>, and
  \<open>mtx_queue\<close> makes each access of the queue one step.
\<close>

section \<open>Timers\<close>

datatype EM_TIMER_STATE = TIMER_STATE_ADD_TIMER | TIMER_STATE_EXECUTE_TIMER
datatype ENUM_WHILE_STATE = WHILE_STATE_CONTINUE | WHILE_STATE_BREAK
datatype ENUM_TIMER_TYPE = TIMER_TYPE_ONCE | TIMER_TYPE_LOOP

record 'c Timer =
  mExecuteOnceFlag :: bool
  mCallback :: "'c option"
  mStartTime :: int
  mLastTime :: int
  mDelayTime :: int
  mTimerType :: ENUM_TIMER_TYPE

definition Timer_new :: "int \<Rightarrow> int \<Rightarrow> int \<Rightarrow> ENUM_TIMER_TYPE \<Rightarrow> 'c \<Rightarrow> 'c Timer" where
  "Timer_new startTime lastTime delayTime timertype callback =
     \<lparr>mExecuteOnceFlag = False, mCallback = Some callback, mStartTime = startTime,
      mLastTime = lastTime, mDelayTime = delayTime, mTimerType = timertype\<rparr>"

text \<open>The time left of a timer at \<open>now\<close>; asking for it uses the initial delay up.\<close>

definition getLeftTime :: "int \<Rightarrow> 'c Timer \<Rightarrow> 'c Timer \<times> int" where
  "getLeftTime now t =
     (let delayTime = mDelayTime t
      in (t\<lparr>mDelayTime := 0\<rparr>,
          mLastTime t - (now - mStartTime t) + delayTime * 1000000000))"

definition cancel :: "'c Timer \<Rightarrow> 'c Timer" where
  "cancel t = (if mExecuteOnceFlag t then t else t\<lparr>mExecuteOnceFlag := True, mCallback := None\<rparr>)"

text \<open>
  The call operator: the timer afterwards, and the callback it runs, if any. A one-shot timer
  gives its callback away under the once flag; a loop timer keeps it and starts again at \<open>now\<close>.
\<close>

definition Timer_call :: "int \<Rightarrow> 'c Timer \<Rightarrow> 'c Timer \<times> 'c option" where
  "Timer_call now t =
     (if mTimerType t = TIMER_TYPE_ONCE
      then (if mExecuteOnceFlag t then (t, None)
            else (t\<lparr>mExecuteOnceFlag := True, mCallback := None\<rparr>, mCallback t))
      else (t\<lparr>mStartTime := now\<rparr>, mCallback t))"

definition CompareTimer :: "'c Timer \<Rightarrow> 'c Timer \<Rightarrow> bool" where
  "CompareTimer left right =
     (let startDiff = mStartTime left - mStartTime right;
          lastDiff = mLastTime left - mLastTime right;
          diff = startDiff + lastDiff
      in diff > 0)"

section \<open>The manager\<close>

text \<open>
  Where the timer thread is: before \<open>schedule\<close> starts; at the head of the \<open>while\<close> of
  \<open>schedule\<close>; at the start of \<open>timer_run\<close>, before it takes \<open>mtx\<close>; past the test that found no
  timer; waiting for a first timer until a deadline; past that wait; holding the top timer in
  \<open>tmp\<close>; waiting for it until a deadline; about to pop; returned.
\<close>

datatype tpc = T_Init | T_Head | T_Enter | T_Empty | T_WaitEmpty int | T_Check | T_Got nat
  | T_Wait nat int | T_Pop nat | T_Done

text \<open>
  Timer objects live in a store, by number; the queue and the thread's \<open>tmp\<close> are the strong
  references to them. \<open>notified\<close> is the pending notification of the condition variable, and
  \<open>fired\<close> records what has run: the timer, its callback and the time.
\<close>

record 'c TimerMgr =
  timers :: "nat \<Rightarrow> 'c Timer"
  mTimers :: "nat list"
  next_timer :: nat
  timer_run_flag :: bool
  timer_wakeup_state :: EM_TIMER_STATE
  pc :: tpc
  notified :: bool
  clock :: int
  fired :: "(nat \<times> 'c \<times> int) list"

definition TimerMgr_init :: "'c \<Rightarrow> int \<Rightarrow> 'c TimerMgr" where
  "TimerMgr_init any now =
     \<lparr>timers = (\<lambda>_. Timer_new 0 0 0 TIMER_TYPE_ONCE any), mTimers = [], next_timer = 0,
      timer_run_flag = False, timer_wakeup_state = TIMER_STATE_EXECUTE_TIMER, pc = T_Init,
      notified = False, clock = now, fired = []\<rparr>"

fun held :: "tpc \<Rightarrow> nat option" where
  "held (T_Got i) = Some i"
| "held (T_Wait i _) = Some i"
| "held (T_Pop i) = Some i"
| "held _ = None"

fun waiting :: "tpc \<Rightarrow> bool" where
  "waiting (T_WaitEmpty _) = True"
| "waiting (T_Wait _ _) = True"
| "waiting _ = False"

text \<open>\<open>mtx\<close> is free while the thread waits, is between two calls, or does not run.\<close>

definition mtx_free :: "'c TimerMgr \<Rightarrow> bool" where
  "mtx_free m \<longleftrightarrow> waiting (pc m) \<or> pc m \<in> {T_Init, T_Head, T_Enter, T_Done}"

text \<open>A weak pointer to a timer has expired when nothing owns the timer any more.\<close>

definition expired :: "'c TimerMgr \<Rightarrow> nat \<Rightarrow> bool" where
  "expired m i \<longleftrightarrow> i \<notin> set (mTimers m) \<and> held (pc m) \<noteq> Some i"

fun pq_push :: "(nat \<Rightarrow> 'c Timer) \<Rightarrow> nat list \<Rightarrow> nat \<Rightarrow> nat list" where
  "pq_push ts [] x = [x]"
| "pq_push ts (y # ys) x =
     (if CompareTimer (ts y) (ts x) then x # y # ys else y # pq_push ts ys x)"

text \<open>The first half of \<open>addTimer\<close> and \<open>addTimer_loop\<close>: make the timer and push it.\<close>

definition add_push :: "'c TimerMgr \<Rightarrow> 'c Timer \<Rightarrow> 'c TimerMgr" where
  "add_push m t =
     (let i = next_timer m; ts = (timers m)(i := t)
      in m\<lparr>timers := ts, next_timer := Suc i, mTimers := pq_push ts (mTimers m) i\<rparr>)"

text \<open>The second half: record the reason to wake up, then notify.\<close>

definition set_add :: "'c TimerMgr \<Rightarrow> 'c TimerMgr" where
  "set_add m = m\<lparr>timer_wakeup_state := TIMER_STATE_ADD_TIMER\<rparr>"

definition notify_one :: "'c TimerMgr \<Rightarrow> 'c TimerMgr" where
  "notify_one m = (if waiting (pc m) then m\<lparr>notified := True\<rparr> else m)"

definition addTimer_loop :: "'c TimerMgr \<Rightarrow> int \<Rightarrow> int \<Rightarrow> 'c \<Rightarrow> 'c TimerMgr \<times> nat" where
  "addTimer_loop m delayseconds timeout callback =
     (let t = Timer_new (clock m) timeout delayseconds TIMER_TYPE_LOOP callback
      in (notify_one (set_add (add_push m t)), next_timer m))"

definition addTimer :: "'c TimerMgr \<Rightarrow> int \<Rightarrow> 'c \<Rightarrow> 'c TimerMgr \<times> nat" where
  "addTimer m timeout callback =
     (let t = Timer_new (clock m) timeout 0 TIMER_TYPE_ONCE callback
      in (notify_one (set_add (add_push m t)), next_timer m))"

text \<open>The overload that takes a made timer, under \<open>mtx\<close>; the program never calls it.\<close>

definition addTimer_ptr :: "'c TimerMgr \<Rightarrow> 'c Timer \<Rightarrow> 'c TimerMgr" where
  "addTimer_ptr m timer = notify_one (set_add (add_push m timer))"

text \<open>\<open>cancel\<close> through a pointer to a timer, under the caller's lock.\<close>

definition cancel_timer :: "'c TimerMgr \<Rightarrow> nat \<Rightarrow> 'c TimerMgr" where
  "cancel_timer m i = m\<lparr>timers := (timers m)(i := cancel (timers m i))\<rparr>"

definition Close :: "'c TimerMgr \<Rightarrow> 'c TimerMgr" where
  "Close m = notify_one (set_add (m\<lparr>timer_run_flag := False\<rparr>))"

definition isEmpty_mgr :: "'c TimerMgr \<Rightarrow> bool" where
  "isEmpty_mgr m \<longleftrightarrow> mTimers m = []"

definition clear_mgr :: "'c TimerMgr \<Rightarrow> 'c TimerMgr" where
  "clear_mgr m = m\<lparr>mTimers := []\<rparr>"

definition nearLeftTime :: "'c TimerMgr \<Rightarrow> 'c TimerMgr \<times> int" where
  "nearLeftTime m =
     (case mTimers m of
        [] \<Rightarrow> (m, 0)
      | i # _ \<Rightarrow>
          (case getLeftTime (clock m) (timers m i) of
             (t, result) \<Rightarrow> (m\<lparr>timers := (timers m)(i := t)\<rparr>, if result < 0 then 0 else result)))"

section \<open>The timer thread\<close>

definition timer_default_wait :: int where
  "timer_default_wait = 300"

text \<open>
  \<open>schedule\<close> raises the run flag once and then calls \<open>timer_run\<close> while it is up; a call that
  returns either way comes back to the head of that loop, or ends it.
\<close>

definition schedule_start :: "'c TimerMgr \<Rightarrow> 'c TimerMgr" where
  "schedule_start m = m\<lparr>timer_run_flag := True, pc := T_Head\<rparr>"

definition schedule_next :: "ENUM_WHILE_STATE \<Rightarrow> 'c TimerMgr \<Rightarrow> 'c TimerMgr" where
  "schedule_next r m =
     m\<lparr>pc := (case r of WHILE_STATE_BREAK \<Rightarrow> T_Done | WHILE_STATE_CONTINUE \<Rightarrow> T_Head)\<rparr>"

text \<open>\<open>while (timer_run_)\<close>, which does not hold \<open>mtx\<close>.\<close>

definition schedule_head :: "'c TimerMgr \<Rightarrow> 'c TimerMgr" where
  "schedule_head m = m\<lparr>pc := (if timer_run_flag m then T_Enter else T_Done)\<rparr>"

text \<open>
  \<open>timer_run\<close> takes \<open>mtx\<close>, tests for timers, and waits where there is none; a timer can be
  pushed between the test and the wait, since \<open>addTimer\<close> does not take \<open>mtx\<close>.
\<close>

definition timer_run_enter :: "'c TimerMgr \<Rightarrow> 'c TimerMgr" where
  "timer_run_enter m = m\<lparr>pc := (if mTimers m = [] then T_Empty else T_Check)\<rparr>"

definition timer_run_wait :: "'c TimerMgr \<Rightarrow> 'c TimerMgr" where
  "timer_run_wait m =
     m\<lparr>pc := T_WaitEmpty (clock m + timer_default_wait * 1000000000), notified := False\<rparr>"

definition timer_run_check :: "'c TimerMgr \<Rightarrow> 'c TimerMgr" where
  "timer_run_check m =
     (if \<not> timer_run_flag m then schedule_next WHILE_STATE_BREAK m
      else case mTimers m of
        [] \<Rightarrow> schedule_next WHILE_STATE_CONTINUE m
      | tmp # _ \<Rightarrow> m\<lparr>pc := T_Got tmp\<rparr>)"

definition timer_run_left :: "'c TimerMgr \<Rightarrow> nat \<Rightarrow> 'c TimerMgr" where
  "timer_run_left m tmp =
     (case getLeftTime (clock m) (timers m tmp) of
        (t, timer_wait) \<Rightarrow>
          (let m' = m\<lparr>timers := (timers m)(tmp := t)\<rparr>
           in if timer_wait > 0
              then m'\<lparr>pc := T_Wait tmp (clock m + timer_wait), notified := False\<rparr>
              else m'\<lparr>pc := T_Pop tmp\<rparr>))"

text \<open>Back from \<open>wait_for\<close>, whatever the reason.\<close>

definition timer_run_woken :: "'c TimerMgr \<Rightarrow> 'c TimerMgr" where
  "timer_run_woken m =
     (case pc m of
        T_WaitEmpty _ \<Rightarrow> m\<lparr>pc := T_Check, notified := False\<rparr>
      | T_Wait tmp _ \<Rightarrow>
          (if timer_wakeup_state m = TIMER_STATE_ADD_TIMER
           then schedule_next WHILE_STATE_CONTINUE (m\<lparr>notified := False\<rparr>)
           else m\<lparr>pc := T_Pop tmp, notified := False\<rparr>)
      | _ \<Rightarrow> m)"

text \<open>
  The locked region at the end: pop whatever is on top, call \<open>tmp\<close>, and push \<open>tmp\<close> again if it
  is a loop timer with a callback.
\<close>

definition timer_run_fire :: "'c TimerMgr \<Rightarrow> nat \<Rightarrow> 'c TimerMgr" where
  "timer_run_fire m tmp =
     (if \<not> timer_run_flag m then schedule_next WHILE_STATE_BREAK m
      else
        (case Timer_call (clock m) (timers m tmp) of
           (t, callback) \<Rightarrow>
             (let ts = (timers m)(tmp := t);
                  popped = tl (mTimers m);
                  q = (if mTimerType t = TIMER_TYPE_LOOP \<and> mCallback t \<noteq> None
                       then pq_push ts popped tmp else popped)
              in schedule_next WHILE_STATE_CONTINUE
                   (m\<lparr>timers := ts, mTimers := q,
                      timer_wakeup_state := TIMER_STATE_EXECUTE_TIMER,
                      fired := fired m @ (case callback of None \<Rightarrow> []
                                          | Some c \<Rightarrow> [(tmp, c, clock m)])\<rparr>))))"

text \<open>One step of the thread where it is not waiting.\<close>

definition thread_step :: "'c TimerMgr \<Rightarrow> 'c TimerMgr" where
  "thread_step m =
     (case pc m of
        T_Init \<Rightarrow> schedule_start m
      | T_Head \<Rightarrow> schedule_head m
      | T_Enter \<Rightarrow> timer_run_enter m
      | T_Empty \<Rightarrow> timer_run_wait m
      | T_Check \<Rightarrow> timer_run_check m
      | T_Got tmp \<Rightarrow> timer_run_left m tmp
      | T_Pop tmp \<Rightarrow> timer_run_fire m tmp
      | _ \<Rightarrow> m)"

section \<open>Interleaving\<close>

text \<open>
  The steps of the system. \<open>Add\<close> and \<open>AddLoop\<close> are the two functions done in one go; \<open>Push\<close>,
  \<open>SetAdd\<close> and \<open>Notify\<close> are their parts, for the interleavings in which the timer thread runs
  between them (a pushed timer's start time was read before the push). The thread wakes when
  it was notified, when its deadline has passed, or, as the standard allows, for no reason.
\<close>

datatype 'c tm_event =
    Tick nat
  | Add int 'c
  | AddLoop int int 'c
  | Push "'c Timer"
  | SetAdd
  | Notify
  | CancelTimer nat
  | CloseMgr
  | Thread
  | WakeNotified
  | WakeTimeout
  | WakeSpurious

fun deadline :: "tpc \<Rightarrow> int option" where
  "deadline (T_WaitEmpty d) = Some d"
| "deadline (T_Wait _ d) = Some d"
| "deadline _ = None"

fun enabled :: "'c TimerMgr \<Rightarrow> 'c tm_event \<Rightarrow> bool" where
  "enabled m (Push t) = (mStartTime t \<le> clock m \<and> \<not> mExecuteOnceFlag t)"
| "enabled m CloseMgr = mtx_free m"
| "enabled m Thread = (\<not> waiting (pc m))"
| "enabled m WakeNotified = (waiting (pc m) \<and> notified m)"
| "enabled m WakeTimeout = (case deadline (pc m) of None \<Rightarrow> False | Some d \<Rightarrow> d \<le> clock m)"
| "enabled m WakeSpurious = waiting (pc m)"
| "enabled m _ = True"

fun tm_step :: "'c TimerMgr \<Rightarrow> 'c tm_event \<Rightarrow> 'c TimerMgr" where
  "tm_step m (Tick d) = m\<lparr>clock := clock m + int d\<rparr>"
| "tm_step m (Add timeout c) = fst (addTimer m timeout c)"
| "tm_step m (AddLoop delay timeout c) = fst (addTimer_loop m delay timeout c)"
| "tm_step m (Push t) = add_push m t"
| "tm_step m SetAdd = set_add m"
| "tm_step m Notify = notify_one m"
| "tm_step m (CancelTimer i) = cancel_timer m i"
| "tm_step m CloseMgr = Close m"
| "tm_step m Thread = thread_step m"
| "tm_step m WakeNotified = timer_run_woken m"
| "tm_step m WakeTimeout = timer_run_woken m"
| "tm_step m WakeSpurious = timer_run_woken m"

fun tm_run :: "'c TimerMgr \<Rightarrow> 'c tm_event list \<Rightarrow> 'c TimerMgr option" where
  "tm_run m [] = Some m"
| "tm_run m (e # es) = (if enabled m e then tm_run (tm_step m e) es else None)"

end
