(* ===== verification/Timer_Props.thy ===== *)
theory Timer_Props
  imports Timer_Manager "HOL-Library.Multiset"
begin

text \<open>
  What the timer component guarantees in every interleaving, what it guarantees where adding a
  timer excludes the timer thread as \<open>mtx\<close> would, and the interleavings the code allows in
  which it loses a timer, a wake-up, an initial delay or a close.
\<close>

section \<open>The priority queue\<close>

definition key :: "'c Timer \<Rightarrow> int" where
  "key t = mStartTime t + mLastTime t"

lemma CompareTimer_key: "CompareTimer l r \<longleftrightarrow> key r < key l"
  by (auto simp: CompareTimer_def key_def Let_def)

text \<open>The contract of \<open>std::priority_queue\<close> the manager relies on.\<close>

locale timer_queue =
  fixes push :: "(nat \<Rightarrow> 'c Timer) \<Rightarrow> nat list \<Rightarrow> nat \<Rightarrow> nat list"
    and ordered :: "(nat \<Rightarrow> 'c Timer) \<Rightarrow> nat list \<Rightarrow> bool"
  assumes push_mset: "mset (push ts q x) = add_mset x (mset q)"
    and push_ordered: "ordered ts q \<Longrightarrow> ordered ts (push ts q x)"
    and empty_ordered: "ordered ts []"
    and tail_ordered: "ordered ts (x # q) \<Longrightarrow> ordered ts q"
    and top_least: "ordered ts (x # q) \<Longrightarrow> y \<in> set q \<Longrightarrow> key (ts x) \<le> key (ts y)"
    and ordered_cong: "(\<And>x. x \<in> set q \<Longrightarrow> key (ts' x) = key (ts x)) \<Longrightarrow> ordered ts q \<Longrightarrow> ordered ts' q"
begin

lemma push_set: "set (push ts q x) = insert x (set q)"
  by (metis push_mset set_mset_add_mset_insert set_mset_mset)

lemma push_distinct: "distinct (push ts q x) \<longleftrightarrow> distinct q \<and> x \<notin> set q"
  by (metis distinct.simps(2) mset.simps(2) mset_eq_imp_distinct_iff push_mset)

lemma push_nonempty: "push ts q x \<noteq> []"
  using push_set [of ts q x] by auto

text \<open>A timer pushed onto an ordered queue is on top only if no queued timer is due earlier.\<close>

lemma push_top:
  assumes "ordered ts q" "y \<in> set q" "push ts q x = z # zs"
  shows "key (ts z) \<le> key (ts y)"
proof (cases "z = y")
  case False
  then have "y \<in> set zs" using push_set [of ts q x] assms(2,3) by auto
  then show ?thesis
    using top_least push_ordered [OF assms(1), of x] assms(3) by simp
qed simp

end

definition pq_ordered :: "(nat \<Rightarrow> 'c Timer) \<Rightarrow> nat list \<Rightarrow> bool" where
  "pq_ordered ts q \<longleftrightarrow> sorted (map (\<lambda>i. key (ts i)) q)"

lemma pq_push_mset: "mset (pq_push ts q x) = add_mset x (mset q)"
  by (induction q) auto

lemma pq_push_set: "set (pq_push ts q x) = insert x (set q)"
  by (metis pq_push_mset set_mset_add_mset_insert set_mset_mset)

lemma pq_push_ordered: "pq_ordered ts q \<Longrightarrow> pq_ordered ts (pq_push ts q x)"
  by (induction q) (auto simp: pq_ordered_def CompareTimer_key pq_push_set)

interpretation pq: timer_queue pq_push pq_ordered
proof unfold_locales
  fix ts ts' :: "nat \<Rightarrow> 'c Timer" and q x y
  show "mset (pq_push ts q x) = add_mset x (mset q)" by (rule pq_push_mset)
  show "pq_ordered ts q \<Longrightarrow> pq_ordered ts (pq_push ts q x)" by (rule pq_push_ordered)
  show "pq_ordered ts []" by (simp add: pq_ordered_def)
  show "pq_ordered ts (x # q) \<Longrightarrow> pq_ordered ts q" by (simp add: pq_ordered_def)
  show "pq_ordered ts (x # q) \<Longrightarrow> y \<in> set q \<Longrightarrow> key (ts x) \<le> key (ts y)"
    by (auto simp: pq_ordered_def)
  show "(\<And>x. x \<in> set q \<Longrightarrow> key (ts' x) = key (ts x)) \<Longrightarrow> pq_ordered ts q \<Longrightarrow> pq_ordered ts' q"
    by (simp add: pq_ordered_def cong: map_cong)
qed

text \<open>With the first-in order of equal keys, a timer not due before the top stays behind it.\<close>

lemma pq_push_hd: "q \<noteq> [] \<Longrightarrow> key (ts (hd q)) \<le> key (ts x) \<Longrightarrow> hd (pq_push ts q x) = hd q"
  by (cases q) (auto simp: CompareTimer_key)

section \<open>Operations on a single timer\<close>

lemma key_getLeftTime [simp]: "key (fst (getLeftTime now t)) = key t"
  by (simp add: getLeftTime_def key_def)

lemma key_cancel [simp]: "key (cancel t) = key t"
  by (simp add: cancel_def key_def)

lemma getLeftTime_simps [simp]:
  "mExecuteOnceFlag (fst (getLeftTime now t)) = mExecuteOnceFlag t"
  "mCallback (fst (getLeftTime now t)) = mCallback t"
  "mTimerType (fst (getLeftTime now t)) = mTimerType t"
  "mDelayTime (fst (getLeftTime now t)) = 0"
  "snd (getLeftTime now t) = key t + mDelayTime t * 1000000000 - now"
  by (simp_all add: getLeftTime_def key_def)

lemma cancel_simps [simp]:
  "mExecuteOnceFlag (cancel t)"
  "mTimerType (cancel t) = mTimerType t"
  "mDelayTime (cancel t) = mDelayTime t"
  by (simp_all add: cancel_def)

lemma Timer_call_simps [simp]:
  "mTimerType (fst (Timer_call now t)) = mTimerType t"
  "mDelayTime (fst (Timer_call now t)) = mDelayTime t"
  "mLastTime (fst (Timer_call now t)) = mLastTime t"
  by (simp_all add: Timer_call_def)

section \<open>Every interleaving\<close>

definition fire_count :: "'c TimerMgr \<Rightarrow> nat \<Rightarrow> nat" where
  "fire_count m i = length (filter (\<lambda>f. fst f = i) (fired m))"

text \<open>
  The invariant of all interleavings: every number in use was handed out, a used once flag means
  no callback, and a one-shot timer has run at most once, and not at all with its flag unused.
\<close>

definition tm_inv :: "'c TimerMgr \<Rightarrow> bool" where
  "tm_inv m \<longleftrightarrow>
     (\<forall>i \<in> set (mTimers m). i < next_timer m) \<and>
     (\<forall>i. held (pc m) = Some i \<longrightarrow> i < next_timer m) \<and>
     (\<forall>f \<in> set (fired m). fst f < next_timer m) \<and>
     (\<forall>i < next_timer m. mExecuteOnceFlag (timers m i) \<longrightarrow> mCallback (timers m i) = None) \<and>
     (\<forall>i < next_timer m. mTimerType (timers m i) = TIMER_TYPE_ONCE \<longrightarrow>
        fire_count m i \<le> (if mExecuteOnceFlag (timers m i) then 1 else 0))"

lemmas thread_defs = thread_step_def schedule_start_def schedule_head_def timer_run_enter_def
  timer_run_wait_def timer_run_check_def schedule_next_def timer_run_woken_def

lemma notify_one_eq: "notify_one m = m\<lparr>notified := notified m \<or> waiting (pc m)\<rparr>"
  by (simp add: notify_one_def)

lemmas add_defs = addTimer_def addTimer_loop_def add_push_def set_add_def notify_one_eq Let_def

lemma tm_inv_init: "tm_inv (TimerMgr_init c t)"
  by (simp add: tm_inv_def TimerMgr_init_def)

lemma fire_count_0: "tm_inv m \<Longrightarrow> next_timer m \<le> i \<Longrightarrow> fire_count m i = 0"
  by (auto simp: tm_inv_def fire_count_def filter_empty_conv)

lemma fire_count_cong: "fired m' = fired m \<Longrightarrow> fire_count m' = fire_count m"
  by (rule ext) (simp add: fire_count_def)

lemma tm_inv_add_push:
  assumes "tm_inv m" "\<not> mExecuteOnceFlag t"
  shows "tm_inv (add_push m t)"
proof -
  have c: "fire_count (add_push m t) = fire_count m"
    by (rule fire_count_cong) (simp add: add_push_def Let_def)
  show ?thesis
    using assms fire_count_0 [OF assms(1), of "next_timer m"]
    unfolding tm_inv_def c
    by (auto simp: add_push_def Let_def pq_push_set less_Suc_eq)
qed

lemma tm_inv_cong:
  "tm_inv m \<Longrightarrow> mTimers m' = mTimers m \<Longrightarrow> next_timer m' = next_timer m \<Longrightarrow> timers m' = timers m \<Longrightarrow>
     fired m' = fired m \<Longrightarrow> (\<And>i. held (pc m') = Some i \<Longrightarrow> i < next_timer m) \<Longrightarrow> tm_inv m'"
  by (simp add: tm_inv_def fire_count_def)

lemma tm_inv_timer:
  assumes "tm_inv m" "mTimerType t = mTimerType (timers m i)"
    "mExecuteOnceFlag (timers m i) \<Longrightarrow> mExecuteOnceFlag t"
    "mExecuteOnceFlag t \<Longrightarrow> i < next_timer m \<Longrightarrow> mCallback t = None"
  shows "tm_inv (m\<lparr>timers := (timers m)(i := t)\<rparr>)"
proof -
  have c: "fire_count (m\<lparr>timers := (timers m)(i := t)\<rparr>) = fire_count m"
    by (rule fire_count_cong) simp
  show ?thesis
    using assms unfolding tm_inv_def c by (auto split: if_splits)
qed

lemma fire_eq:
  assumes "timer_run_flag m" "Timer_call (clock m) (timers m tmp) = (t, cb)"
  shows "timer_run_fire m tmp = m\<lparr>timers := (timers m)(tmp := t),
      mTimers := (if mTimerType t = TIMER_TYPE_LOOP \<and> mCallback t \<noteq> None
        then pq_push ((timers m)(tmp := t)) (tl (mTimers m)) tmp else tl (mTimers m)),
      timer_wakeup_state := TIMER_STATE_EXECUTE_TIMER,
      fired := fired m @ (case cb of None \<Rightarrow> [] | Some c \<Rightarrow> [(tmp, c, clock m)]), pc := T_Head\<rparr>"
  using assms by (simp add: timer_run_fire_def schedule_next_def Let_def)

lemma Timer_call_cases:
  assumes "Timer_call now t = (t', cb)"
  obtains "mTimerType t = TIMER_TYPE_ONCE" "mExecuteOnceFlag t" "t' = t" "cb = None"
  | "mTimerType t = TIMER_TYPE_ONCE" "\<not> mExecuteOnceFlag t" "mExecuteOnceFlag t'" "mCallback t' = None"
      "cb = mCallback t" "mTimerType t' = TIMER_TYPE_ONCE" "mDelayTime t' = mDelayTime t"
  | "mTimerType t = TIMER_TYPE_LOOP" "t' = t\<lparr>mStartTime := now\<rparr>" "cb = mCallback t"
  using assms by (cases "mTimerType t") (auto simp: Timer_call_def split: if_splits)

lemma tm_inv_fire:
  assumes inv: "tm_inv m" and t: "tmp < next_timer m"
  shows "tm_inv (timer_run_fire m tmp)"
proof (cases "timer_run_flag m")
  case False
  with inv show ?thesis
    by (intro tm_inv_cong [OF inv]) (simp_all add: timer_run_fire_def schedule_next_def)
next
  case True
  obtain t' cb where call: "Timer_call (clock m) (timers m tmp) = (t', cb)" by fastforce
  let ?m = "timer_run_fire m tmp"
  note eq = fire_eq [OF True call]
  have tl: "set (tl (mTimers m)) \<subseteq> set (mTimers m)" by (cases "mTimers m") auto
  have ty: "mTimerType t' = mTimerType (timers m tmp)"
    using call by (rule Timer_call_cases) simp_all
  have fc: "fire_count ?m i = fire_count m i + (if i = tmp \<and> cb \<noteq> None then 1 else 0)" for i
    unfolding eq fire_count_def by (auto split: option.split)
  have cnt: "fire_count ?m i \<le> (if mExecuteOnceFlag (timers ?m i) then 1 else 0)"
    if i: "i < next_timer m" "mTimerType (timers ?m i) = TIMER_TYPE_ONCE" for i
  proof (cases "i = tmp")
    case False
    then show ?thesis using inv i fc by (simp add: eq tm_inv_def)
  next
    case ii: True
    have "fire_count m tmp \<le> (if mExecuteOnceFlag (timers m tmp) then 1 else 0)"
      using inv t i ii ty by (simp add: eq tm_inv_def)
    with call show ?thesis
      using fc ii i ty by (elim Timer_call_cases) (auto simp: eq)
  qed
  have flag: "mCallback (timers ?m i) = None" if "i < next_timer m" "mExecuteOnceFlag (timers ?m i)" for i
    using inv that call by (elim Timer_call_cases) (auto simp: eq tm_inv_def split: if_splits)
  have "set (mTimers ?m) \<subseteq> insert tmp (set (mTimers m))"
    using tl by (auto simp: eq pq_push_set)
  moreover have "\<forall>f \<in> set (fired ?m). fst f < next_timer m"
    using inv t by (auto simp: eq tm_inv_def split: option.splits)
  moreover have "next_timer ?m = next_timer m" "held (pc ?m) = None" by (simp_all add: eq)
  ultimately show ?thesis
    using inv t cnt flag by (auto simp: tm_inv_def)
qed

lemma tm_inv_left:
  assumes inv: "tm_inv m" and i: "i < next_timer m"
  shows "tm_inv (timer_run_left m i)"
proof -
  have t: "tm_inv (m\<lparr>timers := (timers m)(i := fst (getLeftTime (clock m) (timers m i)))\<rparr>)"
    using inv i by (intro tm_inv_timer) (simp_all add: tm_inv_def)
  show ?thesis
    using i by (intro tm_inv_cong [OF t])
      (auto simp: timer_run_left_def Let_def case_prod_beta simp del: getLeftTime_simps(5) split: if_splits)
qed

lemma tm_inv_move:
  "tm_inv m \<Longrightarrow> held p = None \<Longrightarrow> tm_inv (m\<lparr>pc := p\<rparr>)"
  "tm_inv m \<Longrightarrow> held p = None \<Longrightarrow> tm_inv (m\<lparr>pc := p, notified := b\<rparr>)"
  by (simp_all add: tm_inv_def fire_count_def)

lemma held_less: "tm_inv m \<Longrightarrow> held (pc m) = Some i \<Longrightarrow> i < next_timer m"
  by (simp add: tm_inv_def)

lemma queue_less: "tm_inv m \<Longrightarrow> i \<in> set (mTimers m) \<Longrightarrow> i < next_timer m"
  by (simp add: tm_inv_def)

text \<open>The thread's other steps and the wake-ups change its position and flags only.\<close>

lemma tm_inv_thread_step:
  assumes inv: "tm_inv m"
  shows "tm_inv (thread_step m)"
proof (cases "pc m")
  case (T_Got i)
  then show ?thesis
    using tm_inv_left [OF inv] held_less [OF inv] by (simp add: thread_step_def)
next
  case (T_Pop i)
  then show ?thesis
    using tm_inv_fire [OF inv] held_less [OF inv] by (simp add: thread_step_def)
next
  case T_Check
  show ?thesis
  proof (cases "mTimers m")
    case (Cons i q)
    then have "i < next_timer m" using queue_less [OF inv] by simp
    then show ?thesis using T_Check Cons
      by (intro tm_inv_cong [OF inv]) (simp_all add: thread_defs split: if_splits)
  qed (intro tm_inv_cong [OF inv], simp_all add: thread_defs T_Check split: if_splits)
qed (simp_all add: thread_defs inv tm_inv_move split: if_splits,
     use inv in \<open>simp add: tm_inv_def fire_count_def\<close>)

lemma tm_inv_woken:
  assumes inv: "tm_inv m"
  shows "tm_inv (timer_run_woken m)"
  using held_less [OF inv]
  by (intro tm_inv_cong [OF inv]) (auto simp: timer_run_woken_def schedule_next_def split: tpc.splits if_splits)

lemma tm_inv_notify: "tm_inv m \<Longrightarrow> tm_inv (notify_one m)"
  using held_less [of m] by (rule_tac tm_inv_cong [of m]) (simp_all add: notify_one_eq)

lemma tm_inv_set_add: "tm_inv m \<Longrightarrow> tm_inv (set_add m)"
  using held_less [of m] by (rule_tac tm_inv_cong [of m]) (simp_all add: set_add_def)

lemma tm_inv_step:
  assumes inv: "tm_inv m" and en: "enabled m e"
  shows "tm_inv (tm_step m e)"
proof (cases e)
  case (Add t c)
  then show ?thesis
    by (simp add: addTimer_def Let_def Timer_new_def tm_inv_add_push [OF inv] tm_inv_notify tm_inv_set_add)
next
  case (AddLoop d t c)
  then show ?thesis
    by (simp add: addTimer_loop_def Let_def Timer_new_def tm_inv_add_push [OF inv] tm_inv_notify tm_inv_set_add)
next
  case (Push t)
  then show ?thesis using tm_inv_add_push [OF inv] en by simp
next
  case (CancelTimer i)
  have "tm_inv (m\<lparr>timers := (timers m)(i := cancel (timers m i))\<rparr>)"
    using inv by (intro tm_inv_timer) (auto simp: cancel_def tm_inv_def)
  then show ?thesis using CancelTimer by (simp add: cancel_timer_def)
next
  case CloseMgr
  have "tm_inv (m\<lparr>timer_run_flag := False\<rparr>)"
    by (rule tm_inv_cong [OF inv]) (simp_all add: held_less [OF inv])
  then show ?thesis using CloseMgr by (simp add: Close_def tm_inv_notify tm_inv_set_add)
next
  case (Tick d)
  then show ?thesis by (intro tm_inv_cong [OF inv]) (simp_all add: held_less [OF inv])
qed (simp_all add: inv tm_inv_thread_step tm_inv_woken tm_inv_notify tm_inv_set_add)

lemma tm_inv_run: "tm_run m es = Some m' \<Longrightarrow> tm_inv m \<Longrightarrow> tm_inv m'"
  by (induction es arbitrary: m) (auto intro: tm_inv_step split: if_splits)

text \<open>A timer without a callback stays without one and never runs again.\<close>

definition spent :: "'c TimerMgr \<Rightarrow> nat \<Rightarrow> bool" where
  "spent m i \<longleftrightarrow> i < next_timer m \<and> mCallback (timers m i) = None"

lemma spent_fire:
  "spent m i \<Longrightarrow> spent (timer_run_fire m tmp) i \<and> fire_count (timer_run_fire m tmp) i = fire_count m i"
  by (auto simp: spent_def timer_run_fire_def schedule_next_def Let_def fire_count_def
      Timer_call_def split: option.splits prod.splits)

lemma spent_left:
  "spent m i \<Longrightarrow> spent (timer_run_left m tmp) i \<and> fire_count (timer_run_left m tmp) i = fire_count m i"
  by (auto simp: spent_def timer_run_left_def getLeftTime_def Let_def fire_count_def)

lemma spent_step:
  assumes "spent m i"
  shows "spent (tm_step m e) i \<and> fire_count (tm_step m e) i = fire_count m i"
proof (cases e)
  case Thread
  then show ?thesis
    using assms spent_fire [OF assms] spent_left [OF assms]
    by (cases "pc m") (auto simp: thread_defs spent_def fire_count_def split: list.split)
qed (use assms in \<open>auto simp: spent_def add_defs Close_def cancel_timer_def cancel_def thread_defs
       fire_count_def split: tpc.split\<close>)

lemma spent_run: "tm_run m es = Some m' \<Longrightarrow> spent m i \<Longrightarrow> fire_count m' i = fire_count m i"
proof (induction es arbitrary: m)
  case Nil
  then show ?case by simp
next
  case (Cons e es)
  then show ?case using spent_step [OF Cons.prems(2), of e] by (auto split: if_splits)
qed

lemma spent_cancel:
  "tm_inv m \<Longrightarrow> i < next_timer m \<Longrightarrow> spent (tm_step m (CancelTimer i)) i"
  by (auto simp: spent_def cancel_timer_def cancel_def tm_inv_def)

section \<open>Adding under the lock\<close>

text \<open>
  What \<open>addTimer(const Timer::Ptr&)\<close> does and the two overloads the program uses do not: the
  timer is added while \<open>mtx\<close> is free of the timer thread. Together with timeouts and delays
  that are not negative and no wake-ups without a reason, this is an orderly step.
\<close>

fun orderly :: "'c TimerMgr \<Rightarrow> 'c tm_event \<Rightarrow> bool" where
  "orderly m (Add timeout _) = (0 \<le> timeout \<and> mtx_free m)"
| "orderly m (AddLoop d timeout _) = (0 \<le> d \<and> 0 \<le> timeout \<and> mtx_free m)"
| "orderly m (Push _) = False"
| "orderly m SetAdd = False"
| "orderly m Notify = False"
| "orderly m WakeSpurious = False"
| "orderly m _ = True"

fun obeys :: "('c TimerMgr \<Rightarrow> 'c tm_event \<Rightarrow> bool) \<Rightarrow> 'c TimerMgr \<Rightarrow> 'c tm_event list \<Rightarrow> bool" where
  "obeys P m [] = True"
| "obeys P m (e # es) = (P m e \<and> obeys P (tm_step m e) es)"

fun pc_inv :: "'c TimerMgr \<Rightarrow> tpc \<Rightarrow> bool" where
  "pc_inv m (T_Got i) = (mTimers m \<noteq> [] \<and> hd (mTimers m) = i)"
| "pc_inv m (T_Wait i d) =
     (key (timers m i) \<le> d \<and> (notified m \<longrightarrow> timer_wakeup_state m = TIMER_STATE_ADD_TIMER) \<and>
      (timer_wakeup_state m = TIMER_STATE_EXECUTE_TIMER \<longrightarrow> mTimers m \<noteq> [] \<and> hd (mTimers m) = i))"
| "pc_inv m (T_Pop i) =
     (mTimers m \<noteq> [] \<and> hd (mTimers m) = i \<and> key (timers m i) \<le> clock m)"
| "pc_inv m _ = True"

definition ord_inv :: "'c TimerMgr \<Rightarrow> bool" where
  "ord_inv m \<longleftrightarrow> tm_inv m \<and> pq_ordered (timers m) (mTimers m) \<and> distinct (mTimers m) \<and>
     (\<forall>i < next_timer m. 0 \<le> mDelayTime (timers m i)) \<and>
     (\<forall>i < next_timer m. mCallback (timers m i) \<noteq> None \<longrightarrow> i \<in> set (mTimers m)) \<and>
     pc_inv m (pc m)"

lemma ord_invD:
  assumes "ord_inv m"
  shows ord_tm: "tm_inv m"
    and ord_sorted: "pq_ordered (timers m) (mTimers m)"
    and ord_distinct: "distinct (mTimers m)"
    and ord_delay: "i < next_timer m \<Longrightarrow> 0 \<le> mDelayTime (timers m i)"
    and ord_live: "i < next_timer m \<Longrightarrow> mCallback (timers m i) \<noteq> None \<Longrightarrow> i \<in> set (mTimers m)"
    and ord_pc: "pc_inv m (pc m)"
  using assms by (simp_all add: ord_inv_def)

lemma ord_invI:
  assumes "tm_inv m" "pq_ordered (timers m) (mTimers m)" "distinct (mTimers m)"
    "\<And>i. i < next_timer m \<Longrightarrow> 0 \<le> mDelayTime (timers m i)"
    "\<And>i. i < next_timer m \<Longrightarrow> mCallback (timers m i) \<noteq> None \<Longrightarrow> i \<in> set (mTimers m)"
    "pc_inv m (pc m)"
  shows "ord_inv m"
  using assms by (simp add: ord_inv_def)

lemma ord_inv_init: "ord_inv (TimerMgr_init c t)"
  using tm_inv_init [of c t] by (simp add: ord_inv_def) (simp add: TimerMgr_init_def pq_ordered_def)

lemma ord_inv_add:
  assumes inv: "ord_inv m" and t: "\<not> mExecuteOnceFlag t" "0 \<le> mDelayTime t" and fr: "mtx_free m"
  shows "ord_inv (notify_one (set_add (add_push m t)))"
proof -
  let ?n = "next_timer m" and ?ts = "(timers m)(next_timer m := t)"
  have old: "i < ?n" if "i \<in> set (mTimers m)" for i
    using inv that by (auto simp: ord_inv_def tm_inv_def)
  have o: "pq_ordered ?ts (mTimers m)"
    using inv old by (intro pq.ordered_cong [of "mTimers m" ?ts "timers m"]) (auto simp: ord_inv_def)
  have h: "held (pc m) = Some i \<Longrightarrow> i < ?n" for i
    using inv by (simp add: ord_inv_def tm_inv_def)
  have "tm_inv (add_push m t)" using inv t by (intro tm_inv_add_push) (auto simp: ord_inv_def)
  then have "tm_inv (notify_one (set_add (add_push m t)))"
    by (elim tm_inv_cong) (auto simp: add_defs less_Suc_eq dest: h)
  moreover have "pc_inv (notify_one (set_add (add_push m t))) (pc m)"
    using inv fr h by (cases "pc m") (auto simp: mtx_free_def add_defs ord_inv_def)
  moreover have "distinct (pq_push ?ts (mTimers m) ?n)"
    using inv old by (auto simp: pq.push_distinct ord_inv_def)
  ultimately show ?thesis
    using inv t pq.push_ordered [OF o, of ?n]
    by (auto simp: ord_inv_def add_defs pq.push_set less_Suc_eq)
qed

lemma ord_inv_fire:
  assumes inv: "ord_inv m" and pc: "pc m = T_Pop tmp"
  shows "ord_inv (timer_run_fire m tmp)"
proof (cases "timer_run_flag m")
  case False
  then have "timer_run_fire m tmp = m\<lparr>pc := T_Done\<rparr>"
    by (simp add: timer_run_fire_def schedule_next_def)
  then show ?thesis
    using inv tm_inv_move(1) [OF ord_tm [OF inv], of T_Done] by (simp add: ord_inv_def)
next
  case True
  have pi: "mTimers m \<noteq> []" "hd (mTimers m) = tmp" using ord_pc [OF inv] pc by simp_all
  then obtain q where q: "mTimers m = tmp # q" by (cases "mTimers m") simp_all
  have qd: "tmp \<notin> set q" "distinct q" using ord_distinct [OF inv] q by simp_all
  obtain t cb where call: "Timer_call (clock m) (timers m tmp) = (t, cb)" by fastforce
  have lt: "tmp < next_timer m" using held_less [OF ord_tm [OF inv]] pc by simp
  let ?ts = "(timers m)(tmp := t)" and ?m = "timer_run_fire m tmp"
  note eq = fire_eq [OF True call]
  have o: "pq_ordered ?ts q"
    using ord_sorted [OF inv] qd pq.tail_ordered [of "timers m" tmp q]
    by (intro pq.ordered_cong [of q ?ts "timers m"]) (auto simp: q)
  have "mCallback t = None \<or> mTimerType t = TIMER_TYPE_LOOP"
  proof (rule Timer_call_cases [OF call])
    assume "mExecuteOnceFlag (timers m tmp)" "t = timers m tmp"
    then show ?thesis using ord_tm [OF inv] lt by (simp add: tm_inv_def)
  qed simp_all
  then have live: "i \<in> set (mTimers ?m)" if "i < next_timer m" "mCallback (?ts i) \<noteq> None" for i
    using that ord_live [OF inv, of i] by (cases "i = tmp") (auto simp: eq q pq.push_set)
  have dl: "0 \<le> mDelayTime (?ts i)" if "i < next_timer m" for i
    using that ord_delay [OF inv] call Timer_call_simps(2) [of "clock m" "timers m tmp"] by simp
  show ?thesis
  proof (rule ord_invI)
    show "tm_inv ?m" by (rule tm_inv_fire [OF ord_tm [OF inv] lt])
    show "pq_ordered (timers ?m) (mTimers ?m)" using o by (simp add: eq q pq.push_ordered)
    show "distinct (mTimers ?m)" using qd by (simp add: eq q pq.push_distinct)
    show "0 \<le> mDelayTime (timers ?m i)" if "i < next_timer ?m" for i
      using dl that by (simp add: eq)
    show "i \<in> set (mTimers ?m)" if "i < next_timer ?m" "mCallback (timers ?m i) \<noteq> None" for i
      by (rule live) (use that in \<open>simp_all add: eq\<close>)
    show "pc_inv ?m (pc ?m)" by (simp add: eq)
  qed
qed

lemma ord_inv_left:
  assumes inv: "ord_inv m" and pc: "pc m = T_Got tmp"
  shows "ord_inv (timer_run_left m tmp)"
proof -
  define t where "t = fst (getLeftTime (clock m) (timers m tmp))"
  define w where "w = snd (getLeftTime (clock m) (timers m tmp))"
  have lt: "tmp < next_timer m" using held_less [OF ord_tm [OF inv]] pc by simp
  note d = ord_delay [OF inv lt]
  let ?ts = "(timers m)(tmp := t)" and ?m = "timer_run_left m tmp"
  have kt: "key t = key (timers m tmp)" "mDelayTime t = 0" "mCallback t = mCallback (timers m tmp)"
    and wt: "w = key (timers m tmp) + mDelayTime (timers m tmp) * 1000000000 - clock m"
    by (simp_all add: t_def w_def)
  have eq: "?m = (if w > 0
      then m\<lparr>timers := ?ts, pc := T_Wait tmp (clock m + w), notified := False\<rparr>
      else m\<lparr>timers := ?ts, pc := T_Pop tmp\<rparr>)"
    by (simp add: timer_run_left_def t_def w_def Let_def case_prod_beta del: getLeftTime_simps)
  have pi: "pc_inv m (T_Got tmp)" using ord_pc [OF inv] pc by simp
  show ?thesis
  proof (rule ord_invI)
    show "tm_inv ?m" by (rule tm_inv_left [OF ord_tm [OF inv] lt])
    have "pq_ordered ?ts (mTimers m)"
      by (rule pq.ordered_cong [OF _ ord_sorted [OF inv]]) (simp add: kt)
    then show "pq_ordered (timers ?m) (mTimers ?m)" by (simp add: eq)
    show "distinct (mTimers ?m)" using ord_distinct [OF inv] by (simp add: eq)
    show "0 \<le> mDelayTime (timers ?m i)" if "i < next_timer ?m" for i
      using that ord_delay [OF inv, of i] kt by (simp add: eq split: if_splits)
    show "i \<in> set (mTimers ?m)" if "i < next_timer ?m" "mCallback (timers ?m i) \<noteq> None" for i
      using that ord_live [OF inv, of i] ord_live [OF inv lt] kt
      by (cases "i = tmp") (simp_all add: eq split: if_splits)
    show "pc_inv ?m (pc ?m)" using pi d by (simp add: eq kt wt)
  qed
qed

lemma ord_inv_cong:
  "ord_inv m \<Longrightarrow> mTimers m' = mTimers m \<Longrightarrow> next_timer m' = next_timer m \<Longrightarrow> timers m' = timers m \<Longrightarrow>
     fired m' = fired m \<Longrightarrow> (\<And>i. held (pc m') = Some i \<Longrightarrow> i < next_timer m) \<Longrightarrow>
     pc_inv m' (pc m') \<Longrightarrow> ord_inv m'"
  using tm_inv_cong [of m m'] by (simp add: ord_inv_def)

lemma ord_inv_woken:
  assumes inv: "ord_inv m"
    and why: "notified m \<or> (\<exists>d. deadline (pc m) = Some d \<and> d \<le> clock m)"
  shows "ord_inv (timer_run_woken m)"
proof (cases "pc m")
  case (T_Wait i d)
  have pi: "pc_inv m (T_Wait i d)" using ord_pc [OF inv] T_Wait by simp
  have lt: "i < next_timer m" using held_less [OF ord_tm [OF inv]] T_Wait by simp
  show ?thesis
  proof (cases "timer_wakeup_state m")
    case TIMER_STATE_ADD_TIMER
    then show ?thesis
      using T_Wait by (intro ord_inv_cong [OF inv]) (simp_all add: timer_run_woken_def schedule_next_def)
  next
    case TIMER_STATE_EXECUTE_TIMER
    then have "d \<le> clock m" using pi why T_Wait by simp
    then show ?thesis
      using T_Wait TIMER_STATE_EXECUTE_TIMER pi lt
      by (intro ord_inv_cong [OF inv]) (simp_all add: timer_run_woken_def)
  qed
next
  case (T_WaitEmpty d)
  then show ?thesis
    by (intro ord_inv_cong [OF inv]) (simp_all add: timer_run_woken_def)
qed (simp_all add: timer_run_woken_def inv)

lemma ord_inv_move:
  assumes "ord_inv m" "p \<in> {T_Head, T_Enter, T_Empty, T_Check, T_Done, T_WaitEmpty d}"
  shows "ord_inv (m\<lparr>pc := p\<rparr>)" "ord_inv (m\<lparr>pc := p, notified := b\<rparr>)"
  by (rule ord_inv_cong [OF assms(1)]; use assms(2) in auto)+

lemma ord_inv_step:
  assumes inv: "ord_inv m" and en: "enabled m e" and ord: "orderly m e"
  shows "ord_inv (tm_step m e)"
proof (cases e)
  case Thread
  show ?thesis
  proof (cases "pc m")
    case (T_Got i)
    then show ?thesis using ord_inv_left [OF inv T_Got] Thread by (simp add: thread_step_def)
  next
    case (T_Pop i)
    then show ?thesis using ord_inv_fire [OF inv T_Pop] Thread by (simp add: thread_step_def)
  next
    case T_Check
    have "i < next_timer m" if "mTimers m = i # q" for i q
      using inv that by (auto simp: ord_inv_def tm_inv_def)
    then show ?thesis
      using T_Check Thread
      by (intro ord_inv_cong [OF inv]) (auto simp: thread_defs split: list.splits if_splits)
  qed (use Thread in \<open>simp_all add: thread_defs inv ord_inv_move\<close>,
       intro ord_inv_cong [OF inv], simp_all)
next
  case (Add t c)
  then show ?thesis
    using ord ord_inv_add [OF inv, of "Timer_new (clock m) t 0 TIMER_TYPE_ONCE c"]
    by (simp add: addTimer_def Let_def Timer_new_def)
next
  case (AddLoop d t c)
  then show ?thesis
    using ord ord_inv_add [OF inv, of "Timer_new (clock m) t d TIMER_TYPE_LOOP c"]
    by (simp add: addTimer_loop_def Let_def Timer_new_def)
next
  case (CancelTimer i)
  let ?ts = "(timers m)(i := cancel (timers m i))"
  have "tm_inv (cancel_timer m i)"
    using tm_inv_step [of m "CancelTimer i"] inv by (simp add: ord_inv_def)
  moreover have "pq_ordered ?ts (mTimers m)"
    using inv by (intro pq.ordered_cong [of "mTimers m" ?ts "timers m"]) (auto simp: ord_inv_def)
  moreover have "pc_inv (cancel_timer m i) (pc m)"
    using ord_pc [OF inv] by (cases "pc m") (auto simp: cancel_timer_def)
  moreover have "mCallback (cancel (timers m j)) \<noteq> None \<Longrightarrow> mCallback (timers m j) \<noteq> None" for j
    by (cases "mExecuteOnceFlag (timers m j)") (simp_all add: cancel_def)
  ultimately have "ord_inv (cancel_timer m i)"
    using ord_distinct [OF inv] ord_delay [OF inv] ord_live [OF inv]
    by (intro ord_invI) (simp_all add: cancel_timer_def split: if_splits)
  then show ?thesis using CancelTimer by simp
next
  case CloseMgr
  have "held (pc m) = Some i \<Longrightarrow> i < next_timer m" for i using inv by (simp add: ord_inv_def tm_inv_def)
  moreover have "pc_inv (Close m) (pc (Close m))"
    using ord_pc [OF inv] en CloseMgr by (cases "pc m") (simp_all add: Close_def add_defs mtx_free_def)
  ultimately show ?thesis
    using CloseMgr by (intro ord_inv_cong [OF inv]) (simp_all add: Close_def add_defs)
next
  case (Tick d)
  have "held (pc m) = Some i \<Longrightarrow> i < next_timer m" for i using inv by (simp add: ord_inv_def tm_inv_def)
  moreover have "pc_inv (m\<lparr>clock := clock m + int d\<rparr>) (pc m)"
    using ord_pc [OF inv] by (cases "pc m") simp_all
  ultimately show ?thesis using Tick by (intro ord_inv_cong [OF inv]) simp_all
next
  case WakeNotified
  then show ?thesis using ord_inv_woken [OF inv] en by simp
next
  case WakeTimeout
  then show ?thesis using ord_inv_woken [OF inv] en by (simp split: option.splits)
qed (use ord in simp_all)

lemma ord_inv_run:
  "tm_run m es = Some m' \<Longrightarrow> obeys orderly m es \<Longrightarrow> ord_inv m \<Longrightarrow> ord_inv m'"
  by (induction es arbitrary: m) (auto intro: ord_inv_step split: if_splits)

section \<open>Timers nothing owns, and a closed manager\<close>

text \<open>A timer outside the queue that the thread does not hold is gone for good.\<close>

definition gone :: "'c TimerMgr \<Rightarrow> nat \<Rightarrow> bool" where
  "gone m i \<longleftrightarrow> i < next_timer m \<and> expired m i"

lemma gone_fire:
  assumes "gone m i" "pc m = T_Pop tmp"
  shows "gone (timer_run_fire m tmp) i \<and> fire_count (timer_run_fire m tmp) i = fire_count m i"
proof -
  have "i \<noteq> tmp" "i \<notin> set (mTimers m)" using assms by (auto simp: gone_def expired_def)
  moreover from this have "i \<notin> set (tl (mTimers m))" by (cases "mTimers m") auto
  ultimately show ?thesis
    using assms
    by (auto simp: gone_def expired_def timer_run_fire_def schedule_next_def Let_def fire_count_def
        pq_push_set split: option.splits prod.splits)
qed

lemma gone_step:
  assumes g: "gone m i"
  shows "gone (tm_step m e) i \<and> fire_count (tm_step m e) i = fire_count m i"
proof (cases e)
  case Thread
  show ?thesis
  proof (cases "pc m")
    case (T_Pop j)
    then show ?thesis using gone_fire [OF g T_Pop] Thread by (simp add: thread_step_def)
  next
    case (T_Got j)
    then show ?thesis using g Thread
      by (simp add: thread_step_def timer_run_left_def Let_def case_prod_beta gone_def expired_def
          fire_count_def)
  next
    case T_Check
    then show ?thesis using g Thread
      by (cases "mTimers m") (simp_all add: thread_defs gone_def expired_def fire_count_def)
  qed (use g Thread in \<open>simp_all add: thread_defs gone_def expired_def fire_count_def\<close>)
qed (use g in \<open>auto simp: gone_def expired_def add_defs Close_def cancel_timer_def thread_defs
       fire_count_def pq_push_set split: tpc.split\<close>)

lemma gone_run: "tm_run m es = Some m' \<Longrightarrow> gone m i \<Longrightarrow> fire_count m' i = fire_count m i"
proof (induction es arbitrary: m)
  case (Cons e es)
  then show ?case using gone_step [OF Cons.prems(2), of e] by (auto split: if_splits)
qed simp

text \<open>Once the run flag is down and \<open>schedule\<close> has started, nothing runs any more.\<close>

definition closed :: "'c TimerMgr \<Rightarrow> bool" where
  "closed m \<longleftrightarrow> \<not> timer_run_flag m \<and> pc m \<noteq> T_Init"

lemma closed_step:
  assumes "closed m"
  shows "closed (tm_step m e) \<and> fired (tm_step m e) = fired m"
proof (cases e)
  case Thread
  then show ?thesis using assms
    by (cases "pc m") (simp_all add: closed_def thread_defs timer_run_fire_def timer_run_left_def
        Let_def case_prod_beta)
qed (use assms in \<open>auto simp: closed_def add_defs Close_def cancel_timer_def thread_defs
       split: tpc.split\<close>)

lemma closed_run: "tm_run m es = Some m' \<Longrightarrow> closed m \<Longrightarrow> fired m' = fired m"
proof (induction es arbitrary: m)
  case (Cons e es)
  then show ?case using closed_step [OF Cons.prems(2), of e] by (auto split: if_splits)
qed simp

lemma tm_run_append:
  "tm_run m (es @ es') = (case tm_run m es of None \<Rightarrow> None | Some m' \<Rightarrow> tm_run m' es')"
  by (induction es arbitrary: m) auto

section \<open>Properties\<close>

text \<open>
  Concrete runs. \<open>to_pop\<close> brings the thread to the point where it has chosen timer 0, due at
  10, and is about to pop the top of the queue.
\<close>

abbreviation to_pop :: "nat tm_event list" where
  "to_pop \<equiv> Add 10 0 # replicate 5 Thread @ [Tick 10, WakeTimeout] @ replicate 4 Thread"

lemmas run_simps = TimerMgr_init_def add_defs Timer_new_def thread_defs timer_run_left_def
  getLeftTime_def timer_run_fire_def Timer_call_def timer_default_wait_def CompareTimer_def
  Close_def key_def mtx_free_def replicate_numeral

lemma run_ends: "(case r of None \<Rightarrow> False | Some m \<Rightarrow> P m) \<Longrightarrow> \<exists>m. r = Some m \<and> P m"
  by (simp split: option.splits)

text \<open>C4: In every interleaving of adds, cancels, closes, wake-ups and the timer thread, from
  the manager as constructed, a one-shot timer runs its callback at most once.\<close>

theorem once_fires_at_most_once:
  assumes "tm_run (TimerMgr_init any t0) es = Some m"
    and "mTimerType (timers m i) = TIMER_TYPE_ONCE"
  shows "fire_count m i \<le> 1"
proof -
  have inv: "tm_inv m" by (rule tm_inv_run [OF assms(1) tm_inv_init])
  show ?thesis
  proof (cases "i < next_timer m")
    case True
    then have "fire_count m i \<le> (if mExecuteOnceFlag (timers m i) then 1 else 0)"
      using inv assms(2) by (simp add: tm_inv_def)
    then show ?thesis by (simp split: if_splits)
  qed (simp add: fire_count_0 [OF inv])
qed

theorem once_fires_at_most_once_witness:
  "\<exists>m. tm_run (TimerMgr_init (0 :: nat) 0) (to_pop @ [Thread]) = Some m \<and>
     mTimerType (timers m 0) = TIMER_TYPE_ONCE \<and> fired m = [(0, 0, 10)] \<and> fire_count m 0 \<le> 1"
proof -
  have "\<exists>m. tm_run (TimerMgr_init (0 :: nat) 0) (to_pop @ [Thread]) = Some m \<and>
     mTimerType (timers m 0) = TIMER_TYPE_ONCE \<and> fired m = [(0, 0, 10)]"
    by (rule run_ends) (simp add: run_simps)
  then obtain m where m: "tm_run (TimerMgr_init (0 :: nat) 0) (to_pop @ [Thread]) = Some m"
    "mTimerType (timers m 0) = TIMER_TYPE_ONCE" "fired m = [(0, 0, 10)]" by (elim exE conjE)
  show ?thesis using m once_fires_at_most_once [OF m(1,2)] by (intro exI [of _ m] conjI)
qed







text \<open>C8: \<open>Close\<close> after \<open>schedule\<close> has started is final: no callback runs after it, in any
  interleaving; and it ends a thread that waits: woken by the notification, the thread leaves
  \<open>schedule\<close> within three steps.\<close>

theorem close_ends_timers:
  assumes "pc m \<noteq> T_Init"
  shows "(tm_run (Close m) es = Some m' \<longrightarrow> fired m' = fired m) \<and>
     (waiting (pc m) \<longrightarrow>
        (\<exists>k \<le> 3. \<exists>m''. tm_run (Close m) (WakeNotified # replicate k Thread) = Some m'' \<and> pc m'' = T_Done))"
proof
  have "closed (Close m)" using assms by (simp add: closed_def Close_def add_defs)
  moreover have "fired (Close m) = fired m" by (simp add: Close_def add_defs)
  ultimately show "tm_run (Close m) es = Some m' \<longrightarrow> fired m' = fired m"
    using closed_run by fastforce
  show "waiting (pc m) \<longrightarrow>
      (\<exists>k \<le> 3. \<exists>m''. tm_run (Close m) (WakeNotified # replicate k Thread) = Some m'' \<and> pc m'' = T_Done)"
  proof
    assume "waiting (pc m)"
    then obtain d i where "pc m = T_WaitEmpty d \<or> pc m = T_Wait i d" by (cases "pc m") auto
    then show "\<exists>k \<le> 3. \<exists>m''. tm_run (Close m) (WakeNotified # replicate k Thread) = Some m'' \<and> pc m'' = T_Done"
      by (intro exI [of _ 1]) (auto simp: Close_def add_defs thread_defs)
  qed
qed

theorem close_ends_timers_witness:
  "\<exists>m. tm_run (TimerMgr_init (0 :: nat) 0) (Add 10 0 # replicate 5 Thread) = Some m \<and>
     waiting (pc m) \<and>
     (\<exists>k \<le> 3. \<exists>m''. tm_run (Close m) (WakeNotified # replicate k Thread) = Some m'' \<and> pc m'' = T_Done)"
proof -
  have "\<exists>m. tm_run (TimerMgr_init (0 :: nat) 0) (Add 10 0 # replicate 5 Thread) = Some m \<and>
      waiting (pc m) \<and> pc m \<noteq> T_Init"
    by (rule run_ends) (simp add: run_simps)
  then show ?thesis using close_ends_timers by blast
qed

section \<open>Where the code falls short\<close>

text \<open>\<open>addTimer\<close> pushes without \<open>mtx\<close>, and \<open>timer_run\<close> pops without looking again at what
  is on top. An overdue timer pushed by a thread that was held up between reading the clock and
  pushing is popped in place of the one that runs: it has a callback, has never run, and in no
  continuation does it ever run.\<close>

lemma unlocked_push_loses_timer:
  "\<exists>m. tm_run (TimerMgr_init 0 0)
         (to_pop @ [Push (Timer_new 5 3 0 TIMER_TYPE_ONCE 1), SetAdd, Notify, Thread]) = Some m \<and>
     mCallback (timers m 1) = Some (1 :: nat) \<and> fired m = [(0, 0, 10)] \<and> key (timers m 1) < clock m \<and>
     (\<nexists>es m'. tm_run m es = Some m' \<and> 0 < fire_count m' 1)"
proof -
  have "\<exists>m. tm_run (TimerMgr_init 0 0)
         (to_pop @ [Push (Timer_new 5 3 0 TIMER_TYPE_ONCE 1), SetAdd, Notify, Thread]) = Some m \<and>
     mCallback (timers m 1) = Some (1 :: nat) \<and> fired m = [(0, 0, 10)] \<and> key (timers m 1) < clock m \<and>
     gone m 1 \<and> fire_count m 1 = 0"
    by (rule run_ends) (simp add: run_simps gone_def expired_def fire_count_def)
  then show ?thesis using gone_run by fastforce
qed

text \<open>A timer pushed between the thread's test for an empty queue and its wait is not seen:
  the notification finds nobody waiting, and a timer due after 10 ns has not run just short of
  300 s later, with nothing but a wake-up without a reason able to move the thread.\<close>

lemma lost_wakeup_stalls_timer:
  "\<exists>m. tm_run (TimerMgr_init 0 0)
         (replicate 3 Thread @ [Add 10 (0 :: nat), Thread, Tick 299999999999]) = Some m \<and>
     mTimers m = [0] \<and> key (timers m 0) = 10 \<and> fired m = [] \<and> clock m = 299999999999 \<and>
     \<not> enabled m Thread \<and> \<not> enabled m WakeNotified \<and> \<not> enabled m WakeTimeout"
  by (rule run_ends) (simp add: run_simps)

text \<open>A wake-up while the thread waits out the initial delay of a loop timer ends the delay:
  \<open>getLeftTime\<close> has set it to zero, so a timer to run after 100 s runs after 1 ns, as soon as
  another timer is added.\<close>

lemma delay_lost_on_wakeup:
  "\<exists>m. tm_run (TimerMgr_init 0 0)
         (AddLoop 100 1 (0 :: nat) # replicate 5 Thread @ [Tick 1, Add 1000000000 1, WakeNotified]
          @ replicate 5 Thread) = Some m \<and>
     fired m = [(0, 0, 1)] \<and> clock m = 1"
  by (rule run_ends) (simp add: run_simps)

text \<open>The order of the queue ignores the initial delay, so a loop timer with a delay stands
  before a one-shot timer due long before it, and holds it up: one due after 10 ns is still
  queued, behind it, 99 s later.\<close>

lemma delay_ignored_by_order:
  "\<exists>m. tm_run (TimerMgr_init 0 0)
         ([AddLoop 100 1 0, Add 10 (1 :: nat)] @ replicate 5 Thread @ [Tick 99000000000]) = Some m \<and>
     mTimers m = [0, 1] \<and> key (timers m 1) = 10 \<and> fired m = [] \<and>
     \<not> enabled m Thread \<and> \<not> enabled m WakeNotified \<and> \<not> enabled m WakeTimeout"
  by (rule run_ends) (simp add: run_simps)

text \<open>\<open>Close\<close> can be lost. Before the thread enters \<open>schedule\<close>, it is undone by the raised
  run flag and timers go on running; between the loop test and the lock of \<open>timer_run\<close>, its
  notification finds nobody waiting, and the thread stays for 300 s.\<close>

lemma close_lost:
  "(\<exists>m. tm_run (TimerMgr_init 0 0) (CloseMgr # Add 10 (0 :: nat) # replicate 5 Thread
            @ [Tick 10, WakeTimeout] @ replicate 5 Thread) = Some m \<and> fired m = [(0, 0, 10)]) \<and>
   (\<exists>m. tm_run (TimerMgr_init (0 :: nat) 0)
          (replicate 2 Thread @ [CloseMgr] @ replicate 2 Thread @ [Tick 299999999999]) = Some m \<and>
        \<not> timer_run_flag m \<and> pc m \<noteq> T_Done \<and>
        \<not> enabled m Thread \<and> \<not> enabled m WakeNotified \<and> \<not> enabled m WakeTimeout)"
  by (rule conjI; rule run_ends; simp add: run_simps)

end
