(* ===== verification/TMS.thy ===== *)
theory TMS
  imports Std_Map Logic_Task Timer_Props
begin

text \<open>
  \<open>TMS\<close> of tms.hpp: the logic threads by their ids, the timers by their indexes, and the timer
  thread whose callbacks put messages on the logic threads. Tasks and timers are those of
  Logic_Task and Timer_Manager; the callback of a timer is what the lambdas of the two
  \<open>AddMessage\<close> functions capture. A call that blocks is split where it blocks.
\<close>

section \<open>State\<close>

datatype 'f tms_callback =
    Put_Once int uint32 "'f CLogicMessage"
  | Put_Loop int uint32 "'f CLogicMessage"

fun cb_index :: "'f tms_callback \<Rightarrow> int" where
  "cb_index (Put_Once i _ _) = i"
| "cb_index (Put_Loop i _ _) = i"

text \<open>
  Threads have numbers here; the code keys \<open>m_TidtologicidList\<close> by the text of a thread id.
  \<open>next_tid\<close> is the id the next thread gets.
\<close>

record 'f TMS =
  m_timerManager :: "'f tms_callback TimerMgr"
  m_mapLogicList :: "(uint32, 'f CLogicTasK) std_map"
  m_TidtologicidList :: "(nat, uint32) std_map"
  m_mapTimeridList :: "(int, nat) std_map"
  m_nLogicThreadCount :: int
  m_nTimerIndex :: int
  next_tid :: nat

text \<open>\<open>Init\<close>, on the object as constructed at time \<open>now\<close>.\<close>

definition Init :: "'f \<Rightarrow> int \<Rightarrow> 'f TMS" where
  "Init any now =
     \<lparr>m_timerManager = TimerMgr_init (Put_Once 0 0 (run_message any)) now,
      m_mapLogicList = [], m_TidtologicidList = [], m_mapTimeridList = [],
      m_nLogicThreadCount = 0, m_nTimerIndex = 0, next_tid = 1\<rparr>"

definition int_incr :: "int \<Rightarrow> int result" where
  "int_incr x = (if x < 2147483647 then Inr (x + 1) else Inl Signed_Overflow)"

section \<open>Logic threads\<close>

definition CreateLogic :: "'f TMS \<Rightarrow> uint32 \<Rightarrow> ('f TMS \<times> bool) result" where
  "CreateLogic s u4LogicID =
     (case map_find (m_mapLogicList s) u4LogicID of
        Some _ \<Rightarrow> Inr (s, False)
      | None \<Rightarrow>
          (let pLogicTask = start (next_tid s) u4LogicID
           in bindR (int_incr (m_nLogicThreadCount s)) (\<lambda>n.
             Inr (s\<lparr>m_mapLogicList := map_assign u4LogicID pLogicTask (m_mapLogicList s),
                    m_TidtologicidList :=
                      map_assign (thread_id pLogicTask) u4LogicID (m_TidtologicidList s),
                    m_nLogicThreadCount := n, next_tid := Suc (next_tid s)\<rparr>, True))))"

definition GetLogicThreadID :: "'f TMS \<Rightarrow> nat \<Rightarrow> uint32" where
  "GetLogicThreadID s tid =
     (case map_find (m_TidtologicidList s) tid of Some i \<Rightarrow> i | None \<Rightarrow> 0)"

text \<open>
  \<open>CloseLogic\<close> up to the \<open>join\<close> in \<open>Close\<close> of the task, and after it. A thread that joins itself
  gets an exception.
\<close>

definition CloseLogic_begin :: "'f TMS \<Rightarrow> nat \<Rightarrow> uint32 \<Rightarrow> ('f TMS \<times> bool) result" where
  "CloseLogic_begin s caller u4LogicID =
     (case map_find (m_mapLogicList s) u4LogicID of
        None \<Rightarrow> Inr (s, False)
      | Some pLogicTask \<Rightarrow>
          (let s' = s\<lparr>m_mapLogicList :=
                        map_assign u4LogicID (Close_put (Close_flag pLogicTask)) (m_mapLogicList s),
                      m_TidtologicidList :=
                        map_erase (thread_id pLogicTask) (m_TidtologicidList s)\<rparr>
           in if caller = thread_id pLogicTask
              then Inl (Exception ''std::system_error'' ''resource_deadlock_would_occur'')
              else Inr (s', True)))"

definition CloseLogic_end :: "'f TMS \<Rightarrow> uint32 \<Rightarrow> 'f TMS option" where
  "CloseLogic_end s u4LogicID =
     (case map_find (m_mapLogicList s) u4LogicID of
        None \<Rightarrow> None
      | Some pLogicTask \<Rightarrow>
          (if joined pLogicTask
           then Some (s\<lparr>m_mapLogicList := map_erase u4LogicID (m_mapLogicList s)\<rparr>) else None))"

definition Get_Logic_Count :: "'f TMS \<Rightarrow> int" where
  "Get_Logic_Count s = m_nLogicThreadCount s"

section \<open>Messages and timers\<close>

definition AddMessage :: "'f TMS \<Rightarrow> uint32 \<Rightarrow> 'f \<Rightarrow> 'f TMS \<times> bool" where
  "AddMessage s u4LogicID func =
     (case map_find (m_mapLogicList s) u4LogicID of
        None \<Rightarrow> (s, False)
      | Some t \<Rightarrow>
          (s\<lparr>m_mapLogicList := map_assign u4LogicID (Put t (run_message func)) (m_mapLogicList s)\<rparr>,
           True))"

text \<open>The parts of the delayed functions: take an index, add the timer, record the index.\<close>

definition take_index :: "'f TMS \<Rightarrow> ('f TMS \<times> int) result" where
  "take_index s =
     bindR (int_incr (m_nTimerIndex s)) (\<lambda>n. Inr (s\<lparr>m_nTimerIndex := n\<rparr>, m_nTimerIndex s))"

definition add_once :: "'f TMS \<Rightarrow> int \<Rightarrow> uint32 \<Rightarrow> int \<Rightarrow> 'f \<Rightarrow> 'f TMS \<times> nat" where
  "add_once s timer_index u4LogicID millisecond func =
     (case addTimer (m_timerManager s) (millisecond * 1000000)
             (Put_Once timer_index u4LogicID (run_message func)) of
        (m, timer) \<Rightarrow> (s\<lparr>m_timerManager := m\<rparr>, timer))"

definition add_loop :: "'f TMS \<Rightarrow> int \<Rightarrow> uint32 \<Rightarrow> int \<Rightarrow> int \<Rightarrow> 'f \<Rightarrow> 'f TMS \<times> nat" where
  "add_loop s timer_index u4LogicID delayseconds millisecond func =
     (case addTimer_loop (m_timerManager s) delayseconds (millisecond * 1000000)
             (Put_Loop timer_index u4LogicID (run_message func)) of
        (m, timer) \<Rightarrow> (s\<lparr>m_timerManager := m\<rparr>, timer))"

definition record_index :: "'f TMS \<Rightarrow> int \<Rightarrow> nat \<Rightarrow> 'f TMS" where
  "record_index s timer_index timer =
     s\<lparr>m_mapTimeridList := map_assign timer_index timer (m_mapTimeridList s)\<rparr>"

definition AddMessage_delayed :: "'f TMS \<Rightarrow> uint32 \<Rightarrow> int \<Rightarrow> 'f \<Rightarrow> ('f TMS \<times> int) result" where
  "AddMessage_delayed s u4LogicID millisecond func =
     (case map_find (m_mapLogicList s) u4LogicID of
        None \<Rightarrow> Inr (s, -1)
      | Some _ \<Rightarrow>
          bindR (take_index s) (\<lambda>(s1, timer_index).
            case add_once s1 timer_index u4LogicID millisecond func of
              (s2, timer) \<Rightarrow> Inr (record_index s2 timer_index timer, timer_index)))"

definition AddMessage_loop :: "'f TMS \<Rightarrow> uint32 \<Rightarrow> int \<Rightarrow> int \<Rightarrow> 'f \<Rightarrow> ('f TMS \<times> int) result" where
  "AddMessage_loop s u4LogicID delayseconds millisecond func =
     (case map_find (m_mapLogicList s) u4LogicID of
        None \<Rightarrow> Inr (s, -1)
      | Some _ \<Rightarrow>
          bindR (take_index s) (\<lambda>(s1, timer_index).
            case add_loop s1 timer_index u4LogicID delayseconds millisecond func of
              (s2, timer) \<Rightarrow> Inr (record_index s2 timer_index timer, timer_index)))"

definition Close_Timer :: "'f TMS \<Rightarrow> int \<Rightarrow> 'f TMS \<times> bool" where
  "Close_Timer s timer_id =
     (case map_find (m_mapTimeridList s) timer_id of
        None \<Rightarrow> (s, False)
      | Some timer_ptr \<Rightarrow>
          (if expired (m_timerManager s) timer_ptr then (s, True)
           else (s\<lparr>m_timerManager := cancel_timer (m_timerManager s) timer_ptr,
                   m_mapTimeridList := map_erase timer_id (m_mapTimeridList s)\<rparr>, True)))"

text \<open>The lambdas the timer thread calls; \<open>m_mapLogicList[id]\<close> of a missing id is null.\<close>

definition run_callback :: "'f TMS \<Rightarrow> 'f tms_callback \<Rightarrow> 'f TMS result" where
  "run_callback s cb =
     (case cb of
        Put_Once timer_index u4LogicID pLogicMessage \<Rightarrow>
          (case map_find (m_mapLogicList s) u4LogicID of
             None \<Rightarrow> Inl Null_Deref
           | Some t \<Rightarrow>
               Inr (s\<lparr>m_mapLogicList := map_assign u4LogicID (Put t pLogicMessage) (m_mapLogicList s),
                      m_mapTimeridList := map_erase timer_index (m_mapTimeridList s)\<rparr>))
      | Put_Loop timer_index u4LogicID pLogicMessage \<Rightarrow>
          (case map_find (m_mapLogicList s) u4LogicID of
             None \<Rightarrow> Inl Null_Deref
           | Some t \<Rightarrow>
               Inr (s\<lparr>m_mapLogicList := map_assign u4LogicID (Put t pLogicMessage) (m_mapLogicList s)\<rparr>)))"

text \<open>A step of the timer thread, with the callback it runs.\<close>

definition timer_thread :: "'f TMS \<Rightarrow> 'f tms_callback tm_event \<Rightarrow> 'f TMS result" where
  "timer_thread s e =
     (let m = tm_step (m_timerManager s) e
      in case drop (length (fired (m_timerManager s))) (fired m) of
           [] \<Rightarrow> Inr (s\<lparr>m_timerManager := m\<rparr>)
         | (_, cb, _) # _ \<Rightarrow> run_callback (s\<lparr>m_timerManager := m\<rparr>) cb)"

section \<open>Closing everything\<close>

text \<open>
  \<open>Close\<close> goes over the logic threads in the order of the map, closing and joining each, then
  closes and joins the timer thread. \<open>C_Close n\<close> and \<open>C_Join n\<close> are at the entry with number \<open>n\<close>.
\<close>

datatype close_pc = C_Close nat | C_Join nat | C_Timer | C_Timer_Join | C_Closed

definition upd_entry :: "('k \<times> 'v) list \<Rightarrow> nat \<Rightarrow> ('v \<Rightarrow> 'v) \<Rightarrow> ('k \<times> 'v) list" where
  "upd_entry m n f = m[n := (fst (m ! n), f (snd (m ! n)))]"

definition Close_step :: "'f TMS \<Rightarrow> close_pc \<Rightarrow> ('f TMS \<times> close_pc) option" where
  "Close_step s p =
     (case p of
        C_Close n \<Rightarrow>
          (if n < length (m_mapLogicList s)
           then Some (s\<lparr>m_mapLogicList :=
                          upd_entry (m_mapLogicList s) n (\<lambda>t. Close_put (Close_flag t))\<rparr>, C_Join n)
           else Some (s, C_Timer))
      | C_Join n \<Rightarrow>
          (if joined (snd (m_mapLogicList s ! n)) then Some (s, C_Close (Suc n)) else None)
      | C_Timer \<Rightarrow>
          (if mtx_free (m_timerManager s)
           then Some (s\<lparr>m_timerManager := Close (m_timerManager s)\<rparr>, C_Timer_Join) else None)
      | C_Timer_Join \<Rightarrow> (if pc (m_timerManager s) = T_Done then Some (s, C_Closed) else None)
      | C_Closed \<Rightarrow> None)"

section \<open>Interleaving\<close>

text \<open>
  The calls other threads make, whole or in the parts between which others can run, the steps
  of the timer thread and of the clock, and the steps of the logic threads.
\<close>

datatype 'f tms_event =
    E_Create uint32
  | E_Add uint32 'f
  | E_Delayed uint32 int 'f
  | E_Loop uint32 int int 'f
  | E_Index
  | E_Once int uint32 int 'f
  | E_Record int nat
  | E_CloseTimer int
  | E_CloseBegin nat uint32
  | E_CloseEnd uint32
  | E_Timer "'f tms_callback tm_event"
  | E_Logic uint32

fun timer_event :: "'c tm_event \<Rightarrow> bool" where
  "timer_event (Tick _) = True"
| "timer_event Thread = True"
| "timer_event WakeNotified = True"
| "timer_event WakeTimeout = True"
| "timer_event WakeSpurious = True"
| "timer_event _ = False"

definition logic_step :: "'f TMS \<Rightarrow> uint32 \<Rightarrow> 'f TMS result option" where
  "logic_step s i =
     (case map_find (m_mapLogicList s) i of
        None \<Rightarrow> None
      | Some t \<Rightarrow>
          (case svc_step t of
             None \<Rightarrow> None
           | Some (Inl f) \<Rightarrow> Some (Inl f)
           | Some (Inr t') \<Rightarrow> Some (Inr (s\<lparr>m_mapLogicList := map_assign i t' (m_mapLogicList s)\<rparr>))))"

definition tms_step :: "'f TMS \<Rightarrow> 'f tms_event \<Rightarrow> 'f TMS result option" where
  "tms_step s e =
     (case e of
        E_Create i \<Rightarrow> Some (bindR (CreateLogic s i) (\<lambda>r. Inr (fst r)))
      | E_Add i f \<Rightarrow> Some (Inr (fst (AddMessage s i f)))
      | E_Delayed i ms f \<Rightarrow> Some (bindR (AddMessage_delayed s i ms f) (\<lambda>r. Inr (fst r)))
      | E_Loop i d ms f \<Rightarrow> Some (bindR (AddMessage_loop s i d ms f) (\<lambda>r. Inr (fst r)))
      | E_Index \<Rightarrow> Some (bindR (take_index s) (\<lambda>r. Inr (fst r)))
      | E_Once k i ms f \<Rightarrow> Some (Inr (fst (add_once s k i ms f)))
      | E_Record k timer \<Rightarrow> Some (Inr (record_index s k timer))
      | E_CloseTimer k \<Rightarrow> Some (Inr (fst (Close_Timer s k)))
      | E_CloseBegin caller i \<Rightarrow> Some (bindR (CloseLogic_begin s caller i) (\<lambda>r. Inr (fst r)))
      | E_CloseEnd i \<Rightarrow> map_option Inr (CloseLogic_end s i)
      | E_Timer te \<Rightarrow>
          (if timer_event te \<and> enabled (m_timerManager s) te then Some (timer_thread s te) else None)
      | E_Logic i \<Rightarrow> logic_step s i)"

fun tms_run :: "'f TMS \<Rightarrow> 'f tms_event list \<Rightarrow> 'f TMS result option" where
  "tms_run s [] = Some (Inr s)"
| "tms_run s (e # es) =
     (case tms_step s e of
        None \<Rightarrow> None | Some (Inl f) \<Rightarrow> Some (Inl f) | Some (Inr s') \<Rightarrow> tms_run s' es)"

end
