(* ===== verification/TMS_Props.thy ===== *)
theory TMS_Props
  imports TMS
begin

text \<open>
  What \<open>TMS\<close> guarantees: its maps stay consistent with the threads and timers they name, a
  message reaches the logic thread it is for, and a closed timer sends nothing more; then the
  runs in which the code fails.
\<close>

section \<open>The timer thread under TMS\<close>

text \<open>A step of the timer thread takes callbacks away only, and runs one that was there.\<close>

lemma fire_callbacks:
  "mCallback (timers (timer_run_fire m tmp) i) \<in> {None, mCallback (timers m i)} \<and>
   next_timer (timer_run_fire m tmp) = next_timer m \<and>
   (fired (timer_run_fire m tmp) = fired m \<or>
    (\<exists>cb. mCallback (timers m tmp) = Some cb \<and>
      fired (timer_run_fire m tmp) = fired m @ [(tmp, cb, clock m)]))"
  by (auto simp: timer_run_fire_def schedule_next_def Let_def Timer_call_def
      split: option.splits prod.splits)

lemma left_callbacks:
  "mCallback (timers (timer_run_left m tmp) i) = mCallback (timers m i) \<and>
   next_timer (timer_run_left m tmp) = next_timer m \<and> fired (timer_run_left m tmp) = fired m"
  by (simp add: timer_run_left_def Let_def case_prod_beta)

lemma timer_event_callbacks:
  assumes inv: "tm_inv m" and e: "timer_event e"
  shows "mCallback (timers (tm_step m e) i) \<in> {None, mCallback (timers m i)} \<and>
     next_timer (tm_step m e) = next_timer m \<and>
     (fired (tm_step m e) = fired m \<or>
      (\<exists>j cb t. j < next_timer m \<and> mCallback (timers m j) = Some cb \<and> \<not> expired m j \<and>
        fired (tm_step m e) = fired m @ [(j, cb, t)]))"
proof (cases e)
  case Thread
  show ?thesis
  proof (cases "pc m")
    case (T_Pop tmp)
    then show ?thesis
      using fire_callbacks [of m tmp i] held_less [OF inv, of tmp] Thread
      by (auto simp: thread_step_def expired_def)
  next
    case (T_Got tmp)
    then show ?thesis using left_callbacks [of m tmp i] Thread by (simp add: thread_step_def)
  qed (use Thread in \<open>simp_all add: thread_defs split: list.split\<close>)
qed (use e in \<open>simp_all add: timer_run_woken_def schedule_next_def split: tpc.split\<close>)

lemma add_callbacks:
  "timers (fst (addTimer m t cb)) = (timers m)(next_timer m := Timer_new (clock m) t 0 TIMER_TYPE_ONCE cb)"
  "timers (fst (addTimer_loop m d t cb)) = (timers m)(next_timer m := Timer_new (clock m) t d TIMER_TYPE_LOOP cb)"
  "next_timer (fst (addTimer m t cb)) = Suc (next_timer m)"
  "next_timer (fst (addTimer_loop m d t cb)) = Suc (next_timer m)"
  "fired (fst (addTimer m t cb)) = fired m" "fired (fst (addTimer_loop m d t cb)) = fired m"
  "snd (addTimer m t cb) = next_timer m" "snd (addTimer_loop m d t cb) = next_timer m"
  by (simp_all add: add_defs)

lemma tm_inv_addTimer:
  assumes "tm_inv m"
  shows "tm_inv (fst (addTimer m t cb))" "tm_inv (fst (addTimer_loop m d t cb))"
  using tm_inv_step [OF assms, of "Add t cb"] tm_inv_step [OF assms, of "AddLoop d t cb"] by simp_all

section \<open>Consistency\<close>

text \<open>The live callbacks of the timers, and what is true of their indexes.\<close>

definition live :: "'f tms_callback TimerMgr \<Rightarrow> nat \<Rightarrow> 'f tms_callback \<Rightarrow> bool" where
  "live m i cb \<longleftrightarrow> i < next_timer m \<and> mCallback (timers m i) = Some cb"

definition timers_ok :: "'f TMS \<Rightarrow> bool" where
  "timers_ok s \<longleftrightarrow> tm_inv (m_timerManager s) \<and> map_sorted (m_mapTimeridList s) \<and>
     (\<forall>i cb. live (m_timerManager s) i cb \<longrightarrow> cb_index cb < m_nTimerIndex s) \<and>
     (\<forall>i j cb cb'. live (m_timerManager s) i cb \<longrightarrow> live (m_timerManager s) j cb' \<longrightarrow>
        cb_index cb = cb_index cb' \<longrightarrow> i = j) \<and>
     (\<forall>k i. map_find (m_mapTimeridList s) k = Some i \<longrightarrow>
        k < m_nTimerIndex s \<and> i < next_timer (m_timerManager s) \<and>
        (\<forall>cb j. live (m_timerManager s) j cb \<longrightarrow> cb_index cb = k \<longrightarrow> j = i))"

definition logics_ok :: "'f TMS \<Rightarrow> bool" where
  "logics_ok s \<longleftrightarrow> map_sorted (m_mapLogicList s) \<and> map_sorted (m_TidtologicidList s) \<and>
     (\<forall>i t. map_find (m_mapLogicList s) i = Some t \<longrightarrow> thread_id t < next_tid s \<and> task_ok t \<and>
        (m_run t \<longrightarrow> map_find (m_TidtologicidList s) (thread_id t) = Some i)) \<and>
     (\<forall>tid i. map_find (m_TidtologicidList s) tid = Some i \<longrightarrow> tid < next_tid s) \<and>
     (\<forall>i j t u. map_find (m_mapLogicList s) i = Some t \<longrightarrow> map_find (m_mapLogicList s) j = Some u \<longrightarrow>
        thread_id t = thread_id u \<longrightarrow> i = j) \<and>
     int (length (m_mapLogicList s)) \<le> m_nLogicThreadCount s"

lemma logics_okD:
  assumes "logics_ok s"
  shows lo_sorted: "map_sorted (m_mapLogicList s)"
    and lo_tids: "map_sorted (m_TidtologicidList s)"
    and lo_task: "map_find (m_mapLogicList s) i = Some t \<Longrightarrow> thread_id t < next_tid s \<and> task_ok t"
    and lo_tid: "map_find (m_mapLogicList s) i = Some t \<Longrightarrow> m_run t \<Longrightarrow>
      map_find (m_TidtologicidList s) (thread_id t) = Some i"
    and lo_less: "map_find (m_TidtologicidList s) tid = Some i \<Longrightarrow> tid < next_tid s"
    and lo_inj: "map_find (m_mapLogicList s) i = Some t \<Longrightarrow> map_find (m_mapLogicList s) j = Some u \<Longrightarrow>
      thread_id t = thread_id u \<Longrightarrow> i = j"
    and lo_count: "int (length (m_mapLogicList s)) \<le> m_nLogicThreadCount s"
  using assms unfolding logics_ok_def by blast+

lemma timers_okD:
  assumes "timers_ok s"
  shows to_inv: "tm_inv (m_timerManager s)"
    and to_sorted: "map_sorted (m_mapTimeridList s)"
    and to_less: "live (m_timerManager s) i cb \<Longrightarrow> cb_index cb < m_nTimerIndex s"
    and to_inj: "live (m_timerManager s) i cb \<Longrightarrow> live (m_timerManager s) j cb' \<Longrightarrow>
      cb_index cb = cb_index cb' \<Longrightarrow> i = j"
    and to_index: "map_find (m_mapTimeridList s) k = Some i \<Longrightarrow>
      k < m_nTimerIndex s \<and> i < next_timer (m_timerManager s)"
    and to_names: "map_find (m_mapTimeridList s) k = Some i \<Longrightarrow> live (m_timerManager s) j cb \<Longrightarrow>
      cb_index cb = k \<Longrightarrow> j = i"
  using assms unfolding timers_ok_def by blast+

lemma timers_okI:
  assumes "tm_inv (m_timerManager s)" "map_sorted (m_mapTimeridList s)"
    "\<And>i cb. live (m_timerManager s) i cb \<Longrightarrow> cb_index cb < m_nTimerIndex s"
    "\<And>i j cb cb'. live (m_timerManager s) i cb \<Longrightarrow> live (m_timerManager s) j cb' \<Longrightarrow>
      cb_index cb = cb_index cb' \<Longrightarrow> i = j"
    "\<And>k i. map_find (m_mapTimeridList s) k = Some i \<Longrightarrow>
      k < m_nTimerIndex s \<and> i < next_timer (m_timerManager s)"
    "\<And>k i j cb. map_find (m_mapTimeridList s) k = Some i \<Longrightarrow> live (m_timerManager s) j cb \<Longrightarrow>
      cb_index cb = k \<Longrightarrow> j = i"
  shows "timers_ok s"
  using assms unfolding timers_ok_def by blast

text \<open>Steps that take callbacks and indexes away only keep the timers consistent.\<close>

lemma timers_ok_less:
  assumes ok: "timers_ok s" and inv: "tm_inv (m_timerManager s')" and so: "map_sorted (m_mapTimeridList s')"
    and lv: "\<And>i cb. live (m_timerManager s') i cb \<Longrightarrow> live (m_timerManager s) i cb"
    and n: "next_timer (m_timerManager s') = next_timer (m_timerManager s)" "m_nTimerIndex s' = m_nTimerIndex s"
    and ix: "\<And>k i. map_find (m_mapTimeridList s') k = Some i \<Longrightarrow> map_find (m_mapTimeridList s) k = Some i"
  shows "timers_ok s'"
proof (rule timers_okI)
  show "cb_index cb < m_nTimerIndex s'" if "live (m_timerManager s') i cb" for i cb
    using to_less [OF ok lv [OF that]] n by simp
  show "i = j" if "live (m_timerManager s') i cb" "live (m_timerManager s') j cb'" "cb_index cb = cb_index cb'"
    for i j cb cb' using to_inj [OF ok lv [OF that(1)] lv [OF that(2)] that(3)] .
  show "k < m_nTimerIndex s' \<and> i < next_timer (m_timerManager s')"
    if "map_find (m_mapTimeridList s') k = Some i" for k i
    using to_index [OF ok ix [OF that]] n by simp
  show "j = i" if "map_find (m_mapTimeridList s') k = Some i" "live (m_timerManager s') j cb" "cb_index cb = k"
    for k i j cb using to_names [OF ok ix [OF that(1)] lv [OF that(2)] that(3)] .
qed (rule inv, rule so)

lemma timers_ok_cong:
  "timers_ok s \<Longrightarrow> m_timerManager s' = m_timerManager s \<Longrightarrow> m_mapTimeridList s' = m_mapTimeridList s \<Longrightarrow>
     m_nTimerIndex s' = m_nTimerIndex s \<Longrightarrow> timers_ok s'"
  by (simp add: timers_ok_def)

lemma logics_ok_cong:
  "logics_ok s \<Longrightarrow> m_mapLogicList s' = m_mapLogicList s \<Longrightarrow> m_TidtologicidList s' = m_TidtologicidList s \<Longrightarrow>
     m_nLogicThreadCount s' = m_nLogicThreadCount s \<Longrightarrow> next_tid s' = next_tid s \<Longrightarrow> logics_ok s'"
  by (simp add: logics_ok_def)

text \<open>A change of one task that keeps its thread and does not revive it.\<close>

lemma logics_ok_task:
  assumes ok: "logics_ok s" and t: "map_find (m_mapLogicList s) i = Some t"
    and u: "thread_id u = thread_id t" "m_run u \<Longrightarrow> m_run t" "task_ok u"
    and s': "m_mapLogicList s' = map_assign i u (m_mapLogicList s)"
      "m_TidtologicidList s' = m_TidtologicidList s"
      "m_nLogicThreadCount s' = m_nLogicThreadCount s" "next_tid s' = next_tid s"
  shows "logics_ok s'"
proof -
  have f: "map_find (m_mapLogicList s') = (map_find (m_mapLogicList s))(i \<mapsto> u)"
    unfolding s' by (rule sm.find_assign [OF lo_sorted [OF ok]])
  have l: "length (m_mapLogicList s') = length (m_mapLogicList s)"
    by (simp add: s' sm.length_assign lo_sorted [OF ok] t)
  have a: "thread_id v < next_tid s \<and> task_ok v \<and>
      (m_run v \<longrightarrow> map_find (m_TidtologicidList s) (thread_id v) = Some j)"
    if "map_find (m_mapLogicList s') j = Some v" for j v
    using that lo_task [OF ok] lo_tid [OF ok] t u by (auto simp: f split: if_splits)
  have b: "j = k" if "map_find (m_mapLogicList s') j = Some v" "map_find (m_mapLogicList s') k = Some w"
    "thread_id v = thread_id w" for j k v w
    using that lo_inj [OF ok] t u(1) by (auto simp: f split: if_splits)
  show ?thesis
    using a b lo_less [OF ok] lo_count [OF ok] lo_tids [OF ok] sm.wf_assign [OF lo_sorted [OF ok]]
    unfolding logics_ok_def s'(2-4) l unfolding s'(1) by blast
qed

lemma timer_thread_cases:
  assumes inv: "tm_inv (m_timerManager s)" and e: "timer_event e"
    and r: "timer_thread s e = Inr s'"
  obtains "s' = s\<lparr>m_timerManager := tm_step (m_timerManager s) e\<rparr>"
      "fired (tm_step (m_timerManager s) e) = fired (m_timerManager s)"
  | j cb t where "live (m_timerManager s) j cb"
      "fired (tm_step (m_timerManager s) e) = fired (m_timerManager s) @ [(j, cb, t)]"
      "run_callback (s\<lparr>m_timerManager := tm_step (m_timerManager s) e\<rparr>) cb = Inr s'"
proof -
  let ?m = "tm_step (m_timerManager s) e"
  have "fired ?m = fired (m_timerManager s) \<or>
      (\<exists>j cb t. live (m_timerManager s) j cb \<and> fired ?m = fired (m_timerManager s) @ [(j, cb, t)])"
    using timer_event_callbacks [OF inv e, of 0] unfolding live_def by blast
  then show thesis
  proof
    assume "fired ?m = fired (m_timerManager s)"
    then show thesis using r that(1) by (simp add: timer_thread_def Let_def)
  next
    assume "\<exists>j cb t. live (m_timerManager s) j cb \<and> fired ?m = fired (m_timerManager s) @ [(j, cb, t)]"
    then show thesis using r that(2) by (auto simp: timer_thread_def Let_def)
  qed
qed

lemma run_callback_eq:
  assumes "run_callback s cb = Inr s'"
  obtains k i msg t where "cb = Put_Once k i msg \<or> cb = Put_Loop k i msg"
    "map_find (m_mapLogicList s) i = Some t"
    "s' = s\<lparr>m_mapLogicList := map_assign i (Put t msg) (m_mapLogicList s),
            m_mapTimeridList := (if cb = Put_Once k i msg then map_erase k (m_mapTimeridList s)
                                 else m_mapTimeridList s)\<rparr>"
  using assms by (cases cb) (auto simp: run_callback_def split: option.splits)

text \<open>Every callback carries a message to run.\<close>

definition cbs_ok :: "'f TMS \<Rightarrow> bool" where
  "cbs_ok s \<longleftrightarrow> (\<forall>i cb. live (m_timerManager s) i cb \<longrightarrow>
     (\<forall>k j msg. cb = Put_Once k j msg \<or> cb = Put_Loop k j msg \<longrightarrow> msg_ok msg))"

definition tms_inv :: "'f TMS \<Rightarrow> bool" where
  "tms_inv s \<longleftrightarrow> timers_ok s \<and> logics_ok s \<and> cbs_ok s"

lemma tms_invD:
  assumes "tms_inv s"
  shows tms_timers: "timers_ok s" and tms_logics: "logics_ok s" and tms_cbs: "cbs_ok s"
  using assms by (simp_all add: tms_inv_def)

lemma Put_simps [simp]:
  "thread_id (Put t m) = thread_id t" "m_run (Put t m) = m_run t" "svc_at (Put t m) = svc_at t"
  "executed (Put t m) = executed t"
  "task_ok (Put t m) \<longleftrightarrow> task_ok t \<and> msg_ok m"
  by (auto simp: Put_def task_ok_def)

lemma live_timer_event:
  assumes "tm_inv m" "timer_event e" "live (tm_step m e) i cb"
  shows "live m i cb"
  using timer_event_callbacks [OF assms(1,2), of i] assms(3) by (auto simp: live_def)

lemma timers_ok_timer_event:
  assumes ok: "timers_ok s" and e: "timer_event e" and en: "enabled (m_timerManager s) e"
  shows "timers_ok (s\<lparr>m_timerManager := tm_step (m_timerManager s) e\<rparr>)"
  using to_sorted [OF ok] live_timer_event [OF to_inv [OF ok] e]
    timer_event_callbacks [OF to_inv [OF ok] e] tm_inv_step [OF to_inv [OF ok] en]
  by (intro timers_ok_less [OF ok]) simp_all

lemma tms_inv_timer:
  assumes inv: "tms_inv s" and e: "timer_event e" and en: "enabled (m_timerManager s) e"
    and r: "timer_thread s e = Inr s'"
  shows "tms_inv s'"
proof -
  note ok = tms_timers [OF inv]
  let ?s = "s\<lparr>m_timerManager := tm_step (m_timerManager s) e\<rparr>"
  have t: "timers_ok ?s" by (rule timers_ok_timer_event [OF ok e en])
  have l: "logics_ok ?s" by (rule logics_ok_cong [OF tms_logics [OF inv]]) simp_all
  have c: "cbs_ok ?s"
    using tms_cbs [OF inv] live_timer_event [OF to_inv [OF ok] e] unfolding cbs_ok_def by simp blast
  from to_inv [OF ok] e r show ?thesis
  proof (cases rule: timer_thread_cases)
    case 1
    then show ?thesis using t l c by (simp add: tms_inv_def)
  next
    case (2 j cb u)
    from 2(3) obtain k i msg v where v: "cb = Put_Once k i msg \<or> cb = Put_Loop k i msg"
      "map_find (m_mapLogicList ?s) i = Some v"
      "s' = ?s\<lparr>m_mapLogicList := map_assign i (Put v msg) (m_mapLogicList ?s),
              m_mapTimeridList := (if cb = Put_Once k i msg then map_erase k (m_mapTimeridList ?s)
                                 else m_mapTimeridList ?s)\<rparr>"
      by (rule run_callback_eq)
    have "msg_ok msg" using tms_cbs [OF inv] 2(1) v(1) unfolding cbs_ok_def by blast
    then have "logics_ok s'"
      using lo_task [OF l v(2)] v(3) by (intro logics_ok_task [OF l v(2), of "Put v msg"]) simp_all
    moreover have "timers_ok s'"
      using to_inv [OF t] to_sorted [OF t] v(3)
      by (intro timers_ok_less [OF t])
        (auto simp: sm.find_erase sm.wf_erase split: if_splits)
    moreover have "cbs_ok s'" using c v(3) by (simp add: cbs_ok_def)
    ultimately show ?thesis by (simp add: tms_inv_def)
  qed
qed

text \<open>Adding a timer under a fresh index, and recording it.\<close>

lemma tms_inv_add:
  assumes inv: "tms_inv s" and m: "tm_inv m'"
    "timers m' = (timers (m_timerManager s))(next_timer (m_timerManager s) := t)"
    "next_timer m' = Suc (next_timer (m_timerManager s))" "mCallback t = Some cb"
    and cb: "cb_index cb = m_nTimerIndex s"
      "\<And>k j msg. cb = Put_Once k j msg \<or> cb = Put_Loop k j msg \<Longrightarrow> msg_ok msg"
  shows "tms_inv (record_index (s\<lparr>m_timerManager := m', m_nTimerIndex := m_nTimerIndex s + 1\<rparr>)
    (m_nTimerIndex s) (next_timer (m_timerManager s)))" (is "tms_inv ?s")
proof -
  let ?m = "m_timerManager s" and ?k = "m_nTimerIndex s"
  note ok = tms_timers [OF inv]
  have lv: "live m' i c \<longleftrightarrow> (if i = next_timer ?m then c = cb else live ?m i c)" for i c
    using m by (auto simp: live_def less_Suc_eq)
  have ls: "live (m_timerManager ?s) i c \<longleftrightarrow> (if i = next_timer ?m then c = cb else live ?m i c)" for i c
    using lv by (simp add: record_index_def)
  have less: "live ?m i c \<Longrightarrow> cb_index c < ?k" for i c by (rule to_less [OF ok])
  have new: "i = next_timer ?m" if "live (m_timerManager ?s) i c" "cb_index c = ?k" for i c
    using that less [of i c] unfolding ls by (cases "i = next_timer ?m") simp_all
  have own: "cb_index c = ?k" if "live (m_timerManager ?s) (next_timer ?m) c" for c
    using that cb(1) unfolding ls by simp
  have ix: "map_find (m_mapTimeridList ?s) = (map_find (m_mapTimeridList s))(?k \<mapsto> next_timer ?m)"
    unfolding record_index_def by (simp add: sm.find_assign [OF to_sorted [OF ok]] fun_eq_iff)
  have "timers_ok ?s"
  proof (rule timers_okI)
    show "tm_inv (m_timerManager ?s)" using m by (simp add: record_index_def)
    show "map_sorted (m_mapTimeridList ?s)"
      using sm.wf_assign [OF to_sorted [OF ok]] by (simp add: record_index_def)
    show "cb_index c < m_nTimerIndex ?s" if "live (m_timerManager ?s) i c" for i c
      using that less [of i c] cb(1) unfolding ls by (auto simp: record_index_def split: if_splits)
    show "i = j" if "live (m_timerManager ?s) i c" "live (m_timerManager ?s) j c'" "cb_index c = cb_index c'"
      for i j c c'
    proof (cases "cb_index c = ?k")
      case True
      then show ?thesis using new [OF that(1)] new [OF that(2)] that(3) by simp
    next
      case False
      then have "i \<noteq> next_timer ?m" "j \<noteq> next_timer ?m" using own that by metis+
      then have "live ?m i c" "live ?m j c'" using that(1,2) unfolding ls by simp_all
      then show ?thesis using to_inj [OF ok] that(3) by blast
    qed
    show "k < m_nTimerIndex ?s \<and> i < next_timer (m_timerManager ?s)"
      if "map_find (m_mapTimeridList ?s) k = Some i" for k i
      using that to_index [OF ok, of k i] m(3) unfolding ix by (auto simp: record_index_def split: if_splits)
    show "j = i" if "map_find (m_mapTimeridList ?s) k = Some i" "live (m_timerManager ?s) j c" "cb_index c = k"
      for k i j c
    proof (cases "k = ?k")
      case True
      then show ?thesis using new [OF that(2)] that(1,3) unfolding ix by simp
    next
      case False
      then have "map_find (m_mapTimeridList s) k = Some i" using that(1) unfolding ix by simp
      moreover have "live ?m j c" using that(2,3) False cb(1) unfolding ls by (simp split: if_splits)
      ultimately show ?thesis using to_names [OF ok] that(3) by blast
    qed
  qed
  moreover have "logics_ok ?s"
    by (rule logics_ok_cong [OF tms_logics [OF inv]]) (simp_all add: record_index_def)
  moreover have "cbs_ok ?s"
    unfolding cbs_ok_def ls
  proof (intro allI impI)
    fix i c k j msg
    assume a: "if i = next_timer ?m then c = cb else live ?m i c"
      "c = Put_Once k j msg \<or> c = Put_Loop k j msg"
    show "msg_ok msg"
    proof (cases "i = next_timer ?m")
      case True
      then show ?thesis using a cb(2) by simp
    next
      case False
      then have "live ?m i c" using a(1) by simp
      then show ?thesis using tms_cbs [OF inv] a(2) unfolding cbs_ok_def by blast
    qed
  qed
  ultimately show ?thesis by (simp add: tms_inv_def)
qed

lemma take_index_eq:
  "take_index s = Inr (s', k) \<Longrightarrow> s' = s\<lparr>m_nTimerIndex := m_nTimerIndex s + 1\<rparr> \<and> k = m_nTimerIndex s"
  by (auto simp: take_index_def bindR_Inr_iff int_incr_def split: if_splits)

lemma tms_inv_delayed:
  assumes inv: "tms_inv s" and r: "AddMessage_delayed s i ms f = Inr (s', k)"
  shows "tms_inv s'"
proof (cases "map_find (m_mapLogicList s) i")
  case None
  then show ?thesis using inv r by (simp add: AddMessage_delayed_def)
next
  case (Some t)
  let ?k = "m_nTimerIndex s" and ?m = "m_timerManager s"
  let ?cb = "Put_Once ?k i (run_message f)"
  have "s' = record_index (s\<lparr>m_timerManager := fst (addTimer ?m (ms * 1000000) ?cb),
      m_nTimerIndex := ?k + 1\<rparr>) ?k (next_timer ?m)"
    using r Some by (auto simp: AddMessage_delayed_def bindR_Inr_iff add_once_def case_prod_beta
        add_callbacks record_index_def dest!: take_index_eq)
  then show ?thesis
    using tms_inv_add [OF inv, of "fst (addTimer ?m (ms * 1000000) ?cb)" _ ?cb]
      tm_inv_addTimer [OF to_inv [OF tms_timers [OF inv]]]
    by (simp add: add_callbacks Timer_new_def)
qed

lemma tms_inv_loop:
  assumes inv: "tms_inv s" and r: "AddMessage_loop s i d ms f = Inr (s', k)"
  shows "tms_inv s'"
proof (cases "map_find (m_mapLogicList s) i")
  case None
  then show ?thesis using inv r by (simp add: AddMessage_loop_def)
next
  case (Some t)
  let ?k = "m_nTimerIndex s" and ?m = "m_timerManager s"
  let ?cb = "Put_Loop ?k i (run_message f)"
  have "s' = record_index (s\<lparr>m_timerManager := fst (addTimer_loop ?m d (ms * 1000000) ?cb),
      m_nTimerIndex := ?k + 1\<rparr>) ?k (next_timer ?m)"
    using r Some by (auto simp: AddMessage_loop_def bindR_Inr_iff add_loop_def case_prod_beta
        add_callbacks record_index_def dest!: take_index_eq)
  then show ?thesis
    using tms_inv_add [OF inv, of "fst (addTimer_loop ?m d (ms * 1000000) ?cb)" _ ?cb]
      tm_inv_addTimer [OF to_inv [OF tms_timers [OF inv]]]
    by (simp add: add_callbacks Timer_new_def)
qed

lemma tms_inv_create:
  assumes inv: "tms_inv s" and r: "CreateLogic s i = Inr (s', b)"
  shows "tms_inv s'"
proof (cases "map_find (m_mapLogicList s) i")
  case (Some t)
  then show ?thesis using inv r by (simp add: CreateLogic_def)
next
  case None
  let ?t = "start (next_tid s) i"
  note ok = tms_logics [OF inv]
  have st: "thread_id ?t = next_tid s" "m_run ?t" by (simp_all add: start_def)
  have s': "s' = s\<lparr>m_mapLogicList := map_assign i ?t (m_mapLogicList s),
      m_TidtologicidList := map_assign (next_tid s) i (m_TidtologicidList s),
      m_nLogicThreadCount := m_nLogicThreadCount s + 1, next_tid := Suc (next_tid s)\<rparr>"
    using r None by (auto simp: CreateLogic_def Let_def bindR_Inr_iff int_incr_def st(1) split: if_splits)
  have f: "map_find (m_mapLogicList s') = (map_find (m_mapLogicList s))(i \<mapsto> ?t)"
    unfolding s' by (simp add: sm.find_assign [OF lo_sorted [OF ok]] fun_eq_iff)
  have g: "map_find (m_TidtologicidList s') = (map_find (m_TidtologicidList s))(next_tid s \<mapsto> i)"
    unfolding s' by (simp add: sm.find_assign [OF lo_tids [OF ok]] fun_eq_iff)
  have old: "thread_id v < next_tid s" if "map_find (m_mapLogicList s) j = Some v" for j v
    using lo_task [OF ok that] by simp
  have "thread_id v < next_tid s' \<and> task_ok v \<and>
      (m_run v \<longrightarrow> map_find (m_TidtologicidList s') (thread_id v) = Some j)"
    if "map_find (m_mapLogicList s') j = Some v" for j v
    using that old [of j v] lo_task [OF ok, of j v] lo_tid [OF ok, of j v] st
    unfolding f g by (auto simp: s' split: if_splits)
  moreover have "tid < next_tid s'" if "map_find (m_TidtologicidList s') tid = Some j" for tid j
    using that lo_less [OF ok, of tid j] unfolding g by (auto simp: s' split: if_splits)
  moreover have "j = k" if "map_find (m_mapLogicList s') j = Some v" "map_find (m_mapLogicList s') k = Some w"
    "thread_id v = thread_id w" for j k v w
    using that old [of j v] old [of k w] lo_inj [OF ok, of j v k w]
    unfolding f by (auto simp: st(1) split: if_splits)
  moreover have "map_sorted (m_mapLogicList s')" "map_sorted (m_TidtologicidList s')"
    using sm.wf_assign [OF lo_sorted [OF ok]] sm.wf_assign [OF lo_tids [OF ok]] by (simp_all add: s')
  moreover have "int (length (m_mapLogicList s')) \<le> m_nLogicThreadCount s'"
    using lo_count [OF ok] None by (simp add: s' sm.length_assign lo_sorted [OF ok])
  ultimately have "logics_ok s'" unfolding logics_ok_def by blast
  moreover have "timers_ok s'" by (rule timers_ok_cong [OF tms_timers [OF inv]]) (simp_all add: s')
  moreover have "cbs_ok s'" using tms_cbs [OF inv] by (simp add: cbs_ok_def s')
  ultimately show ?thesis by (simp add: tms_inv_def)
qed

section \<open>Every run\<close>

lemma tms_inv_task:
  assumes inv: "tms_inv s" and t: "map_find (m_mapLogicList s) i = Some t"
    and u: "thread_id u = thread_id t" "m_run u \<Longrightarrow> m_run t" "task_ok u"
  shows "tms_inv (s\<lparr>m_mapLogicList := map_assign i u (m_mapLogicList s)\<rparr>)"
proof -
  let ?s = "s\<lparr>m_mapLogicList := map_assign i u (m_mapLogicList s)\<rparr>"
  have "logics_ok ?s" by (rule logics_ok_task [OF tms_logics [OF inv] t u]) simp_all
  moreover have "timers_ok ?s" by (rule timers_ok_cong [OF tms_timers [OF inv]]) simp_all
  moreover have "cbs_ok ?s" using tms_cbs [OF inv] by (simp add: cbs_ok_def)
  ultimately show ?thesis by (simp add: tms_inv_def)
qed

lemma logics_ok_erase_tid:
  assumes ok: "logics_ok s" and t: "map_find (m_mapLogicList s) i = Some t" "\<not> m_run t"
  shows "logics_ok (s\<lparr>m_TidtologicidList := map_erase (thread_id t) (m_TidtologicidList s)\<rparr>)"
proof -
  have "thread_id u \<noteq> thread_id t" if "map_find (m_mapLogicList s) j = Some u" "m_run u" for j u
    using lo_inj [OF ok that(1) t(1)] that t by auto
  then show ?thesis
    using lo_sorted [OF ok] sm.wf_erase [OF lo_tids [OF ok]] lo_task [OF ok] lo_tid [OF ok]
      lo_less [OF ok] lo_inj [OF ok] lo_count [OF ok]
    unfolding logics_ok_def by (simp add: sm.find_erase) blast
qed

lemma logics_ok_erase:
  assumes ok: "logics_ok s"
  shows "logics_ok (s\<lparr>m_mapLogicList := map_erase i (m_mapLogicList s)\<rparr>)"
proof -
  have "length (map_erase i (m_mapLogicList s)) \<le> length (m_mapLogicList s)"
    by (simp add: map_erase_def)
  then have "int (length (map_erase i (m_mapLogicList s))) \<le> m_nLogicThreadCount s"
    using lo_count [OF ok] by linarith
  moreover have "map_find (map_erase i (m_mapLogicList s)) j = Some t \<Longrightarrow>
      map_find (m_mapLogicList s) j = Some t" for j t
    by (simp add: sm.find_erase split: if_splits)
  ultimately show ?thesis
    using sm.wf_erase [OF lo_sorted [OF ok]] lo_tids [OF ok] lo_task [OF ok] lo_tid [OF ok]
      lo_less [OF ok] lo_inj [OF ok]
    unfolding logics_ok_def by simp blast
qed

lemma tms_inv_logics:
  "tms_inv s \<Longrightarrow> logics_ok s' \<Longrightarrow> m_timerManager s' = m_timerManager s \<Longrightarrow>
     m_mapTimeridList s' = m_mapTimeridList s \<Longrightarrow> m_nTimerIndex s' = m_nTimerIndex s \<Longrightarrow> tms_inv s'"
  using timers_ok_cong [of s s'] by (simp add: tms_inv_def cbs_ok_def)

lemma tms_inv_close_begin:
  assumes inv: "tms_inv s" and r: "CloseLogic_begin s caller i = Inr (s', b)"
  shows "tms_inv s'"
proof (cases "map_find (m_mapLogicList s) i")
  case None
  then show ?thesis using inv r by (simp add: CloseLogic_begin_def)
next
  case (Some t)
  let ?u = "Close_put (Close_flag t)"
  let ?s = "s\<lparr>m_mapLogicList := map_assign i ?u (m_mapLogicList s)\<rparr>"
  have u: "thread_id ?u = thread_id t" "\<not> m_run ?u" "task_ok ?u"
    using lo_task [OF tms_logics [OF inv] Some] by (auto simp: task_defs)
  have a: "tms_inv ?s" using tms_inv_task [OF inv Some, of ?u] u by simp
  have "map_find (m_mapLogicList ?s) i = Some ?u"
    by (simp add: sm.find_assign lo_sorted [OF tms_logics [OF inv]])
  from logics_ok_erase_tid [OF tms_logics [OF a] this u(2)] have
    "tms_inv (?s\<lparr>m_TidtologicidList := map_erase (thread_id ?u) (m_TidtologicidList ?s)\<rparr>)"
    by (rule tms_inv_logics [OF a]) simp_all
  then show ?thesis
    using r Some u(1) by (auto simp: CloseLogic_begin_def Let_def split: if_splits)
qed

lemma tms_inv_close_timer:
  assumes inv: "tms_inv s"
  shows "tms_inv (fst (Close_Timer s k))"
proof (cases "map_find (m_mapTimeridList s) k")
  case (Some i)
  let ?m = "cancel_timer (m_timerManager s) i"
  let ?s = "s\<lparr>m_timerManager := ?m, m_mapTimeridList := map_erase k (m_mapTimeridList s)\<rparr>"
  note ok = tms_timers [OF inv]
  have m: "tm_inv ?m" using tm_inv_step [OF to_inv [OF ok], of "CancelTimer i"] by simp
  have lv: "live ?m j cb \<Longrightarrow> live (m_timerManager s) j cb" for j cb
    by (auto simp: live_def cancel_timer_def cancel_def split: if_splits)
  have "timers_ok ?s"
    using to_sorted [OF ok] m lv
    by (intro timers_ok_less [OF ok]) (auto simp: sm.wf_erase sm.find_erase cancel_timer_def split: if_splits)
  moreover have "logics_ok ?s" by (rule logics_ok_cong [OF tms_logics [OF inv]]) simp_all
  moreover have "cbs_ok ?s" using tms_cbs [OF inv] lv unfolding cbs_ok_def by simp blast
  ultimately show ?thesis using inv Some by (simp add: Close_Timer_def tms_inv_def)
qed (simp add: Close_Timer_def inv)

fun whole :: "'f tms_event \<Rightarrow> bool" where
  "whole E_Index = False"
| "whole (E_Once _ _ _ _) = False"
| "whole (E_Record _ _) = False"
| "whole _ = True"

lemma tms_inv_step:
  assumes inv: "tms_inv s" and w: "whole e" and r: "tms_step s e = Some (Inr s')"
  shows "tms_inv s'"
proof (cases e)
  case (E_Create i)
  then show ?thesis using r tms_inv_create [OF inv] by (auto simp: tms_step_def bindR_Inr_iff)
next
  case (E_Add i f)
  show ?thesis
  proof (cases "map_find (m_mapLogicList s) i")
    case None
    then show ?thesis using r E_Add inv by (simp add: tms_step_def AddMessage_def)
  next
    case (Some t)
    then show ?thesis
      using r E_Add tms_inv_task [OF inv Some, of "Put t (run_message f)"]
        lo_task [OF tms_logics [OF inv] Some]
      by (simp add: tms_step_def AddMessage_def)
  qed
next
  case (E_Delayed i ms f)
  then show ?thesis using r tms_inv_delayed [OF inv] by (auto simp: tms_step_def bindR_Inr_iff)
next
  case (E_Loop i d ms f)
  then show ?thesis using r tms_inv_loop [OF inv] by (auto simp: tms_step_def bindR_Inr_iff)
next
  case (E_CloseTimer k)
  then show ?thesis using r tms_inv_close_timer [OF inv, of k] by (auto simp: tms_step_def)
next
  case (E_CloseBegin c i)
  then show ?thesis using r tms_inv_close_begin [OF inv] by (auto simp: tms_step_def bindR_Inr_iff)
next
  case (E_CloseEnd i)
  then have "s' = s\<lparr>m_mapLogicList := map_erase i (m_mapLogicList s)\<rparr>"
    using r by (auto simp: tms_step_def CloseLogic_end_def split: option.splits if_splits)
  then show ?thesis
    using logics_ok_erase [OF tms_logics [OF inv], of i] by (intro tms_inv_logics [OF inv]) simp_all
next
  case (E_Timer te)
  then show ?thesis
    using r tms_inv_timer [OF inv] by (auto simp: tms_step_def split: if_splits)
next
  case (E_Logic i)
  then obtain t t' where t: "map_find (m_mapLogicList s) i = Some t" "svc_step t = Some (Inr t')"
    "s' = s\<lparr>m_mapLogicList := map_assign i t' (m_mapLogicList s)\<rparr>"
    using r by (auto simp: tms_step_def logic_step_def split: option.splits sum.splits)
  have "thread_id t' = thread_id t" "m_run t' = m_run t"
    using t(2) by (auto simp: svc_step_def split: svc_pc.splits if_splits pop_turn.splits option.splits)
  moreover have "task_ok t'"
    using svc_step_ok [of t] lo_task [OF tms_logics [OF inv] t(1)] t(2) by fastforce
  ultimately show ?thesis using tms_inv_task [OF inv t(1), of t'] t(3) by simp
qed (use w in simp_all)

lemma tms_run_ConsE:
  assumes "tms_run s (e # es) = Some (Inr s')"
  obtains u where "tms_step s e = Some (Inr u)" "tms_run u es = Some (Inr s')"
  using assms by (auto split: option.splits sum.splits)

lemma tms_inv_run:
  "tms_run s es = Some (Inr s') \<Longrightarrow> list_all whole es \<Longrightarrow> tms_inv s \<Longrightarrow> tms_inv s'"
proof (induction es arbitrary: s)
  case (Cons e es)
  from Cons.prems(1) show ?case
    by (rule tms_run_ConsE) (use Cons tms_inv_step [of s e] in auto)
qed simp

lemma tms_inv_Init: "tms_inv (Init (any :: 'f) now)"
proof -
  have "\<not> live (TimerMgr_init c now) i cb" for c i and cb :: "'f tms_callback"
    by (simp add: live_def TimerMgr_init_def)
  then show ?thesis
    using tm_inv_init [of "Put_Once 0 0 (run_message any)" now]
    by (simp add: tms_inv_def timers_ok_def logics_ok_def cbs_ok_def Init_def map_sorted_def)
qed

section \<open>Closed timers\<close>

text \<open>The messages sent under a timer index, and an index under which no more can be sent.\<close>

definition sent :: "int \<Rightarrow> 'f TMS \<Rightarrow> (nat \<times> 'f tms_callback \<times> int) list" where
  "sent k s = filter (\<lambda>f. cb_index (fst (snd f)) = k) (fired (m_timerManager s))"

definition silent :: "int \<Rightarrow> 'f TMS \<Rightarrow> bool" where
  "silent k s \<longleftrightarrow> k < m_nTimerIndex s \<and>
     (\<forall>i cb. live (m_timerManager s) i cb \<longrightarrow> cb_index cb = k \<longrightarrow> expired (m_timerManager s) i)"

lemma silent_less:
  assumes s: "silent k s" and n: "m_nTimerIndex s \<le> m_nTimerIndex s'"
    and lv: "\<And>i cb. live (m_timerManager s') i cb \<Longrightarrow> cb_index cb = k \<Longrightarrow> live (m_timerManager s) i cb"
    and ex: "\<And>i. gone (m_timerManager s) i \<Longrightarrow> gone (m_timerManager s') i"
    and f: "fired (m_timerManager s') = fired (m_timerManager s)"
  shows "silent k s' \<and> sent k s' = sent k s"
proof -
  have "expired (m_timerManager s') i" if "live (m_timerManager s') i cb" "cb_index cb = k" for i cb
  proof -
    have "live (m_timerManager s) i cb" by (rule lv [OF that])
    then have "gone (m_timerManager s) i" using s that(2) by (auto simp: silent_def gone_def live_def)
    then show ?thesis using ex by (simp add: gone_def)
  qed
  then show ?thesis using s n f by (simp add: silent_def sent_def)
qed

lemma silent_cong:
  "silent k s \<Longrightarrow> m_timerManager s' = m_timerManager s \<Longrightarrow> m_nTimerIndex s' = m_nTimerIndex s \<Longrightarrow>
     silent k s' \<and> sent k s' = sent k s"
  by (simp add: silent_def sent_def)

lemma silent_add:
  assumes s: "silent k s" and m: "timers m' = (timers (m_timerManager s))(next_timer (m_timerManager s) := t)"
    "next_timer m' = Suc (next_timer (m_timerManager s))" "mCallback t = Some cb"
    "fired m' = fired (m_timerManager s)" "cb_index cb = m_nTimerIndex s"
    and g: "\<And>i. gone (m_timerManager s) i \<Longrightarrow> gone m' i"
    and s': "m_timerManager s' = m'" "m_nTimerIndex s' = m_nTimerIndex s + 1"
  shows "silent k s' \<and> sent k s' = sent k s"
proof (rule silent_less [OF s])
  show "live (m_timerManager s) i c" if "live (m_timerManager s') i c" "cb_index c = k" for i c
    using that m s s' by (auto simp: live_def silent_def less_Suc_eq split: if_splits)
qed (use m g s' in simp_all)

lemma silent_timer:
  assumes inv: "tms_inv s" and s: "silent k s" and e: "timer_event te"
    and r: "timer_thread s te = Inr s'"
  shows "silent k s' \<and> sent k s' = sent k s"
proof -
  let ?m = "m_timerManager s" let ?n = "tm_step ?m te"
  let ?t = "s\<lparr>m_timerManager := ?n\<rparr>"
  note ti = to_inv [OF tms_timers [OF inv]]
  have lv: "live ?n i cb \<Longrightarrow> live ?m i cb" for i cb by (rule live_timer_event [OF ti e])
  have ex: "gone ?m i \<Longrightarrow> gone ?n i" for i using gone_step [of ?m i te] by blast
  have sl: "silent k ?t"
  proof -
    have "expired ?n i" if "live ?n i cb" "cb_index cb = k" for i cb
    proof -
      have "gone ?m i" using s lv [OF that(1)] that(2) by (auto simp: silent_def gone_def live_def)
      then show ?thesis using ex by (simp add: gone_def)
    qed
    then show ?thesis using s by (simp add: silent_def)
  qed
  have "sent k ?t = sent k s"
  proof -
    have "\<exists>fs. fired ?n = fired ?m @ fs \<and> (\<forall>f \<in> set fs. cb_index (fst (snd f)) \<noteq> k)"
    proof (cases "fired ?n = fired ?m")
      case False
      then obtain j cb t where j: "live ?m j cb" "\<not> expired ?m j" "fired ?n = fired ?m @ [(j, cb, t)]"
        using timer_event_callbacks [OF ti e, of 0] unfolding live_def by blast
      then have "cb_index cb \<noteq> k" using s by (auto simp: silent_def)
      then show ?thesis using j(3) by simp
    qed simp
    then show ?thesis by (auto simp: sent_def filter_empty_conv)
  qed
  moreover have "m_timerManager s' = m_timerManager ?t \<and> m_nTimerIndex s' = m_nTimerIndex ?t"
    using ti e r by (rule timer_thread_cases) (auto elim!: run_callback_eq)
  ultimately show ?thesis using sl silent_cong [OF sl, of s'] by simp
qed

lemma gone_adds:
  "gone m i \<Longrightarrow> gone (fst (addTimer m t cb)) i" "gone m i \<Longrightarrow> gone (fst (addTimer_loop m d t cb)) i"
  using gone_step [of m i "Add t cb"] gone_step [of m i "AddLoop d t cb"] by simp_all

lemma silent_step:
  assumes inv: "tms_inv s" and s: "silent k s" and w: "whole e" and r: "tms_step s e = Some (Inr s')"
  shows "silent k s' \<and> sent k s' = sent k s"
proof (cases e)
  case (E_Delayed i ms f)
  show ?thesis
  proof (cases "map_find (m_mapLogicList s) i")
    case None
    then show ?thesis using E_Delayed r s by (simp add: tms_step_def AddMessage_delayed_def)
  next
    case (Some t)
    let ?cb = "Put_Once (m_nTimerIndex s) i (run_message f)"
    have "m_timerManager s' = fst (addTimer (m_timerManager s) (ms * 1000000) ?cb) \<and>
        m_nTimerIndex s' = m_nTimerIndex s + 1"
      using r Some E_Delayed by (auto simp: tms_step_def AddMessage_delayed_def bindR_Inr_iff add_once_def
          case_prod_beta record_index_def dest!: take_index_eq)
    then show ?thesis
      by (intro silent_add [OF s add_callbacks(1,3), where cb = ?cb])
        (simp_all add: add_callbacks gone_adds Timer_new_def)
  qed
next
  case (E_Loop i d ms f)
  show ?thesis
  proof (cases "map_find (m_mapLogicList s) i")
    case None
    then show ?thesis using E_Loop r s by (simp add: tms_step_def AddMessage_loop_def)
  next
    case (Some t)
    let ?cb = "Put_Loop (m_nTimerIndex s) i (run_message f)"
    have "m_timerManager s' = fst (addTimer_loop (m_timerManager s) d (ms * 1000000) ?cb) \<and>
        m_nTimerIndex s' = m_nTimerIndex s + 1"
      using r Some E_Loop by (auto simp: tms_step_def AddMessage_loop_def bindR_Inr_iff add_loop_def
          case_prod_beta record_index_def dest!: take_index_eq)
    then show ?thesis
      by (intro silent_add [OF s add_callbacks(2,4), where cb = ?cb])
        (simp_all add: add_callbacks gone_adds Timer_new_def)
  qed
next
  case (E_CloseTimer j)
  then have s': "s' = fst (Close_Timer s j)" using r by (simp add: tms_step_def)
  show ?thesis
  proof (rule silent_less [OF s])
    show "live (m_timerManager s) i cb" if "live (m_timerManager s') i cb" for i cb
      using that by (auto simp: s' Close_Timer_def live_def cancel_timer_def cancel_def
          split: option.splits if_splits)
    show "gone (m_timerManager s') i" if "gone (m_timerManager s) i" for i
      using that gone_step [OF that, of "CancelTimer l" for l]
      by (auto simp: s' Close_Timer_def split: option.splits)
  qed (simp_all add: s' Close_Timer_def cancel_timer_def split: option.split)
next
  case (E_Timer te)
  then show ?thesis using silent_timer [OF inv s] r by (simp add: tms_step_def split: if_splits)
next
  case (E_Create i)
  then show ?thesis
    using r by (intro silent_cong [OF s])
      (auto simp: tms_step_def CreateLogic_def Let_def bindR_Inr_iff split: option.splits)
qed (intro silent_cong [OF s]; use r w in \<open>auto simp: tms_step_def AddMessage_def bindR_Inr_iff
      CloseLogic_begin_def CloseLogic_end_def logic_step_def Let_def
      split: option.splits sum.splits if_splits\<close>)+

lemma silent_run:
  "tms_run s es = Some (Inr s') \<Longrightarrow> list_all whole es \<Longrightarrow> tms_inv s \<Longrightarrow> silent k s \<Longrightarrow>
     sent k s' = sent k s"
proof (induction es arbitrary: s)
  case (Cons e es)
  from Cons.prems(1) obtain u where u: "tms_step s e = Some (Inr u)" "tms_run u es = Some (Inr s')"
    by (rule tms_run_ConsE)
  have "tms_inv u" using Cons.prems tms_inv_step [of s e u] u by simp
  moreover have "silent k u \<and> sent k u = sent k s" using Cons.prems silent_step [of s k e u] u by simp
  ultimately show ?case using Cons.IH [OF u(2)] Cons.prems by simp
qed simp

section \<open>Properties\<close>

text \<open>The steps that bring a timer added before the timer thread started to its callback.\<close>

abbreviation fire_now :: "nat \<Rightarrow> 'f tms_event list" where
  "fire_now d \<equiv> replicate 5 (E_Timer Thread) @ [E_Timer (Tick d), E_Timer WakeTimeout] @
     replicate 5 (E_Timer Thread)"

lemmas tms_simps = tms_step_def CreateLogic_def AddMessage_def AddMessage_delayed_def AddMessage_loop_def
  take_index_def int_incr_def add_once_def add_loop_def record_index_def CloseLogic_begin_def
  CloseLogic_end_def Close_Timer_def run_callback_def timer_thread_def logic_step_def Init_def start_def
  svc_step_def Put_def run_message_def close_message_def Close_flag_def Close_put_def joined_def
  CMessageQueue_init_def Pop_blocked_def Push_def map_erase_def

lemma tms_run_ends:
  "(case r of Some (Inr s) \<Rightarrow> P s | _ \<Rightarrow> False) \<Longrightarrow> \<exists>s. r = Some (Inr s) \<and> P s"
  by (auto split: option.splits sum.splits)



text \<open>C13: The maps of threads agree: in every reachable state, \<open>GetLogicThreadID\<close> on the thread
  of a logic that runs gives that logic's id, on an unknown thread 0, and \<open>Get_Logic_Count\<close> is at
  least the number of logics.\<close>

theorem logic_thread_ids:
  assumes "tms_run (Init any now) es = Some (Inr s)" "list_all whole es"
  shows "(map_find (m_mapLogicList s) i = Some t \<and> m_run t \<longrightarrow> GetLogicThreadID s (thread_id t) = i) \<and>
     (next_tid s \<le> tid \<longrightarrow> GetLogicThreadID s tid = 0) \<and>
     int (length (m_mapLogicList s)) \<le> Get_Logic_Count s"
proof -
  have ok: "logics_ok s" by (rule tms_logics [OF tms_inv_run [OF assms tms_inv_Init]])
  then show ?thesis
    using lo_tid [OF ok] lo_less [OF ok] lo_count [OF ok]
    by (fastforce simp: GetLogicThreadID_def Get_Logic_Count_def split: option.splits)
qed

theorem logic_thread_ids_witness:
  "\<exists>s. tms_run (Init ''f'' 0) [E_Create 5, E_Create 3] = Some (Inr s) \<and>
     GetLogicThreadID s 2 = 3 \<and> GetLogicThreadID s 3 = 0 \<and>
     int (length (m_mapLogicList s)) \<le> Get_Logic_Count s"
proof -
  have "\<exists>s. tms_run (Init ''f'' 0) [E_Create 5, E_Create 3] = Some (Inr s) \<and>
      (map_find (m_mapLogicList s) 3 = Some (start 2 3) \<and> next_tid s \<le> 3)"
    by (rule tms_run_ends) (simp add: tms_simps)
  then obtain s where s: "tms_run (Init ''f'' 0) [E_Create 5, E_Create 3] = Some (Inr s)"
    "map_find (m_mapLogicList s) 3 = Some (start 2 3)" "next_tid s \<le> 3" by (elim exE conjE)
  then show ?thesis
    using logic_thread_ids [OF s(1), of 3 "start 2 3" 3] by (auto simp: start_def)
qed

text \<open>\<open>AddMessage\<close> returns true exactly when the logic exists; then the function is queued
  last with that logic, and no other logic is touched; otherwise nothing changes.\<close>

lemma add_message_queues:
  assumes "tms_run (Init any now) es = Some (Inr s)" "list_all whole es"
    and "AddMessage s i f = (s', b)"
  shows "(b \<longleftrightarrow> map_find (m_mapLogicList s) i \<noteq> None) \<and> (\<not> b \<longrightarrow> s' = s) \<and>
     (\<forall>t. map_find (m_mapLogicList s) i = Some t \<longrightarrow>
        (\<exists>t'. map_find (m_mapLogicList s') i = Some t' \<and> pending t' = pending t @ [f])) \<and>
     (\<forall>j. j \<noteq> i \<longrightarrow> map_find (m_mapLogicList s') j = map_find (m_mapLogicList s) j)"
proof -
  have so: "map_sorted (m_mapLogicList s)"
    by (rule lo_sorted [OF tms_logics [OF tms_inv_run [OF assms(1,2) tms_inv_Init]]])
  have p: "pending (Put t (run_message f)) = pending t @ [f]" for t
    by (simp add: pending_def Put_def)
  show ?thesis
    using assms(3) so p
    by (cases "map_find (m_mapLogicList s) i") (auto simp: AddMessage_def sm.find_assign)
qed

lemma add_message_queues_witness:
  "\<exists>s s' t'. tms_run (Init ''f'' 0) [E_Create 5] = Some (Inr s) \<and> AddMessage s 5 ''g'' = (s', True) \<and>
     map_find (m_mapLogicList s') 5 = Some t' \<and> pending t' = [''g'']"
proof -
  have "\<exists>s. tms_run (Init ''f'' 0) [E_Create 5] = Some (Inr s) \<and>
      map_find (m_mapLogicList s) 5 = Some (start 1 5)"
    by (rule tms_run_ends) (simp add: tms_simps)
  then obtain s where s: "tms_run (Init ''f'' 0) [E_Create 5] = Some (Inr s)"
    "map_find (m_mapLogicList s) 5 = Some (start 1 5)" by (elim exE conjE)
  obtain s' b where a: "AddMessage s 5 ''g'' = (s', b)" by fastforce
  show ?thesis
    using add_message_queues [OF s(1) _ a] s a by simp
qed

section \<open>Where the code falls short\<close>

text \<open>A timer outlives its logic: \<open>CloseLogic\<close> leaves the logic's timers running, and the
  next one that fires looks the logic up with \<open>operator[]\<close> and dereferences the null pointer that
  gives.\<close>

lemma timer_outlives_logic:
  "tms_run (Init ''f'' 0) ([E_Create 0, E_Loop 0 0 1 ''f'', E_CloseBegin 0 0, E_Logic 0, E_Logic 0,
      E_CloseEnd 0] @ fire_now 1000000) = Some (Inl Null_Deref)"
  by (simp add: tms_simps run_simps)

text \<open>A one-shot timer that fires before \<open>AddMessage\<close> has recorded its index leaves the index
  behind for good: the message has been sent, the entry is there, and \<open>Close_Timer\<close> on it returns
  true without removing it, so that it returns true again.\<close>

lemma late_index_stays:
  "\<exists>s. tms_run (Init ''f'' 0)
        ([E_Create 0, E_Index, E_Once 0 0 1 ''f''] @ fire_now 1000000 @ [E_Record 0 0]) = Some (Inr s) \<and>
     length (sent 0 s) = 1 \<and> map_find (m_mapTimeridList s) 0 = Some 0 \<and> Close_Timer s 0 = (s, True)"
  by (rule tms_run_ends) (simp add: tms_simps run_simps sent_def expired_def)

text \<open>\<open>CloseLogic\<close> does not count down: with the only logic closed, \<open>Get_Logic_Count\<close> is still
  1, and the messages for the logic the count selects are refused.\<close>

lemma count_keeps_closed_logic:
  "\<exists>s. tms_run (Init ''f'' 0) [E_Create 0, E_CloseBegin 0 0, E_Logic 0, E_Logic 0, E_CloseEnd 0] = Some (Inr s) \<and>
     m_mapLogicList s = [] \<and> Get_Logic_Count s = 1 \<and>
     AddMessage s (word_of_int (7 mod Get_Logic_Count s)) ''g'' = (s, False)"
  by (rule tms_run_ends) (simp add: tms_simps Get_Logic_Count_def)

end
