(* ===== verification/Client_Manager.thy ===== *)
theory Client_Manager
  imports IO_System TMS_Props
begin

text \<open>
  \<open>CClient_Manager\<close> of client\_manager.h: the clients by their ids, the io thread, and the calls of
  the module's users, which hold \<open>thread_mutex_\<close> and so are one step each, except \<open>close\<close>, which
  is split where it waits. Client objects live in a store; the manager's map, pending reads and
  writes, and queued messages that hold a client keep it alive. After each call the messages a
  client has posted go to \<open>TMS\<close>.
\<close>

section \<open>State\<close>

datatype 'pf any_client = TCP "'pf io_client" | UDP "'pf io_client" | TTY "'pf tty_client"

text \<open>
  What the logic threads run: the message of a client, the timer's call of \<open>timer_check\<close>, the
  check it puts on the logic thread, or a function of the user.
\<close>

datatype mgr_task = Client_Task int client_task | Timer_Check | Timer_Check_Run | User_Task nat

text \<open>
  The io thread: not there, not yet running, at the head of its endless loop, in
  \<open>io_context_.run()\<close>, returned.
\<close>

datatype io_pc = IO_None | IO_Begin | IO_Loop | IO_In_Run | IO_End

record 'pf manager =
  objects :: "(int, 'pf any_client) std_map"
  asio_client_list :: "(int, int) std_map"
  io_context_list_count :: int
  curr_client_id :: int
  timer_check_seconds :: int
  thread_is_run :: bool
  is_Init :: bool
  io_stopped :: bool
  io_at :: io_pc
  tms :: "mgr_task TMS"

definition CClient_Manager_new :: "int \<Rightarrow> 'pf manager" where
  "CClient_Manager_new now =
     \<lparr>objects = [], asio_client_list = [], io_context_list_count = 0, curr_client_id = 1,
      timer_check_seconds = 30000, thread_is_run = False, is_Init = False, io_stopped = False,
      io_at = IO_None, tms = Init Timer_Check now\<rparr>"

definition mgr_get_tms_logic_id :: "'pf manager \<Rightarrow> int \<Rightarrow> int result" where
  "mgr_get_tms_logic_id m connect =
     (let logic_thread_count = Get_Logic_Count (tms m)
      in if logic_thread_count = 0 then Inl Div_By_Zero else Inr (connect smod logic_thread_count))"

section \<open>Clients of any kind\<close>

fun client_posted :: "'pf any_client \<Rightarrow> (int \<times> client_task) list" where
  "client_posted (TCP cl) = posted cl"
| "client_posted (UDP cl) = posted cl"
| "client_posted (TTY cl) = posted cl"

fun client_sent :: "'pf any_client \<Rightarrow> 'pf any_client" where
  "client_sent (TCP cl) = TCP (cl\<lparr>posted := []\<rparr>)"
| "client_sent (UDP cl) = UDP (cl\<lparr>posted := []\<rparr>)"
| "client_sent (TTY cl) = TTY (cl\<lparr>posted := []\<rparr>)"

fun client_pending :: "'pf any_client \<Rightarrow> (io_op \<times> error_code) list" where
  "client_pending (TCP cl) = pending_ops cl"
| "client_pending (UDP cl) = pending_ops cl"
| "client_pending (TTY cl) = pending_ops cl"

fun client_connect_id :: "'pf any_client \<Rightarrow> int" where
  "client_connect_id (TCP cl) = connect_id cl"
| "client_connect_id (UDP cl) = connect_id cl"
| "client_connect_id (TTY cl) = connect_id cl"

fun client_write :: "'pf any_client \<Rightarrow> byte list \<Rightarrow> size_t \<Rightarrow> 'pf any_client result" where
  "client_write (TCP cl) data n = bindR (tcp_do_write_immediately cl data n) (\<lambda>c. Inr (TCP c))"
| "client_write (UDP cl) data n = bindR (udp_do_write_immediately cl data n) (\<lambda>c. Inr (UDP c))"
| "client_write (TTY cl) data n = bindR (tty_do_write_immediately cl data n) (\<lambda>c. Inr (TTY c))"

fun client_write_format ::
  "'pf io_env \<Rightarrow> 'pf any_client \<Rightarrow> int \<Rightarrow> uint16 \<Rightarrow> byte list \<Rightarrow> size_t \<Rightarrow> 'pf any_client result" where
  "client_write_format env (TCP cl) n_logic c data n =
     bindR (tcp_do_write_format_data env cl n_logic c data n) (\<lambda>x. Inr (TCP x))"
| "client_write_format env (UDP cl) n_logic c data n =
     bindR (udp_do_write_format_data env cl c data n) (\<lambda>x. Inr (UDP x))"
| "client_write_format env (TTY cl) n_logic c data n =
     bindR (tty_do_write_format_data env cl n_logic c data n) (\<lambda>x. Inr (TTY x))"

fun client_close :: "'pf any_client \<Rightarrow> 'pf any_client" where
  "client_close (TCP cl) = TCP (tcp_close_client_socket cl)"
| "client_close (UDP cl) = UDP (udp_close_client_socket cl)"
| "client_close (TTY cl) = TTY (tty_close_client_socket cl)"

fun client_reconnect ::
  "'pf io_env \<Rightarrow> open_device \<Rightarrow> 'pf any_client \<Rightarrow> int \<Rightarrow> int \<Rightarrow> 'pf any_client \<times> unit result" where
  "client_reconnect env os (TCP cl) n_logic now =
     (case tcp_reconnect env cl of Inl f \<Rightarrow> (TCP cl, Inl f) | Inr c \<Rightarrow> (TCP c, Inr ()))"
| "client_reconnect env os (UDP cl) n_logic now =
     (case udp_reconnect env cl of Inl f \<Rightarrow> (UDP cl, Inl f) | Inr c \<Rightarrow> (UDP c, Inr ()))"
| "client_reconnect env os (TTY cl) n_logic now =
     (case tty_reconnect env os cl n_logic now of (c, r) \<Rightarrow> (TTY c, r))"

fun client_check_timeout ::
  "'pf io_env \<Rightarrow> open_device \<Rightarrow> 'pf any_client \<Rightarrow> int \<Rightarrow> int \<Rightarrow> int \<Rightarrow> 'pf any_client \<times> unit result" where
  "client_check_timeout env os (TCP cl) n_logic now secs =
     (case tcp_do_check_timeout env cl secs of Inl f \<Rightarrow> (TCP cl, Inl f) | Inr c \<Rightarrow> (TCP c, Inr ()))"
| "client_check_timeout env os (UDP cl) n_logic now secs =
     (case udp_do_check_timeout env cl secs of Inl f \<Rightarrow> (UDP cl, Inl f) | Inr c \<Rightarrow> (UDP c, Inr ()))"
| "client_check_timeout env os (TTY cl) n_logic now secs =
     (case tty_do_check_timeout env os cl n_logic now secs of (c, r) \<Rightarrow> (TTY c, r))"

fun client_time_pass :: "'pf any_client \<Rightarrow> int \<Rightarrow> int" where
  "client_time_pass (TCP cl) now = tcp_get_time_pass_seconds cl now now"
| "client_time_pass (UDP cl) now = udp_get_time_pass_seconds cl now now"
| "client_time_pass (TTY cl) now = tty_get_time_pass_seconds cl now now"

section \<open>Messages and lifetimes\<close>

text \<open>The client's calls of \<open>AddMessage\<close>, carried out in order.\<close>

definition flush :: "'pf manager \<Rightarrow> int \<Rightarrow> 'pf any_client \<Rightarrow> 'pf manager" where
  "flush m cid c =
     m\<lparr>objects := map_assign cid (client_sent c) (objects m),
       tms := foldl (\<lambda>t (logic, task). fst (AddMessage t (word_of_int logic) (Client_Task cid task)))
                (tms m) (client_posted c)\<rparr>"

definition task_pending :: "mgr_task TMS \<Rightarrow> mgr_task list" where
  "task_pending t = concat (map (\<lambda>(_, task). pending task) (m_mapLogicList t))"

text \<open>Whether something still owns the client, so that its destructor has not run.\<close>

definition client_alive :: "'pf manager \<Rightarrow> int \<Rightarrow> bool" where
  "client_alive m cid \<longleftrightarrow>
     cid \<in> set (map snd (asio_client_list m)) \<or>
     (case map_find (objects m) cid of
        None \<Rightarrow> False
      | Some c \<Rightarrow> list_ex (\<lambda>(op, _). op \<noteq> Op_Connect) (client_pending c)) \<or>
     list_ex (\<lambda>task. case task of Client_Task i ct \<Rightarrow> i = cid \<and> holds_self ct | _ \<Rightarrow> False)
       (task_pending (tms m))"

section \<open>Starting and using clients\<close>

text \<open>The three \<open>start_client\<close> functions up to the call of \<open>start\<close>: an id and an entry.\<close>

definition new_client :: "'pf manager \<Rightarrow> 'pf any_client \<Rightarrow> ('pf manager \<times> int) result" where
  "new_client m c =
     (let client_id = curr_client_id m
      in bindR (int_incr client_id) (\<lambda>next_id.
           Inr (m\<lparr>curr_client_id := next_id,
                  objects := map_assign client_id c (objects m),
                  asio_client_list := map_assign client_id client_id (asio_client_list m)\<rparr>, client_id)))"

definition start_client_tcp ::
  "'pf manager \<Rightarrow> 'pf io_env \<Rightarrow> int \<Rightarrow> string \<Rightarrow> uint16 \<Rightarrow> 'pf \<Rightarrow> 'pf manager \<times> int result" where
  "start_client_tcp m env now ip port pf =
     (case new_client m (TCP (io_client_new pf now)) of
        Inl f \<Rightarrow> (m, Inl f)
      | Inr (m1, client_id) \<Rightarrow>
          (case tcp_start env (io_client_new pf now) client_id ip port of
             (cl, Inl f) \<Rightarrow> (flush m1 client_id (TCP cl), Inl f)
           | (cl, Inr _) \<Rightarrow> (flush m1 client_id (TCP cl), Inr client_id)))"

definition start_client_udp ::
  "'pf manager \<Rightarrow> 'pf io_env \<Rightarrow> int \<Rightarrow> string \<Rightarrow> uint16 \<Rightarrow> 'pf \<Rightarrow> 'pf manager \<times> int result" where
  "start_client_udp m env now ip port pf =
     (case new_client m (UDP (io_client_new pf now)) of
        Inl f \<Rightarrow> (m, Inl f)
      | Inr (m1, client_id) \<Rightarrow>
          (case udp_start env (io_client_new pf now) client_id ip port of
             (cl, Inl f) \<Rightarrow> (flush m1 client_id (UDP cl), Inl f)
           | (cl, Inr _) \<Rightarrow> (flush m1 client_id (UDP cl), Inr client_id)))"

definition start_client_tty ::
  "'pf manager \<Rightarrow> 'pf io_env \<Rightarrow> open_device \<Rightarrow> int \<Rightarrow> string \<Rightarrow> uint16 \<Rightarrow> 'pf tty_client \<Rightarrow> 'pf manager \<times> int result" where
  "start_client_tty m env os now tty_name tty_port cl0 =
     (case new_client m (TTY cl0) of
        Inl f \<Rightarrow> (m, Inl f)
      | Inr (m1, client_id) \<Rightarrow>
          (case tty_start env os cl0 (Get_Logic_Count (tms m1)) now client_id tty_name tty_port of
             (cl, Inl f) \<Rightarrow> (flush m1 client_id (TTY cl), Inl f)
           | (cl, Inr _) \<Rightarrow> (flush m1 client_id (TTY cl), Inr client_id)))"

text \<open>The client behind an id, if the manager has it.\<close>

definition find_client :: "'pf manager \<Rightarrow> int \<Rightarrow> (int \<times> 'pf any_client) option" where
  "find_client m client_id =
     (case map_find (asio_client_list m) client_id of
        None \<Rightarrow> None
      | Some p \<Rightarrow> (case map_find (objects m) p of None \<Rightarrow> None | Some c \<Rightarrow> Some (p, c)))"

definition client_send_data :: "'pf manager \<Rightarrow> int \<Rightarrow> byte list \<Rightarrow> uint32 \<Rightarrow> ('pf manager \<times> bool) result" where
  "client_send_data m client_id send_buff send_size =
     (case find_client m client_id of
        None \<Rightarrow> Inr (m, False)
      | Some (p, c) \<Rightarrow>
          bindR (client_write c (c_str send_buff) (int_to_size_t send_size)) (\<lambda>c'. Inr (flush m p c', True)))"

definition client_send_format_data ::
  "'pf manager \<Rightarrow> 'pf io_env \<Rightarrow> int \<Rightarrow> uint16 \<Rightarrow> byte list \<Rightarrow> uint32 \<Rightarrow> ('pf manager \<times> bool) result" where
  "client_send_format_data m env client_id command send_buff send_size =
     (case find_client m client_id of
        None \<Rightarrow> Inr (m, False)
      | Some (p, c) \<Rightarrow>
          bindR (client_write_format env c (Get_Logic_Count (tms m)) command (c_str send_buff)
                   (int_to_size_t send_size)) (\<lambda>c'. Inr (flush m p c', True)))"

definition close_client :: "'pf manager \<Rightarrow> int \<Rightarrow> 'pf manager \<times> bool" where
  "close_client m client_id =
     (case find_client m client_id of
        None \<Rightarrow> (m, False)
      | Some (p, c) \<Rightarrow>
          ((flush m p (client_close c))\<lparr>asio_client_list := map_erase client_id (asio_client_list m)\<rparr>, True))"

definition reconnect_server ::
  "'pf manager \<Rightarrow> 'pf io_env \<Rightarrow> open_device \<Rightarrow> int \<Rightarrow> int \<Rightarrow> 'pf manager \<times> bool result" where
  "reconnect_server m env os now client_id =
     (case find_client m client_id of
        None \<Rightarrow> (m, Inr False)
      | Some (p, c) \<Rightarrow>
          (case client_reconnect env os c (Get_Logic_Count (tms m)) now of
             (c', Inl f) \<Rightarrow> (flush m p c', Inl f)
           | (c', Inr ()) \<Rightarrow> (flush m p c', Inr True)))"

section \<open>The timeout check\<close>

definition timer_check :: "'pf manager \<Rightarrow> 'pf manager" where
  "timer_check m = m\<lparr>tms := fst (AddMessage (tms m) 0 Timer_Check_Run)\<rparr>"

text \<open>The message it posts: who is over time, found under the lock, and then their checks.\<close>

definition timeout_sessions :: "'pf manager \<Rightarrow> int \<Rightarrow> (int \<times> int) list" where
  "timeout_sessions m now =
     concat (map (\<lambda>(_, p). case map_find (objects m) p of
         None \<Rightarrow> []
       | Some c \<Rightarrow> (let time_pass_seconds = client_time_pass c now
                     in if time_pass_seconds > timer_check_seconds m then [(p, time_pass_seconds)] else []))
       (asio_client_list m))"

fun run_timeouts ::
  "'pf manager \<Rightarrow> 'pf io_env \<Rightarrow> open_device \<Rightarrow> int \<Rightarrow> (int \<times> int) list \<Rightarrow> 'pf manager result" where
  "run_timeouts m env os now [] = Inr m"
| "run_timeouts m env os now ((p, secs) # rest) =
     (case map_find (objects m) p of
        None \<Rightarrow> run_timeouts m env os now rest
      | Some c \<Rightarrow>
          (case client_check_timeout env os c (Get_Logic_Count (tms m)) now secs of
             (_, Inl f) \<Rightarrow> Inl f
           | (c', Inr ()) \<Rightarrow> run_timeouts (flush m p c') env os now rest))"

definition timer_check_run ::
  "'pf manager \<Rightarrow> 'pf io_env \<Rightarrow> open_device \<Rightarrow> int \<Rightarrow> 'pf manager result" where
  "timer_check_run m env os now = run_timeouts m env os now (timeout_sessions m now)"

section \<open>Running and closing\<close>

fun create_logics :: "mgr_task TMS \<Rightarrow> nat \<Rightarrow> nat \<Rightarrow> mgr_task TMS result" where
  "create_logics t i 0 = Inr t"
| "create_logics t i (Suc n) =
     bindR (CreateLogic t (of_nat i)) (\<lambda>(t', _). create_logics t' (Suc i) n)"

definition run :: "'pf manager \<Rightarrow> int \<Rightarrow> int \<Rightarrow> 'pf manager result" where
  "run m io_context_count check_seconds =
     (if is_Init m then Inr m
      else
        bindR (create_logics (tms m) 0 (nat io_context_count)) (\<lambda>t1.
        bindR (AddMessage_loop t1 0 0 (check_seconds * 1000) Timer_Check) (\<lambda>(t2, _).
          let add_io_context_count = io_context_count - io_context_list_count m
          in Inr (m\<lparr>tms := t2, timer_check_seconds := check_seconds,
                    io_context_list_count :=
                      (if add_io_context_count > 0 then io_context_list_count m + add_io_context_count
                       else io_context_list_count m),
                    io_at := (if thread_is_run m then io_at m else IO_Begin),
                    is_Init := True\<rparr>))))"

text \<open>
  A step of the io thread. It holds a work guard, so \<open>io_context_.run()\<close> returns only when the
  context has been stopped, and then the loop calls it again.
\<close>

definition io_thread_step :: "'pf manager \<Rightarrow> 'pf manager option" where
  "io_thread_step m =
     (case io_at m of
        IO_Begin \<Rightarrow> Some (m\<lparr>io_at := IO_Loop, thread_is_run := True\<rparr>)
      | IO_Loop \<Rightarrow> Some (m\<lparr>io_at := IO_In_Run\<rparr>)
      | IO_In_Run \<Rightarrow> if io_stopped m then Some (m\<lparr>io_at := IO_Loop\<rparr>) else None
      | _ \<Rightarrow> None)"

text \<open>
  \<open>close\<close>: the clients, the io context and the join of its thread, then \<open>TMS\<close>. It waits in its
  joins, holding \<open>thread_mutex_\<close>.
\<close>

definition close_all :: "'pf manager \<Rightarrow> 'pf manager" where
  "close_all m =
     (foldl (\<lambda>m' (_, p). case map_find (objects m') p of
                None \<Rightarrow> m' | Some c \<Rightarrow> flush m' p (client_close c)) m (asio_client_list m))
       \<lparr>asio_client_list := []\<rparr>"

definition close_end :: "'pf manager \<Rightarrow> 'pf manager" where
  "close_end m = m\<lparr>thread_is_run := False, io_context_list_count := 0\<rparr>"

datatype mgr_close = MC_Begin | MC_Join | MC_TMS close_pc | MC_End

definition mgr_close_step :: "'pf manager \<Rightarrow> mgr_close \<Rightarrow> ('pf manager \<times> mgr_close) option" where
  "mgr_close_step m p =
     (case p of
        MC_Begin \<Rightarrow>
          (if thread_is_run m then Some ((close_all m)\<lparr>io_stopped := True\<rparr>, MC_Join)
           else Some (close_end m, MC_End))
      | MC_Join \<Rightarrow> (if io_at m = IO_End then Some (m, MC_TMS (C_Close 0)) else None)
      | MC_TMS cp \<Rightarrow>
          (if cp = C_Closed then Some (close_end m, MC_End)
           else case Close_step (tms m) cp of
             None \<Rightarrow> None
           | Some (t, cp') \<Rightarrow> Some (m\<lparr>tms := t\<rparr>, MC_TMS cp'))
      | MC_End \<Rightarrow> None)"

section \<open>The io thread's handlers\<close>

definition lift_client ::
  "'pf manager \<Rightarrow> int \<Rightarrow> ('c \<Rightarrow> 'pf any_client) \<Rightarrow> 'c result option \<Rightarrow> 'pf manager result option" where
  "lift_client m p wrap r =
     (case r of
        None \<Rightarrow> None
      | Some (Inl f) \<Rightarrow> Some (Inl f)
      | Some (Inr cl') \<Rightarrow> Some (Inr (flush m p (wrap cl'))))"

text \<open>
  The completion of an operation. A read or a write holds its client; \<open>connect_handler\<close> is bound
  to a plain pointer, and runs on freed memory if nothing owns the client any more.
\<close>

definition mgr_io_done ::
  "'pf manager \<Rightarrow> 'pf io_env \<Rightarrow> int \<Rightarrow> int \<Rightarrow> nat \<Rightarrow> error_code \<Rightarrow> byte list \<Rightarrow> 'pf manager result option" where
  "mgr_io_done m env now p n ec data =
     (case map_find (objects m) p of
        None \<Rightarrow> None
      | Some c \<Rightarrow>
          (if \<not> client_alive m p \<and> n < length (client_pending c) \<and> fst (client_pending c ! n) = Op_Connect
           then Some (Inl Use_After_Free)
           else case c of
             TCP cl \<Rightarrow> lift_client m p TCP (tcp_done env cl (Get_Logic_Count (tms m)) now n ec data)
           | UDP cl \<Rightarrow> lift_client m p UDP (udp_done env cl (Get_Logic_Count (tms m)) now n ec data)
           | TTY cl \<Rightarrow> lift_client m p TTY (tty_done env cl (Get_Logic_Count (tms m)) now n ec data)))"

section \<open>The logic threads' tasks\<close>

fun client_do_message :: "'pf any_client \<Rightarrow> int \<Rightarrow> crecv_packet \<Rightarrow> 'pf any_client" where
  "client_do_message (TCP cl) cid packet = TCP (do_message cl cid packet)"
| "client_do_message (UDP cl) cid packet = UDP (do_message cl cid packet)"
| "client_do_message (TTY cl) cid packet = TTY (do_message cl cid packet)"

text \<open>What running a task does; the user's \<open>do_message\<close> is recorded, its own calls are others.\<close>

definition mgr_execute ::
  "'pf manager \<Rightarrow> 'pf io_env \<Rightarrow> open_device \<Rightarrow> int \<Rightarrow> mgr_task \<Rightarrow> 'pf manager result" where
  "mgr_execute m env os now task =
     (case task of
        User_Task _ \<Rightarrow> Inr m
      | Timer_Check \<Rightarrow> Inr (timer_check m)
      | Timer_Check_Run \<Rightarrow> timer_check_run m env os now
      | Client_Task p ct \<Rightarrow>
          (case map_find (objects m) p of
             None \<Rightarrow> Inr m
           | Some c \<Rightarrow>
               (case ct of
                  Do_Message cid packet \<Rightarrow> Inr (flush m p (client_do_message c cid packet))
                | Dispose_Message cid packet \<Rightarrow> Inr (flush m p (client_do_message c cid packet))
                | Reconnect \<Rightarrow>
                    (case client_reconnect env os c (Get_Logic_Count (tms m)) now of
                       (_, Inl f) \<Rightarrow> Inl f
                     | (c', Inr ()) \<Rightarrow> Inr (flush m p c')))))"

end
