(* ===== verification/Framework.thy ===== *)
theory Framework
  imports Client_Manager
begin

text \<open>
  The module's interface, framework.h and framework.cpp: the functions a program calls, over the
  one \<open>CClient_Manager\<close> and the one \<open>TMS\<close> of the process, and packet\_dispose.cpp of the test
  program, which calls back into it. An \<open>int\<close> thread id becomes a \<open>uint32\<close> on its way to \<open>TMS\<close>.
\<close>

definition load_module :: "'pf manager \<Rightarrow> int \<Rightarrow> int \<Rightarrow> ('pf manager \<times> int) result" where
  "load_module m thread_count seconds = bindR (run m thread_count seconds) (\<lambda>m'. Inr (m', 0))"

text \<open>\<open>unload_module\<close> is \<open>close\<close>, step by step.\<close>

definition unload_module_step :: "'pf manager \<Rightarrow> mgr_close \<Rightarrow> ('pf manager \<times> mgr_close) option" where
  "unload_module_step m p = mgr_close_step m p"

datatype em_io_type = IO_TYPE_TCP | IO_TYPE_UDP | IO_TYPE_TTY | IO_TYPE_other int

text \<open>A value outside the enumeration gives \<open>false\<close>, as an \<open>int\<close>.\<close>

definition start_client ::
  "'pf manager \<Rightarrow> 'pf io_env \<Rightarrow> open_device \<Rightarrow> int \<Rightarrow> string \<Rightarrow> uint16 \<Rightarrow> 'pf \<Rightarrow> termios \<Rightarrow> em_io_type
     \<Rightarrow> 'pf manager \<times> int result" where
  "start_client m env os now ip port pf attributes io_type =
     (case io_type of
        IO_TYPE_TCP \<Rightarrow> start_client_tcp m env now ip port pf
      | IO_TYPE_UDP \<Rightarrow> start_client_udp m env now ip port pf
      | IO_TYPE_TTY \<Rightarrow>
          start_client_tty m env os now ip port
            (io_client.extend (io_client_new pf now) (tty_client.fields attributes))
      | IO_TYPE_other _ \<Rightarrow> (m, Inr 0))"

definition add_local_message :: "'pf manager \<Rightarrow> int \<Rightarrow> mgr_task \<Rightarrow> 'pf manager \<times> int" where
  "add_local_message m work_thread_id func =
     (case AddMessage (tms m) (word_of_int work_thread_id) func of
        (t, ok) \<Rightarrow> (m\<lparr>tms := t\<rparr>, if ok then 1 else 0))"

definition add_timer :: "'pf manager \<Rightarrow> int \<Rightarrow> int \<Rightarrow> mgr_task \<Rightarrow> ('pf manager \<times> int) result" where
  "add_timer m work_thread_id milliseconds func =
     (if milliseconds = 0
      then (case AddMessage (tms m) (word_of_int work_thread_id) func of
              (t, ok) \<Rightarrow> Inr (m\<lparr>tms := t\<rparr>, if ok then 1 else 0))
      else bindR (AddMessage_delayed (tms m) (word_of_int work_thread_id) milliseconds func)
             (\<lambda>(t, i). Inr (m\<lparr>tms := t\<rparr>, i)))"

definition add_timer_loop ::
  "'pf manager \<Rightarrow> int \<Rightarrow> int \<Rightarrow> int \<Rightarrow> mgr_task \<Rightarrow> ('pf manager \<times> int) result" where
  "add_timer_loop m work_thread_id begin_delay_seconds milliseconds func =
     (if milliseconds = 0 then Inr (m, -1)
      else bindR (AddMessage_loop (tms m) (word_of_int work_thread_id) begin_delay_seconds milliseconds func)
             (\<lambda>(t, i). Inr (m\<lparr>tms := t\<rparr>, i)))"

definition close_timer_id :: "'pf manager \<Rightarrow> int \<Rightarrow> 'pf manager \<times> bool" where
  "close_timer_id m timer_id = (case Close_Timer (tms m) timer_id of (t, ok) \<Rightarrow> (m\<lparr>tms := t\<rparr>, ok))"

text \<open>
  \<open>cpacket_dispose::do_message\<close> of the test program: on a connection and on a timeout it sends a
  body of 200 zero bytes; the messages it prints are left out.
\<close>

definition test_do_message ::
  "'pf manager \<Rightarrow> 'pf io_env \<Rightarrow> int \<Rightarrow> crecv_packet \<Rightarrow> ('pf manager \<times> bool) result" where
  "test_do_message m env cid recv_packet =
     (if command_id recv_packet = connect_command_id \<or> command_id recv_packet = time_check_command_id
      then bindR (client_send_format_data m env cid 0x2101 (replicate 200 0) 200)
             (\<lambda>(m', _). Inr (m', True))
      else Inr (m, True))"

end
