(* ===== verification/IO_Props.thy ===== *)
theory IO_Props
  imports IO_System
begin

text \<open>
  The properties of the IO clients: what a TCP client with the repository's packet format
  delivers, how the end of a connection is reported, and the runs in which a client cannot
  connect, comes back after a close, reports one failure several times or reads out of bounds.
\<close>

section \<open>A sequence of reads\<close>

fun tcp_reads ::
  "'pf io_env \<Rightarrow> 'pf io_client \<Rightarrow> int \<Rightarrow> int \<Rightarrow> byte list list \<Rightarrow> 'pf io_client result" where
  "tcp_reads env cl count now [] = Inr cl"
| "tcp_reads env cl count now (c # cs) =
     bindR (tcp_on_read env cl count now None c) (\<lambda>cl'. tcp_reads env cl' count now cs)"

lemma tcp_on_read_repo:
  assumes "format_recv_buffer (packet_format cl) c (of_nat (length c)) = Inr (pf, ps)"
  shows "tcp_on_read (repo_env msg addr) cl count now None c = Inr (start_op
     (cl\<lparr>packet_format := pf,
         posted := posted cl @ map (\<lambda>p. (tcp_get_tms_logic_id cl count, Do_Message (connect_id cl) p)) ps,
         recv_last_timer := now\<rparr>)
     Op_Read)"
  using assms by (simp add: tcp_on_read_def repo_env_def foldl_post tcp_do_read_def
      tcp_get_tms_logic_id_def Let_def)

lemma tcp_reads_feed:
  "feed (packet_format cl) cs = Inr (pf, ps) \<Longrightarrow>
     \<exists>cl'. tcp_reads (repo_env msg addr) cl count now cs = Inr cl' \<and> packet_format cl' = pf \<and>
       posted cl' = posted cl @ map (\<lambda>p. (tcp_get_tms_logic_id cl count, Do_Message (connect_id cl) p)) ps"
proof (induction cs arbitrary: cl ps)
  case (Cons c cs)
  from Cons.prems obtain pf1 ps1 ps2 where f: "format_recv_buffer (packet_format cl) c (of_nat (length c)) = Inr (pf1, ps1)"
    "feed pf1 cs = Inr (pf, ps2)" "ps = ps1 @ ps2"
    by (auto simp: bindR_Inr_iff)
  let ?cl = "start_op (cl\<lparr>packet_format := pf1,
         posted := posted cl @ map (\<lambda>p. (tcp_get_tms_logic_id cl count, Do_Message (connect_id cl) p)) ps1,
         recv_last_timer := now\<rparr>) Op_Read"
  have "feed (packet_format ?cl) cs = Inr (pf, ps2)" using f(2) by simp
  from Cons.IH [OF this] show ?case
    using tcp_on_read_repo [OF f(1), of msg addr count now] f(3)
    by (auto simp: tcp_get_tms_logic_id_def)
qed simp

section \<open>Properties\<close>



text \<open>C21: All three clients end a connection the same way. A read that fails is reported by one
  disconnect message; if the user has not closed the client, its socket is closed, everything
  pending on it is bound to fail, and one reconnect message follows the report; if the user has,
  nothing else is posted.\<close>

theorem connection_lost_reported:
  "(\<exists>c. tcp_on_read env cl count now (Some e) data = Inr c \<and>
      posted c = posted cl @ tcp_report env cl count e #
        (if is_client_close cl then [] else [(tcp_get_tms_logic_id cl count, Reconnect)]) \<and>
      (is_client_close cl \<or> all_forced c)) \<and>
   (\<exists>c. udp_on_read env cl count now (Some e) data = Inr c \<and>
      posted c = posted cl @ udp_report env cl count e #
        (if is_client_close cl then [] else [(udp_get_tms_logic_id cl count, Reconnect)]) \<and>
      (is_client_close cl \<or> all_forced c)) \<and>
   (\<exists>c. tty_on_read env tcl count now (Some e) data = Inr c \<and>
      posted c = posted tcl @ tty_report env tcl count e #
        (if is_client_close tcl then [] else [(tty_get_tms_logic_id tcl count, Reconnect)]) \<and>
      (is_client_close tcl \<or> all_forced c))"
proof (intro conjI)
  obtain a where a: "tcp_on_read env cl count now (Some e) data = Inr a" using tcp.lost_total by blast
  then have "is_client_close cl \<or> all_forced a" using tcp.lost_forces by blast
  then show "\<exists>c. tcp_on_read env cl count now (Some e) data = Inr c \<and>
      posted c = posted cl @ tcp_report env cl count e #
        (if is_client_close cl then [] else [(tcp_get_tms_logic_id cl count, Reconnect)]) \<and>
      (is_client_close cl \<or> all_forced c)"
    using a tcp.lost_posts [OF a] by (simp add: tcp_report_def)
  obtain b where b: "udp_on_read env cl count now (Some e) data = Inr b" using udp.lost_total by blast
  then have "is_client_close cl \<or> all_forced b" using udp.lost_forces by blast
  then show "\<exists>c. udp_on_read env cl count now (Some e) data = Inr c \<and>
      posted c = posted cl @ udp_report env cl count e #
        (if is_client_close cl then [] else [(udp_get_tms_logic_id cl count, Reconnect)]) \<and>
      (is_client_close cl \<or> all_forced c)"
    using b udp.lost_posts [OF b] by (simp add: udp_report_def)
  obtain d where d: "tty_on_read env tcl count now (Some e) data = Inr d" using tty.lost_total by blast
  then have "is_client_close tcl \<or> all_forced d" using tty.lost_forces by blast
  then show "\<exists>c. tty_on_read env tcl count now (Some e) data = Inr c \<and>
      posted c = posted tcl @ tty_report env tcl count e #
        (if is_client_close tcl then [] else [(tty_get_tms_logic_id tcl count, Reconnect)]) \<and>
      (is_client_close tcl \<or> all_forced c)"
    using d tty.lost_posts [OF d] by (simp add: tty_report_def)
qed

text \<open>C22: A formatted send that is not refused puts on the wire what the receiver needs: a body
  without NUL bytes, sent with its length over a connected TCP client, starts one write of the
  packet with that command and body.\<close>

theorem tcp_sends_packet:
  assumes "is_connect cl" "length (send_buffer (packet_format cl)) = 2048"
    and "length body \<le> 2008" "0 \<notin> set body"
  shows "\<exists>cl' filler. tcp_do_write_format_data (repo_env msg addr) cl count command (c_str body)
      (of_nat (length body)) = Inr cl' \<and> length filler = 32 \<and>
     map fst (pending_ops cl') = map fst (pending_ops cl) @ [Op_Write (wire command filler body)] \<and>
     posted cl' = posted cl"
proof -
  let ?n = "of_nat (length body) :: size_t"
  let ?filler = "take 32 (drop 8 (send_buffer (packet_format cl)))"
  have u: "unat ?n = length body" using assms(3) by (simp add: unat_of_nat)
  have t: "takeWhile (\<lambda>b. b \<noteq> 0) body = body" using assms(4) by (induction body) auto
  obtain pf where pf: "format_send_buffer (packet_format cl) command body ?n 0 =
      Inr (pf, wire command ?filler body, 40 + ?n)"
    using format_send_wire [OF assms(2), of ?n body command 0] assms(3) u by auto
  have l: "length (wire command ?filler body) = 40 + length body"
    using assms(2) by (simp add: wire_def)
  have u': "unat (40 + ?n) = 40 + length body" using assms(3) u by (simp add: unat_word_ariths)
  then have na: "new_array (40 + ?n) = Inr ()"
    using assms(3) by (simp add: new_array_def word_less_nat_alt)
  have rd: "read_block (c_str (wire command ?filler body)) 0 (unat (40 + ?n)) = Inr (wire command ?filler body)"
    using l u' by (simp add: read_block_def c_str_def)
  have "tcp_do_write_format_data (repo_env msg addr) cl count command (c_str body) ?n =
      Inr (start_op (cl\<lparr>packet_format := pf\<rparr>) (Op_Write (wire command ?filler body)))"
    using assms(1) pf rd na
    by (simp add: tcp_do_write_format_data_def repo_env_def string_of_cstr_c_str t tcp_do_write_immediately_def)
  moreover have "length ?filler = 32" using assms(2) by simp
  ultimately show ?thesis
    by (intro exI [of _ "start_op (cl\<lparr>packet_format := pf\<rparr>) (Op_Write (wire command ?filler body))"]
        exI [of _ ?filler]) (simp add: start_op_def)
qed

theorem tcp_sends_packet_witness:
  "\<exists>cl' filler. tcp_do_write_format_data (repo_env (\<lambda>_. []) (\<lambda>_. True))
      ((io_client_new (cpacket_format_init (replicate 16384 0)) 0)\<lparr>is_connect := True\<rparr>) 1 0x2101
      (c_str [104, 105]) (of_nat (length [104, 105 :: byte])) = Inr cl' \<and>
     map fst (pending_ops cl') = [Op_Write (wire 0x2101 filler [104, 105])]"
proof -
  let ?cl = "(io_client_new (cpacket_format_init (replicate 16384 0)) 0)\<lparr>is_connect := True\<rparr>"
  have c: "is_connect ?cl" "length (send_buffer (packet_format ?cl)) = 2048" "pending_ops ?cl = []"
    by (simp_all add: io_client_new_def cpacket_format_init_def MAX_PACKET_SEND_SIZE_def)
  show ?thesis
    using tcp_sends_packet [OF c(1,2), of "[104, 105]" "\<lambda>_. []" "\<lambda>_. True" 1 "0x2101"] c(3) by auto
qed

section \<open>Where the code falls short\<close>

text \<open>A body with a NUL byte is cut at it when the data becomes a \<open>std::string\<close>, but copied
  with the caller's length: if that reaches past the NUL, the bytes behind the string are read.
  The test program's \<open>do_message\<close> sends 200 zero bytes this way.\<close>

lemma send_with_nul_reads_past:
  assumes "is_connect cl" "length (send_buffer (packet_format cl)) = 2048"
    and "data = s @ 0 # rest" "0 \<notin> set s" "length s + 1 < unat n" "unat n + 40 \<le> 2048"
  shows "tcp_do_write_format_data (repo_env msg addr) cl count command (c_str data) n = Inl Out_Of_Bounds"
proof -
  have t: "takeWhile (\<lambda>b. b \<noteq> 0) data = s"
    unfolding assms(3) using assms(4) by (induction s) auto
  have w: "unat (n + PACKET_HEAD_SIZE) = unat n + 40"
    using assms(6) by (simp add: PACKET_HEAD_SIZE_def unat_word_ariths)
  then have g: "\<not> n + PACKET_HEAD_SIZE > MAX_PACKET_SEND_SIZE"
    using assms(6) by (simp add: MAX_PACKET_SEND_SIZE_def word_less_nat_alt)
  have r: "read_block (c_str s) 0 (unat n) = Inl Out_Of_Bounds"
    using assms(5) by (simp add: read_block_def c_str_def)
  have "format_send_buffer (packet_format cl) command s n 0 = Inl Out_Of_Bounds"
    using g r assms(2) by (simp add: format_send_buffer_def Let_def write_block_def)
  then show ?thesis
    using assms(1) by (simp add: tcp_do_write_format_data_def repo_env_def string_of_cstr_c_str t)
qed

text \<open>A TCP client over a socket, on which every read and write succeeds or fails as it may.\<close>

definition demo_env :: "unit io_env" where
  "demo_env = \<lparr>message = (\<lambda>e. ascii ''error''), valid_address = (\<lambda>_. True),
     recv_format = (\<lambda>pf _ _ _. Inr (pf, [])), send_format = (\<lambda>pf _ _ _ _ n. Inr (pf, [], n))\<rparr>"

definition connected :: "unit io_client" where
  "connected = tcp_connect_handler demo_env
     ((fst (tcp_start demo_env (io_client_new () 0) 1 ''10.0.0.1'' 80))\<lparr>pending_ops := []\<rparr>) 1 0 None"

lemmas tcp_sim = tcp_step_def tcp_done_def tcp_run_task_def tcp_defs tcp_on_write_def tcp_set_write_time_def
  tcp_reconnect_def tcp_connect_handler_def tcp_do_write_immediately_def tcp_start_def drop_nth_def
  may_complete_def async_connect_def start_op_def sock_close_def post_def do_message_def
  io_client_new_def demo_env_def new_array_def read_block_def connected_def

lemma tcp_run_ends:
  "(case r of Some (Inr s) \<Rightarrow> P s | _ \<Rightarrow> False) \<Longrightarrow> \<exists>s. r = Some (Inr s) \<and> P s"
  by (auto split: option.splits sum.splits)

text \<open>A client the user has closed can connect again: the reconnect message posted when its
  connection was lost runs after the close, and \<open>reconnect\<close> does not look at the close flag. The
  client ends connected, with its socket open, reading, and closed by the user.\<close>

lemma closed_client_reconnects:
  "\<exists>cl. tcp_run demo_env 1 0 connected
       [Ev_Done 0 (Some (System_Error 104)) [], Ev_Run, Ev_Run, Ev_Close, Ev_Run, Ev_Done 0 None []] = Some (Inr cl) \<and>
     is_client_close cl \<and> is_connect cl \<and> sock_open cl \<and> pending_ops cl = [(Op_Read, None)]"
  by (rule tcp_run_ends) (simp add: tcp_sim)

text \<open>One broken connection is reported more than once. When a write fails, closing the socket
  aborts the read that is pending, whose handler reports the end again and closes the socket under
  the connection attempt that the first reconnect has started, which is reported as a third
  disconnect.\<close>

lemma one_failure_three_reports:
  "\<exists>cl. tcp_run demo_env 1 0 connected
       ([Ev_Run, Ev_Write [1, 2] 2, Ev_Done 1 (Some (System_Error 32)) [], Ev_Run, Ev_Run,
         Ev_Done 0 (Some Operation_Aborted) [], Ev_Run,
         Ev_Done 0 (Some Operation_Aborted) []]) = Some (Inr cl) \<and>
     \<not> is_connect cl \<and>
     length (filter (\<lambda>p. command_id (snd p) = disconnect_command_id) (dispatched cl)) +
     length (filter (\<lambda>t. \<exists>p. snd t \<in> {Do_Message 1 p, Dispose_Message 1 p} \<and>
                           command_id p = disconnect_command_id) (posted cl)) = 3"
  by (rule tcp_run_ends) (simp add: tcp_sim connect_packet_def disconnect_packet_def crecv_packet_init_def
      connect_command_id_def disconnect_command_id_def)

text \<open>A TTY client as constructed.\<close>

abbreviation new_tty :: "unit tty_client" where
  "new_tty \<equiv> io_client.extend (io_client_new () 0)
     (tty_client.fields \<lparr>c_iflag = 0, c_cflag = 0, c_speed = 0\<rparr>)"

text \<open>C23: A TTY client never connects. Whatever the device, name and rate: \<open>start\<close> and
  \<open>reconnect\<close> leave it unconnected; where the device opens, the character size of 1 that
  \<open>add_serial_port\<close> sets by default makes asio throw, and where it does not, \<open>start\<close> returns false.\<close>

theorem tty_never_connects:
  assumes "\<not> is_connect cl"
  shows "\<not> is_connect (fst (tty_start env open_device cl count now cid tty_name tty_port)) \<and>
     snd (tty_start env open_device cl count now cid tty_name tty_port) =
       (case open_device tty_name of
          Inl e \<Rightarrow> Inr False
        | Inr ios \<Rightarrow> Inl (Exception ''std::out_of_range'' ''invalid character_size value'')) \<and>
     \<not> is_connect (fst (tty_reconnect env open_device cl count now))"
  using assms
  by (auto simp: tty_start_def tty_reconnect_def tty_add_serial_port_def tty_char_size_def
      character_size_def Let_def split: sum.split)

theorem tty_never_connects_witness:
  "\<not> is_connect (fst (tty_start demo_env (\<lambda>_. Inr \<lparr>c_iflag = 4, c_cflag = 0xCB0, c_speed = 38400\<rparr>)
      new_tty 1 0 1 ''/dev/ttyS0'' 9600))"
  using tty_never_connects [of new_tty demo_env "\<lambda>_. Inr \<lparr>c_iflag = 4, c_cflag = 0xCB0, c_speed = 38400\<rparr>"
      1 0 1 "''/dev/ttyS0''" 9600]
  by (simp add: io_client_new_def io_client.defs tty_client.defs)

text \<open>A TTY client that could not open its device when it was started has not kept the device's
  name: \<open>reconnect\<close>, and the timeout check that calls it, open the device with the empty name.\<close>

lemma tty_forgets_device:
  assumes "server_ip cl = []" "\<not> is_connect cl" "open_device tty_name = Inl e"
    and "cl1 = fst (tty_start env open_device cl count now cid tty_name tty_port)"
  shows "server_ip cl1 = [] \<and>
     tty_do_check_timeout env open_device cl1 count now' seconds =
     tty_reconnect env (\<lambda>_. open_device []) cl1 count now'"
  using assms
  by (simp add: tty_start_def tty_add_serial_port_def tty_do_check_timeout_def tty_reconnect_def
      post_def sock_close_def)

lemma tty_forgets_device_witness:
  "tty_do_check_timeout demo_env (\<lambda>_. Inl Bad_Descriptor)
      (fst (tty_start demo_env (\<lambda>_. Inl Bad_Descriptor) new_tty 1 0 1 ''/dev/ttyS0'' 9600)) 1 7 30 =
    tty_reconnect demo_env (\<lambda>_. (\<lambda>_. Inl Bad_Descriptor) [])
      (fst (tty_start demo_env (\<lambda>_. Inl Bad_Descriptor) new_tty 1 0 1 ''/dev/ttyS0'' 9600)) 1 7"
proof -
  have c: "server_ip new_tty = []" "\<not> is_connect new_tty"
    by (simp_all add: io_client_new_def io_client.defs tty_client.defs)
  show ?thesis
    using tty_forgets_device [OF c, of "\<lambda>_. Inl Bad_Descriptor" "''/dev/ttyS0''" Bad_Descriptor _ demo_env 1 0 1
        9600 7 30] by simp
qed

text \<open>\<open>get_time_pass_seconds\<close> takes the time of the last read twice and that of the last write
  never: for all three clients, a completed write does not change it.\<close>

lemma writes_do_not_count:
  "tcp_get_time_pass_seconds (tcp_on_write env cl count now None n) now1 now2 =
     tcp_get_time_pass_seconds cl now1 now2 \<and>
   udp_get_time_pass_seconds (udp_on_write env cl count now None n) now1 now2 =
     udp_get_time_pass_seconds cl now1 now2 \<and>
   tty_get_time_pass_seconds (tty_on_write env tcl count now None n) now1 now2 =
     tty_get_time_pass_seconds tcl now1 now2"
  by (simp add: tcp_get_time_pass_seconds_def tcp_on_write_def tcp_set_write_time_def
      udp_get_time_pass_seconds_def udp_on_write_def udp_set_write_time_def
      tty_get_time_pass_seconds_def tty_on_write_def tty_set_write_time_def)

end
