(* ===== verification/Manager_Props.thy ===== *)
theory Manager_Props
  imports Framework IO_Props
begin

text \<open>
  The properties of the client manager and of the module's interface: the ids of clients, and the
  runs in which closing hangs, a freed client is called, the test program reads out of bounds, or
  one timer is closed in place of another.
\<close>

section \<open>The calls of the module's users\<close>

datatype 'pf call =
    Start_TCP string uint16 'pf
  | Start_UDP string uint16 'pf
  | Start_TTY string uint16 'pf termios
  | Send_Data int "byte list" uint32
  | Send_Format int uint16 "byte list" uint32
  | Close_Client int
  | Reconnect_Server int

definition mgr_call :: "'pf io_env \<Rightarrow> open_device \<Rightarrow> int \<Rightarrow> 'pf manager \<Rightarrow> 'pf call \<Rightarrow> 'pf manager result" where
  "mgr_call env os now m c =
     (case c of
        Start_TCP ip port pf \<Rightarrow> Inr (fst (start_client_tcp m env now ip port pf))
      | Start_UDP ip port pf \<Rightarrow> Inr (fst (start_client_udp m env now ip port pf))
      | Start_TTY name port pf attributes \<Rightarrow>
          Inr (fst (start_client m env os now name port pf attributes IO_TYPE_TTY))
      | Send_Data i b n \<Rightarrow> bindR (client_send_data m i b n) (\<lambda>r. Inr (fst r))
      | Send_Format i command b n \<Rightarrow>
          bindR (client_send_format_data m env i command b n) (\<lambda>r. Inr (fst r))
      | Close_Client i \<Rightarrow> Inr (fst (close_client m i))
      | Reconnect_Server i \<Rightarrow> Inr (fst (reconnect_server m env os now i)))"

fun mgr_calls ::
  "'pf io_env \<Rightarrow> open_device \<Rightarrow> int \<Rightarrow> 'pf manager \<Rightarrow> 'pf call list \<Rightarrow> 'pf manager result" where
  "mgr_calls env os now m [] = Inr m"
| "mgr_calls env os now m (c # cs) = bindR (mgr_call env os now m c) (\<lambda>m'. mgr_calls env os now m' cs)"

section \<open>Ids\<close>

text \<open>
  Every id the manager has handed out is positive and below the next one, stands for the object
  with that number, and the object knows it as its connection id.
\<close>

definition mgr_inv :: "'pf manager \<Rightarrow> bool" where
  "mgr_inv m \<longleftrightarrow> map_sorted (objects m) \<and> map_sorted (asio_client_list m) \<and> 1 \<le> curr_client_id m \<and>
     (\<forall>i c. map_find (objects m) i = Some c \<longrightarrow> 1 \<le> i \<and> i < curr_client_id m \<and> client_connect_id c = i) \<and>
     (\<forall>i p. map_find (asio_client_list m) i = Some p \<longrightarrow> p = i \<and> map_find (objects m) i \<noteq> None)"

lemma mgr_invD:
  assumes "mgr_inv m"
  shows mi_objects: "map_sorted (objects m)" and mi_list: "map_sorted (asio_client_list m)"
    and mi_pos: "1 \<le> curr_client_id m"
    and mi_object: "map_find (objects m) i = Some c \<Longrightarrow> 1 \<le> i \<and> i < curr_client_id m \<and> client_connect_id c = i"
    and mi_entry: "map_find (asio_client_list m) i = Some p \<Longrightarrow> p = i \<and> map_find (objects m) i \<noteq> None"
  using assms unfolding mgr_inv_def by blast+

lemma client_sent_id [simp]: "client_connect_id (client_sent c) = client_connect_id c"
  by (cases c) simp_all

lemma flush_simps [simp]:
  "asio_client_list (flush m i c) = asio_client_list m"
  "curr_client_id (flush m i c) = curr_client_id m"
  "objects (flush m i c) = map_assign i (client_sent c) (objects m)"
  "io_at (flush m i c) = io_at m" "io_stopped (flush m i c) = io_stopped m"
  "thread_is_run (flush m i c) = thread_is_run m"
  by (simp_all add: flush_def)

lemma mgr_inv_new: "mgr_inv (CClient_Manager_new now)"
  by (simp add: mgr_inv_def CClient_Manager_new_def map_sorted_def)

lemma mgr_inv_flush:
  assumes inv: "mgr_inv m" and i: "1 \<le> i" "i < curr_client_id m" and c: "client_connect_id c = i"
  shows "mgr_inv (flush m i c)"
proof -
  have o: "map_find (objects (flush m i c)) = (map_find (objects m))(i \<mapsto> client_sent c)"
    unfolding flush_simps by (rule sm.find_assign [OF mi_objects [OF inv]])
  have "map_sorted (objects (flush m i c))"
    using sm.wf_assign [OF mi_objects [OF inv]] by simp
  moreover have "1 \<le> j \<and> j < curr_client_id m \<and> client_connect_id d = j"
    if "map_find (objects (flush m i c)) j = Some d" for j d
    using that mi_object [OF inv, of j d] i c unfolding o by (cases "j = i") auto
  moreover have "p = j \<and> map_find (objects (flush m i c)) j \<noteq> None"
    if "map_find (asio_client_list m) j = Some p" for j p
    using mi_entry [OF inv that] unfolding o by (cases "j = i") auto
  ultimately show ?thesis
    using mi_list [OF inv] mi_pos [OF inv] unfolding mgr_inv_def by simp
qed

text \<open>A new entry and its object, at the next id.\<close>

lemma mgr_inv_started:
  assumes inv: "mgr_inv m" and n: "new_client m c0 = Inr (m1, i)" and c: "client_connect_id c = i"
  shows "mgr_inv (flush m1 i c) \<and> i = curr_client_id m \<and> curr_client_id (flush m1 i c) = i + 1 \<and>
     find_client (flush m1 i c) i = Some (i, client_sent c) \<and>
     (\<forall>j. j \<noteq> i \<longrightarrow> find_client (flush m1 i c) j = find_client m j)"
proof -
  have m1: "m1 = m\<lparr>curr_client_id := curr_client_id m + 1, objects := map_assign i c0 (objects m),
      asio_client_list := map_assign i i (asio_client_list m)\<rparr>" and i: "i = curr_client_id m"
    using n by (auto simp: new_client_def Let_def bindR_Inr_iff int_incr_def split: if_splits)
  let ?m = "flush m1 i c"
  have o: "map_find (objects ?m) = (map_find (objects m))(i \<mapsto> client_sent c)"
    using mi_objects [OF inv] sm.wf_assign [OF mi_objects [OF inv], of i c0]
    by (simp add: m1 sm.find_assign fun_eq_iff)
  have l: "map_find (asio_client_list ?m) = (map_find (asio_client_list m))(i \<mapsto> i)"
    unfolding m1 by (simp add: sm.find_assign [OF mi_list [OF inv]] fun_eq_iff)
  have so: "map_sorted (objects ?m)" "map_sorted (asio_client_list ?m)"
    using sm.wf_assign [OF sm.wf_assign [OF mi_objects [OF inv]]] sm.wf_assign [OF mi_list [OF inv]]
    by (simp_all add: m1)
  have a: "1 \<le> j \<and> j < curr_client_id ?m \<and> client_connect_id d = j"
    if "map_find (objects ?m) j = Some d" for j d
    using that mi_object [OF inv, of j d] mi_pos [OF inv] c unfolding o
    by (cases "j = i") (auto simp: m1 i)
  have b: "p = j \<and> map_find (objects ?m) j \<noteq> None" if "map_find (asio_client_list ?m) j = Some p" for j p
    using that mi_entry [OF inv, of j p] unfolding o l by (cases "j = i") auto
  have "mgr_inv ?m"
    unfolding mgr_inv_def using so a b mi_pos [OF inv] by (simp add: m1)
  moreover have "find_client ?m j = find_client m j" if "j \<noteq> i" for j
    using that mi_entry [OF inv, of j] unfolding find_client_def o l
    by (cases "map_find (asio_client_list m) j") auto
  moreover have "find_client ?m i = Some (i, client_sent c)"
    unfolding find_client_def o l by simp
  moreover have "curr_client_id ?m = i + 1" by (simp add: m1 i)
  ultimately show ?thesis using i by blast
qed

text \<open>What every call on a client leaves: its id.\<close>

lemma write_id: "client_write c d n = Inr c' \<Longrightarrow> client_connect_id c' = client_connect_id c"
  by (cases c; auto simp: bindR_Inr_iff tcp_do_write_immediately_def udp_do_write_immediately_def
      tty_do_write_immediately_def split: if_splits)

lemma format_id: "client_write_format env c n k d l = Inr c' \<Longrightarrow> client_connect_id c' = client_connect_id c"
  by (cases c; auto simp: bindR_Inr_iff tcp_do_write_format_data_def udp_do_write_format_data_def
      tty_do_write_format_data_def tcp_do_write_immediately_def udp_do_write_immediately_def
      tty_do_write_immediately_def split: if_splits)

lemma close_id: "client_connect_id (client_close c) = client_connect_id c"
  by (cases c) (simp_all add: tcp_defs udp_defs tty_defs)

lemma add_port_id:
  "tty_add_serial_port env os cl n name port cs = (c, r) \<Longrightarrow> connect_id c = connect_id cl"
  by (auto simp: tty_add_serial_port_def Let_def split: sum.splits)

lemma begin_read_id: "tty_begin_read env cl n = (c, b) \<Longrightarrow> connect_id c = connect_id cl"
  by (auto simp: tty_begin_read_def tty_do_read_def split: prod.splits option.splits)

lemma tty_reconnect_id: "tty_reconnect env os cl n now = (c, r) \<Longrightarrow> connect_id c = connect_id cl"
  by (cases "tty_begin_read env (fst (tty_add_serial_port env os cl n (server_ip cl) (server_port cl)
         tty_char_size) \<lparr>recv_last_timer := now\<rparr>) n")
    (auto simp: tty_reconnect_def split: prod.splits sum.splits bool.splits dest!: add_port_id begin_read_id)

lemma reconnect_id: "client_reconnect env os c n now = (c', r) \<Longrightarrow> client_connect_id c' = client_connect_id c"
  by (cases c) (auto simp: tcp_reconnect_def udp_reconnect_def split: sum.splits prod.splits if_splits
      dest: tty_reconnect_id)

lemma start_id:
  "tcp_start env cl i ip port = (c, r) \<Longrightarrow> connect_id c = i"
  "udp_start env cl i ip port = (c, r) \<Longrightarrow> connect_id c = i"
  "tty_start env os tcl n now i name tport = (d, r) \<Longrightarrow> connect_id d = i"
  by (auto simp: tcp_start_def udp_start_def tty_start_def Let_def
      split: prod.splits sum.splits bool.splits if_splits dest!: add_port_id begin_read_id)

section \<open>Every call keeps the ids\<close>

text \<open>The ids stay good, and one that was given up does not come back.\<close>

definition ids_kept :: "'pf manager \<Rightarrow> 'pf manager \<Rightarrow> bool" where
  "ids_kept m m' \<longleftrightarrow> mgr_inv m' \<and> curr_client_id m \<le> curr_client_id m' \<and>
     (\<forall>i < curr_client_id m. find_client m i = None \<longrightarrow> find_client m' i = None)"

lemma ids_kept_refl: "mgr_inv m \<Longrightarrow> ids_kept m m"
  by (simp add: ids_kept_def)

lemma ids_kept_trans: "ids_kept m m1 \<Longrightarrow> ids_kept m1 m2 \<Longrightarrow> ids_kept m m2"
  by (force simp: ids_kept_def)

lemma find_client_id:
  "mgr_inv m \<Longrightarrow> find_client m i = Some (p, c) \<Longrightarrow> p = i \<and> 1 \<le> i \<and> i < curr_client_id m \<and> client_connect_id c = i"
  by (auto simp: find_client_def split: option.splits dest: mi_entry mi_object)

lemma find_client_flush:
  assumes "mgr_inv m" "find_client m i = None"
  shows "find_client (flush m p c) i = None"
  using assms mi_entry [OF assms(1), of i]
  by (auto simp: find_client_def split: option.splits)

lemma ids_kept_flush:
  assumes "mgr_inv m" "find_client m i = Some (p, c)" "client_connect_id c' = client_connect_id c"
  shows "ids_kept m (flush m p c')"
  using mgr_inv_flush [OF assms(1), of p c'] find_client_id [OF assms(1,2)] assms(3)
    find_client_flush [OF assms(1)] by (simp add: ids_kept_def)

lemma ids_kept_started:
  assumes "mgr_inv m" "new_client m c0 = Inr (m1, i)" "client_connect_id c = i"
  shows "ids_kept m (flush m1 i c)"
  using mgr_inv_started [OF assms] by (auto simp: ids_kept_def)

lemma ids_kept_starts:
  assumes "mgr_inv m" "new_client m c0 = Inr (m1, i)"
  shows "tcp_start env cl i ip port = (c, r) \<Longrightarrow> ids_kept m (flush m1 i (TCP c))"
    and "udp_start env cl i ip port = (c, r) \<Longrightarrow> ids_kept m (flush m1 i (UDP c))"
    and "tty_start env os tcl n now i name tport = (d, r) \<Longrightarrow> ids_kept m (flush m1 i (TTY d))"
  by (auto intro!: ids_kept_started [OF assms] dest: start_id)

lemma ids_kept_erase:
  assumes inv: "mgr_inv m"
  shows "ids_kept m (m\<lparr>asio_client_list := map_erase i (asio_client_list m)\<rparr>)"
proof -
  have e: "map_find (map_erase i (asio_client_list m)) = (map_find (asio_client_list m))(i := None)"
    by (rule sm.find_erase)
  show ?thesis
    using inv sm.wf_erase [OF mi_list [OF inv], of i]
    by (auto simp: ids_kept_def mgr_inv_def find_client_def e split: option.splits)
qed

lemmas call_defs = mgr_call_def start_client_def start_client_tcp_def start_client_udp_def
  start_client_tty_def client_send_data_def client_send_format_data_def close_client_def
  reconnect_server_def

lemma mgr_call_keeps:
  assumes inv: "mgr_inv m" and c: "mgr_call env os now m c = Inr m'"
  shows "ids_kept m m'"
proof -
  have close: "ids_kept m ((flush m p (client_close d))\<lparr>asio_client_list := map_erase i (asio_client_list m)\<rparr>)"
    if "find_client m i = Some (p, d)" for i p d
  proof -
    have "ids_kept m (flush m p (client_close d))"
      by (rule ids_kept_flush [OF inv that close_id])
    moreover from this have "ids_kept (flush m p (client_close d)) ((flush m p (client_close d))
        \<lparr>asio_client_list := map_erase i (asio_client_list (flush m p (client_close d)))\<rparr>)"
      by (intro ids_kept_erase) (simp add: ids_kept_def)
    ultimately show ?thesis using ids_kept_trans by fastforce
  qed
  show ?thesis
    using c ids_kept_refl [OF inv] close
    by (cases c) (auto simp: call_defs bindR_Inr_iff split: prod.splits sum.splits option.splits unit.splits
        intro: ids_kept_starts [OF inv] ids_kept_flush [OF inv]
        dest: write_id format_id reconnect_id)
qed

lemma mgr_calls_keep: "mgr_inv m \<Longrightarrow> mgr_calls env os now m cs = Inr m' \<Longrightarrow> ids_kept m m'"
proof (induction cs arbitrary: m)
  case (Cons c cs)
  then obtain m1 where m1: "mgr_call env os now m c = Inr m1" "mgr_calls env os now m1 cs = Inr m'"
    by (auto simp: bindR_Inr_iff)
  note k = mgr_call_keeps [OF Cons.prems(1) m1(1)]
  then have "mgr_inv m1" by (simp add: ids_kept_def)
  then show ?case using ids_kept_trans [OF k] Cons.IH m1(2) by blast
qed (simp add: ids_kept_refl)

section \<open>Properties of ids\<close>



section \<open>A client freed while it connects\<close>

lemma not_value: "map_sorted l \<Longrightarrow> (\<And>j p. map_find l j = Some p \<Longrightarrow> p \<noteq> v) \<Longrightarrow> v \<notin> set (map snd l)"
  using sm.entry_iff [of l] by force

text \<open>Whether a task holds the client with an id.\<close>

definition task_holds :: "int \<Rightarrow> mgr_task \<Rightarrow> bool" where
  "task_holds i task \<longleftrightarrow> (case task of Client_Task j ct \<Rightarrow> j = i \<and> holds_self ct | _ \<Rightarrow> False)"

text \<open>A TCP client that is closed while it connects is freed before its handler runs. The
  manager's entry was all that kept it alive, \<open>connect_handler\<close> is bound to its address, and the
  abort of the connection attempt, which the close itself causes, calls it on freed memory.\<close>

lemma close_while_connecting_uses_freed:
  assumes "mgr_inv m" "valid_address env ip" "curr_client_id m < 2147483647"
    and "\<not> list_ex (task_holds (curr_client_id m)) (task_pending (tms m))"
  shows "\<exists>m1 m2 i. start_client_tcp m env now ip port pf = (m1, Inr i) \<and> close_client m1 i = (m2, True) \<and>
     mgr_io_done m2 env now' i 0 (Some Operation_Aborted) [] = Some (Inl Use_After_Free)"
proof -
  let ?i = "curr_client_id m"
  let ?cl = "async_connect (io_client_new pf now\<lparr>connect_id := ?i, server_ip := ip, server_port := port\<rparr>)"
  let ?m0 = "m\<lparr>curr_client_id := ?i + 1, objects := map_assign ?i (TCP (io_client_new pf now)) (objects m),
      asio_client_list := map_assign ?i ?i (asio_client_list m)\<rparr>"
  let ?m1 = "flush ?m0 ?i (TCP ?cl)"
  have n: "new_client m (TCP (io_client_new pf now)) = Inr (?m0, ?i)"
    using assms(3) by (simp add: new_client_def int_incr_def Let_def)
  have st: "start_client_tcp m env now ip port pf = (?m1, Inr ?i)"
    using n assms(2) by (simp add: start_client_tcp_def tcp_start_def Let_def)
  have k: "find_client ?m1 ?i = Some (?i, client_sent (TCP ?cl))"
    using mgr_inv_started [OF assms(1) n, of "TCP ?cl"] by simp
  let ?c = "client_close (client_sent (TCP ?cl))"
  let ?m2 = "(flush ?m1 ?i ?c)\<lparr>asio_client_list := map_erase ?i (asio_client_list ?m1)\<rparr>"
  have cl: "close_client ?m1 ?i = (?m2, True)" using k by (simp add: close_client_def)
  have inv1: "mgr_inv ?m1" using mgr_inv_started [OF assms(1) n, of "TCP ?cl"] by simp
  have "objects ?m2 = map_assign ?i (client_sent ?c) (objects ?m1)" by (simp add: flush_def)
  then have o: "map_find (objects ?m2) ?i = Some (client_sent ?c)"
    by (simp only: sm.find_assign [OF mi_objects [OF inv1]] fun_upd_same)
  have "map_find (map_erase ?i (asio_client_list ?m1)) j = Some p \<Longrightarrow> p \<noteq> ?i" for j p
    unfolding sm.find_erase using mi_entry [OF inv1, of j p] by (auto split: if_splits)
  moreover have "map_sorted (map_erase ?i (asio_client_list ?m1))"
    by (rule sm.wf_erase [OF mi_list [OF inv1]])
  ultimately have e: "?i \<notin> set (map snd (asio_client_list ?m2))"
    using not_value [of "map_erase ?i (asio_client_list ?m1)" ?i] by simp
  have t: "tms ?m2 = tms m"
    by (simp add: flush_def async_connect_def start_op_def io_client_new_def tcp_defs sock_close_def)
  have p: "client_pending (client_sent ?c) = [(Op_Connect, Some Operation_Aborted)]"
    by (simp add: async_connect_def start_op_def io_client_new_def tcp_defs sock_close_def)
  have "\<not> client_alive ?m2 ?i"
    using e assms(4) unfolding client_alive_def o t option.case p
    by (auto simp: task_holds_def list_ex_iff)
  then have "mgr_io_done ?m2 env now' ?i 0 (Some Operation_Aborted) [] = Some (Inl Use_After_Free)"
    unfolding mgr_io_done_def o using p by simp
  then show ?thesis using st cl by blast
qed

lemma close_while_connecting_uses_freed_witness:
  "\<exists>m1 m2 i. start_client_tcp (CClient_Manager_new 0) demo_env 0 ''10.0.0.1'' 80 () = (m1, Inr i) \<and>
     close_client m1 i = (m2, True) \<and>
     mgr_io_done m2 demo_env 5 i 0 (Some Operation_Aborted) [] = Some (Inl Use_After_Free)"
proof -
  have "\<not> list_ex (task_holds (curr_client_id (CClient_Manager_new 0))) (task_pending (tms (CClient_Manager_new 0)))"
    by (simp add: CClient_Manager_new_def Init_def task_pending_def)
  then show ?thesis
    using close_while_connecting_uses_freed [OF mgr_inv_new, of demo_env "''10.0.0.1''"]
    by (simp add: demo_env_def CClient_Manager_new_def)
qed

section \<open>Closing the module\<close>

text \<open>
  \<open>close\<close> on one thread while the io thread, its handlers and the tasks of the logic threads run.
\<close>

inductive closing ::
  "'pf io_env \<Rightarrow> open_device \<Rightarrow> 'pf manager \<times> mgr_close \<Rightarrow> 'pf manager \<times> mgr_close \<Rightarrow> bool"
  for env os where
  closing_refl: "closing env os s s"
| closing_close: "closing env os s (m, p) \<Longrightarrow> mgr_close_step m p = Some s' \<Longrightarrow> closing env os s s'"
| closing_io: "closing env os s (m, p) \<Longrightarrow> io_thread_step m = Some m' \<Longrightarrow> closing env os s (m', p)"
| closing_done: "closing env os s (m, p) \<Longrightarrow> mgr_io_done m env now i n ec data = Some (Inr m') \<Longrightarrow>
     closing env os s (m', p)"
| closing_task: "closing env os s (m, p) \<Longrightarrow> mgr_execute m env os now task = Inr m' \<Longrightarrow> closing env os s (m', p)"

text \<open>What leaves the io thread and the flag of its run alone.\<close>

definition io_same :: "'pf manager \<Rightarrow> 'pf manager \<Rightarrow> bool" where
  "io_same m m' \<longleftrightarrow> io_at m' = io_at m \<and> thread_is_run m' = thread_is_run m"

lemma io_same_flush [simp]: "io_same m (flush m i c)"
  by (simp add: io_same_def)

lemma lift_client_io: "lift_client m p wrap r = Some (Inr m') \<Longrightarrow> io_same m m'"
  by (auto simp: lift_client_def split: option.splits sum.splits)

lemma run_timeouts_io: "run_timeouts m env os now ps = Inr m' \<Longrightarrow> io_same m m'"
proof (induction ps arbitrary: m)
  case (Cons x ps)
  obtain p secs where x: "x = (p, secs)" by fastforce
  show ?case
  proof (cases "map_find (objects m) p")
    case None
    then show ?thesis using Cons x by simp
  next
    case (Some c)
    obtain c' r where r: "client_check_timeout env os c (Get_Logic_Count (tms m)) now secs = (c', r)"
      by fastforce
    then have "run_timeouts (flush m p c') env os now ps = Inr m'"
      using Cons.prems x Some by (cases r) (auto split: unit.splits)
    from Cons.IH [OF this] show ?thesis by (simp add: io_same_def)
  qed
qed (simp add: io_same_def)

lemma task_io: "mgr_execute m env os now (Client_Task p ct) = Inr m' \<Longrightarrow> io_same m m'"
proof (cases "map_find (objects m) p")
  case (Some c)
  moreover obtain c' r where "client_reconnect env os c (Get_Logic_Count (tms m)) now = (c', r)" by fastforce
  moreover assume "mgr_execute m env os now (Client_Task p ct) = Inr m'"
  ultimately show ?thesis
    by (cases ct; cases r) (auto simp: mgr_execute_def split: unit.splits)
qed (simp add: mgr_execute_def io_same_def)

lemma execute_io: "mgr_execute m env os now task = Inr m' \<Longrightarrow> io_same m m'"
proof (cases task)
  case (Client_Task p ct)
  then show "mgr_execute m env os now task = Inr m' \<Longrightarrow> ?thesis" using task_io by blast
next
  case Timer_Check_Run
  then show "mgr_execute m env os now task = Inr m' \<Longrightarrow> ?thesis"
    using run_timeouts_io by (simp add: mgr_execute_def timer_check_run_def)
qed (auto simp: mgr_execute_def timer_check_def io_same_def)

lemma io_done_io: "mgr_io_done m env now i n ec data = Some (Inr m') \<Longrightarrow> io_same m m'"
proof (cases "map_find (objects m) i")
  case (Some c)
  assume d: "mgr_io_done m env now i n ec data = Some (Inr m')"
  then show ?thesis
    unfolding mgr_io_done_def Some
    by - (cases c; clarsimp split: if_splits; erule lift_client_io)
qed (simp add: mgr_io_done_def)

lemma io_step_runs: "io_thread_step m = Some m' \<Longrightarrow> io_at m' \<noteq> IO_End \<and> (thread_is_run m \<longrightarrow> thread_is_run m')"
  by (auto simp: io_thread_step_def split: io_pc.splits if_splits)

lemma foldl_io: "(\<And>m x. io_same m (f m x)) \<Longrightarrow> io_same m (foldl f m xs)"
proof (induction xs arbitrary: m)
  case (Cons x xs)
  then have "io_same (f m x) (foldl f (f m x) xs)" "io_same m (f m x)" by blast+
  then show ?case by (simp add: io_same_def)
qed (simp add: io_same_def)

lemma close_all_io: "io_same m (close_all m)"
proof -
  have "io_same m' (case x of (_, p) \<Rightarrow> case map_find (objects m') p of
      None \<Rightarrow> m' | Some c \<Rightarrow> flush m' p (client_close c))" for m' :: "'a manager" and x :: "int \<times> int"
    by (cases x; cases "map_find (objects m') (snd x)") (simp_all add: io_same_def)
  from foldl_io [of "\<lambda>m' (_, p). case map_find (objects m') p of
      None \<Rightarrow> m' | Some c \<Rightarrow> flush m' p (client_close c)", OF this]
  show ?thesis by (simp add: close_all_def io_same_def)
qed

text \<open>C25: \<open>close\<close> never returns once the io thread runs. The io thread calls \<open>io_context_.run()\<close> in a
  loop without an end, so the join in \<open>close\<close>, which holds the manager's mutex, waits forever:
  whatever the io thread, the handlers and the logic threads do, \<open>close\<close> does not get past it.\<close>

theorem close_never_returns:
  assumes "closing env os (m, MC_Begin) (m', p)" "thread_is_run m" "io_at m \<noteq> IO_End"
  shows "p = MC_Begin \<or> p = MC_Join \<and> mgr_close_step m' MC_Join = None"
proof -
  have "(p = MC_Begin \<or> p = MC_Join) \<and> thread_is_run m' \<and> io_at m' \<noteq> IO_End"
    using assms(1)
  proof (induction "(m, MC_Begin)" "(m', p)" arbitrary: m' p rule: closing.induct)
    case (closing_close m1 p1)
    then show ?case
      using close_all_io [of m1] by (auto simp: io_same_def mgr_close_step_def split: if_splits)
  next
    case closing_io
    then show ?case using io_step_runs by blast
  next
    case (closing_done m1)
    then show ?case using io_done_io [OF closing_done(3)] by (simp add: io_same_def)
  next
    case (closing_task m1)
    then show ?case using execute_io [OF closing_task(3)] by (simp add: io_same_def)
  qed (use assms(2,3) in simp)
  then show ?thesis by (auto simp: mgr_close_step_def)
qed

theorem close_never_returns_witness:
  "\<exists>m m'. load_module (CClient_Manager_new 0 :: unit manager) 1 30 = Inr (m, 0) \<and>
     (\<exists>m1. io_thread_step m = Some m1 \<and> closing demo_env (\<lambda>_. Inl Bad_Descriptor) (m1, MC_Begin) (m', MC_Join)) \<and>
     mgr_close_step m' MC_Join = None"
proof -
  let ?os = "\<lambda>_ :: string. Inl Bad_Descriptor :: asio_error + termios"
  have "\<exists>m. load_module (CClient_Manager_new 0 :: unit manager) 1 30 = Inr (m, 0) \<and> io_at m = IO_Begin"
    by (simp add: load_module_def run_def CClient_Manager_new_def Init_def CreateLogic_def int_incr_def
        Let_def AddMessage_loop_def take_index_def add_loop_def split: prod.split)
  then obtain m where m: "load_module (CClient_Manager_new 0 :: unit manager) 1 30 = Inr (m, 0)" "io_at m = IO_Begin"
    by blast
  define m1 where "m1 = m\<lparr>io_at := IO_Loop, thread_is_run := True\<rparr>"
  have io: "io_thread_step m = Some m1" using m(2) by (simp add: io_thread_step_def m1_def)
  have r: "thread_is_run m1" "io_at m1 \<noteq> IO_End" by (simp_all add: m1_def)
  have c: "closing demo_env ?os (m1, MC_Begin) ((close_all m1)\<lparr>io_stopped := True\<rparr>, MC_Join)"
    by (rule closing_close [OF closing_refl]) (simp add: mgr_close_step_def r)
  show ?thesis using m(1) io c close_never_returns [OF c r] by blast
qed

section \<open>The index of an immediate timer\<close>

text \<open>\<open>add_timer\<close> with an interval of 0 returns the success of the message as if it were the
  index of a timer: 0 or 1, with no timer added. Closing that index closes whichever timer was
  given it; index 0 is the manager's own timeout check.\<close>

lemma immediate_timer_closes_other:
  assumes "add_timer m w 0 func = Inr (m', i)"
    and "map_find (m_mapTimeridList (tms m)) i = Some timer"
    and "\<not> expired (m_timerManager (tms m)) timer"
  shows "i \<in> {0, 1} \<and> m_nTimerIndex (tms m') = m_nTimerIndex (tms m) \<and>
     m_timerManager (tms m') = m_timerManager (tms m) \<and>
     (\<exists>m''. close_timer_id m' i = (m'', True) \<and>
        m_timerManager (tms m'') = cancel_timer (m_timerManager (tms m)) timer)"
  using assms by (auto simp: add_timer_def AddMessage_def close_timer_id_def Close_Timer_def
      split: option.splits if_splits)

lemma immediate_timer_closes_other_witness:
  "\<exists>m m'. load_module (CClient_Manager_new 0 :: unit manager) 1 30 = Inr (m, 0) \<and>
     add_timer m 7 0 (User_Task 5) = Inr (m', 0) \<and>
     (\<exists>m''. close_timer_id m' 0 = (m'', True) \<and>
        m_timerManager (tms m'') = cancel_timer (m_timerManager (tms m)) 0)"
proof -
  have "\<exists>m. load_module (CClient_Manager_new 0 :: unit manager) 1 30 = Inr (m, 0) \<and>
     add_timer m 7 0 (User_Task 5) = Inr (m, 0) \<and>
     map_find (m_mapTimeridList (tms m)) 0 = Some 0 \<and> \<not> expired (m_timerManager (tms m)) 0"
    by (simp add: load_module_def run_def CClient_Manager_new_def Init_def CreateLogic_def int_incr_def
        Let_def AddMessage_loop_def take_index_def add_loop_def record_index_def add_timer_def
        AddMessage_def expired_def addTimer_loop_def addTimer_ptr_def add_push_def set_add_def notify_one_def TimerMgr_init_def split: prod.split)
  then obtain m where m: "load_module (CClient_Manager_new 0 :: unit manager) 1 30 = Inr (m, 0)"
    and a: "add_timer m 7 0 (User_Task 5) = Inr (m, 0)"
    and t: "map_find (m_mapTimeridList (tms m)) 0 = Some 0" "\<not> expired (m_timerManager (tms m)) 0"
    by blast
  show ?thesis using immediate_timer_closes_other [OF a t] m a by blast
qed

section \<open>The test program\<close>

text \<open>The test program reads out of bounds at its first message: with the repository's packet
  format and a connected TCP client, \<open>do_message\<close> on the connection or on a timeout sends 200 bytes
  of an empty string.\<close>

lemma test_program_out_of_bounds:
  assumes "find_client m cid = Some (p, TCP cl)" "is_connect cl"
    and "length (send_buffer (packet_format cl)) = 2048"
    and "command_id packet \<in> {connect_command_id, time_check_command_id}"
  shows "test_do_message m (repo_env msg addr) cid packet = Inl Out_Of_Bounds"
proof -
  have d: "replicate 200 (0 :: byte) = [] @ 0 # replicate 199 0" by (simp add: replicate_numeral)
  have u: "unat (int_to_size_t 200) = 200" by (simp add: int_to_size_t_def)
  have "tcp_do_write_format_data (repo_env msg addr) cl (Get_Logic_Count (tms m)) 0x2101
      (c_str (replicate 200 0)) (int_to_size_t 200) = Inl Out_Of_Bounds"
    by (rule send_with_nul_reads_past [OF assms(2,3) d]) (simp_all add: u)
  then show ?thesis
    using assms(1,4) by (auto simp: test_do_message_def client_send_format_data_def)
qed

lemma test_program_out_of_bounds_witness:
  "test_do_message
     ((CClient_Manager_new 0)\<lparr>asio_client_list := [(1, 1)],
        objects := [(1, TCP ((io_client_new (cpacket_format_init (replicate 16384 0)) 0)
                        \<lparr>connect_id := 1, is_connect := True\<rparr>))]\<rparr>)
     (repo_env (\<lambda>_. []) (\<lambda>_. True)) 1 connect_packet = Inl Out_Of_Bounds"
  by (rule test_program_out_of_bounds [where p = 1 and cl =
        "(io_client_new (cpacket_format_init (replicate 16384 0)) 0)\<lparr>connect_id := 1, is_connect := True\<rparr>"])
    (simp_all add: find_client_def io_client_new_def cpacket_format_init_def MAX_PACKET_SEND_SIZE_def
       connect_packet_def)

end
