(* ===== verification/Asio_Scheduler.thy ===== *)
theory Asio_Scheduler
  imports Prelude
begin

text \<open>
  The scheduler of the bundled asio, detail/scheduler.hpp and detail/impl/scheduler.ipp, with the
  event of detail/posix\_event.hpp: what \<open>io_context::run\<close> and the other calls of an \<open>io_context\<close> do,
  for any number of threads. A step is what a thread does while it holds the mutex, or a single
  access to the atomic count of work; threads outside the scheduler and handlers call its
  functions at any time. The reactor, which is the scheduler's task, is outside: it returns when it
  likes, with the operations it has completed. Calls of \<open>run\<close> from inside a handler, concurrency
  hints without locking and exceptions of handlers that are kept for later are not modelled.
\<close>

section \<open>State\<close>

text \<open>An entry of the queue of operations: the marker of the task, or a handler.\<close>

datatype operation = Task_Op | Op nat

datatype mode = M_Run | M_Run_One | M_Wait_One int | M_Poll | M_Poll_One

text \<open>
  Where a thread is: not in the scheduler, with the result of its last call; about to lock; waiting
  for the event; in the task, blocking for the given time (negative: without a limit); behind
  the task, about to lock; in a handler; behind a handler. The number counts the handlers run. The
  flag of the cleanups is down when the task or the handler has thrown.
\<close>

datatype sched_pc =
    Outside
  | Returned size_t
  | Thrown
  | Lock mode size_t
  | Event_Wait mode size_t
  | In_Task mode size_t int
  | Task_Cleanup mode size_t bool
  | In_Handler mode size_t nat
  | Work_Cleanup mode size_t bool

text \<open>
  \<open>scheduler_thread_info\<close>, with the thread's place and whether it is between the decrement of the
  count to zero and the call of \<open>stop\<close> that follows.
\<close>

record sched_thread =
  tpc :: sched_pc
  private_op_queue :: "nat list"
  private_outstanding_work :: int
  must_stop :: bool

text \<open>
  \<open>completed\<close> and \<open>destroyed\<close> record the operations that were run and that were destroyed;
  \<open>reactor_interrupted\<close> stands for the reactor's interrupter.
\<close>

record scheduler =
  one_thread :: bool
  ev_state :: int
  task :: bool
  task_interrupted :: bool
  outstanding_work :: int
  op_queue :: "operation list"
  stopped :: bool
  shutdown :: bool
  reactor_interrupted :: bool
  threads :: "sched_thread list"
  completed :: "nat list"
  destroyed :: "nat list"

definition thread_new :: sched_thread where
  "thread_new = \<lparr>tpc = Outside, private_op_queue = [], private_outstanding_work = 0, must_stop = False\<rparr>"

text \<open>The constructor, with \<open>n\<close> threads that may call; an own thread counts as work.\<close>

definition scheduler_new :: "int \<Rightarrow> bool \<Rightarrow> nat \<Rightarrow> scheduler" where
  "scheduler_new concurrency_hint own_thread n =
     \<lparr>one_thread = (concurrency_hint = 1), ev_state = 0, task = False, task_interrupted = True,
      outstanding_work = (if own_thread then 1 else 0), op_queue = [], stopped = False, shutdown = False,
      reactor_interrupted = False, threads = replicate n thread_new, completed = [], destroyed = []\<rparr>"

section \<open>The event\<close>

definition ev_signal_all :: "scheduler \<Rightarrow> scheduler" where
  "ev_signal_all s = s\<lparr>ev_state := ev_state s OR 1\<rparr>"

definition unlock_and_signal_one :: "scheduler \<Rightarrow> scheduler" where
  "unlock_and_signal_one s = s\<lparr>ev_state := ev_state s OR 1\<rparr>"

definition maybe_unlock_and_signal_one :: "scheduler \<Rightarrow> scheduler \<times> bool" where
  "maybe_unlock_and_signal_one s =
     (let s1 = s\<lparr>ev_state := ev_state s OR 1\<rparr> in (s1, ev_state s1 > 1))"

definition ev_clear :: "scheduler \<Rightarrow> scheduler" where
  "ev_clear s = s\<lparr>ev_state := ev_state s AND NOT 1\<rparr>"

text \<open>Registering as a waiter, and taking that back when the wait on the condition returns.\<close>

definition ev_begin_wait :: "scheduler \<Rightarrow> scheduler" where
  "ev_begin_wait s = s\<lparr>ev_state := ev_state s + 2\<rparr>"

definition ev_end_wait :: "scheduler \<Rightarrow> scheduler" where
  "ev_end_wait s = s\<lparr>ev_state := ev_state s - 2\<rparr>"

definition ev_signalled :: "scheduler \<Rightarrow> bool" where
  "ev_signalled s \<longleftrightarrow> ev_state s AND 1 \<noteq> 0"

section \<open>Waking and stopping\<close>

definition interrupt_task :: "scheduler \<Rightarrow> scheduler" where
  "interrupt_task s =
     (if \<not> task_interrupted s \<and> task s then s\<lparr>task_interrupted := True, reactor_interrupted := True\<rparr> else s)"

definition wake_one_thread_and_unlock :: "scheduler \<Rightarrow> scheduler" where
  "wake_one_thread_and_unlock s =
     (case maybe_unlock_and_signal_one s of
        (s1, woken) \<Rightarrow> if woken then s1 else interrupt_task s1)"

definition stop_all_threads :: "scheduler \<Rightarrow> scheduler" where
  "stop_all_threads s = interrupt_task (ev_signal_all (s\<lparr>stopped := True\<rparr>))"

definition sched_stop :: "scheduler \<Rightarrow> scheduler" where
  "sched_stop s = stop_all_threads s"

definition sched_stopped :: "scheduler \<Rightarrow> bool" where
  "sched_stopped s = stopped s"

definition sched_restart :: "scheduler \<Rightarrow> scheduler" where
  "sched_restart s = s\<lparr>stopped := False\<rparr>"

definition init_task :: "scheduler \<Rightarrow> scheduler" where
  "init_task s =
     (if \<not> shutdown s \<and> \<not> task s
      then wake_one_thread_and_unlock (s\<lparr>task := True, op_queue := op_queue s @ [Task_Op]\<rparr>) else s)"

text \<open>\<open>shutdown\<close> before and after the own thread, if there is one, is joined.\<close>

definition shutdown_begin :: "scheduler \<Rightarrow> bool \<Rightarrow> scheduler" where
  "shutdown_begin s own_thread =
     (let s1 = s\<lparr>shutdown := True\<rparr> in if own_thread then stop_all_threads s1 else s1)"

fun handlers_of :: "operation list \<Rightarrow> nat list" where
  "handlers_of [] = []"
| "handlers_of (Task_Op # q) = handlers_of q"
| "handlers_of (Op n # q) = n # handlers_of q"

definition shutdown_end :: "scheduler \<Rightarrow> scheduler" where
  "shutdown_end s =
     s\<lparr>task := False, op_queue := [], destroyed := destroyed s @ handlers_of (op_queue s)\<rparr>"

section \<open>Threads\<close>

definition upd_thread :: "scheduler \<Rightarrow> nat \<Rightarrow> (sched_thread \<Rightarrow> sched_thread) \<Rightarrow> scheduler" where
  "upd_thread s i f = s\<lparr>threads := (threads s)[i := f (threads s ! i)]\<rparr>"

definition set_pc :: "scheduler \<Rightarrow> nat \<Rightarrow> sched_pc \<Rightarrow> scheduler" where
  "set_pc s i p = upd_thread s i (\<lambda>t. t\<lparr>tpc := p\<rparr>)"

definition pc_of :: "scheduler \<Rightarrow> nat \<Rightarrow> sched_pc" where
  "pc_of s i = tpc (threads s ! i)"

fun in_sched :: "sched_pc \<Rightarrow> bool" where
  "in_sched Outside = False"
| "in_sched (Returned _) = False"
| "in_sched Thrown = False"
| "in_sched _ = True"

text \<open>\<open>thread_call_stack::contains\<close>.\<close>

definition contains :: "scheduler \<Rightarrow> nat \<Rightarrow> bool" where
  "contains s i \<longleftrightarrow> in_sched (pc_of s i)"

definition work_started :: "scheduler \<Rightarrow> scheduler" where
  "work_started s = s\<lparr>outstanding_work := outstanding_work s + 1\<rparr>"

text \<open>\<open>work_finished\<close>; the call of \<open>stop\<close> is a step of its own.\<close>

definition work_finished :: "scheduler \<Rightarrow> nat \<Rightarrow> scheduler" where
  "work_finished s i =
     (let s1 = s\<lparr>outstanding_work := outstanding_work s - 1\<rparr>
      in if outstanding_work s1 = 0 then upd_thread s1 i (\<lambda>t. t\<lparr>must_stop := True\<rparr>) else s1)"

definition compensating_work_started :: "scheduler \<Rightarrow> nat \<Rightarrow> scheduler" where
  "compensating_work_started s i =
     upd_thread s i (\<lambda>t. t\<lparr>private_outstanding_work := private_outstanding_work t + 1\<rparr>)"

section \<open>Posting\<close>

definition push_op :: "scheduler \<Rightarrow> nat \<Rightarrow> scheduler" where
  "push_op s op = s\<lparr>op_queue := op_queue s @ [Op op]\<rparr>"

definition push_ops :: "scheduler \<Rightarrow> nat list \<Rightarrow> scheduler" where
  "push_ops s ops = s\<lparr>op_queue := op_queue s @ map Op ops\<rparr>"

definition push_private :: "scheduler \<Rightarrow> nat \<Rightarrow> int \<Rightarrow> nat list \<Rightarrow> scheduler" where
  "push_private s i n ops =
     upd_thread s i (\<lambda>t. t\<lparr>private_op_queue := private_op_queue t @ ops,
                         private_outstanding_work := private_outstanding_work t + n\<rparr>)"

definition post_immediate_completion :: "scheduler \<Rightarrow> nat \<Rightarrow> nat \<Rightarrow> bool \<Rightarrow> scheduler" where
  "post_immediate_completion s i op is_continuation =
     (if (one_thread s \<or> is_continuation) \<and> contains s i then push_private s i 1 [op]
      else wake_one_thread_and_unlock (push_op (work_started s) op))"

definition post_immediate_completions :: "scheduler \<Rightarrow> nat \<Rightarrow> int \<Rightarrow> nat list \<Rightarrow> bool \<Rightarrow> scheduler" where
  "post_immediate_completions s i n ops is_continuation =
     (if (one_thread s \<or> is_continuation) \<and> contains s i then push_private s i n ops
      else wake_one_thread_and_unlock
             (push_ops (s\<lparr>outstanding_work := outstanding_work s + n\<rparr>) ops))"

definition post_deferred_completion :: "scheduler \<Rightarrow> nat \<Rightarrow> nat \<Rightarrow> scheduler" where
  "post_deferred_completion s i op =
     (if one_thread s \<and> contains s i then push_private s i 0 [op]
      else wake_one_thread_and_unlock (push_op s op))"

definition post_deferred_completions :: "scheduler \<Rightarrow> nat \<Rightarrow> nat list \<Rightarrow> scheduler" where
  "post_deferred_completions s i ops =
     (if ops = [] then s
      else if one_thread s \<and> contains s i then push_private s i 0 ops
      else wake_one_thread_and_unlock (push_ops s ops))"

definition do_dispatch :: "scheduler \<Rightarrow> nat \<Rightarrow> scheduler" where
  "do_dispatch s op = wake_one_thread_and_unlock (push_op (work_started s) op)"

definition abandon_operations :: "scheduler \<Rightarrow> nat list \<Rightarrow> scheduler" where
  "abandon_operations s ops = s\<lparr>destroyed := destroyed s @ ops\<rparr>"

section \<open>Running\<close>

text \<open>The part behind the choice of a handler, up to the call of \<open>complete\<close>.\<close>

definition run_op :: "scheduler \<Rightarrow> nat \<Rightarrow> mode \<Rightarrow> size_t \<Rightarrow> nat \<Rightarrow> operation list \<Rightarrow> scheduler" where
  "run_op s i m n op rest =
     (let s1 = s\<lparr>op_queue := rest\<rparr>;
          s2 = (if rest \<noteq> [] \<and> \<not> one_thread s1 then wake_one_thread_and_unlock s1 else s1)
      in set_pc s2 i (In_Handler m n op))"

text \<open>A round of the loop of \<open>do_run_one\<close>, with the lock held.\<close>

definition do_run_one :: "scheduler \<Rightarrow> nat \<Rightarrow> mode \<Rightarrow> size_t \<Rightarrow> scheduler" where
  "do_run_one s i m n =
     (if stopped s then set_pc s i (Returned n)
      else case op_queue s of
        Task_Op # rest \<Rightarrow>
          (let more_handlers = (rest \<noteq> []);
               s1 = s\<lparr>op_queue := rest, task_interrupted := more_handlers\<rparr>;
               s2 = (if more_handlers \<and> \<not> one_thread s1 then unlock_and_signal_one s1 else s1)
           in set_pc s2 i (In_Task m n (if more_handlers then 0 else -1)))
      | Op op # rest \<Rightarrow> run_op s i m n op rest
      | [] \<Rightarrow> set_pc (ev_begin_wait (ev_clear s)) i (Event_Wait m n))"

text \<open>\<open>do_wait_one\<close>: from the test of the front of the queue, behind the task, and as a whole.\<close>

definition wait_one_front :: "scheduler \<Rightarrow> nat \<Rightarrow> mode \<Rightarrow> int \<Rightarrow> size_t \<Rightarrow> scheduler" where
  "wait_one_front s i m usec n =
     (case op_queue s of
        [] \<Rightarrow> set_pc s i (Returned n)
      | Task_Op # rest \<Rightarrow>
          (let more_handlers = (rest \<noteq> []);
               s1 = s\<lparr>op_queue := rest, task_interrupted := more_handlers\<rparr>;
               s2 = (if more_handlers \<and> \<not> one_thread s1 then unlock_and_signal_one s1 else s1)
           in set_pc s2 i (In_Task m n (if more_handlers then 0 else usec)))
      | Op op # rest \<Rightarrow> run_op s i m n op rest)"

definition wait_one_after :: "scheduler \<Rightarrow> nat \<Rightarrow> mode \<Rightarrow> size_t \<Rightarrow> scheduler" where
  "wait_one_after s i m n =
     (case op_queue s of
        [] \<Rightarrow> set_pc s i (Returned n)
      | Task_Op # rest \<Rightarrow>
          set_pc (if \<not> one_thread s then fst (maybe_unlock_and_signal_one s) else s) i (Returned n)
      | Op op # rest \<Rightarrow> run_op s i m n op rest)"

definition do_wait_one :: "scheduler \<Rightarrow> nat \<Rightarrow> mode \<Rightarrow> int \<Rightarrow> size_t \<Rightarrow> scheduler" where
  "do_wait_one s i m usec n =
     (if stopped s then set_pc s i (Returned n)
      else if op_queue s = [] then set_pc (ev_begin_wait (ev_clear s)) i (Event_Wait m n)
      else wait_one_front s i m usec n)"

text \<open>\<open>do_poll_one\<close>, and behind the task.\<close>

definition do_poll_one :: "scheduler \<Rightarrow> nat \<Rightarrow> mode \<Rightarrow> size_t \<Rightarrow> scheduler" where
  "do_poll_one s i m n =
     (if stopped s then set_pc s i (Returned n)
      else case op_queue s of
        [] \<Rightarrow> set_pc s i (Returned n)
      | Task_Op # rest \<Rightarrow> set_pc (s\<lparr>op_queue := rest\<rparr>) i (In_Task m n 0)
      | Op op # rest \<Rightarrow> run_op s i m n op rest)"

definition poll_one_after :: "scheduler \<Rightarrow> nat \<Rightarrow> mode \<Rightarrow> size_t \<Rightarrow> scheduler" where
  "poll_one_after s i m n =
     (case op_queue s of
        [] \<Rightarrow> set_pc s i (Returned n)
      | Task_Op # rest \<Rightarrow> set_pc (fst (maybe_unlock_and_signal_one s)) i (Returned n)
      | Op op # rest \<Rightarrow> run_op s i m n op rest)"

definition locked_round :: "scheduler \<Rightarrow> nat \<Rightarrow> mode \<Rightarrow> size_t \<Rightarrow> scheduler" where
  "locked_round s i m n =
     (case m of
        M_Run \<Rightarrow> do_run_one s i m n
      | M_Run_One \<Rightarrow> do_run_one s i m n
      | M_Wait_One usec \<Rightarrow> do_wait_one s i m usec n
      | M_Poll \<Rightarrow> do_poll_one s i m n
      | M_Poll_One \<Rightarrow> do_poll_one s i m n)"

definition after_task :: "scheduler \<Rightarrow> nat \<Rightarrow> mode \<Rightarrow> size_t \<Rightarrow> scheduler" where
  "after_task s i m n =
     (case m of
        M_Run \<Rightarrow> do_run_one s i m n
      | M_Run_One \<Rightarrow> do_run_one s i m n
      | M_Wait_One usec \<Rightarrow> wait_one_after s i m n
      | M_Poll \<Rightarrow> poll_one_after s i m n
      | M_Poll_One \<Rightarrow> poll_one_after s i m n)"

text \<open>
  The entry of \<open>run\<close>, \<open>run_one\<close>, \<open>wait_one\<close>, \<open>poll\<close> and \<open>poll_one\<close>; what they do with the lock is
  \<open>locked_round\<close>, their loops are in \<open>handler_end\<close>. Outside a handler there is no outer call whose
  private queue \<open>poll\<close> and \<open>poll_one\<close> would have to take over.
\<close>

definition sched_enter :: "scheduler \<Rightarrow> nat \<Rightarrow> mode \<Rightarrow> scheduler" where
  "sched_enter s i m =
     (if outstanding_work s = 0
      then upd_thread s i (\<lambda>t. t\<lparr>tpc := Returned 0, must_stop := True\<rparr>)
      else upd_thread s i (\<lambda>t. t\<lparr>tpc := Lock m 0, private_op_queue := [], private_outstanding_work := 0\<rparr>))"

text \<open>
  Behind the wait for the event: \<open>wait\<close> loops until the event is signalled, \<open>wait_for_usec\<close> waits
  once, and does not wait a second time in the task.
\<close>

definition event_woken :: "scheduler \<Rightarrow> nat \<Rightarrow> mode \<Rightarrow> size_t \<Rightarrow> scheduler" where
  "event_woken s i m n =
     (let s1 = ev_end_wait s
      in case m of
           M_Wait_One _ \<Rightarrow> wait_one_front s1 i m 0 n
         | _ \<Rightarrow> if ev_signalled s1 then locked_round s1 i m n else ev_begin_wait s1)"

text \<open>The return of the task with the operations it has completed, and \<open>task_cleanup\<close>.\<close>

definition task_returns :: "scheduler \<Rightarrow> nat \<Rightarrow> mode \<Rightarrow> size_t \<Rightarrow> nat list \<Rightarrow> bool \<Rightarrow> scheduler" where
  "task_returns s i m n ops ok =
     (let t = threads s ! i;
          work = private_outstanding_work t
      in upd_thread (s\<lparr>reactor_interrupted := False,
                       outstanding_work := (if work > 0 then outstanding_work s + work else outstanding_work s)\<rparr>) i
           (\<lambda>t. t\<lparr>tpc := Task_Cleanup m n ok, private_op_queue := private_op_queue t @ ops,
                  private_outstanding_work := 0\<rparr>))"

definition task_cleanup :: "scheduler \<Rightarrow> nat \<Rightarrow> scheduler" where
  "task_cleanup s i =
     upd_thread (s\<lparr>task_interrupted := True,
                   op_queue := op_queue s @ map Op (private_op_queue (threads s ! i)) @ [Task_Op]\<rparr>) i
       (\<lambda>t. t\<lparr>private_op_queue := []\<rparr>)"

text \<open>\<open>work_cleanup\<close>: the count of work, then the queue.\<close>

definition work_cleanup :: "scheduler \<Rightarrow> nat \<Rightarrow> scheduler" where
  "work_cleanup s i =
     (let work = private_outstanding_work (threads s ! i);
          s1 = (if work > 1 then s\<lparr>outstanding_work := outstanding_work s + (work - 1)\<rparr>
                else if work < 1 then work_finished s i
                else s)
      in upd_thread s1 i (\<lambda>t. t\<lparr>private_outstanding_work := 0\<rparr>))"

definition size_max :: size_t where
  "size_max = -1"

definition count_handler :: "size_t \<Rightarrow> size_t" where
  "count_handler n = (if n \<noteq> size_max then n + 1 else n)"

text \<open>
  Behind a handler: its operations go to the queue under the lock, which is kept for the next
  round; an exception leaves the scheduler; \<open>run\<close> and \<open>poll\<close> go on, the others return 1.
\<close>

definition handler_end :: "scheduler \<Rightarrow> nat \<Rightarrow> mode \<Rightarrow> size_t \<Rightarrow> bool \<Rightarrow> scheduler" where
  "handler_end s i m n ok =
     (let ops = private_op_queue (threads s ! i);
          s1 = upd_thread (push_ops s ops) i (\<lambda>t. t\<lparr>private_op_queue := []\<rparr>)
      in if \<not> ok then set_pc s1 i Thrown
         else if m = M_Run \<or> m = M_Poll
         then (if ops \<noteq> [] then locked_round s1 i m (count_handler n) else set_pc s1 i (Lock m (count_handler n)))
         else set_pc s1 i (Returned 1))"

section \<open>Steps\<close>

text \<open>What threads outside the scheduler and handlers call.\<close>

datatype sched_call =
    Post nat bool
  | Posts int "nat list" bool
  | Post_Deferred nat
  | Post_Deferreds "nat list"
  | Dispatch nat
  | Abandon "nat list"
  | Work_Started
  | Work_Finished
  | Compensate
  | Stop
  | Restart
  | Init_Task

fun do_call :: "scheduler \<Rightarrow> nat \<Rightarrow> sched_call \<Rightarrow> scheduler" where
  "do_call s i (Post op c) = post_immediate_completion s i op c"
| "do_call s i (Posts n ops c) = post_immediate_completions s i n ops c"
| "do_call s i (Post_Deferred op) = post_deferred_completion s i op"
| "do_call s i (Post_Deferreds ops) = post_deferred_completions s i ops"
| "do_call s i (Dispatch op) = do_dispatch s op"
| "do_call s i (Abandon ops) = abandon_operations s ops"
| "do_call s i Work_Started = work_started s"
| "do_call s i Work_Finished = work_finished s i"
| "do_call s i Compensate = compensating_work_started s i"
| "do_call s i Stop = sched_stop s"
| "do_call s i Restart = sched_restart s"
| "do_call s i Init_Task = init_task s"

text \<open>
  \<open>Enter\<close>: a thread outside calls one of the run functions. \<open>Take_Lock\<close>: it gets the mutex.
  \<open>Wake\<close>: its wait on the condition returns, for whatever reason. \<open>Task_Return\<close> and
  \<open>Handler_Done\<close>: the task or the handler returns, or throws. \<open>Do_Stop\<close>: the call of \<open>stop\<close> behind
  a count of zero.
\<close>

datatype sched_event =
    Enter nat mode
  | Take_Lock nat
  | Wake nat
  | Task_Return nat "nat list" bool
  | Handler_Done nat bool
  | Do_Stop nat
  | Call nat sched_call

fun event_thread :: "sched_event \<Rightarrow> nat" where
  "event_thread (Enter i _) = i"
| "event_thread (Take_Lock i) = i"
| "event_thread (Wake i) = i"
| "event_thread (Task_Return i _ _) = i"
| "event_thread (Handler_Done i _) = i"
| "event_thread (Do_Stop i) = i"
| "event_thread (Call i _) = i"

text \<open>Whether the thread runs its own code, outside the scheduler or in a handler.\<close>

fun own_code :: "sched_pc \<Rightarrow> bool" where
  "own_code (In_Handler _ _ _) = True"
| "own_code p = (\<not> in_sched p)"

definition sched_step :: "scheduler \<Rightarrow> sched_event \<Rightarrow> scheduler option" where
  "sched_step s e =
     (let i = event_thread e
      in if i \<ge> length (threads s) then None
         else if must_stop (threads s ! i) \<noteq> (\<exists>j. e = Do_Stop j) then None
         else case e of
           Enter _ m \<Rightarrow> if in_sched (pc_of s i) then None else Some (sched_enter s i m)
         | Take_Lock _ \<Rightarrow>
             (case pc_of s i of
                Lock m n \<Rightarrow> Some (locked_round s i m n)
              | Task_Cleanup m n ok \<Rightarrow>
                  (let s1 = task_cleanup s i
                   in Some (if ok then after_task s1 i m n else set_pc s1 i Thrown))
              | Work_Cleanup m n ok \<Rightarrow> Some (handler_end s i m n ok)
              | _ \<Rightarrow> None)
         | Wake _ \<Rightarrow> (case pc_of s i of Event_Wait m n \<Rightarrow> Some (event_woken s i m n) | _ \<Rightarrow> None)
         | Task_Return _ ops ok \<Rightarrow>
             (case pc_of s i of In_Task m n usec \<Rightarrow> Some (task_returns s i m n ops ok) | _ \<Rightarrow> None)
         | Handler_Done _ ok \<Rightarrow>
             (case pc_of s i of
                In_Handler m n op \<Rightarrow>
                  Some (set_pc (work_cleanup (s\<lparr>completed := completed s @ [op]\<rparr>) i) i (Work_Cleanup m n ok))
              | _ \<Rightarrow> None)
         | Do_Stop _ \<Rightarrow> Some (upd_thread (sched_stop s) i (\<lambda>t. t\<lparr>must_stop := False\<rparr>))
         | Call _ c \<Rightarrow>
             (if own_code (pc_of s i) \<and> (c = Compensate \<longrightarrow> in_sched (pc_of s i))
              then Some (do_call s i c) else None))"

fun sched_run :: "scheduler \<Rightarrow> sched_event list \<Rightarrow> scheduler option" where
  "sched_run s [] = Some s"
| "sched_run s (e # es) = (case sched_step s e of None \<Rightarrow> None | Some s' \<Rightarrow> sched_run s' es)"

end
