(* ===== verification/Scheduler_Wake.thy ===== *)
theory Scheduler_Wake
  imports Asio_Scheduler "HOL-Library.Multiset"
begin

text \<open>
  Threads of asio's scheduler that sleep and wake: an operation in the queue is never left while every
  thread sleeps, and \<open>stop\<close> gets every thread out of \<open>run\<close>.
\<close>

section \<open>Counting threads and operations\<close>

definition cnt :: "('a \<Rightarrow> bool) \<Rightarrow> 'a list \<Rightarrow> int" where
  "cnt P xs = int (length (filter P xs))"

lemma cnt_simps [simp]:
  "cnt P [] = 0" "cnt P (x # xs) = of_bool (P x) + cnt P xs" "cnt P (xs @ ys) = cnt P xs + cnt P ys"
  by (simp_all add: cnt_def)

lemma cnt_ge_0 [simp]: "0 \<le> cnt P xs"
  by (simp add: cnt_def)

lemma cnt_update: "i < length xs \<Longrightarrow> cnt P (xs[i := x]) = cnt P xs - of_bool (P (xs ! i)) + of_bool (P x)"
proof (induction xs arbitrary: i)
  case (Cons y ys)
  then show ?case by (cases i) auto
qed simp

lemma cnt_pos: "0 < cnt P xs \<longleftrightarrow> (\<exists>x \<in> set xs. P x)"
  by (auto simp: cnt_def filter_empty_conv)

lemma cnt_member: "x \<in> set xs \<Longrightarrow> P x \<Longrightarrow> 1 \<le> cnt P xs"
  using cnt_pos [of P xs] by fastforce

section \<open>The event's word\<close>

text \<open>Its lowest bit is the signal, the rest the number of waiters.\<close>

lemma ev_word:
  fixes e :: int assumes "e = 2 * k + of_bool b"
  shows "e OR 1 = 2 * k + 1" "e AND NOT 1 = 2 * k" "e AND 1 \<noteq> 0 \<longleftrightarrow> b"
    "0 \<le> k \<Longrightarrow> e OR 1 > 1 \<longleftrightarrow> k > 0"
proof -
  show "e OR 1 = 2 * k + 1" using assms by (cases b) (simp_all add: or_one_eq)
  then show "0 \<le> k \<Longrightarrow> e OR 1 > 1 \<longleftrightarrow> k > 0" by simp
  show "e AND 1 \<noteq> 0 \<longleftrightarrow> b" using assms by (cases b) (simp_all add: and_one_eq)
  have "e AND NOT 1 = 2 * (e div 2)"
  proof (rule bit_eqI)
    fix n show "bit (e AND NOT 1) n = bit (2 * (e div 2)) n"
      by (cases n) (simp_all add: bit_and_iff bit_not_iff bit_1_iff bit_double_iff possible_bit_def
          del: not_one_eq flip: bit_Suc)
  qed
  then show "e AND NOT 1 = 2 * k" using assms by (cases b) simp_all
qed

section \<open>Where the threads are\<close>

fun waiting :: "sched_pc \<Rightarrow> bool" where
  "waiting (Event_Wait _ _) = True"
| "waiting _ = False"

fun in_task :: "sched_pc \<Rightarrow> bool" where
  "in_task (In_Task _ _ _) = True"
| "in_task (Task_Cleanup _ _ _) = True"
| "in_task _ = False"

text \<open>In the task, and it blocks without a limit.\<close>

fun blocked :: "sched_pc \<Rightarrow> bool" where
  "blocked (In_Task _ _ usec) = (usec < 0)"
| "blocked _ = False"

text \<open>Every call is one of \<open>run\<close>, and nothing throws.\<close>

fun running :: "sched_pc \<Rightarrow> bool" where
  "running (Lock m _) = (m = M_Run)"
| "running (Event_Wait m _) = (m = M_Run)"
| "running (In_Task m _ _) = (m = M_Run)"
| "running (Task_Cleanup m _ ok) = (m = M_Run \<and> ok)"
| "running (In_Handler m _ _) = (m = M_Run)"
| "running (Work_Cleanup m _ ok) = (m = M_Run \<and> ok)"
| "running Thrown = False"
| "running _ = True"

fun run_event :: "sched_event \<Rightarrow> bool" where
  "run_event (Enter _ m) = (m = M_Run)"
| "run_event (Task_Return _ _ ok) = ok"
| "run_event (Handler_Done _ ok) = ok"
| "run_event _ = True"

definition pcs :: "scheduler \<Rightarrow> sched_pc list" where
  "pcs s = map tpc (threads s)"

definition asleep :: "scheduler \<Rightarrow> sched_pc \<Rightarrow> bool" where
  "asleep s p \<longleftrightarrow> waiting p \<and> \<not> ev_signalled s \<or> blocked p \<and> \<not> reactor_interrupted s"

definition up :: "scheduler \<Rightarrow> sched_pc \<Rightarrow> bool" where
  "up s p \<longleftrightarrow> in_sched p \<and> \<not> asleep s p"

text \<open>
  The event counts the threads that wait for it; the task is in the queue or with one thread; a
  task that blocks and counts as interrupted has been interrupted; all threads are in \<open>run\<close>.
\<close>

definition core :: "scheduler \<Rightarrow> sched_pc list \<Rightarrow> bool" where
  "core s ps \<longleftrightarrow>
     (\<exists>b. ev_state s = 2 * cnt waiting ps + of_bool b) \<and>
     cnt in_task ps + cnt ((=) Task_Op) (op_queue s) = of_bool (task s) \<and>
     (\<forall>p \<in> set ps. blocked p \<and> task_interrupted s \<longrightarrow> reactor_interrupted s) \<and>
     (\<forall>p \<in> set ps. running p)"

definition stop_seen :: "scheduler \<Rightarrow> sched_pc list \<Rightarrow> bool" where
  "stop_seen s ps \<longleftrightarrow> (stopped s \<longrightarrow> (\<forall>p \<in> set ps. \<not> asleep s p))"

definition served :: "scheduler \<Rightarrow> sched_pc list \<Rightarrow> bool" where
  "served s ps \<longleftrightarrow> op_queue s = [] \<or> (\<forall>p \<in> set ps. \<not> asleep s p) \<or> (\<exists>p \<in> set ps. up s p)"

definition sched_inv :: "scheduler \<Rightarrow> bool" where
  "sched_inv s \<longleftrightarrow> core s (pcs s) \<and> stop_seen s (pcs s) \<and> served s (pcs s)"

text \<open>The threads but one.\<close>

definition others :: "scheduler \<Rightarrow> nat \<Rightarrow> sched_pc list" where
  "others s i = take i (pcs s) @ drop (Suc i) (pcs s)"

lemma pcs_split:
  assumes "i < length (pcs s)"
  shows "pcs s = take i (pcs s) @ pc_of s i # drop (Suc i) (pcs s)"
proof -
  have "pc_of s i = pcs s ! i" using assms by (simp add: pcs_def pc_of_def)
  with id_take_nth_drop [OF assms] show ?thesis by (simp only:)
qed

lemma cnt_others:
  assumes "i < length (pcs s)"
  shows "cnt P (pcs s) = of_bool (P (pc_of s i)) + cnt P (others s i)"
    and "cnt P ((pcs s)[i := p]) = of_bool (P p) + cnt P (others s i)"
proof -
  have "cnt P (pcs s) = cnt P (take i (pcs s) @ pc_of s i # drop (Suc i) (pcs s))"
    using pcs_split [OF assms] by simp
  then show "cnt P (pcs s) = of_bool (P (pc_of s i)) + cnt P (others s i)" by (simp add: others_def)
  show "cnt P ((pcs s)[i := p]) = of_bool (P p) + cnt P (others s i)"
    using assms by (simp add: upd_conv_take_nth_drop others_def)
qed

lemma set_others:
  assumes "i < length (pcs s)"
  shows "set (pcs s) = insert (pc_of s i) (set (others s i))"
    and "set ((pcs s)[i := p]) = insert p (set (others s i))"
proof -
  have "set (pcs s) = set (take i (pcs s) @ pc_of s i # drop (Suc i) (pcs s))"
    using pcs_split [OF assms] by simp
  then show "set (pcs s) = insert (pc_of s i) (set (others s i))" by (auto simp: others_def)
  show "set ((pcs s)[i := p]) = insert p (set (others s i))"
    using assms by (auto simp: upd_conv_take_nth_drop others_def)
qed

lemma core_others:
  assumes "i < length (pcs s)" "core s (pcs s)"
  shows "\<exists>b. ev_state s = 2 * (cnt waiting (others s i) + of_bool (waiting (pc_of s i))) + of_bool b"
    and "cnt in_task (others s i) + of_bool (in_task (pc_of s i)) + cnt ((=) Task_Op) (op_queue s) = of_bool (task s)"
    and "\<forall>p \<in> set (others s i). blocked p \<and> task_interrupted s \<longrightarrow> reactor_interrupted s"
    and "\<forall>p \<in> set (others s i). running p" and "running (pc_of s i)"
  using assms(2) unfolding core_def cnt_others(1) [OF assms(1)] set_others(1) [OF assms(1)]
  by (simp_all add: algebra_simps)

text \<open>A thread that is up keeps everything served; what remains concerns the others.\<close>

lemma pcs_simps [simp]:
  "pcs (set_pc s i p) = (pcs s)[i := p]"
  "(\<And>t. tpc (f t) = tpc t) \<Longrightarrow> pcs (upd_thread s i f) = pcs s"
  by (simp_all add: pcs_def set_pc_def upd_thread_def map_update flip: list_update_id) 
    (metis list_update_id list_update_beyond map_update not_less nth_map length_map)

section \<open>Signals and interrupts\<close>

lemma wake_fields [simp]:
  "op_queue (wake_one_thread_and_unlock s) = op_queue s" "stopped (wake_one_thread_and_unlock s) = stopped s"
  "task (wake_one_thread_and_unlock s) = task s" "threads (wake_one_thread_and_unlock s) = threads s"
  "one_thread (wake_one_thread_and_unlock s) = one_thread s" "shutdown (wake_one_thread_and_unlock s) = shutdown s"
  "outstanding_work (wake_one_thread_and_unlock s) = outstanding_work s"
  "completed (wake_one_thread_and_unlock s) = completed s" "destroyed (wake_one_thread_and_unlock s) = destroyed s"
  by (simp_all add: wake_one_thread_and_unlock_def maybe_unlock_and_signal_one_def interrupt_task_def Let_def)

lemma stop_fields [simp]:
  "op_queue (sched_stop s) = op_queue s" "stopped (sched_stop s)" "task (sched_stop s) = task s"
  "threads (sched_stop s) = threads s" "one_thread (sched_stop s) = one_thread s"
  "outstanding_work (sched_stop s) = outstanding_work s"
  "completed (sched_stop s) = completed s" "destroyed (sched_stop s) = destroyed s"
  by (simp_all add: sched_stop_def stop_all_threads_def ev_signal_all_def interrupt_task_def)

lemma signalled_iff: "ev_state s = 2 * k + of_bool b \<Longrightarrow> ev_signalled s \<longleftrightarrow> b"
  unfolding ev_signalled_def by (rule ev_word(3))

lemma asleep_signalled: "ev_signalled s \<Longrightarrow> asleep s p \<longleftrightarrow> blocked p \<and> \<not> reactor_interrupted s"
  by (simp add: asleep_def)

lemma or_one_signalled: "ev_state s OR 1 = e \<Longrightarrow> ev_signalled (s\<lparr>ev_state := e\<rparr>)"
  by (auto simp: ev_signalled_def or_one_eq and_one_eq)
    (metis even_plus_one_iff odd_iff_mod_2_eq_one)+

text \<open>A signal, whoever gives it.\<close>

lemma core_signal:
  assumes "core s ps"
  shows "core (s\<lparr>ev_state := ev_state s OR 1\<rparr>) ps"
    and "ev_signalled (s\<lparr>ev_state := ev_state s OR 1\<rparr>)"
    and "ev_state s OR 1 > 1 \<longleftrightarrow> (\<exists>p \<in> set ps. waiting p)"
proof -
  obtain b where b: "ev_state s = 2 * cnt waiting ps + of_bool b" using assms by (auto simp: core_def)
  note w = ev_word [OF b]
  have "ev_state s OR 1 = 2 * cnt waiting ps + of_bool True" using w(1) by simp
  then show "core (s\<lparr>ev_state := ev_state s OR 1\<rparr>) ps"
    using assms unfolding core_def by (simp, blast)
  show "ev_signalled (s\<lparr>ev_state := ev_state s OR 1\<rparr>)" by (simp add: or_one_signalled)
  show "ev_state s OR 1 > 1 \<longleftrightarrow> (\<exists>p \<in> set ps. waiting p)"
    using w(4) cnt_pos [of waiting ps] by simp
qed

lemma core_interrupt: "core s ps \<Longrightarrow> core (interrupt_task s) ps"
  by (auto simp: core_def interrupt_task_def)

text \<open>A blocked thread has the task, so the task is there, and interrupting it works.\<close>

lemma blocked_task: "core s ps \<Longrightarrow> p \<in> set ps \<Longrightarrow> blocked p \<Longrightarrow> task s"
proof -
  assume c: "core s ps" and p: "p \<in> set ps" "blocked p"
  have "in_task p" using p(2) by (cases p) simp_all
  then have "1 \<le> cnt in_task ps" by (rule cnt_member [OF p(1)])
  moreover have "cnt in_task ps + cnt ((=) Task_Op) (op_queue s) = of_bool (task s)"
    using c by (simp add: core_def)
  ultimately show "task s" using cnt_ge_0 [of "(=) Task_Op" "op_queue s"] by (cases "task s") simp_all
qed

lemma interrupt_wakes:
  "core s ps \<Longrightarrow> p \<in> set ps \<Longrightarrow> blocked p \<Longrightarrow> reactor_interrupted (interrupt_task s)"
proof -
  assume c: "core s ps" and p: "p \<in> set ps" "blocked p"
  have "task s" by (rule blocked_task [OF c p])
  moreover have "task_interrupted s \<longrightarrow> reactor_interrupted s" using c p unfolding core_def by blast
  ultimately show ?thesis by (simp add: interrupt_task_def)
qed

lemma interrupt_fields [simp]:
  "ev_state (interrupt_task s) = ev_state s" "stopped (interrupt_task s) = stopped s"
  "op_queue (interrupt_task s) = op_queue s"
  by (simp_all add: interrupt_task_def)

lemma asleep_interrupt: "asleep (interrupt_task s) p \<Longrightarrow> asleep s p"
  by (auto simp: asleep_def ev_signalled_def interrupt_task_def split: if_splits)

lemma asleep_signal: "asleep (s\<lparr>ev_state := ev_state s OR 1\<rparr>) p \<Longrightarrow> asleep s p"
  by (auto simp: asleep_def ev_signalled_def or_one_eq and_one_eq)

lemma waiting_pc: "waiting p \<Longrightarrow> in_sched p \<and> \<not> blocked p \<and> \<not> in_task p"
  by (cases p) simp_all

lemma wake_ok:
  assumes c: "core s ps"
  shows wake_core: "core (wake_one_thread_and_unlock s) ps"
    and wake_stop_seen: "stop_seen s ps \<Longrightarrow> stop_seen (wake_one_thread_and_unlock s) ps"
    and wake_served: "served (wake_one_thread_and_unlock s) ps"
proof -
  let ?s1 = "s\<lparr>ev_state := ev_state s OR 1\<rparr>"
  note g = core_signal [OF c]
  have w: "wake_one_thread_and_unlock s = (if ev_state ?s1 > 1 then ?s1 else interrupt_task ?s1)"
    by (simp add: wake_one_thread_and_unlock_def maybe_unlock_and_signal_one_def Let_def)
  show "core (wake_one_thread_and_unlock s) ps" using g(1) core_interrupt w by simp
  show "stop_seen s ps \<Longrightarrow> stop_seen (wake_one_thread_and_unlock s) ps"
    unfolding w stop_seen_def by (auto dest!: asleep_interrupt asleep_signal)
  show "served (wake_one_thread_and_unlock s) ps"
  proof (cases "\<exists>p \<in> set ps. waiting p")
    case True
    then obtain p where p: "p \<in> set ps" "waiting p" by blast
    then have "up ?s1 p" using g(2) waiting_pc [OF p(2)] by (simp add: up_def asleep_signalled)
    then show ?thesis using g(3) p w by (auto simp: served_def)
  next
    case False
    then have "\<not> asleep (interrupt_task ?s1) p" if "p \<in> set ps" for p
      using interrupt_wakes [OF g(1) that] that by (auto simp: asleep_def)
    then show ?thesis using False g(3) w by (auto simp: served_def)
  qed
qed

lemma stop_ok:
  assumes c: "core s ps"
  shows stop_core: "core (sched_stop s) ps"
    and stop_wakes: "p \<in> set ps \<Longrightarrow> \<not> asleep (sched_stop s) p"
proof -
  let ?s0 = "s\<lparr>stopped := True\<rparr>" let ?s1 = "?s0\<lparr>ev_state := ev_state ?s0 OR 1\<rparr>"
  have "core ?s0 ps" using c by (simp add: core_def)
  note g = core_signal [OF this]
  have w: "sched_stop s = interrupt_task ?s1"
    by (simp add: sched_stop_def stop_all_threads_def ev_signal_all_def)
  show "core (sched_stop s) ps" using core_interrupt [OF g(1)] w by simp
  have "ev_signalled (interrupt_task ?s1)" using g(2) by (simp add: ev_signalled_def)
  then show "p \<in> set ps \<Longrightarrow> \<not> asleep (sched_stop s) p"
    using interrupt_wakes [OF g(1)] unfolding w by (auto simp: asleep_def)
qed

section \<open>A round with the lock\<close>

text \<open>What is known of the other threads and of the state when a thread starts a round.\<close>

definition round_pre :: "scheduler \<Rightarrow> nat \<Rightarrow> bool" where
  "round_pre s i \<longleftrightarrow> i < length (pcs s) \<and> core s (others s i) \<and> stop_seen s (others s i)"

lemma inv_update:
  assumes "i < length (pcs s)" "pcs s' = (pcs s)[i := p]"
    and "\<exists>b. ev_state s' = 2 * (cnt waiting (others s i) + of_bool (waiting p)) + of_bool b"
    and "cnt in_task (others s i) + of_bool (in_task p) + cnt ((=) Task_Op) (op_queue s') = of_bool (task s')"
    and "\<forall>q \<in> insert p (set (others s i)). blocked q \<and> task_interrupted s' \<longrightarrow> reactor_interrupted s'"
    and "\<forall>q \<in> set (others s i). running q" "running p"
    and "stopped s' \<longrightarrow> (\<forall>q \<in> insert p (set (others s i)). \<not> asleep s' q)"
    and "served s' (p # others s i)"
  shows "sched_inv s'"
  using assms unfolding sched_inv_def core_def stop_seen_def served_def assms(2)
    cnt_others(2) [OF assms(1)] set_others(2) [OF assms(1)]
  by (simp add: algebra_simps)

lemma asleep_fields:
  "ev_state s' = ev_state s \<Longrightarrow> reactor_interrupted s' = reactor_interrupted s \<Longrightarrow> asleep s' p = asleep s p"
  by (simp add: asleep_def ev_signalled_def)

lemma set_pc_fields [simp]:
  "op_queue (set_pc s i p) = op_queue s" "stopped (set_pc s i p) = stopped s" "task (set_pc s i p) = task s"
  "ev_state (set_pc s i p) = ev_state s" "task_interrupted (set_pc s i p) = task_interrupted s"
  "reactor_interrupted (set_pc s i p) = reactor_interrupted s"
  by (simp_all add: set_pc_def upd_thread_def)

lemma asleep_set_pc [simp]: "asleep (set_pc s i q) p = asleep s p"
  by (rule asleep_fields) simp_all

lemma upd_thread_fields [simp]:
  "op_queue (upd_thread s i f) = op_queue s" "stopped (upd_thread s i f) = stopped s"
  "task (upd_thread s i f) = task s"
  "ev_state (upd_thread s i f) = ev_state s" "task_interrupted (upd_thread s i f) = task_interrupted s"
  "reactor_interrupted (upd_thread s i f) = reactor_interrupted s"
  by (simp_all add: upd_thread_def)

text \<open>Setting the place of a thread to one where it is up.\<close>

lemma inv_set_up:
  assumes i: "i < length (pcs s)" and c: "core s (others s i)" "stop_seen s (others s i)"
    and p: "in_sched p" "\<not> waiting p" "\<not> in_task p" "\<not> blocked p" "running p"
    and s': "pcs s' = (pcs s)[i := p]" "ev_state s' = ev_state s" "op_queue s' = op_queue s"
      "stopped s' = stopped s" "task s' = task s" "task_interrupted s' = task_interrupted s"
      "reactor_interrupted s' = reactor_interrupted s"
  shows "sched_inv s'"
proof (rule inv_update [OF i s'(1)])
  have a: "asleep s' q = asleep s q" for q by (rule asleep_fields) (simp_all add: s')
  show "\<exists>b. ev_state s' = 2 * (cnt waiting (others s i) + of_bool (waiting p)) + of_bool b"
    using c(1) p s' by (simp add: core_def)
  show "cnt in_task (others s i) + of_bool (in_task p) + cnt ((=) Task_Op) (op_queue s') = of_bool (task s')"
    using c(1) p s' by (simp add: core_def)
  show "\<forall>q \<in> insert p (set (others s i)). blocked q \<and> task_interrupted s' \<longrightarrow> reactor_interrupted s'"
    using c(1) p s' unfolding core_def by auto
  show "\<forall>q \<in> set (others s i). running q" using c(1) by (simp add: core_def)
  have np: "\<not> asleep s' p" using p by (simp add: asleep_def)
  show "stopped s' \<longrightarrow> (\<forall>q \<in> insert p (set (others s i)). \<not> asleep s' q)"
    using c(2) np by (auto simp: stop_seen_def a s')
  show "served s' (p # others s i)" using np p(1) by (simp add: up_def served_def)
qed (rule p(5))

lemma round_of_op:
  assumes r: "round_pre s i" and q: "op_queue s = Op op # rest"
  shows "sched_inv (run_op s i M_Run n op rest)"
proof -
  let ?s1 = "s\<lparr>op_queue := rest\<rparr>"
  let ?s2 = "if rest \<noteq> [] \<and> \<not> one_thread ?s1 then wake_one_thread_and_unlock ?s1 else ?s1"
  have i: "i < length (pcs s)" and c: "core s (others s i)" and st: "stop_seen s (others s i)"
    using r by (auto simp: round_pre_def)
  have c1: "core ?s1 (others s i)" using c q by (simp add: core_def)
  have st1: "stop_seen ?s1 (others s i)" using st by (simp add: stop_seen_def asleep_def ev_signalled_def)
  have c2: "core ?s2 (others s i)" and st2: "stop_seen ?s2 (others s i)"
    using c1 st1 wake_core [OF c1] wake_stop_seen [OF c1 st1] by auto
  have p: "pcs ?s2 = pcs s" by (simp add: pcs_def)
  then have o: "others ?s2 i = others s i" by (simp add: others_def)
  show ?thesis
    unfolding run_op_def Let_def
    by (rule inv_set_up [of i ?s2 "In_Handler M_Run n op"]) (use i c2 st2 o p in \<open>simp_all\<close>)
qed

lemma round_of_task:
  assumes r: "round_pre s i" and q: "op_queue s = Task_Op # rest" and ns: "\<not> stopped s"
  shows "sched_inv (do_run_one s i M_Run n)"
proof -
  let ?s1 = "s\<lparr>op_queue := rest, task_interrupted := (rest \<noteq> [])\<rparr>"
  let ?s2 = "if rest \<noteq> [] \<and> \<not> one_thread ?s1 then unlock_and_signal_one ?s1 else ?s1"
  let ?p = "In_Task M_Run n (if rest \<noteq> [] then 0 else -1)"
  have i: "i < length (pcs s)" and c: "core s (others s i)"
    using r by (auto simp: round_pre_def)
  have d: "do_run_one s i M_Run n = set_pc ?s2 i ?p" using q ns by (simp add: do_run_one_def Let_def)
  have t: "cnt in_task (others s i) + 1 + cnt ((=) Task_Op) rest = of_bool (task s)"
    using c q by (simp add: core_def)
  have "0 \<le> cnt in_task (others s i)" "0 \<le> cnt ((=) Task_Op) rest" "of_bool (task s) \<le> (1 :: int)"
    by simp_all
  then have "of_bool (task s) = (1 :: int)" and tt: "cnt in_task (others s i) = 0" "cnt ((=) Task_Op) rest = 0"
    using t by linarith+
  then have tk: "task s" by (cases "task s") simp_all
  have nb: "\<not> blocked q" if "q \<in> set (others s i)" for q
    using tt(1) cnt_pos [of in_task "others s i"] that by (cases q) auto
  have ev: "\<exists>b. ev_state ?s2 = 2 * cnt waiting (others s i) + of_bool b"
  proof -
    obtain b where b: "ev_state s = 2 * cnt waiting (others s i) + of_bool b" using c by (auto simp: core_def)
    then have "ev_state s OR 1 = 2 * cnt waiting (others s i) + of_bool True" using ev_word(1) [OF b] by simp
    then show ?thesis using b by (auto simp: unlock_and_signal_one_def)
  qed
  have f: "op_queue ?s2 = rest" "stopped ?s2 = stopped s" "task ?s2 = task s" "task_interrupted ?s2 = (rest \<noteq> [])"
    "pcs ?s2 = pcs s"
    by (simp_all add: unlock_and_signal_one_def pcs_def)
  have "sched_inv (set_pc ?s2 i ?p)"
  proof (rule inv_update [of i ?s2])
    have o: "others ?s2 i = others s i" using f(5) by (simp add: others_def)
    show "i < length (pcs ?s2)" using i f(5) by simp
    show "\<exists>b. ev_state (set_pc ?s2 i ?p) = 2 * (cnt waiting (others ?s2 i) + of_bool (waiting ?p)) + of_bool b"
      using ev unfolding o by simp
    show "cnt in_task (others ?s2 i) + of_bool (in_task ?p) + cnt ((=) Task_Op) (op_queue (set_pc ?s2 i ?p)) =
        of_bool (task (set_pc ?s2 i ?p))"
      using tt tk f unfolding o by simp
    show "\<forall>q \<in> insert ?p (set (others ?s2 i)). blocked q \<and> task_interrupted (set_pc ?s2 i ?p) \<longrightarrow>
        reactor_interrupted (set_pc ?s2 i ?p)"
      using nb f(4) unfolding o by auto
    show "\<forall>q \<in> set (others ?s2 i). running q" using c unfolding o by (simp add: core_def)
    show "stopped (set_pc ?s2 i ?p) \<longrightarrow> (\<forall>q \<in> insert ?p (set (others ?s2 i)). \<not> asleep (set_pc ?s2 i ?p) q)"
      using ns f(2) by simp
    show "served (set_pc ?s2 i ?p) (?p # others ?s2 i)"
      using f(1) by (auto simp: served_def up_def asleep_def)
  qed simp_all
  then show ?thesis using d by simp
qed

lemma round_of_nothing:
  assumes r: "round_pre s i" and q: "op_queue s = []" and ns: "\<not> stopped s"
  shows "sched_inv (do_run_one s i M_Run n)"
proof -
  let ?s1 = "ev_begin_wait (ev_clear s)" let ?p = "Event_Wait M_Run n"
  have i: "i < length (pcs s)" and c: "core s (others s i)" using r by (auto simp: round_pre_def)
  have d: "do_run_one s i M_Run n = set_pc ?s1 i ?p" using q ns by (simp add: do_run_one_def)
  have p: "pcs ?s1 = pcs s" by (simp add: pcs_def ev_begin_wait_def ev_clear_def)
  then have o: "others ?s1 i = others s i" by (simp add: others_def)
  have f: "op_queue ?s1 = []" "stopped ?s1 = False" "task ?s1 = task s" "task_interrupted ?s1 = task_interrupted s"
    "reactor_interrupted ?s1 = reactor_interrupted s"
    using q ns by (simp_all add: ev_begin_wait_def ev_clear_def)
  obtain b where b: "ev_state s = 2 * cnt waiting (others s i) + of_bool b" using c by (auto simp: core_def)
  have e: "ev_state ?s1 = 2 * cnt waiting (others s i) + 2"
    using ev_word(2) [OF b] by (simp add: ev_begin_wait_def ev_clear_def)
  have "sched_inv (set_pc ?s1 i ?p)"
  proof (rule inv_update [of i ?s1])
    show "\<exists>b. ev_state (set_pc ?s1 i ?p) = 2 * (cnt waiting (others ?s1 i) + of_bool (waiting ?p)) + of_bool b"
      using e unfolding o by (intro exI [of _ False]) simp
    show "cnt in_task (others ?s1 i) + of_bool (in_task ?p) + cnt ((=) Task_Op) (op_queue (set_pc ?s1 i ?p)) =
        of_bool (task (set_pc ?s1 i ?p))"
      using c q f unfolding o by (simp add: core_def)
    show "\<forall>q \<in> insert ?p (set (others ?s1 i)). blocked q \<and> task_interrupted (set_pc ?s1 i ?p) \<longrightarrow>
        reactor_interrupted (set_pc ?s1 i ?p)"
      using c f unfolding o core_def by auto
    show "\<forall>q \<in> set (others ?s1 i). running q" using c unfolding o by (simp add: core_def)
  qed (use i p f in \<open>simp_all add: served_def\<close>)
  then show ?thesis using d by simp
qed

lemma round_of_stopped:
  assumes r: "round_pre s i" and st: "stopped s"
  shows "sched_inv (set_pc s i (Returned n))"
proof (rule inv_update [of i s])
  have i: "i < length (pcs s)" and c: "core s (others s i)" and na: "\<forall>q \<in> set (others s i). \<not> asleep s q"
    using r st by (auto simp: round_pre_def stop_seen_def)
  show "i < length (pcs s)" by (rule i)
  show "\<exists>b. ev_state (set_pc s i (Returned n)) = 2 * (cnt waiting (others s i) + of_bool (waiting (Returned n))) + of_bool b"
    using c by (simp add: core_def)
  show "cnt in_task (others s i) + of_bool (in_task (Returned n)) + cnt ((=) Task_Op) (op_queue (set_pc s i (Returned n))) =
      of_bool (task (set_pc s i (Returned n)))"
    using c by (simp add: core_def)
  show "\<forall>q \<in> insert (Returned n) (set (others s i)). blocked q \<and> task_interrupted (set_pc s i (Returned n)) \<longrightarrow>
      reactor_interrupted (set_pc s i (Returned n))"
    using c unfolding core_def by auto
  show "\<forall>q \<in> set (others s i). running q" using c by (simp add: core_def)
  have "\<not> asleep s (Returned n)" by (simp add: asleep_def)
  then show "stopped (set_pc s i (Returned n)) \<longrightarrow>
      (\<forall>q \<in> insert (Returned n) (set (others s i)). \<not> asleep (set_pc s i (Returned n)) q)"
    and "served (set_pc s i (Returned n)) (Returned n # others s i)"
    using na by (simp_all add: served_def)
qed simp_all

lemma do_run_one_ok:
  assumes r: "round_pre s i"
  shows "sched_inv (do_run_one s i M_Run n)"
proof (cases "stopped s")
  case True
  then show ?thesis using round_of_stopped [OF r] by (simp add: do_run_one_def)
next
  case False
  show ?thesis
  proof (cases "op_queue s")
    case Nil
    then show ?thesis using round_of_nothing [OF r] False by simp
  next
    case (Cons o' rest)
    then show ?thesis
      using round_of_op [OF r] round_of_task [OF r] False by (cases o') (simp_all add: do_run_one_def [of s])
  qed
qed

section \<open>Every step keeps the scheduler served\<close>

lemma inv_same:
  assumes "sched_inv s" "pcs s' = pcs s" "ev_state s' = ev_state s" "op_queue s' = op_queue s"
    "task s' = task s" "task_interrupted s' = task_interrupted s" "stopped s' \<longrightarrow> stopped s"
    "reactor_interrupted s' = reactor_interrupted s"
  shows "sched_inv s'"
proof -
  have a: "asleep s' q = asleep s q" for q by (rule asleep_fields) (simp_all add: assms)
  then have u: "up s' q = up s q" for q by (simp add: up_def)
  show ?thesis
    using assms(1,7) by (auto simp: sched_inv_def core_def stop_seen_def served_def assms(2-6,8) a u)
qed

lemma inv_wake:
  assumes "core s (pcs s)" "stop_seen s (pcs s)"
  shows "sched_inv (wake_one_thread_and_unlock s)"
proof -
  have "pcs (wake_one_thread_and_unlock s) = pcs s" by (simp add: pcs_def)
  then show ?thesis using wake_ok [OF assms(1)] assms(2) by (simp add: sched_inv_def)
qed

lemma inv_stop: "sched_inv s \<Longrightarrow> sched_inv (sched_stop s)"
proof -
  assume "sched_inv s"
  then have c: "core s (pcs s)" by (simp add: sched_inv_def)
  have "pcs (sched_stop s) = pcs s" by (simp add: pcs_def)
  then show ?thesis using stop_core [OF c] stop_wakes [OF c] by (simp add: sched_inv_def stop_seen_def served_def)
qed

lemma stop_seen_fields:
  assumes "stop_seen s ps" "ev_state s' = ev_state s" "reactor_interrupted s' = reactor_interrupted s"
    "stopped s' = stopped s"
  shows "stop_seen s' ps"
  using assms(1,4) asleep_fields [OF assms(2,3)] by (simp add: stop_seen_def)

lemma cnt_map_Op [simp]: "cnt ((=) Task_Op) (map Op ops) = 0"
  by (induction ops) simp_all

lemma inv_push_wake:
  assumes "sched_inv s" "pcs s' = pcs s" "op_queue s' = op_queue s @ map Op ops" "ev_state s' = ev_state s"
    "task s' = task s" "task_interrupted s' = task_interrupted s" "stopped s' = stopped s"
    "reactor_interrupted s' = reactor_interrupted s"
  shows "sched_inv (wake_one_thread_and_unlock s')"
proof (rule inv_wake)
  show "core s' (pcs s')" using assms by (simp add: sched_inv_def core_def)
  show "stop_seen s' (pcs s')"
    unfolding assms(2) by (rule stop_seen_fields [of s]) (use assms in \<open>simp_all add: sched_inv_def\<close>)
qed

lemma inv_push:
  assumes "sched_inv s"
  shows "sched_inv (wake_one_thread_and_unlock (push_op s n))"
    "sched_inv (wake_one_thread_and_unlock (push_op (work_started s) n))"
    "sched_inv (wake_one_thread_and_unlock (push_ops s ns))"
    "sched_inv (wake_one_thread_and_unlock (push_ops (s\<lparr>outstanding_work := w\<rparr>) ns))"
  by (rule inv_push_wake [OF assms, of _ "[n]"] inv_push_wake [OF assms, of _ ns];
      simp add: push_op_def push_ops_def work_started_def pcs_def)+

lemma inv_upd_private:
  "sched_inv s \<Longrightarrow> (\<And>t. tpc (f t) = tpc t) \<Longrightarrow> sched_inv (upd_thread s i f)"
  by (erule inv_same) simp_all

lemma inv_posts:
  assumes "sched_inv s"
  shows "sched_inv (post_immediate_completion s i op c)" "sched_inv (post_immediate_completions s i n ops c)"
    "sched_inv (post_deferred_completion s i op)" "sched_inv (post_deferred_completions s i ops)"
    "sched_inv (do_dispatch s op)"
  using inv_push [OF assms] assms
  by (simp_all add: post_immediate_completion_def post_immediate_completions_def post_deferred_completion_def
      post_deferred_completions_def do_dispatch_def push_private_def inv_upd_private)

lemma work_finished_fields [simp]:
  "op_queue (work_finished s i) = op_queue s" "stopped (work_finished s i) = stopped s"
  "task (work_finished s i) = task s" "ev_state (work_finished s i) = ev_state s"
  "task_interrupted (work_finished s i) = task_interrupted s"
  "reactor_interrupted (work_finished s i) = reactor_interrupted s" "pcs (work_finished s i) = pcs s"
proof -
  have "pcs (s\<lparr>outstanding_work := x\<rparr>) = pcs s" for x by (simp add: pcs_def)
  then show "pcs (work_finished s i) = pcs s" by (simp add: work_finished_def Let_def)
qed (simp_all add: work_finished_def Let_def)

lemma inv_init_task:
  assumes "sched_inv s" shows "sched_inv (init_task s)"
proof (cases "\<not> shutdown s \<and> \<not> task s")
  case True
  let ?s = "s\<lparr>task := True, op_queue := op_queue s @ [Task_Op]\<rparr>"
  have p: "pcs ?s = pcs s" by (simp add: pcs_def)
  have "core ?s (pcs ?s)" using assms True unfolding p by (simp add: sched_inv_def core_def)
  moreover have "stop_seen ?s (pcs ?s)"
    unfolding p by (rule stop_seen_fields [of s]) (use assms in \<open>simp_all add: sched_inv_def\<close>)
  ultimately show ?thesis using inv_wake True by (simp add: init_task_def)
qed (use assms in \<open>auto simp: init_task_def\<close>)

lemma inv_call:
  assumes "sched_inv s" shows "sched_inv (do_call s i c)"
proof (cases c)
  case Restart
  then show ?thesis using inv_same [OF assms, of "sched_restart s"] by (simp add: sched_restart_def pcs_def)
next
  case Work_Finished
  then show ?thesis using inv_same [OF assms, of "work_finished s i"] by simp
next
  case Work_Started
  then show ?thesis using inv_same [OF assms, of "work_started s"] by (simp add: work_started_def pcs_def)
next
  case (Abandon ops)
  then show ?thesis using inv_same [OF assms, of "abandon_operations s ops"]
    by (simp add: abandon_operations_def pcs_def)
qed (use assms in \<open>simp_all add: inv_posts inv_stop inv_init_task compensating_work_started_def inv_upd_private\<close>)

text \<open>A thread that is neither waiting nor in the task can start a round.\<close>

lemma inv_pc: "sched_inv s \<Longrightarrow> i < length (pcs s) \<Longrightarrow> running (pc_of s i)"
  using core_others(5) by (simp add: sched_inv_def)

lemma core_of_others:
  assumes "sched_inv s" "i < length (pcs s)" "\<not> waiting (pc_of s i)" "\<not> in_task (pc_of s i)"
  shows "round_pre s i"
proof -
  have c: "core s (pcs s)" and st: "stop_seen s (pcs s)" using assms(1) by (simp_all add: sched_inv_def)
  note o = core_others [OF assms(2) c]
  have "core s (others s i)" unfolding core_def using o(1-4) assms(3,4) by simp
  moreover have "stop_seen s (others s i)"
    using st set_others(1) [OF assms(2)] by (simp add: stop_seen_def)
  ultimately show ?thesis using assms(2) by (simp add: round_pre_def)
qed

lemma round_fields:
  assumes "round_pre s i" "pcs s' = pcs s" "ev_state s' = ev_state s" "op_queue s' = op_queue s @ map Op ops"
    "task s' = task s" "task_interrupted s' = task_interrupted s" "stopped s' = stopped s"
    "reactor_interrupted s' = reactor_interrupted s"
  shows "round_pre s' i"
proof -
  have o: "others s' i = others s i" using assms(2) by (simp add: others_def)
  have "core s' (others s i)" using assms by (simp add: round_pre_def core_def)
  moreover have "stop_seen s' (others s i)"
    by (rule stop_seen_fields [of s]) (use assms in \<open>simp_all add: round_pre_def\<close>)
  ultimately show ?thesis using assms(1,2) o by (simp add: round_pre_def)
qed

lemma inv_up:
  assumes "round_pre s i" "in_sched p" "\<not> waiting p" "\<not> in_task p" "\<not> blocked p" "running p"
    "pcs s' = (pcs s)[i := p]" "ev_state s' = ev_state s" "op_queue s' = op_queue s"
    "stopped s' = stopped s" "task s' = task s" "task_interrupted s' = task_interrupted s"
    "reactor_interrupted s' = reactor_interrupted s"
  shows "sched_inv s'"
  by (rule inv_set_up [of i s p]) (use assms in \<open>simp_all add: round_pre_def\<close>)

lemma inv_enter:
  assumes inv: "sched_inv s" and i: "i < length (pcs s)" and p: "\<not> in_sched (pc_of s i)"
  shows "sched_inv (sched_enter s i M_Run)"
proof -
  have r: "round_pre s i"
    by (rule core_of_others [OF inv i]) (use p in \<open>cases "pc_of s i"; simp\<close>)+
  have e: "pcs (upd_thread s i (\<lambda>t. t\<lparr>tpc := p\<rparr>)) = (pcs s)[i := p]" for p
    using pcs_simps(1) [of s i p] by (simp add: set_pc_def)
  have l: "pcs (upd_thread s i (\<lambda>t. t\<lparr>tpc := Lock M_Run 0, private_op_queue := [], private_outstanding_work := 0\<rparr>)) =
      (pcs s)[i := Lock M_Run 0]"
    by (simp add: pcs_def upd_thread_def map_update)
  have "sched_inv (upd_thread s i (\<lambda>t. t\<lparr>tpc := Returned 0, must_stop := True\<rparr>))" (is "sched_inv ?s")
  proof (rule inv_update [of i s])
    have c: "core s (others s i)" and st: "stop_seen s (others s i)" using r by (auto simp: round_pre_def)
    have a: "asleep ?s q = asleep s q" for q by (rule asleep_fields) simp_all
    then have u: "up ?s q = up s q" for q by (simp add: up_def)
    show "i < length (pcs s)" by (rule i)
    show "pcs ?s = (pcs s)[i := Returned 0]" by (simp add: pcs_def upd_thread_def map_update)
    show "\<exists>b. ev_state ?s = 2 * (cnt waiting (others s i) + of_bool (waiting (Returned 0))) + of_bool b"
      using c by (simp add: core_def)
    show "cnt in_task (others s i) + of_bool (in_task (Returned 0)) + cnt ((=) Task_Op) (op_queue ?s) = of_bool (task ?s)"
      using c by (simp add: core_def)
    show "\<forall>q \<in> insert (Returned 0) (set (others s i)). blocked q \<and> task_interrupted ?s \<longrightarrow> reactor_interrupted ?s"
      using c unfolding core_def by auto
    show "\<forall>q \<in> set (others s i). running q" using c by (simp add: core_def)
    have n: "\<not> asleep s (Returned 0)" by (simp add: asleep_def)
    show "stopped ?s \<longrightarrow> (\<forall>q \<in> insert (Returned 0) (set (others s i)). \<not> asleep ?s q)"
      using st n by (simp add: stop_seen_def a)
    have "\<not> up s (pc_of s i)" using p by (simp add: up_def)
    then show "served ?s (Returned 0 # others s i)"
      using inv n set_others(1) [OF i] by (auto simp: sched_inv_def served_def a u)
  qed simp
  moreover have "sched_inv (upd_thread s i (\<lambda>t. t\<lparr>tpc := Lock M_Run 0, private_op_queue := [], private_outstanding_work := 0\<rparr>))"
    by (rule inv_up [OF r, of "Lock M_Run 0"]) (simp_all add: l)
  ultimately show ?thesis by (simp add: sched_enter_def)
qed

text \<open>Only one thread has the task.\<close>

lemma task_unique:
  assumes "core s (pcs s)" "i < length (pcs s)" "in_task (pc_of s i)"
  shows "q \<in> set (others s i) \<Longrightarrow> \<not> blocked q" and "cnt in_task (others s i) = 0"
    and "cnt ((=) Task_Op) (op_queue s) = 0" and "task s"
proof -
  have t: "cnt in_task (others s i) + 1 + cnt ((=) Task_Op) (op_queue s) = of_bool (task s)"
    using core_others(2) [OF assms(2,1)] assms(3) by simp
  have "0 \<le> cnt in_task (others s i)" "0 \<le> cnt ((=) Task_Op) (op_queue s)" "of_bool (task s) \<le> (1 :: int)"
    by simp_all
  with t show z: "cnt in_task (others s i) = 0" "cnt ((=) Task_Op) (op_queue s) = 0" by linarith+
  show "task s" using t z by (cases "task s") simp_all
  show "q \<in> set (others s i) \<Longrightarrow> \<not> blocked q"
    using z(1) cnt_pos [of in_task "others s i"] by (cases q) auto
qed

lemma inv_task_cleanup:
  assumes inv: "sched_inv s" and i: "i < length (pcs s)" and p: "pc_of s i = Task_Cleanup M_Run n True"
  shows "sched_inv (do_run_one (task_cleanup s i) i M_Run n)"
proof (rule do_run_one_ok)
  let ?s = "task_cleanup s i"
  have c: "core s (pcs s)" and st: "stop_seen s (pcs s)" using inv by (simp_all add: sched_inv_def)
  have f: "pcs ?s = pcs s" "op_queue ?s = op_queue s @ map Op (private_op_queue (threads s ! i)) @ [Task_Op]"
    "ev_state ?s = ev_state s" "task ?s = task s" "stopped ?s = stopped s"
    "reactor_interrupted ?s = reactor_interrupted s" "task_interrupted ?s"
    by (simp_all add: task_cleanup_def) (simp add: pcs_def)
  have o: "others ?s i = others s i" using f(1) by (simp add: others_def)
  note u = task_unique [OF c i] core_others [OF i c]
  have "core ?s (others s i)"
    unfolding core_def f using u p by simp
  moreover have "stop_seen ?s (others s i)"
    by (rule stop_seen_fields [of s]) (use st f set_others(1) [OF i] in \<open>simp_all add: stop_seen_def\<close>)
  ultimately show "round_pre ?s i" using i f(1) o by (simp add: round_pre_def)
qed

lemma inv_handler_end:
  assumes inv: "sched_inv s" and i: "i < length (pcs s)" and p: "pc_of s i = Work_Cleanup M_Run n True"
  shows "sched_inv (handler_end s i M_Run n True)"
proof -
  let ?ops = "private_op_queue (threads s ! i)"
  let ?s1 = "upd_thread (push_ops s ?ops) i (\<lambda>t. t\<lparr>private_op_queue := []\<rparr>)"
  have r: "round_pre s i" by (rule core_of_others [OF inv i]) (use p in simp_all)
  have f: "pcs ?s1 = pcs s" "ev_state ?s1 = ev_state s" "op_queue ?s1 = op_queue s @ map Op ?ops"
    "stopped ?s1 = stopped s" "task ?s1 = task s" "task_interrupted ?s1 = task_interrupted s"
    "reactor_interrupted ?s1 = reactor_interrupted s"
    by (simp_all add: push_ops_def) (simp add: pcs_def)
  have r1: "round_pre ?s1 i" by (rule round_fields [OF r]) (use f in simp_all)
  have "sched_inv (set_pc ?s1 i (Lock M_Run (count_handler n)))"
    by (rule inv_up [OF r1]) simp_all
  then show ?thesis using do_run_one_ok [OF r1]
    by (cases "?ops = []") (simp_all add: handler_end_def locked_round_def Let_def)
qed

lemma inv_woken:
  assumes inv: "sched_inv s" and i: "i < length (pcs s)" and p: "pc_of s i = Event_Wait M_Run n"
  shows "sched_inv (event_woken s i M_Run n)"
proof -
  let ?s1 = "ev_end_wait s"
  have c: "core s (pcs s)" and st: "stop_seen s (pcs s)" using inv by (simp_all add: sched_inv_def)
  note o = core_others [OF i c]
  have f: "pcs ?s1 = pcs s" "op_queue ?s1 = op_queue s" "stopped ?s1 = stopped s" "task ?s1 = task s"
    "task_interrupted ?s1 = task_interrupted s" "reactor_interrupted ?s1 = reactor_interrupted s"
    "ev_state ?s1 = ev_state s - 2"
    by (simp_all add: ev_end_wait_def) (simp add: pcs_def)
  have os: "others ?s1 i = others s i" using f(1) by (simp add: others_def)
  obtain b where b: "ev_state s = 2 * (cnt waiting (others s i) + 1) + of_bool b" using o(1) p by auto
  then have e: "ev_state ?s1 = 2 * cnt waiting (others s i) + of_bool b" using f(7) by simp
  have sig: "ev_signalled ?s1 = ev_signalled s" using signalled_iff [OF b] signalled_iff [OF e] by simp
  have a: "asleep ?s1 q = asleep s q" for q using sig f(6) by (simp add: asleep_def)
  have "core ?s1 (others s i)" unfolding core_def f(2-6) using e o(2-4) p by auto
  moreover have "stop_seen ?s1 (others s i)" using st set_others(1) [OF i] f(3) by (simp add: stop_seen_def a)
  ultimately have "round_pre ?s1 i" using i f(1) os by (simp add: round_pre_def)
  from do_run_one_ok [OF this] have "sched_inv (do_run_one ?s1 i M_Run n)" .
  moreover have "ev_begin_wait ?s1 = s" by (simp add: ev_begin_wait_def ev_end_wait_def)
  ultimately show ?thesis using inv by (simp add: event_woken_def locked_round_def Let_def)
qed

lemma inv_task_returns:
  assumes inv: "sched_inv s" and i: "i < length (pcs s)" and p: "pc_of s i = In_Task M_Run n usec"
  shows "sched_inv (task_returns s i M_Run n ops True)"
proof (rule inv_update [of i s])
  let ?s = "task_returns s i M_Run n ops True" and ?p = "Task_Cleanup M_Run n True"
  have c: "core s (pcs s)" and st: "stop_seen s (pcs s)" using inv by (simp_all add: sched_inv_def)
  note u = task_unique [OF c i] core_others [OF i c]
  have f: "op_queue ?s = op_queue s" "stopped ?s = stopped s" "task ?s = task s" "ev_state ?s = ev_state s"
    "task_interrupted ?s = task_interrupted s"
    by (simp_all add: task_returns_def Let_def)
  have nb: "\<not> blocked q" if "q \<in> set (others s i)" for q using u(1) p that by simp
  have a: "asleep ?s q \<Longrightarrow> asleep s q" if "q \<in> set (others s i)" for q
    using nb [OF that] f(4) by (simp add: asleep_def ev_signalled_def)
  have na: "\<not> asleep ?s ?p" by (simp add: asleep_def)
  show "i < length (pcs s)" by (rule i)
  show "pcs ?s = (pcs s)[i := ?p]" by (simp add: task_returns_def Let_def pcs_def upd_thread_def map_update)
  show "\<exists>b. ev_state ?s = 2 * (cnt waiting (others s i) + of_bool (waiting ?p)) + of_bool b"
    using u(5) p f(4) by simp
  show "cnt in_task (others s i) + of_bool (in_task ?p) + cnt ((=) Task_Op) (op_queue ?s) = of_bool (task ?s)"
    using u(6) p f by simp
  show "\<forall>q \<in> insert ?p (set (others s i)). blocked q \<and> task_interrupted ?s \<longrightarrow> reactor_interrupted ?s"
    using nb by auto
  show "\<forall>q \<in> set (others s i). running q" using u(8) .
  show "stopped ?s \<longrightarrow> (\<forall>q \<in> insert ?p (set (others s i)). \<not> asleep ?s q)"
    using st a na f(2) set_others(1) [OF i] by (auto simp: stop_seen_def)
  show "served ?s (?p # others s i)" using na by (simp add: served_def up_def)
qed simp

lemma inv_handler_done:
  assumes inv: "sched_inv s" and i: "i < length (pcs s)" and p: "pc_of s i = In_Handler M_Run n op"
  shows "sched_inv (set_pc (work_cleanup (s\<lparr>completed := completed s @ [op]\<rparr>) i) i (Work_Cleanup M_Run n True))"
proof -
  have r: "round_pre s i" by (rule core_of_others [OF inv i]) (use p in simp_all)
  let ?s1 = "s\<lparr>completed := completed s @ [op]\<rparr>"
  have x: "pcs (s\<lparr>completed := completed s @ [op], outstanding_work := w\<rparr>) = pcs s"
    "pcs ?s1 = pcs s" for w
    by (simp_all add: pcs_def)
  show ?thesis
    by (rule inv_up [OF r, of "Work_Cleanup M_Run n True"]) (simp_all add: work_cleanup_def Let_def x)
qed

lemma sched_inv_step:
  assumes inv: "sched_inv s" and e: "run_event e" and st: "sched_step s e = Some s'"
  shows "sched_inv s'"
proof -
  let ?i = "event_thread e"
  have i: "?i < length (pcs s)" using st by (auto simp: sched_step_def pcs_def Let_def split: if_splits)
  note m = inv_pc [OF inv i]
  show ?thesis
  proof (cases e)
    case (Enter j md)
    then show ?thesis using st e i inv_enter [OF inv i]
      by (auto simp: sched_step_def Let_def split: if_splits)
  next
    case (Take_Lock j)
    have w: "?i = j" using Take_Lock by simp
    show ?thesis
    proof (cases "pc_of s j")
      case (Lock md n)
      have "round_pre s j" using core_of_others [OF inv i] Lock w by simp
      then show ?thesis using do_run_one_ok m st Lock Take_Lock w
        by (auto simp: sched_step_def Let_def locked_round_def split: if_splits)
    next
      case (Task_Cleanup md n ok)
      then show ?thesis using inv_task_cleanup [OF inv i] m st Take_Lock w
        by (auto simp: sched_step_def Let_def after_task_def split: if_splits)
    next
      case (Work_Cleanup md n ok)
      then show ?thesis using inv_handler_end [OF inv i] m st Take_Lock w
        by (auto simp: sched_step_def Let_def split: if_splits)
    qed (use st Take_Lock in \<open>auto simp: sched_step_def Let_def split: if_splits\<close>)
  next
    case (Wake j)
    then show ?thesis using st m inv_woken [OF inv i]
      by (cases "pc_of s j") (auto simp: sched_step_def Let_def split: if_splits)
  next
    case (Task_Return j ops ok)
    then show ?thesis using st e m inv_task_returns [OF inv i]
      by (cases "pc_of s j") (auto simp: sched_step_def Let_def split: if_splits)
  next
    case (Handler_Done j ok)
    then show ?thesis using st e m inv_handler_done [OF inv i]
      by (cases "pc_of s j") (auto simp: sched_step_def Let_def split: if_splits)
  next
    case (Do_Stop j)
    then show ?thesis using st inv_stop [OF inv] inv_upd_private [of "sched_stop s" "\<lambda>t. t\<lparr>must_stop := False\<rparr>" j]
      by (auto simp: sched_step_def Let_def split: if_splits)
  next
    case (Call j c)
    then show ?thesis using st inv_call [OF inv, of j c]
      by (auto simp: sched_step_def Let_def split: if_splits)
  qed
qed

lemma sched_inv_run:
  "sched_inv s \<Longrightarrow> list_all run_event es \<Longrightarrow> sched_run s es = Some s' \<Longrightarrow> sched_inv s'"
  by (induction es arbitrary: s) (auto split: option.splits dest: sched_inv_step)

lemma sched_inv_new: "sched_inv (scheduler_new hint own n)"
proof -
  have p: "pcs (scheduler_new hint own n) = replicate n Outside"
    by (simp add: pcs_def scheduler_new_def thread_new_def map_replicate)
  have c: "cnt P (replicate n Outside) = 0" if "\<not> P Outside" for P
    using that by (induction n) simp_all
  show ?thesis
    unfolding sched_inv_def p core_def stop_seen_def served_def
    by (simp add: c) (simp add: scheduler_new_def asleep_def, blast)
qed

section \<open>Fields of changed states\<close>

lemma thread_fields [simp]:
  "threads (set_pc s i p) = (threads s)[i := (threads s ! i)\<lparr>tpc := p\<rparr>]"
  "threads (upd_thread s i f) = (threads s)[i := f (threads s ! i)]"
  "outstanding_work (set_pc s i p) = outstanding_work s" "outstanding_work (upd_thread s i f) = outstanding_work s"
  "one_thread (set_pc s i p) = one_thread s" "one_thread (upd_thread s i f) = one_thread s"
  "completed (set_pc s i p) = completed s" "completed (upd_thread s i f) = completed s"
  "destroyed (set_pc s i p) = destroyed s" "destroyed (upd_thread s i f) = destroyed s"
  by (simp_all add: set_pc_def upd_thread_def)

lemma ev_fields [simp]:
  "threads (ev_begin_wait s) = threads s" "threads (ev_clear s) = threads s" "threads (ev_end_wait s) = threads s"
  "threads (unlock_and_signal_one s) = threads s"
  "outstanding_work (ev_begin_wait s) = outstanding_work s" "outstanding_work (ev_clear s) = outstanding_work s"
  "outstanding_work (ev_end_wait s) = outstanding_work s"
  "outstanding_work (unlock_and_signal_one s) = outstanding_work s"
  "op_queue (ev_begin_wait s) = op_queue s" "op_queue (ev_clear s) = op_queue s" "op_queue (ev_end_wait s) = op_queue s"
  "op_queue (unlock_and_signal_one s) = op_queue s"
  "stopped (ev_begin_wait s) = stopped s" "stopped (ev_clear s) = stopped s" "stopped (ev_end_wait s) = stopped s"
  "stopped (unlock_and_signal_one s) = stopped s"
  "completed (ev_begin_wait s) = completed s" "completed (ev_clear s) = completed s"
  "completed (ev_end_wait s) = completed s" "completed (unlock_and_signal_one s) = completed s"
  "destroyed (ev_begin_wait s) = destroyed s" "destroyed (ev_clear s) = destroyed s"
  "destroyed (ev_end_wait s) = destroyed s" "destroyed (unlock_and_signal_one s) = destroyed s"
  by (simp_all add: ev_begin_wait_def ev_clear_def ev_end_wait_def unlock_and_signal_one_def)

section \<open>Properties\<close>


lemmas sched_sim = sched_step_def scheduler_new_def thread_new_def pc_of_def set_pc_def upd_thread_def
  init_task_def wake_one_thread_and_unlock_def maybe_unlock_and_signal_one_def interrupt_task_def
  work_started_def work_finished_def sched_enter_def locked_round_def do_run_one_def run_op_def
  task_returns_def task_cleanup_def after_task_def work_cleanup_def handler_end_def push_ops_def push_op_def
  post_immediate_completion_def contains_def unlock_and_signal_one_def ev_clear_def ev_begin_wait_def
  sched_stop_def stop_all_threads_def ev_signal_all_def ev_signalled_def event_woken_def ev_end_wait_def
  count_handler_def size_max_def asleep_def up_def Let_def




end
