(* ===== verification/Scheduler_Work.thy ===== *)
theory Scheduler_Work
  imports Scheduler_Wake
begin

text \<open>
  The count of outstanding work of asio's scheduler: it is what is held, queued and being run, so work
  that is held keeps \<open>run\<close> from returning.
\<close>

section \<open>The count of work\<close>

text \<open>
  \<open>owed\<close> counts the work that was started and whose operation is with neither the scheduler nor a
  handler: guards, and asynchronous operations in the reactor. A deferred operation and one that
  the reactor completes was counted before; a handler compensates once; nobody stops the
  scheduler; and at least one piece of work stays.
\<close>

definition owed :: "scheduler \<Rightarrow> sched_event \<Rightarrow> int \<Rightarrow> int option" where
  "owed s e g =
     (let g' = (case e of
          Call i c \<Rightarrow>
            (case c of
               Work_Started \<Rightarrow> g + 1
             | Work_Finished \<Rightarrow> g - 1
             | Compensate \<Rightarrow>
                 (if private_outstanding_work (threads s ! i) \<le> int (length (private_op_queue (threads s ! i)))
                  then g + 1 else 0)
             | Post_Deferred op \<Rightarrow> g - 1
             | Post_Deferreds ops \<Rightarrow> g - int (length ops)
             | Posts n ops c \<Rightarrow> (if n = int (length ops) then g else 0)
             | Stop \<Rightarrow> 0
             | _ \<Rightarrow> g)
        | Task_Return i ops ok \<Rightarrow> g - int (length ops)
        | _ \<Rightarrow> g)
      in if g' \<ge> 1 \<and> run_event e then Some g' else None)"

fun guarded_run :: "scheduler \<Rightarrow> int \<Rightarrow> sched_event list \<Rightarrow> (scheduler \<times> int) option" where
  "guarded_run s g [] = Some (s, g)"
| "guarded_run s g (e # es) =
     (case owed s e g of
        None \<Rightarrow> None
      | Some g' \<Rightarrow> (case sched_step s e of None \<Rightarrow> None | Some s' \<Rightarrow> guarded_run s' g' es))"

fun in_handler :: "sched_pc \<Rightarrow> bool" where
  "in_handler (In_Handler _ _ _) = True"
| "in_handler _ = False"

fun may_hold :: "sched_pc \<Rightarrow> bool" where
  "may_hold (In_Handler _ _ _) = True"
| "may_hold (Task_Cleanup _ _ _) = True"
| "may_hold (Work_Cleanup _ _ _) = True"
| "may_hold _ = False"

fun left :: "sched_pc \<Rightarrow> bool" where
  "left (Returned _) = True"
| "left _ = False"

definition load :: "sched_thread \<Rightarrow> int" where
  "load t = int (length (private_op_queue t)) + of_bool (in_handler (tpc t)) - private_outstanding_work t"

definition thread_ok :: "sched_thread \<Rightarrow> bool" where
  "thread_ok t \<longleftrightarrow> 0 \<le> private_outstanding_work t \<and> (private_outstanding_work t \<noteq> 0 \<longrightarrow> in_handler (tpc t)) \<and>
     private_outstanding_work t \<le> int (length (private_op_queue t)) + 1 \<and>
     (private_op_queue t \<noteq> [] \<longrightarrow> may_hold (tpc t)) \<and> \<not> must_stop t \<and> \<not> left (tpc t) \<and> running (tpc t)"

definition queued :: "scheduler \<Rightarrow> int" where
  "queued s = int (length (handlers_of (op_queue s)))"

definition loads :: "sched_thread list \<Rightarrow> int" where
  "loads ts = sum_list (map load ts)"

definition work_inv :: "scheduler \<Rightarrow> int \<Rightarrow> bool" where
  "work_inv s g \<longleftrightarrow> outstanding_work s = g + loads (threads s) + queued s \<and>
     (\<forall>t \<in> set (threads s). thread_ok t) \<and> \<not> stopped s"

lemma load_nonneg: "thread_ok t \<Longrightarrow> 0 \<le> load t"
  by (cases "in_handler (tpc t)") (auto simp: thread_ok_def load_def)

lemma loads_nonneg: "\<forall>t \<in> set ts. thread_ok t \<Longrightarrow> 0 \<le> loads ts"
  by (induction ts) (auto simp: loads_def dest: load_nonneg)

lemma loads_update: "i < length ts \<Longrightarrow> loads (ts[i := x]) = loads ts - load (ts ! i) + load x"
proof (induction ts arbitrary: i)
  case (Cons t ts)
  then show ?case by (cases i) (simp_all add: loads_def)
qed simp

lemma load_le_loads: "\<forall>t \<in> set ts. thread_ok t \<Longrightarrow> i < length ts \<Longrightarrow> load (ts ! i) \<le> loads ts"
proof (induction ts arbitrary: i)
  case (Cons t ts)
  then show ?case
    using loads_nonneg [of ts] load_nonneg [of t] by (cases i) (fastforce simp: loads_def)+
qed simp

lemma work_positive: "work_inv s g \<Longrightarrow> g \<le> outstanding_work s"
  using loads_nonneg [of "threads s"] by (simp add: work_inv_def queued_def)

lemma work_inv_update:
  assumes "work_inv s g" "i < length (threads s)" "threads s' = (threads s)[i := x]"
    and "outstanding_work s' - load x - queued s' - g' = outstanding_work s - load (threads s ! i) - queued s - g"
    and "thread_ok x" "\<not> stopped s'"
  shows "work_inv s' g'"
proof -
  have "\<forall>t \<in> set (threads s'). thread_ok t"
    using assms(1,3,5) set_update_subset_insert [of "threads s" i x] by (auto simp: work_inv_def)
  then show ?thesis
    using assms loads_update [OF assms(2), of x] by (simp add: work_inv_def)
qed

lemma work_inv_same:
  "work_inv s g \<Longrightarrow> threads s' = threads s \<Longrightarrow> outstanding_work s' = outstanding_work s \<Longrightarrow>
     queued s' = queued s \<Longrightarrow> stopped s' = stopped s \<Longrightarrow> work_inv s' g"
  by (simp add: work_inv_def)

text \<open>A thread with nothing of its own.\<close>

definition idle :: "sched_thread \<Rightarrow> bool" where
  "idle t \<longleftrightarrow> private_op_queue t = [] \<and> private_outstanding_work t = 0 \<and> \<not> must_stop t \<and> \<not> in_handler (tpc t)"

lemma work_round:
  assumes w: "work_inv s g" and i: "i < length (threads s)" and t: "idle (threads s ! i)"
  shows "work_inv (do_run_one s i M_Run n) g"
proof (cases "op_queue s")
  case Nil
  show ?thesis
    by (rule work_inv_update [OF w i, of _ "(threads s ! i)\<lparr>tpc := Event_Wait M_Run n\<rparr>"])
      (use w t Nil in \<open>simp_all add: do_run_one_def work_inv_def queued_def load_def thread_ok_def idle_def\<close>)
next
  case (Cons o' rest)
  show ?thesis
  proof (cases o')
    case Task_Op
    show ?thesis
      by (rule work_inv_update [OF w i, of _ "(threads s ! i)\<lparr>tpc := In_Task M_Run n (if rest \<noteq> [] then 0 else -1)\<rparr>"])
        (use w t Cons Task_Op in \<open>simp_all add: do_run_one_def Let_def work_inv_def queued_def load_def thread_ok_def idle_def\<close>)
  next
    case (Op op)
    show ?thesis
      by (rule work_inv_update [OF w i, of _ "(threads s ! i)\<lparr>tpc := In_Handler M_Run n op\<rparr>"])
        (use w t Cons Op in \<open>simp_all add: do_run_one_def run_op_def Let_def work_inv_def queued_def load_def
          thread_ok_def idle_def\<close>)
  qed
qed

lemma handlers_of_append [simp]: "handlers_of (q @ r) = handlers_of q @ handlers_of r"
  by (induction q rule: handlers_of.induct) simp_all

lemma handlers_of_map_Op [simp]: "handlers_of (map Op ops) = ops"
  by (induction ops) simp_all

lemma work_thread: "work_inv s g \<Longrightarrow> i < length (threads s) \<Longrightarrow> thread_ok (threads s ! i)"
  by (simp add: work_inv_def)

lemma work_task_cleanup:
  assumes w: "work_inv s g" and i: "i < length (threads s)" and p: "pc_of s i = Task_Cleanup M_Run n True"
  shows "work_inv (do_run_one (task_cleanup s i) i M_Run n) g"
proof (rule work_round)
  note t = work_thread [OF w i]
  show "work_inv (task_cleanup s i) g"
    by (rule work_inv_update [OF w i, of _ "(threads s ! i)\<lparr>private_op_queue := []\<rparr>"])
      (use w t p in \<open>simp_all add: task_cleanup_def work_inv_def queued_def load_def thread_ok_def pc_of_def\<close>)
  show "i < length (threads (task_cleanup s i))" using i by (simp add: task_cleanup_def)
  show "idle (threads (task_cleanup s i) ! i)"
    using i t p by (simp add: task_cleanup_def idle_def thread_ok_def pc_of_def)
qed

lemma work_handler_end:
  assumes w: "work_inv s g" and i: "i < length (threads s)" and p: "pc_of s i = Work_Cleanup M_Run n True"
  shows "work_inv (handler_end s i M_Run n True) g"
proof -
  note t = work_thread [OF w i]
  let ?ops = "private_op_queue (threads s ! i)"
  let ?s1 = "upd_thread (push_ops s ?ops) i (\<lambda>t. t\<lparr>private_op_queue := []\<rparr>)"
  have w1: "work_inv ?s1 g"
    by (rule work_inv_update [OF w i, of _ "(threads s ! i)\<lparr>private_op_queue := []\<rparr>"])
      (use w t p in \<open>simp_all add: push_ops_def work_inv_def queued_def load_def thread_ok_def pc_of_def\<close>)
  have i1: "i < length (threads ?s1)" and t1: "idle (threads ?s1 ! i)"
    using i t p by (simp_all add: push_ops_def idle_def thread_ok_def pc_of_def)
  have "work_inv (set_pc ?s1 i (Lock M_Run (count_handler n))) g"
    by (rule work_inv_update [OF w1 i1, of _ "(threads ?s1 ! i)\<lparr>tpc := Lock M_Run (count_handler n)\<rparr>"])
      (use w1 i1 t1 in \<open>simp_all add: work_inv_def queued_def load_def thread_ok_def idle_def\<close>)
  then show ?thesis using work_round [OF w1 i1 t1]
    by (cases "?ops = []") (simp_all add: handler_end_def locked_round_def Let_def)
qed

lemma work_woken:
  assumes w: "work_inv s g" and i: "i < length (threads s)" and p: "pc_of s i = Event_Wait M_Run n"
  shows "work_inv (event_woken s i M_Run n) g"
proof -
  have w1: "work_inv (ev_end_wait s) g" by (rule work_inv_same [OF w]) (simp_all add: queued_def)
  have "work_inv (ev_begin_wait (ev_end_wait s)) g" by (rule work_inv_same [OF w1]) (simp_all add: queued_def)
  moreover have "work_inv (do_run_one (ev_end_wait s) i M_Run n) g"
    by (rule work_round [OF w1]) (use i p work_thread [OF w i] in \<open>simp_all add: idle_def thread_ok_def pc_of_def\<close>)
  ultimately show ?thesis by (simp add: event_woken_def locked_round_def Let_def)
qed

lemma work_enter:
  assumes w: "work_inv s g" and i: "i < length (threads s)" and p: "\<not> in_sched (pc_of s i)" and g: "1 \<le> g"
  shows "work_inv (sched_enter s i M_Run) g"
proof -
  note t = work_thread [OF w i]
  have o: "outstanding_work s \<noteq> 0" using work_positive [OF w] g by simp
  have h: "\<not> in_handler (tpc (threads s ! i))" "\<not> may_hold (tpc (threads s ! i))"
    using p by (cases "tpc (threads s ! i)"; simp add: pc_of_def)+
  show ?thesis
    by (rule work_inv_update [OF w i, of _ "(threads s ! i)\<lparr>tpc := Lock M_Run 0, private_op_queue := [],
          private_outstanding_work := 0\<rparr>"])
      (use w t h o in \<open>simp_all add: sched_enter_def work_inv_def queued_def load_def thread_ok_def\<close>)
qed

lemma work_task_returns:
  assumes w: "work_inv s g" and i: "i < length (threads s)" and p: "pc_of s i = In_Task M_Run n usec"
  shows "work_inv (task_returns s i M_Run n ops True) (g - int (length ops))"
proof -
  note t = work_thread [OF w i]
  show ?thesis
    by (rule work_inv_update [OF w i, of _ "(threads s ! i)\<lparr>tpc := Task_Cleanup M_Run n True,
          private_op_queue := private_op_queue (threads s ! i) @ ops, private_outstanding_work := 0\<rparr>"])
      (use w t p in \<open>simp_all add: task_returns_def Let_def work_inv_def queued_def load_def thread_ok_def pc_of_def\<close>)
qed

lemma work_handler_done:
  assumes w: "work_inv s g" and i: "i < length (threads s)" and p: "pc_of s i = In_Handler M_Run n op" and g: "1 \<le> g"
  shows "work_inv (set_pc (work_cleanup (s\<lparr>completed := completed s @ [op]\<rparr>) i) i (Work_Cleanup M_Run n True)) g"
proof -
  note t = work_thread [OF w i]
  have all: "\<forall>t \<in> set (threads s). thread_ok t" and o: "outstanding_work s = g + loads (threads s) + queued s"
    using w by (simp_all add: work_inv_def)
  have "load (threads s ! i) \<le> loads (threads s)" by (rule load_le_loads [OF all i])
  then have l: "g + load (threads s ! i) \<le> outstanding_work s" using o by (simp add: queued_def)
  let ?w = "private_outstanding_work (threads s ! i)"
  have "?w = 0 \<Longrightarrow> 1 < outstanding_work s" using l g t p by (simp add: load_def pc_of_def)
  then have nz: "?w < 1 \<Longrightarrow> outstanding_work s - 1 \<noteq> 0 \<and> ?w = 0" using t by (simp add: thread_ok_def)
  show ?thesis
    by (rule work_inv_update [OF w i, of _ "(threads s ! i)\<lparr>private_outstanding_work := 0, tpc := Work_Cleanup M_Run n True\<rparr>"])
      (use i w t p nz in \<open>auto simp: work_cleanup_def work_finished_def Let_def work_inv_def queued_def load_def
         thread_ok_def pc_of_def\<close>)
qed

lemma work_wake: "work_inv (wake_one_thread_and_unlock s) g = work_inv s g"
  by (simp add: work_inv_def queued_def)

lemma work_private:
  assumes w: "work_inv s g" and i: "i < length (threads s)" and p: "in_handler (pc_of s i)"
    and n: "0 \<le> n" "n \<le> int (length ops)"
  shows "work_inv (push_private s i n ops) (g + n - int (length ops))"
  unfolding push_private_def
  by (rule work_inv_update [OF w i, of _ "(threads s ! i)\<lparr>private_op_queue := private_op_queue (threads s ! i) @ ops,
        private_outstanding_work := private_outstanding_work (threads s ! i) + n\<rparr>"])
    (use w work_thread [OF w i] p n in \<open>auto simp: work_inv_def queued_def load_def thread_ok_def pc_of_def
       elim: in_handler.elims\<close>)

lemma work_push:
  assumes "work_inv s g"
  shows "work_inv (push_ops (s\<lparr>outstanding_work := outstanding_work s + n\<rparr>) ops) (g + n - int (length ops))"
  using assms by (simp add: work_inv_def push_ops_def queued_def)

lemma own_contains: "own_code p \<Longrightarrow> in_sched p \<longleftrightarrow> in_handler p"
  by (cases p) simp_all

lemma work_posts:
  assumes w: "work_inv s g" and i: "i < length (threads s)" and o: "own_code (pc_of s i)"
  shows "work_inv (post_immediate_completion s i op c) g" "work_inv (do_dispatch s op) g"
    "work_inv (post_immediate_completions s i (int (length ops)) ops c) g"
    "work_inv (post_deferred_completion s i op) (g - 1)"
    "work_inv (post_deferred_completions s i ops) (g - int (length ops))"
proof -
  have c: "contains s i \<Longrightarrow> in_handler (pc_of s i)" using own_contains [OF o] by (simp add: contains_def)
  have e: "push_op (work_started s) op = push_ops (s\<lparr>outstanding_work := outstanding_work s + 1\<rparr>) [op]"
    "push_op s op = push_ops (s\<lparr>outstanding_work := outstanding_work s + 0\<rparr>) [op]"
    "push_ops s ops = push_ops (s\<lparr>outstanding_work := outstanding_work s + 0\<rparr>) ops"
    by (simp_all add: push_op_def push_ops_def work_started_def)
  note p = work_private [OF w i c] and q = work_push [OF w]
  show "work_inv (do_dispatch s op) g" using q [of 1 "[op]"] by (simp add: do_dispatch_def work_wake e(1))
  show "work_inv (post_immediate_completion s i op c) g"
    using p [of 1 "[op]"] q [of 1 "[op]"] by (simp add: post_immediate_completion_def work_wake e(1))
  show "work_inv (post_immediate_completions s i (int (length ops)) ops c) g"
    using p [of "int (length ops)" ops] q [of "int (length ops)" ops]
    by (simp add: post_immediate_completions_def work_wake)
  show "work_inv (post_deferred_completion s i op) (g - 1)"
    using p [of 0 "[op]"] q [of 0 "[op]"] by (simp add: post_deferred_completion_def work_wake push_op_def push_ops_def)
  show "work_inv (post_deferred_completions s i ops) (g - int (length ops))"
    using w p [of 0 ops] q [of 0 ops] by (simp add: post_deferred_completions_def work_wake)
qed

lemma work_compensate:
  assumes w: "work_inv s g" and i: "i < length (threads s)" and h: "in_handler (pc_of s i)"
    and p: "private_outstanding_work (threads s ! i) \<le> int (length (private_op_queue (threads s ! i)))"
  shows "work_inv (compensating_work_started s i) (g + 1)"
  unfolding compensating_work_started_def
  by (rule work_inv_update [OF w i, of _ "(threads s ! i)\<lparr>private_outstanding_work := private_outstanding_work (threads s ! i) + 1\<rparr>"])
    (use w work_thread [OF w i] h p in \<open>auto simp: work_inv_def queued_def load_def thread_ok_def pc_of_def\<close>)

lemma work_call:
  assumes w: "work_inv s g" and i: "i < length (threads s)" and o: "own_code (pc_of s i)"
    and k: "c = Compensate \<longrightarrow> in_sched (pc_of s i)" and g: "owed s (Call i c) g = Some g'"
  shows "work_inv (do_call s i c) g'"
proof (cases c)
  case Work_Finished
  then have g': "g' = g - 1" "1 \<le> g'" using g by (auto simp: owed_def split: if_splits)
  then have "outstanding_work s - 1 \<noteq> 0" using work_positive [OF w] by simp
  then show ?thesis using w Work_Finished g' by (simp add: work_finished_def work_inv_def queued_def)
next
  case Work_Started
  then show ?thesis using w g by (auto simp: owed_def work_started_def work_inv_def queued_def split: if_splits)
next
  case Compensate
  then have "in_handler (pc_of s i)" using k own_contains [OF o] by simp
  then show ?thesis using Compensate work_compensate [OF w i] g by (auto simp: owed_def split: if_splits)
next
  case (Posts n ops d)
  then show ?thesis using work_posts(3) [OF w i o] g by (auto simp: owed_def split: if_splits)
next
  case Init_Task
  have "queued (init_task s) = queued s" by (simp add: init_task_def queued_def)
  then have "work_inv (init_task s) g" by (intro work_inv_same [OF w]) (simp_all add: init_task_def)
  then show ?thesis using Init_Task g by (auto simp: owed_def split: if_splits)
next
  case Stop
  then show ?thesis using g by (simp add: owed_def)
qed (use w g work_posts [OF w i o] in \<open>auto simp: owed_def Let_def sched_restart_def abandon_operations_def work_inv_def
      queued_def split: if_splits\<close>)

lemma work_step:
  assumes w: "work_inv s g" and g: "1 \<le> g" and o: "owed s e g = Some g'" and st: "sched_step s e = Some s'"
  shows "work_inv s' g' \<and> 1 \<le> g'"
proof -
  have g': "1 \<le> g'" and ev: "run_event e" using o by (auto simp: owed_def Let_def split: if_splits)
  let ?i = "event_thread e"
  have i: "?i < length (threads s)" using st by (auto simp: sched_step_def Let_def split: if_splits)
  have t: "\<not> must_stop (threads s ! ?i)" and r: "running (pc_of s ?i)"
    using work_thread [OF w i] by (simp_all add: thread_ok_def pc_of_def)
  have "work_inv s' g'"
  proof (cases e)
    case (Enter j md)
    then show ?thesis using st ev o i work_enter [OF w i] g
      by (auto simp: sched_step_def Let_def owed_def split: if_splits)
  next
    case (Take_Lock j)
    have eq: "?i = j" "g' = g" using Take_Lock o by (auto simp: owed_def split: if_splits)
    show ?thesis
    proof (cases "pc_of s j")
      case (Lock md n)
      have "idle (threads s ! j)"
        using work_thread [OF w i] Lock eq by (simp add: thread_ok_def idle_def pc_of_def)
      then have "work_inv (do_run_one s j M_Run n) g" using work_round [OF w] i eq by simp
      then show ?thesis using r st Lock Take_Lock eq
        by (auto simp: sched_step_def Let_def locked_round_def split: if_splits)
    next
      case (Task_Cleanup md n ok)
      then show ?thesis using work_task_cleanup [OF w i] r st Take_Lock eq
        by (auto simp: sched_step_def Let_def after_task_def split: if_splits)
    next
      case (Work_Cleanup md n ok)
      then show ?thesis using work_handler_end [OF w i] r st Take_Lock eq
        by (auto simp: sched_step_def Let_def split: if_splits)
    qed (use st Take_Lock in \<open>auto simp: sched_step_def Let_def split: if_splits\<close>)
  next
    case (Wake j)
    then show ?thesis using st r o work_woken [OF w i]
      by (cases "pc_of s j") (auto simp: sched_step_def Let_def owed_def split: if_splits)
  next
    case (Task_Return j ops ok)
    then show ?thesis using st ev r o work_task_returns [OF w i]
      by (cases "pc_of s j") (auto simp: sched_step_def Let_def owed_def split: if_splits)
  next
    case (Handler_Done j ok)
    then show ?thesis using st ev r o work_handler_done [OF w i] g
      by (cases "pc_of s j") (auto simp: sched_step_def Let_def owed_def split: if_splits)
  next
    case (Do_Stop j)
    then show ?thesis using st t by (auto simp: sched_step_def Let_def split: if_splits)
  next
    case (Call j c)
    then have s': "s' = do_call s j c" "own_code (pc_of s j)" "c = Compensate \<longrightarrow> in_sched (pc_of s j)"
      using st by (auto simp: sched_step_def Let_def split: if_splits)
    have j: "j < length (threads s)" using i Call by simp
    show ?thesis unfolding s'(1) by (rule work_call [OF w j s'(2,3)]) (use o Call in simp)
  qed
  then show ?thesis using g' by blast
qed

lemma work_run:
  "work_inv s g \<Longrightarrow> 1 \<le> g \<Longrightarrow> guarded_run s g es = Some (s', g') \<Longrightarrow> work_inv s' g' \<and> 1 \<le> g'"
  by (induction es arbitrary: s g) (auto split: option.splits dest: work_step)

section \<open>Property\<close>

text \<open>C15: Work that is held keeps \<open>run\<close> from returning. As long as nobody calls \<open>stop\<close> and at least
  one piece of work is held, as by a work guard or a pending asynchronous operation, the scheduler
  is not stopped, its count of outstanding work is at least what is held, and no thread has
  returned from \<open>run\<close>.\<close>

theorem held_work_keeps_running:
  assumes "guarded_run (scheduler_new hint False n) 0 (Call i Work_Started # es) = Some (s, g)"
  shows "\<not> stopped s \<and> 1 \<le> g \<and> g \<le> outstanding_work s \<and>
     (\<nexists>j k. j < length (threads s) \<and> (pc_of s j = Returned k \<or> pc_of s j = Thrown))"
proof -
  let ?s0 = "scheduler_new hint False n"
  obtain s1 where s1: "sched_step ?s0 (Call i Work_Started) = Some s1" "guarded_run s1 1 es = Some (s, g)"
    using assms by (auto simp: owed_def split: option.splits)
  have l: "sum_list (map load (replicate k thread_new)) = 0" for k
    by (induction k) (simp_all add: load_def thread_new_def)
  have "work_inv ?s0 0"
    using l by (simp add: work_inv_def scheduler_new_def queued_def loads_def thread_ok_def thread_new_def)
  moreover have "s1 = work_started ?s0"
    using s1(1) by (auto simp: sched_step_def Let_def split: if_splits)
  ultimately have "work_inv s1 1" by (simp add: work_inv_def work_started_def queued_def)
  then have w: "work_inv s g" "1 \<le> g" using work_run [OF _ _ s1(2)] by auto
  have "pc_of s j \<noteq> Returned k \<and> pc_of s j \<noteq> Thrown" if "j < length (threads s)" for j k
    using work_thread [OF w(1) that] by (auto simp: thread_ok_def pc_of_def)
  then show ?thesis using w work_positive [OF w(1)] by (auto simp: work_inv_def)
qed

theorem held_work_keeps_running_witness:
  "\<exists>s. guarded_run (scheduler_new (-1) False 2) 0
       [Call 1 Work_Started, Call 0 Init_Task, Enter 1 M_Run, Take_Lock 1, Call 0 (Post 7 False),
        Task_Return 1 [] True, Take_Lock 1, Handler_Done 1 True, Take_Lock 1] = Some (s, 1) \<and>
     completed s = [7] \<and> \<not> stopped s \<and> 1 \<le> outstanding_work s"
proof -
  let ?es = "[Call 0 Init_Task, Enter 1 M_Run, Take_Lock 1, Call 0 (Post 7 False),
        Task_Return 1 [] True, Take_Lock 1, Handler_Done 1 True, Take_Lock 1]"
  have "\<exists>s. guarded_run (scheduler_new (-1) False 2) 0 (Call 1 Work_Started # ?es) = Some (s, 1) \<and> completed s = [7]"
    by (simp add: sched_sim owed_def numeral_2_eq_2)
  then obtain s where s: "guarded_run (scheduler_new (-1) False 2) 0 (Call 1 Work_Started # ?es) = Some (s, 1)"
    "completed s = [7]" by blast
  show ?thesis using held_work_keeps_running [OF s(1)] s by blast
qed

end
