(* ===== verification/Scheduler_Ops.thy ===== *)
theory Scheduler_Ops
  imports Scheduler_Work
begin

text \<open>
  The operations given to asio's scheduler: as a multiset they are those it has run, holds and has
  destroyed.
\<close>

section \<open>Operations are neither lost nor doubled\<close>

fun given_by_call :: "sched_call \<Rightarrow> nat list" where
  "given_by_call (Post op _) = [op]"
| "given_by_call (Posts _ ops _) = ops"
| "given_by_call (Post_Deferred op) = [op]"
| "given_by_call (Post_Deferreds ops) = ops"
| "given_by_call (Dispatch op) = [op]"
| "given_by_call (Abandon ops) = ops"
| "given_by_call _ = []"

text \<open>The operations an event hands to the scheduler.\<close>

fun given :: "sched_event \<Rightarrow> nat list" where
  "given (Call _ c) = given_by_call c"
| "given (Task_Return _ ops _) = ops"
| "given _ = []"

fun hand :: "sched_pc \<Rightarrow> nat multiset" where
  "hand (In_Handler _ _ op) = {#op#}"
| "hand _ = {#}"

definition held :: "sched_thread \<Rightarrow> nat multiset" where
  "held t = mset (private_op_queue t) + hand (tpc t)"

definition helds :: "sched_thread list \<Rightarrow> nat multiset" where
  "helds ts = sum_list (map held ts)"

text \<open>All operations: run, destroyed, queued, in private queues and in handlers.\<close>

definition all_ops :: "scheduler \<Rightarrow> nat multiset" where
  "all_ops s = mset (completed s) + mset (destroyed s) + mset (handlers_of (op_queue s)) + helds (threads s)"

definition private_ok :: "scheduler \<Rightarrow> bool" where
  "private_ok s \<longleftrightarrow> (\<forall>t \<in> set (threads s). private_op_queue t \<noteq> [] \<longrightarrow> may_hold (tpc t))"

lemma helds_update: "i < length ts \<Longrightarrow> helds (ts[i := x]) + held (ts ! i) = helds ts + held x"
proof (induction ts arbitrary: i)
  case (Cons t ts)
  show ?case
  proof (cases i)
    case (Suc j)
    then show ?thesis using Cons.IH [of j] Cons.prems by (simp add: helds_def add.assoc)
  qed (simp add: helds_def ac_simps)
qed simp

lemma ops_update:
  assumes "private_ok s" "i < length (threads s)" "threads s' = (threads s)[i := x]"
    and "mset (completed s') + mset (destroyed s') + mset (handlers_of (op_queue s')) + held x =
         mset (completed s) + mset (destroyed s) + mset (handlers_of (op_queue s)) + held (threads s ! i) + d"
    and "private_op_queue x \<noteq> [] \<longrightarrow> may_hold (tpc x)"
  shows "all_ops s' = all_ops s + d \<and> private_ok s'"
proof
  let ?m = "\<lambda>s. mset (completed s) + mset (destroyed s) + mset (handlers_of (op_queue s))"
  have "?m s' + helds (threads s') + held (threads s ! i) = ?m s' + (helds (threads s) + held x)"
    using helds_update [OF assms(2), of x] by (simp add: assms(3) add.assoc)
  also have "\<dots> = ?m s' + held x + helds (threads s)" by (simp add: ac_simps)
  also have "\<dots> = ?m s + held (threads s ! i) + d + helds (threads s)" by (simp only: assms(4))
  finally have "?m s' + helds (threads s') + held (threads s ! i) = (?m s + helds (threads s) + d) + held (threads s ! i)"
    by (simp add: ac_simps)
  then show "all_ops s' = all_ops s + d" by (simp add: all_ops_def)
  show "private_ok s'"
    using assms(1,3,5) set_update_subset_insert [of "threads s" i x] by (auto simp: private_ok_def)
qed

text \<open>A thread with no operation of its own, at the start of a round.\<close>

definition clear :: "scheduler \<Rightarrow> nat \<Rightarrow> bool" where
  "clear s i \<longleftrightarrow> private_ok s \<and> i < length (threads s) \<and> private_op_queue (threads s ! i) = [] \<and>
     hand (pc_of s i) = {#}"

definition same_ops :: "scheduler \<Rightarrow> scheduler \<Rightarrow> bool" where
  "same_ops s s' \<longleftrightarrow> all_ops s' = all_ops s \<and> private_ok s'"

lemma same_ops_pc:
  assumes "clear s i" "hand p = {#}" "threads s' = (threads s)[i := (threads s ! i)\<lparr>tpc := p\<rparr>]"
    "completed s' = completed s" "destroyed s' = destroyed s" "handlers_of (op_queue s') = handlers_of (op_queue s)"
  shows "same_ops s s'"
proof -
  have "all_ops s' = all_ops s + {#} \<and> private_ok s'"
    by (rule ops_update [of s i s' "(threads s ! i)\<lparr>tpc := p\<rparr>"])
      (use assms in \<open>simp_all add: clear_def held_def pc_of_def\<close>)
  then show ?thesis by (simp add: same_ops_def)
qed

lemma same_ops_run_op:
  assumes "clear s i" "op_queue s = Op op # rest"
  shows "same_ops s (run_op s i m n op rest)"
proof -
  have "all_ops (run_op s i m n op rest) = all_ops s + {#} \<and> private_ok (run_op s i m n op rest)"
    by (rule ops_update [of s i _ "(threads s ! i)\<lparr>tpc := In_Handler m n op\<rparr>"])
      (use assms in \<open>simp_all add: clear_def held_def pc_of_def run_op_def Let_def\<close>)
  then show ?thesis by (simp add: same_ops_def)
qed

lemma maybe_fields [simp]:
  "threads (fst (maybe_unlock_and_signal_one s)) = threads s"
  "op_queue (fst (maybe_unlock_and_signal_one s)) = op_queue s"
  "completed (fst (maybe_unlock_and_signal_one s)) = completed s"
  "destroyed (fst (maybe_unlock_and_signal_one s)) = destroyed s"
  by (simp_all add: maybe_unlock_and_signal_one_def Let_def)

lemma same_ops_round:
  assumes c: "clear s i"
  shows same_ops_run: "same_ops s (do_run_one s i m n)"
    and same_ops_front: "same_ops s (wait_one_front s i m usec n)"
    and same_ops_wait: "same_ops s (do_wait_one s i m usec n)"
    and same_ops_wait_after: "same_ops s (wait_one_after s i m n)"
    and same_ops_poll: "same_ops s (do_poll_one s i m n)"
    and same_ops_poll_after: "same_ops s (poll_one_after s i m n)"
proof -
  note pc = same_ops_pc [OF c]
  have t: "same_ops s (set_pc (if b then unlock_and_signal_one (s\<lparr>op_queue := rest, task_interrupted := x\<rparr>)
        else s\<lparr>op_queue := rest, task_interrupted := x\<rparr>) i (In_Task m n u))"
    if "op_queue s = Task_Op # rest" for rest b x u
    by (rule pc [of "In_Task m n u"]) (use that in simp_all)
  show "same_ops s (do_run_one s i m n)"
    by (auto simp: do_run_one_def Let_def same_ops_run_op [OF c] t split: list.split operation.split
        intro: pc [of "Returned n"] pc [of "Event_Wait m n"])
  show w: "same_ops s (wait_one_front s i m usec n)" for usec
    by (auto simp: wait_one_front_def Let_def same_ops_run_op [OF c] t split: list.split operation.split
        intro: pc [of "Returned n"])
  show "same_ops s (do_wait_one s i m usec n)"
    by (auto simp: do_wait_one_def w intro: pc [of "Returned n"] pc [of "Event_Wait m n"])
  show "same_ops s (wait_one_after s i m n)"
    by (auto simp: wait_one_after_def same_ops_run_op [OF c] split: list.split operation.split
        intro: pc [of "Returned n"])
  show "same_ops s (do_poll_one s i m n)"
    by (auto simp: do_poll_one_def same_ops_run_op [OF c] split: list.split operation.split
        intro: pc [of "Returned n"] pc [of "In_Task m n 0"])
  show "same_ops s (poll_one_after s i m n)"
    by (auto simp: poll_one_after_def same_ops_run_op [OF c] split: list.split operation.split
        intro: pc [of "Returned n"])
qed

lemma same_ops_locked: "clear s i \<Longrightarrow> same_ops s (locked_round s i m n) \<and> same_ops s (after_task s i m n)"
  by (cases m) (simp_all add: locked_round_def after_task_def same_ops_round)

lemma same_ops_trans: "same_ops s s1 \<Longrightarrow> same_ops s1 s2 \<Longrightarrow> same_ops s s2"
  by (simp add: same_ops_def)

lemma same_ops_fields:
  assumes "private_ok s" "map held (threads s') = map held (threads s)" "map tpc (threads s') = map tpc (threads s)"
    "map private_op_queue (threads s') = map private_op_queue (threads s)" "completed s' = completed s"
    "destroyed s' = destroyed s" "handlers_of (op_queue s') = handlers_of (op_queue s)"
  shows "same_ops s s'"
proof -
  have "length (threads s') = length (threads s)" using assms(2) by (rule map_eq_imp_length_eq)
  moreover have "tpc (threads s' ! i) = tpc (threads s ! i)"
    "private_op_queue (threads s' ! i) = private_op_queue (threads s ! i)" if "i < length (threads s)" for i
    using that assms(3,4) calculation by (metis nth_map)+
  ultimately have "private_ok s'" using assms(1) by (simp add: private_ok_def all_set_conv_all_nth)
  then show ?thesis using assms by (simp add: same_ops_def all_ops_def helds_def)
qed

lemma clear_pc: "private_ok s \<Longrightarrow> i < length (threads s) \<Longrightarrow> \<not> may_hold (pc_of s i) \<Longrightarrow> clear s i"
  by (cases "pc_of s i") (auto simp: clear_def private_ok_def pc_of_def)

lemma same_ops_enter:
  assumes "private_ok s" "i < length (threads s)" "\<not> in_sched (pc_of s i)"
  shows "same_ops s (sched_enter s i m)"
proof -
  have nm: "\<not> may_hold (pc_of s i)" using assms(3) by (cases "pc_of s i") simp_all
  have c: "clear s i" by (rule clear_pc [OF assms(1,2) nm])
  let ?t = "threads s ! i"
  have "all_ops (sched_enter s i m) = all_ops s + {#} \<and> private_ok (sched_enter s i m)"
    by (rule ops_update [of s i _ "if outstanding_work s = 0 then ?t\<lparr>tpc := Returned 0, must_stop := True\<rparr>
          else ?t\<lparr>tpc := Lock m 0, private_op_queue := [], private_outstanding_work := 0\<rparr>"])
      (use assms c in \<open>simp_all add: sched_enter_def clear_def held_def pc_of_def upd_thread_def\<close>)
  then show ?thesis by (simp add: same_ops_def)
qed

lemma same_ops_task_cleanup:
  assumes "private_ok s" "i < length (threads s)" "pc_of s i = Task_Cleanup m n ok"
  shows "same_ops s (task_cleanup s i) \<and> clear (task_cleanup s i) i"
proof -
  have "all_ops (task_cleanup s i) = all_ops s + {#} \<and> private_ok (task_cleanup s i)"
    by (rule ops_update [of s i _ "(threads s ! i)\<lparr>private_op_queue := []\<rparr>"])
      (use assms in \<open>simp_all add: task_cleanup_def held_def pc_of_def upd_thread_def\<close>)
  moreover have "clear (task_cleanup s i) i"
    using calculation assms by (simp add: clear_def task_cleanup_def pc_of_def upd_thread_def)
  ultimately show ?thesis by (simp add: same_ops_def)
qed

lemma same_ops_handler_end:
  assumes "private_ok s" "i < length (threads s)" "pc_of s i = Work_Cleanup m n ok"
  shows "same_ops s (handler_end s i m n ok)"
proof -
  let ?ops = "private_op_queue (threads s ! i)"
  let ?s1 = "upd_thread (push_ops s ?ops) i (\<lambda>t. t\<lparr>private_op_queue := []\<rparr>)"
  have "all_ops ?s1 = all_ops s + {#} \<and> private_ok ?s1"
    by (rule ops_update [of s i _ "(threads s ! i)\<lparr>private_op_queue := []\<rparr>"])
      (use assms in \<open>simp_all add: push_ops_def held_def pc_of_def upd_thread_def\<close>)
  then have e: "same_ops s ?s1" and c: "clear ?s1 i"
    using assms by (simp_all add: same_ops_def clear_def push_ops_def pc_of_def)
  have "same_ops ?s1 (set_pc ?s1 i p)" if "hand p = {#}" for p by (rule same_ops_pc [OF c that]) simp_all
  then have p: "same_ops s (set_pc ?s1 i p)" if "hand p = {#}" for p using same_ops_trans [OF e] that by blast
  have "same_ops s (locked_round ?s1 i m k)" for k using same_ops_trans [OF e] same_ops_locked [OF c] by blast
  then show ?thesis using p by (cases "?ops = []") (auto simp: handler_end_def Let_def)
qed

lemma same_ops_woken:
  assumes "private_ok s" "i < length (threads s)" "pc_of s i = Event_Wait m n"
  shows "same_ops s (event_woken s i m n)"
proof -
  have e: "same_ops s (ev_end_wait s)" "same_ops s (ev_begin_wait (ev_end_wait s))"
    by (rule same_ops_fields [OF assms(1)]; simp)+
  have c: "clear (ev_end_wait s) i"
    using clear_pc [of s i] e assms by (simp add: clear_def same_ops_def pc_of_def)
  note r = same_ops_trans [OF e(1)]
  show ?thesis
    using e(2) r [OF same_ops_front [OF c]] r same_ops_locked [OF c]
    by (cases m) (simp_all add: event_woken_def Let_def)
qed

lemma ops_private:
  assumes "private_ok s" "i < length (threads s)" "in_handler (pc_of s i)"
  shows "all_ops (push_private s i n ops) = all_ops s + mset ops \<and> private_ok (push_private s i n ops)"
  unfolding push_private_def
  by (rule ops_update [of s i _ "(threads s ! i)\<lparr>private_op_queue := private_op_queue (threads s ! i) @ ops,
        private_outstanding_work := private_outstanding_work (threads s ! i) + n\<rparr>"])
    (use assms in \<open>auto simp: held_def pc_of_def upd_thread_def elim: in_handler.elims\<close>)

lemma ops_push:
  assumes "private_ok s" "threads s' = threads s" "completed s' = completed s" "destroyed s' = destroyed s"
    "op_queue s' = op_queue s @ map Op ops"
  shows "all_ops (wake_one_thread_and_unlock s') = all_ops s + mset ops \<and> private_ok (wake_one_thread_and_unlock s')"
  using assms by (simp add: all_ops_def private_ok_def)

lemma ops_call:
  assumes k: "private_ok s" and i: "i < length (threads s)" and o: "own_code (pc_of s i)"
  shows "all_ops (do_call s i c) = all_ops s + mset (given_by_call c) \<and> private_ok (do_call s i c)"
proof -
  have h: "contains s i \<Longrightarrow> in_handler (pc_of s i)" using own_contains [OF o] by (simp add: contains_def)
  note p = ops_private [OF k i h] and q = ops_push [OF k]
  have q1: "all_ops (wake_one_thread_and_unlock s') = add_mset op (all_ops s) \<and> private_ok (wake_one_thread_and_unlock s')"
    if "threads s' = threads s" "completed s' = completed s" "destroyed s' = destroyed s"
      "op_queue s' = op_queue s @ [Op op]" for s' op
    using q [of s' "[op]"] that by simp
  have f: "same_ops s s' \<Longrightarrow> all_ops s' = all_ops s \<and> private_ok s'" for s' by (simp add: same_ops_def)
  have u: "same_ops s (upd_thread s1 i g)"
    if "\<And>t. tpc (g t) = tpc t \<and> private_op_queue (g t) = private_op_queue t" "threads s1 = threads s"
      "completed s1 = completed s" "destroyed s1 = destroyed s" "op_queue s1 = op_queue s" for g s1
    by (rule same_ops_fields [OF k]) (use that i in \<open>simp_all add: map_update held_def flip: map_update\<close>,
        simp_all add: map_update held_def list_update_same_conv)
  show ?thesis
  proof (cases c)
    case Work_Finished
    then show ?thesis
      using f u by (auto simp: work_finished_def Let_def intro!: f same_ops_fields [OF k])
  next
    case Compensate
    then show ?thesis using f [OF u] by (simp add: compensating_work_started_def)
  next
    case Stop
    then show ?thesis using f [OF same_ops_fields [OF k, of "sched_stop s"]] by simp
  next
    case Restart
    then show ?thesis using f [OF same_ops_fields [OF k, of "sched_restart s"]] by (simp add: sched_restart_def)
  next
    case Work_Started
    then show ?thesis using f [OF same_ops_fields [OF k, of "work_started s"]] by (simp add: work_started_def)
  next
    case Init_Task
    then show ?thesis using f [OF same_ops_fields [OF k, of "init_task s"]] by (simp add: init_task_def)
  next
    case (Abandon ops)
    then show ?thesis using k by (simp add: abandon_operations_def all_ops_def private_ok_def)
  qed (use k p q q1 in \<open>simp_all add: post_immediate_completion_def post_immediate_completions_def
        post_deferred_completion_def post_deferred_completions_def do_dispatch_def push_op_def push_ops_def
        work_started_def\<close>)
qed

lemma ops_task_returns:
  assumes "private_ok s" "i < length (threads s)" "pc_of s i = In_Task m n usec"
  shows "all_ops (task_returns s i m n ops ok) = all_ops s + mset ops \<and> private_ok (task_returns s i m n ops ok)"
  by (rule ops_update [of s i _ "(threads s ! i)\<lparr>tpc := Task_Cleanup m n ok,
        private_op_queue := private_op_queue (threads s ! i) @ ops, private_outstanding_work := 0\<rparr>"])
    (use assms in \<open>simp_all add: task_returns_def Let_def held_def pc_of_def upd_thread_def\<close>)

lemma ops_handler_done:
  assumes "private_ok s" "i < length (threads s)" "pc_of s i = In_Handler m n op"
    and "s' = set_pc (work_cleanup (s\<lparr>completed := completed s @ [op]\<rparr>) i) i (Work_Cleanup m n ok)"
  shows "all_ops s' = all_ops s + {#} \<and> private_ok s'"
  unfolding assms(4)
  by (rule ops_update [of s i _ "if private_outstanding_work (threads s ! i) < 1 \<and> outstanding_work s = 1
        then (threads s ! i)\<lparr>must_stop := True, private_outstanding_work := 0, tpc := Work_Cleanup m n ok\<rparr>
        else (threads s ! i)\<lparr>private_outstanding_work := 0, tpc := Work_Cleanup m n ok\<rparr>"])
    (use assms(1-3) in \<open>auto simp: work_cleanup_def work_finished_def Let_def held_def pc_of_def upd_thread_def\<close>)

lemma ops_step:
  assumes k: "private_ok s" and st: "sched_step s e = Some s'"
  shows "all_ops s' = all_ops s + mset (given e) \<and> private_ok s'"
proof -
  let ?i = "event_thread e"
  have i: "?i < length (threads s)" using st by (auto simp: sched_step_def Let_def split: if_splits)
  have f: "same_ops s s' \<Longrightarrow> all_ops s' = all_ops s \<and> private_ok s'" by (simp add: same_ops_def)
  show ?thesis
  proof (cases e)
    case (Enter j m)
    then show ?thesis using st i f same_ops_enter [OF k i]
      by (auto simp: sched_step_def Let_def split: if_splits)
  next
    case (Take_Lock j)
    have w: "?i = j" using Take_Lock by simp
    show ?thesis
    proof (cases "pc_of s j")
      case (Lock m n)
      have "clear s j" using clear_pc [OF k i] Lock w by simp
      then have "same_ops s (locked_round s j m n)" using same_ops_locked by blast
      then show ?thesis using st Lock Take_Lock f by (auto simp: sched_step_def Let_def split: if_splits)
    next
      case (Task_Cleanup m n ok)
      then have c: "same_ops s (task_cleanup s j)" "clear (task_cleanup s j) j"
        using same_ops_task_cleanup [OF k i] w by auto
      have "same_ops s (after_task (task_cleanup s j) j m n)"
        using same_ops_trans [OF c(1)] same_ops_locked [OF c(2)] by blast
      moreover have "same_ops s (set_pc (task_cleanup s j) j Thrown)"
        by (rule same_ops_trans [OF c(1) same_ops_pc [OF c(2), of Thrown]]) simp_all
      ultimately show ?thesis using st Task_Cleanup Take_Lock f
        by (auto simp: sched_step_def Let_def split: if_splits)
    next
      case (Work_Cleanup m n ok)
      then show ?thesis using same_ops_handler_end [OF k i] st Take_Lock w f
        by (auto simp: sched_step_def Let_def split: if_splits)
    qed (use st Take_Lock in \<open>auto simp: sched_step_def Let_def split: if_splits\<close>)
  next
    case (Wake j)
    then show ?thesis using st f same_ops_woken [OF k i]
      by (cases "pc_of s j") (auto simp: sched_step_def Let_def split: if_splits)
  next
    case (Task_Return j ops ok)
    then show ?thesis using st ops_task_returns [OF k i]
      by (cases "pc_of s j") (auto simp: sched_step_def Let_def split: if_splits)
  next
    case (Handler_Done j ok)
    then show ?thesis using st ops_handler_done [OF k i]
      by (cases "pc_of s j") (auto simp: sched_step_def Let_def split: if_splits)
  next
    case (Do_Stop j)
    have "same_ops s (upd_thread (sched_stop s) j (\<lambda>t. t\<lparr>must_stop := False\<rparr>))"
      by (rule same_ops_fields [OF k]) (use i Do_Stop in \<open>simp_all add: map_update held_def list_update_same_conv\<close>)
    then show ?thesis using st Do_Stop f by (auto simp: sched_step_def Let_def split: if_splits)
  next
    case (Call j c)
    then show ?thesis using st i ops_call [OF k, of j c]
      by (auto simp: sched_step_def Let_def split: if_splits)
  qed
qed

lemma ops_run:
  "private_ok s \<Longrightarrow> sched_run s es = Some s' \<Longrightarrow> all_ops s' = all_ops s + mset (concat (map given es))"
proof (induction es arbitrary: s)
  case (Cons e es)
  then obtain s1 where s1: "sched_step s e = Some s1" "sched_run s1 es = Some s'" by (auto split: option.splits)
  then have "all_ops s1 = all_ops s + mset (given e)" "private_ok s1"
    using ops_step [OF Cons.prems(1)] by blast+
  then show ?case using Cons.IH [OF _ s1(2)] by (simp add: add.assoc)
qed simp

text \<open>C16: The scheduler neither loses nor doubles an operation. Whatever the threads do, in any of the
  run functions, with handlers and tasks that throw: the operations it was given are, as a multiset,
  those it has run, those in handlers, those in its queue and the private queues, and those it has
  destroyed.\<close>

theorem operations_conserved:
  assumes "sched_run (scheduler_new hint own n) es = Some s"
  shows "mset (concat (map given es)) = mset (completed s) + mset (destroyed s) +
     mset (handlers_of (op_queue s)) + (\<Sum>t \<leftarrow> threads s. mset (private_op_queue t) + hand (tpc t))"
proof -
  let ?s0 = "scheduler_new hint own n"
  have "sum_list (map held (replicate n thread_new)) = {#}"
    by (induction n) (simp_all add: held_def thread_new_def)
  then have "private_ok ?s0" "all_ops ?s0 = {#}"
    by (simp_all add: private_ok_def scheduler_new_def thread_new_def all_ops_def helds_def)
  then show ?thesis using ops_run [OF _ assms] by (simp add: all_ops_def helds_def held_def [abs_def])
qed

theorem operations_conserved_witness:
  "\<exists>s. sched_run (scheduler_new 1 False 2)
       [Call 0 (Post 7 False), Enter 1 M_Poll, Take_Lock 1, Call 1 (Post 8 False), Call 0 (Post 9 True)] = Some s \<and>
     {#7, 8, 9#} = mset (completed s) + mset (destroyed s) +
     mset (handlers_of (op_queue s)) + (\<Sum>t \<leftarrow> threads s. mset (private_op_queue t) + hand (tpc t))"
proof -
  let ?es = "[Call 0 (Post 7 False), Enter 1 M_Poll, Take_Lock 1, Call 1 (Post 8 False), Call 0 (Post 9 True)]"
  have "\<exists>s. sched_run (scheduler_new 1 False 2) ?es = Some s"
    by (simp add: sched_sim do_poll_one_def push_private_def numeral_2_eq_2)
  then obtain s where s: "sched_run (scheduler_new 1 False 2) ?es = Some s" by blast
  show ?thesis using operations_conserved [OF s] s by (simp add: ac_simps)
qed

end
