(* ===== verification/Asio_Op_Queue.thy ===== *)
theory Asio_Op_Queue
  imports Prelude
begin

text \<open>
  The queue of operations of the bundled asio, detail/op\_queue.hpp: a list linked through the
  operations themselves. Operations are addresses, \<open>links\<close> is the \<open>next_\<close> of every operation, and
  the null pointer is \<open>None\<close>. The scheduler's model uses lists in its place; the lemmas show that
  the linked queue is one.
\<close>

section \<open>The linked queue\<close>

type_synonym links = "nat \<Rightarrow> nat option"

record oq =
  front_ptr :: "nat option"
  back_ptr :: "nat option"

definition oq_new :: oq where
  "oq_new = \<lparr>front_ptr = None, back_ptr = None\<rparr>"

definition oq_front :: "oq \<Rightarrow> nat option" where
  "oq_front q = front_ptr q"

definition oq_pop :: "links \<Rightarrow> oq \<Rightarrow> links \<times> oq" where
  "oq_pop next_op q =
     (case front_ptr q of
        None \<Rightarrow> (next_op, q)
      | Some tmp \<Rightarrow>
          (let q1 = q\<lparr>front_ptr := next_op tmp\<rparr>;
               q2 = (if front_ptr q1 = None then q1\<lparr>back_ptr := None\<rparr> else q1)
           in (next_op(tmp := None), q2)))"

definition oq_push :: "links \<Rightarrow> oq \<Rightarrow> nat \<Rightarrow> links \<times> oq" where
  "oq_push next_op q h =
     (let next1 = next_op(h := None)
      in case back_ptr q of
           Some b \<Rightarrow> (next1(b := Some h), q\<lparr>back_ptr := Some h\<rparr>)
         | None \<Rightarrow> (next1, q\<lparr>front_ptr := Some h, back_ptr := Some h\<rparr>))"

text \<open>All operations of another queue, which is empty afterwards.\<close>

definition oq_push_queue :: "links \<Rightarrow> oq \<Rightarrow> oq \<Rightarrow> links \<times> oq \<times> oq" where
  "oq_push_queue next_op q r =
     (case front_ptr r of
        None \<Rightarrow> (next_op, q, r)
      | Some other_front \<Rightarrow>
          (case back_ptr q of
             Some b \<Rightarrow> (next_op(b := Some other_front), q\<lparr>back_ptr := back_ptr r\<rparr>, oq_new)
           | None \<Rightarrow> (next_op, q\<lparr>front_ptr := Some other_front, back_ptr := back_ptr r\<rparr>, oq_new)))"

definition oq_empty :: "oq \<Rightarrow> bool" where
  "oq_empty q \<longleftrightarrow> front_ptr q = None"

definition oq_is_enqueued :: "links \<Rightarrow> oq \<Rightarrow> nat \<Rightarrow> bool" where
  "oq_is_enqueued next_op q h \<longleftrightarrow> next_op h \<noteq> None \<or> back_ptr q = Some h"

text \<open>The destructor: the operations it destroys, in order; on a circular list it would not end.\<close>

partial_function (option) oq_destroy :: "links \<Rightarrow> oq \<Rightarrow> nat list option" where
  "oq_destroy next_op q =
     (case front_ptr q of
        None \<Rightarrow> Some []
      | Some h \<Rightarrow>
          (case oq_pop next_op q of
             (next1, q1) \<Rightarrow> Option.bind (oq_destroy next1 q1) (\<lambda>hs. Some (h # hs))))"

section \<open>The list a queue stands for\<close>

fun linked :: "links \<Rightarrow> nat list \<Rightarrow> bool" where
  "linked next_op [] = True"
| "linked next_op [x] = (next_op x = None)"
| "linked next_op (x # y # ys) = (next_op x = Some y \<and> linked next_op (y # ys))"

definition oq_rep :: "links \<Rightarrow> oq \<Rightarrow> nat list \<Rightarrow> bool" where
  "oq_rep next_op q xs \<longleftrightarrow> distinct xs \<and> linked next_op xs \<and>
     front_ptr q = (if xs = [] then None else Some (hd xs)) \<and>
     back_ptr q = (if xs = [] then None else Some (last xs))"

lemma linked_other: "x \<notin> set xs \<Longrightarrow> linked (next_op(x := v)) xs = linked next_op xs"
  by (induction next_op xs rule: linked.induct) auto

lemma linked_append:
  "distinct (xs @ y # ys) \<Longrightarrow> linked next_op (y # ys) \<Longrightarrow> linked next_op xs \<Longrightarrow> xs \<noteq> [] \<Longrightarrow>
     linked (next_op(last xs := Some y)) (xs @ y # ys)"
proof (induction next_op xs rule: linked.induct)
  case (2 next_op x)
  then show ?case using linked_other [of x "y # ys" next_op "Some y"] by (simp add: fun_upd_def)
next
  case (3 next_op x z zs)
  moreover from this have "last (z # zs) \<noteq> x" by (metis distinct.simps(2) distinct_append last_in_set list.distinct(1))
  ultimately show ?case by simp
qed simp

lemma linked_next: "linked next_op xs \<Longrightarrow> x \<in> set xs \<Longrightarrow> x \<noteq> last xs \<Longrightarrow> next_op x \<noteq> None"
  by (induction next_op xs rule: linked.induct) auto

text \<open>The contract of a queue of operations.\<close>

locale op_fifo =
  fixes rep :: "'h \<Rightarrow> 'q \<Rightarrow> nat list \<Rightarrow> bool"
    and push :: "'h \<Rightarrow> 'q \<Rightarrow> nat \<Rightarrow> 'h \<times> 'q"
    and pop :: "'h \<Rightarrow> 'q \<Rightarrow> 'h \<times> 'q"
    and front :: "'q \<Rightarrow> nat option"
  assumes rep_push: "rep h q xs \<Longrightarrow> x \<notin> set xs \<Longrightarrow> push h q x = (h', q') \<Longrightarrow> rep h' q' (xs @ [x])"
    and rep_pop: "rep h q (x # xs) \<Longrightarrow> pop h q = (h', q') \<Longrightarrow> rep h' q' xs"
    and rep_front: "rep h q xs \<Longrightarrow> front q = (case xs of [] \<Rightarrow> None | x # _ \<Rightarrow> Some x)"
begin

fun push_all :: "'h \<Rightarrow> 'q \<Rightarrow> nat list \<Rightarrow> 'h \<times> 'q" where
  "push_all h q [] = (h, q)"
| "push_all h q (x # xs) = (case push h q x of (h', q') \<Rightarrow> push_all h' q' xs)"

lemma rep_push_all:
  "rep h q xs \<Longrightarrow> distinct (xs @ ys) \<Longrightarrow> push_all h q ys = (h', q') \<Longrightarrow> rep h' q' (xs @ ys)"
proof (induction ys arbitrary: h q xs)
  case (Cons y ys)
  obtain h1 q1 where p: "push h q y = (h1, q1)" by fastforce
  have "rep h1 q1 (xs @ [y])" by (rule rep_push [OF Cons.prems(1) _ p]) (use Cons.prems(2) in simp)
  then show ?case using Cons.IH [of h1 q1 "xs @ [y]"] Cons.prems(2,3) p by simp
qed simp

lemma front_first: "rep h q (x # xs) \<Longrightarrow> front q = Some x"
  using rep_front by fastforce

end

lemma oq_rep_push:
  assumes "oq_rep next_op q xs" "h \<notin> set xs" "oq_push next_op q h = (next', q')"
  shows "oq_rep next' q' (xs @ [h])"
proof (cases "xs = []")
  case False
  have "linked (next_op(h := None)) xs" using assms(1,2) by (simp add: oq_rep_def linked_other)
  then have "linked (next_op(h := None, last xs := Some h)) (xs @ [h])"
    using linked_append [of xs h "[]" "next_op(h := None)"] assms(1,2) False by (simp add: oq_rep_def)
  then show ?thesis using assms False by (auto simp: oq_rep_def oq_push_def Let_def)
qed (use assms in \<open>auto simp: oq_rep_def oq_push_def Let_def\<close>)

lemma oq_rep_pop:
  assumes "oq_rep next_op q (x # xs)" "oq_pop next_op q = (next', q')"
  shows "oq_rep next' q' xs"
  using assms by (cases xs) (auto simp: oq_rep_def oq_pop_def Let_def linked_other split: if_splits)

lemma oq_rep_pop_empty: "oq_rep next_op q [] \<Longrightarrow> oq_pop next_op q = (next_op, q)"
  by (simp add: oq_rep_def oq_pop_def)

interpretation oq: op_fifo oq_rep oq_push oq_pop oq_front
proof unfold_locales
  show "oq_rep h q xs \<Longrightarrow> x \<notin> set xs \<Longrightarrow> oq_push h q x = (h', q') \<Longrightarrow> oq_rep h' q' (xs @ [x])" for h q xs x h' q'
    by (rule oq_rep_push)
  show "oq_rep h q (x # xs) \<Longrightarrow> oq_pop h q = (h', q') \<Longrightarrow> oq_rep h' q' xs" for h q x xs h' q'
    by (rule oq_rep_pop)
  show "oq_rep h q xs \<Longrightarrow> oq_front q = (case xs of [] \<Rightarrow> None | x # _ \<Rightarrow> Some x)" for h q xs
    by (auto simp: oq_front_def oq_rep_def split: list.split)
qed

lemma oq_rep_push_queue:
  assumes "oq_rep next_op q xs" "oq_rep next_op r ys" "set xs \<inter> set ys = {}"
    and "oq_push_queue next_op q r = (next', q', r')"
  shows "oq_rep next' q' (xs @ ys) \<and> oq_rep next' r' []"
proof (cases "ys = []")
  case True
  then show ?thesis using assms by (simp add: oq_rep_def oq_push_queue_def)
next
  case ys: False
  show ?thesis
  proof (cases "xs = []")
    case True
    then show ?thesis using assms ys by (auto simp: oq_rep_def oq_push_queue_def oq_new_def)
  next
    case False
    obtain y zs where y: "ys = y # zs" using ys by (cases ys) auto
    have "linked (next_op(last xs := Some y)) (xs @ y # zs)"
      using linked_append [of xs y zs next_op] assms(1-3) False by (auto simp: oq_rep_def y)
    then show ?thesis using assms False by (auto simp: oq_rep_def oq_push_queue_def oq_new_def y)
  qed
qed

lemma oq_destroys: "oq_rep next_op q xs \<Longrightarrow> oq_destroy next_op q = Some xs"
proof (induction xs arbitrary: next_op q)
  case Nil
  then show ?case by (subst oq_destroy.simps) (simp add: oq_rep_def)
next
  case (Cons x xs)
  obtain n1 q1 where p: "oq_pop next_op q = (n1, q1)" by fastforce
  have "oq_destroy n1 q1 = Some xs" by (rule Cons.IH [OF oq_rep_pop [OF Cons.prems p]])
  then show ?case using Cons.prems p by (subst oq_destroy.simps) (simp add: oq_rep_def)
qed

lemma oq_rep_frame:
  assumes "oq_rep next_op r ys" "set xs \<inter> set ys = {}" "oq_rep next_op q xs"
  shows "h \<notin> set ys \<Longrightarrow> oq_push next_op q h = (n1, q1) \<Longrightarrow> oq_rep n1 r ys"
    and "oq_pop next_op q = (n2, q2) \<Longrightarrow> oq_rep n2 r ys"
proof -
  have l: "back_ptr q = Some b \<Longrightarrow> b \<notin> set ys" "front_ptr q = Some b \<Longrightarrow> b \<notin> set ys" for b
    using assms(2,3) last_in_set [of xs] hd_in_set [of xs]
    by (auto simp: oq_rep_def disjoint_iff split: if_splits)
  show "h \<notin> set ys \<Longrightarrow> oq_push next_op q h = (n1, q1) \<Longrightarrow> oq_rep n1 r ys"
    using assms(1) l(1) by (auto simp: oq_rep_def oq_push_def Let_def linked_other split: option.splits)
  show "oq_pop next_op q = (n2, q2) \<Longrightarrow> oq_rep n2 r ys"
    using assms(1) l(2) by (auto simp: oq_rep_def oq_pop_def Let_def linked_other split: option.splits)
qed

section \<open>Property\<close>

text \<open>C18: asio's linked queue of operations is a first-in, first-out list. On a queue that stands for
  a list: \<open>front\<close> is its head; \<open>push\<close> of an operation that is in no queue appends it, \<open>pop\<close> removes
  the head, and pushing another queue appends that one and empties it; an operation that is in no
  other queue is enqueued exactly if it is in the list; the destructor ends and destroys the
  operations in order; and no operation disturbs another queue.\<close>

theorem op_queue_refines_list:
  assumes "oq_rep next_op q xs" "oq_rep next_op r ys" "set xs \<inter> set ys = {}"
    and "h \<notin> set xs" "h \<notin> set ys" "next_op h = None"
  shows "oq_front q = (if xs = [] then None else Some (hd xs)) \<and> (oq_empty q \<longleftrightarrow> xs = []) \<and>
     (case oq_push next_op q h of (n, q') \<Rightarrow> oq_rep n q' (xs @ [h]) \<and> oq_rep n r ys) \<and>
     (case oq_pop next_op q of (n, q') \<Rightarrow> oq_rep n q' (tl xs) \<and> oq_rep n r ys) \<and>
     (case oq_push_queue next_op q r of (n, q', r') \<Rightarrow> oq_rep n q' (xs @ ys) \<and> oq_rep n r' []) \<and>
     \<not> oq_is_enqueued next_op q h \<and> (\<nexists>x. x \<in> set xs \<and> \<not> oq_is_enqueued next_op q x) \<and>
     oq_destroy next_op q = Some xs"
proof -
  note [simp] = oq_rep_frame [OF assms(2,3,1)] oq_rep_push [OF assms(1,4)] oq_destroys [OF assms(1)]
    oq_rep_push_queue [OF assms(1-3)]
  have "case oq_pop next_op q of (n, q') \<Rightarrow> oq_rep n q' (tl xs)"
    using assms(1) by (cases xs) (auto simp: oq_rep_pop_empty dest: oq_rep_pop split: prod.split)
  moreover have "\<not> oq_is_enqueued next_op q h" "\<And>x. x \<in> set xs \<Longrightarrow> oq_is_enqueued next_op q x"
    using assms(1,4,6) linked_next [of next_op xs] last_in_set [of xs]
    by (auto simp: oq_is_enqueued_def oq_rep_def split: if_splits)
  moreover have "oq_front q = (if xs = [] then None else Some (hd xs))" "oq_empty q \<longleftrightarrow> xs = []"
    using assms(1) by (simp_all add: oq_front_def oq_empty_def oq_rep_def)
  ultimately show ?thesis using assms(5) by (auto split: prod.split)
qed

theorem op_queue_refines_list_witness:
  "oq_destroy [1 \<mapsto> 2] \<lparr>front_ptr = Some 1, back_ptr = Some 2\<rparr> = Some [1, 2]"
proof -
  have a: "oq_rep [1 \<mapsto> 2] \<lparr>front_ptr = Some 1, back_ptr = Some 2\<rparr> [1, 2]" "oq_rep [1 \<mapsto> 2] oq_new []"
    by (simp_all add: oq_rep_def oq_new_def)
  show ?thesis using op_queue_refines_list [OF a, of 3] by simp
qed

end
