(* ===== verification/Asio_Address.thy ===== *)
theory Asio_Address
  imports Asio_Serial
begin

text \<open>
  The addresses of the bundled asio: ip/address\_v4.hpp, ip/address\_v6.hpp, ip/address.hpp and their
  impl files, and the parsing of detail/impl/socket\_ops.ipp they rest on, on a POSIX system. The
  system's own \<open>inet\_pton\<close> and \<open>if\_nametoindex\<close> are parameters. An address is kept as the code
  keeps it: an IPv4 address in network byte order inside a 32-bit word, an IPv6 address as bytes.
\<close>

section \<open>IPv4 addresses\<close>

record address_v4 =
  s_addr :: uint32

definition address_v4_default :: address_v4 where
  "address_v4_default = \<lparr>s_addr = 0\<rparr>"

text \<open>The bytes of a word in memory, and the word of four bytes.\<close>

definition word_bytes :: "uint32 \<Rightarrow> byte list" where
  "word_bytes w = nat_le 4 (unat w)"

definition bytes_word :: "byte list \<Rightarrow> uint32" where
  "bytes_word bs = of_nat (le_nat bs)"

definition host_to_network_long :: "uint32 \<Rightarrow> uint32" where
  "host_to_network_long w = bytes_word (rev (word_bytes w))"

definition network_to_host_long :: "uint32 \<Rightarrow> uint32" where
  "network_to_host_long w = bytes_word (rev (word_bytes w))"

definition address_v4_bytes :: "byte list \<Rightarrow> address_v4" where
  "address_v4_bytes bytes = \<lparr>s_addr = bytes_word bytes\<rparr>"

definition address_v4_uint :: "uint32 \<Rightarrow> address_v4" where
  "address_v4_uint addr = \<lparr>s_addr = host_to_network_long addr\<rparr>"

definition to_bytes_v4 :: "address_v4 \<Rightarrow> byte list" where
  "to_bytes_v4 a = word_bytes (s_addr a)"

definition to_uint :: "address_v4 \<Rightarrow> uint32" where
  "to_uint a = network_to_host_long (s_addr a)"

definition is_loopback_v4 :: "address_v4 \<Rightarrow> bool" where
  "is_loopback_v4 a \<longleftrightarrow> to_uint a AND 0xFF000000 = 0x7F000000"

definition is_unspecified_v4 :: "address_v4 \<Rightarrow> bool" where
  "is_unspecified_v4 a \<longleftrightarrow> to_uint a = 0"

definition is_class_a :: "address_v4 \<Rightarrow> bool" where
  "is_class_a a \<longleftrightarrow> to_uint a AND 0x80000000 = 0"

definition is_class_b :: "address_v4 \<Rightarrow> bool" where
  "is_class_b a \<longleftrightarrow> to_uint a AND 0xC0000000 = 0x80000000"

definition is_class_c :: "address_v4 \<Rightarrow> bool" where
  "is_class_c a \<longleftrightarrow> to_uint a AND 0xE0000000 = 0xC0000000"

definition is_multicast_v4 :: "address_v4 \<Rightarrow> bool" where
  "is_multicast_v4 a \<longleftrightarrow> to_uint a AND 0xF0000000 = 0xE0000000"

definition broadcast_of :: "address_v4 \<Rightarrow> address_v4 \<Rightarrow> address_v4" where
  "broadcast_of addr m = address_v4_uint (to_uint addr OR (to_uint m XOR 0xFFFFFFFF))"

definition class_netmask :: "address_v4 \<Rightarrow> address_v4" where
  "class_netmask addr =
     (if is_class_a addr then address_v4_uint 0xFF000000
      else if is_class_b addr then address_v4_uint 0xFFFF0000
      else if is_class_c addr then address_v4_uint 0xFFFFFF00
      else address_v4_uint 0xFFFFFFFF)"

definition eq_v4 :: "address_v4 \<Rightarrow> address_v4 \<Rightarrow> bool" where
  "eq_v4 a1 a2 \<longleftrightarrow> s_addr a1 = s_addr a2"

definition less_v4 :: "address_v4 \<Rightarrow> address_v4 \<Rightarrow> bool" where
  "less_v4 a1 a2 \<longleftrightarrow> to_uint a1 < to_uint a2"

definition le_v4 :: "address_v4 \<Rightarrow> address_v4 \<Rightarrow> bool" where
  "le_v4 a1 a2 \<longleftrightarrow> to_uint a1 \<le> to_uint a2"

section \<open>IPv6 addresses\<close>

record address_v6 =
  s6_addr :: "byte list"
  scope_id :: "64 word"

definition address_v6_default :: address_v6 where
  "address_v6_default = \<lparr>s6_addr = replicate 16 0, scope_id = 0\<rparr>"

definition address_v6_bytes :: "byte list \<Rightarrow> 64 word \<Rightarrow> address_v6" where
  "address_v6_bytes bytes scope = \<lparr>s6_addr = take 16 bytes, scope_id = scope\<rparr>"

definition to_bytes_v6 :: "address_v6 \<Rightarrow> byte list" where
  "to_bytes_v6 a = s6_addr a"

definition is_loopback_v6 :: "address_v6 \<Rightarrow> bool" where
  "is_loopback_v6 a \<longleftrightarrow> take 15 (s6_addr a) = replicate 15 0 \<and> s6_addr a ! 15 = 1"

definition is_unspecified_v6 :: "address_v6 \<Rightarrow> bool" where
  "is_unspecified_v6 a \<longleftrightarrow> take 16 (s6_addr a) = replicate 16 0"

definition is_link_local :: "address_v6 \<Rightarrow> bool" where
  "is_link_local a \<longleftrightarrow> s6_addr a ! 0 = 0xfe \<and> s6_addr a ! 1 AND 0xc0 = 0x80"

definition is_site_local :: "address_v6 \<Rightarrow> bool" where
  "is_site_local a \<longleftrightarrow> s6_addr a ! 0 = 0xfe \<and> s6_addr a ! 1 AND 0xc0 = 0xc0"

definition is_v4_mapped :: "address_v6 \<Rightarrow> bool" where
  "is_v4_mapped a \<longleftrightarrow> take 10 (s6_addr a) = replicate 10 0 \<and> s6_addr a ! 10 = 0xff \<and> s6_addr a ! 11 = 0xff"

definition is_v4_compatible :: "address_v6 \<Rightarrow> bool" where
  "is_v4_compatible a \<longleftrightarrow> take 12 (s6_addr a) = replicate 12 0 \<and>
     \<not> (s6_addr a ! 12 = 0 \<and> s6_addr a ! 13 = 0 \<and> s6_addr a ! 14 = 0 \<and>
        (s6_addr a ! 15 = 0 \<or> s6_addr a ! 15 = 1))"

definition is_multicast_v6 :: "address_v6 \<Rightarrow> bool" where
  "is_multicast_v6 a \<longleftrightarrow> s6_addr a ! 0 = 0xff"

definition is_multicast_scope :: "byte \<Rightarrow> address_v6 \<Rightarrow> bool" where
  "is_multicast_scope s a \<longleftrightarrow> s6_addr a ! 0 = 0xff \<and> s6_addr a ! 1 AND 0x0f = s"

definition is_multicast_global :: "address_v6 \<Rightarrow> bool" where
  "is_multicast_global a = is_multicast_scope 0x0e a"

definition is_multicast_link_local :: "address_v6 \<Rightarrow> bool" where
  "is_multicast_link_local a = is_multicast_scope 0x02 a"

definition is_multicast_node_local :: "address_v6 \<Rightarrow> bool" where
  "is_multicast_node_local a = is_multicast_scope 0x01 a"

definition is_multicast_org_local :: "address_v6 \<Rightarrow> bool" where
  "is_multicast_org_local a = is_multicast_scope 0x08 a"

definition is_multicast_site_local :: "address_v6 \<Rightarrow> bool" where
  "is_multicast_site_local a = is_multicast_scope 0x05 a"

definition eq_v6 :: "address_v6 \<Rightarrow> address_v6 \<Rightarrow> bool" where
  "eq_v6 a1 a2 \<longleftrightarrow> s6_addr a1 = s6_addr a2 \<and> scope_id a1 = scope_id a2"

text \<open>The sign of \<open>memcmp\<close> on two objects of the same size.\<close>

fun memcmp :: "byte list \<Rightarrow> byte list \<Rightarrow> int" where
  "memcmp (x # xs) (y # ys) = (if x = y then memcmp xs ys else if x < y then -1 else 1)"
| "memcmp _ _ = 0"

definition less_v6 :: "address_v6 \<Rightarrow> address_v6 \<Rightarrow> bool" where
  "less_v6 a1 a2 =
     (let memcmp_result = memcmp (s6_addr a1) (s6_addr a2)
      in if memcmp_result < 0 then True
         else if memcmp_result > 0 then False
         else scope_id a1 < scope_id a2)"

definition loopback_v6 :: address_v6 where
  "loopback_v6 = address_v6_default\<lparr>s6_addr := (s6_addr address_v6_default)[15 := 1]\<rparr>"

definition v4_mapped :: "address_v4 \<Rightarrow> address_v6" where
  "v4_mapped addr =
     address_v6_bytes ([0, 0, 0, 0, 0, 0, 0, 0, 0, 0, 0xFF, 0xFF] @ to_bytes_v4 addr) 0"

definition v4_compatible :: "address_v4 \<Rightarrow> address_v6" where
  "v4_compatible addr =
     address_v6_bytes ([0, 0, 0, 0, 0, 0, 0, 0, 0, 0, 0, 0] @ to_bytes_v4 addr) 0"

definition bad_address_cast :: fault where
  "bad_address_cast = Exception ''asio::ip::bad_address_cast'' ''bad address cast''"

definition to_v4_of_v6 :: "address_v6 \<Rightarrow> address_v4 result" where
  "to_v4_of_v6 a =
     (if \<not> is_v4_mapped a \<and> \<not> is_v4_compatible a then Inl bad_address_cast
      else Inr (address_v4_bytes (take 4 (drop 12 (s6_addr a)))))"

definition make_address_v4_mapped :: "address_v6 \<Rightarrow> address_v4 result" where
  "make_address_v4_mapped a =
     (if \<not> is_v4_mapped a then Inl bad_address_cast
      else Inr (address_v4_bytes (take 4 (drop 12 (to_bytes_v6 a)))))"

section \<open>Parsing\<close>

text \<open>
  The system's \<open>inet\_pton\<close>, for IPv6 if the flag is set: the bytes of the address, or nothing, and
  \<open>errno\<close>, which was 0 before; and \<open>if\_nametoindex\<close>.
\<close>

record os_addr =
  sys_inet_pton :: "bool \<Rightarrow> string \<Rightarrow> byte list option \<times> error_code"
  if_nametoindex :: "string \<Rightarrow> 32 word"

definition digit_value :: "char \<Rightarrow> int option" where
  "digit_value c = (let n = of_char c :: int in if 48 \<le> n \<and> n \<le> 57 then Some (n - 48) else None)"

fun digits_value :: "int \<Rightarrow> string \<Rightarrow> int" where
  "digits_value acc [] = acc"
| "digits_value acc (c # cs) =
     (case digit_value c of None \<Rightarrow> acc | Some d \<Rightarrow> digits_value (acc * 10 + d) cs)"

text \<open>\<open>atoi\<close>; a value that no \<open>int\<close> has is undefined behaviour.\<close>

definition is_space :: "char \<Rightarrow> bool" where
  "is_space c \<longleftrightarrow> (let n = of_char c :: nat in n = 32 \<or> 9 \<le> n \<and> n \<le> 13)"

definition atoi :: "string \<Rightarrow> int result" where
  "atoi s =
     (let t = dropWhile is_space s;
          v = (case t of
                 [] \<Rightarrow> 0
               | c # cs \<Rightarrow> (if c = CHR ''-'' then - digits_value 0 cs
                           else if c = CHR ''+'' then digits_value 0 cs else digits_value 0 t))
      in if - (2 ^ 31) \<le> v \<and> v < 2 ^ 31 then Inr v else Inl Signed_Overflow)"

text \<open>\<open>INET6\_ADDRSTRLEN + 1 + IF\_NAMESIZE\<close>, on Linux.\<close>

definition max_addr_v6_str_len :: nat where
  "max_addr_v6_str_len = 63"

text \<open>
  \<open>socket\_ops::inet\_pton\<close>: the bytes, the scope and the error. The scope id behind a percent sign
  is cut off before the address is parsed.
\<close>

definition inet_pton :: "os_addr \<Rightarrow> bool \<Rightarrow> string \<Rightarrow> (byte list option \<times> 64 word \<times> error_code) result" where
  "inet_pton os is_v6 src =
     (let if_name = (if is_v6 \<and> CHR ''%'' \<in> set src then Some (tl (dropWhile (\<lambda>c. c \<noteq> CHR ''%'') src)) else None);
          src_ptr = (if if_name = None then src else takeWhile (\<lambda>c. c \<noteq> CHR ''%'') src)
      in if if_name \<noteq> None \<and> length src_ptr > max_addr_v6_str_len
         then Inr (None, 0, Some Invalid_Argument)
         else (case sys_inet_pton os is_v6 src_ptr of
             (None, ec) \<Rightarrow> Inr (None, 0, if ec = None then Some Invalid_Argument else ec)
           | (Some bytes, ec) \<Rightarrow>
               (case (if is_v6 then if_name else None) of
                  None \<Rightarrow> Inr (Some bytes, 0, ec)
                | Some name \<Rightarrow>
                    (let a = address_v6_bytes bytes 0;
                         scope = (if is_link_local a \<or> is_multicast_link_local a then if_nametoindex os name else 0)
                     in if scope \<noteq> 0 then Inr (Some bytes, ucast scope, ec)
                        else bindR (atoi name) (\<lambda>n. Inr (Some bytes, word_of_int n, ec))))))"

definition make_address_v4 :: "os_addr \<Rightarrow> string \<Rightarrow> (address_v4 \<times> error_code) result" where
  "make_address_v4 os str =
     bindR (inet_pton os False str) (\<lambda>(bytes, _, ec).
       Inr (case bytes of None \<Rightarrow> (address_v4_default, ec) | Some bs \<Rightarrow> (address_v4_bytes bs, ec)))"

definition make_address_v6 :: "os_addr \<Rightarrow> string \<Rightarrow> (address_v6 \<times> error_code) result" where
  "make_address_v6 os str =
     bindR (inet_pton os True str) (\<lambda>(bytes, scope, ec).
       Inr (case bytes of None \<Rightarrow> (address_v6_default, ec) | Some bs \<Rightarrow> (address_v6_bytes bs scope, ec)))"

section \<open>Addresses of either kind\<close>

datatype address_type = ipv4 | ipv6

record address =
  type_of_address :: address_type
  ipv4_address :: address_v4
  ipv6_address :: address_v6

definition address_default :: address where
  "address_default = \<lparr>type_of_address = ipv4, ipv4_address = address_v4_default, ipv6_address = address_v6_default\<rparr>"

definition address_of_v4 :: "address_v4 \<Rightarrow> address" where
  "address_of_v4 a = \<lparr>type_of_address = ipv4, ipv4_address = a, ipv6_address = address_v6_default\<rparr>"

definition address_of_v6 :: "address_v6 \<Rightarrow> address" where
  "address_of_v6 a = \<lparr>type_of_address = ipv6, ipv4_address = address_v4_default, ipv6_address = a\<rparr>"

text \<open>\<open>make\_address\<close>, with an error code and throwing.\<close>

definition make_address_ec :: "os_addr \<Rightarrow> string \<Rightarrow> (address \<times> error_code) result" where
  "make_address_ec os str =
     bindR (make_address_v6 os str) (\<lambda>(a6, ec6).
       if ec6 = None then Inr (address_of_v6 a6, ec6)
       else bindR (make_address_v4 os str) (\<lambda>(a4, ec4).
         if ec4 = None then Inr (address_of_v4 a4, ec4) else Inr (address_default, ec4)))"

definition make_address :: "os_addr \<Rightarrow> string \<Rightarrow> address result" where
  "make_address os str =
     bindR (make_address_ec os str) (\<lambda>(a, ec).
       if ec = None then Inr a else Inl (Exception ''std::system_error'' ''address''))"

definition to_v4 :: "address \<Rightarrow> address_v4 result" where
  "to_v4 a = (if type_of_address a \<noteq> ipv4 then Inl bad_address_cast else Inr (ipv4_address a))"

definition to_v6 :: "address \<Rightarrow> address_v6 result" where
  "to_v6 a = (if type_of_address a \<noteq> ipv6 then Inl bad_address_cast else Inr (ipv6_address a))"

definition is_loopback :: "address \<Rightarrow> bool" where
  "is_loopback a = (if type_of_address a = ipv4 then is_loopback_v4 (ipv4_address a) else is_loopback_v6 (ipv6_address a))"

definition is_unspecified :: "address \<Rightarrow> bool" where
  "is_unspecified a =
     (if type_of_address a = ipv4 then is_unspecified_v4 (ipv4_address a) else is_unspecified_v6 (ipv6_address a))"

definition is_multicast :: "address \<Rightarrow> bool" where
  "is_multicast a =
     (if type_of_address a = ipv4 then is_multicast_v4 (ipv4_address a) else is_multicast_v6 (ipv6_address a))"

definition eq_address :: "address \<Rightarrow> address \<Rightarrow> bool" where
  "eq_address a1 a2 =
     (if type_of_address a1 \<noteq> type_of_address a2 then False
      else if type_of_address a1 = ipv6 then eq_v6 (ipv6_address a1) (ipv6_address a2)
      else eq_v4 (ipv4_address a1) (ipv4_address a2))"

definition less_address :: "address \<Rightarrow> address \<Rightarrow> bool" where
  "less_address a1 a2 =
     (if type_of_address a1 = ipv4 \<and> type_of_address a2 = ipv6 then True
      else if type_of_address a1 = ipv6 \<and> type_of_address a2 = ipv4 then False
      else if type_of_address a1 = ipv6 then less_v6 (ipv6_address a1) (ipv6_address a2)
      else less_v4 (ipv4_address a1) (ipv4_address a2))"

end
