(* ===== verification/Asio_Network.thy ===== *)
theory Asio_Network
  imports Asio_Address
begin

text \<open>
  IPv4 networks of the bundled asio, ip/network\_v4.hpp and ip/impl/network\_v4.ipp, and the
  properties of addresses and networks: round trips, netmasks and subnets.
\<close>

section \<open>Networks\<close>

record network_v4 =
  net_address :: address_v4
  prefix_length :: uint16

definition network_v4_default :: network_v4 where
  "network_v4_default = \<lparr>net_address = address_v4_default, prefix_length = 0\<rparr>"

definition network_v4_prefix :: "address_v4 \<Rightarrow> uint16 \<Rightarrow> network_v4 result" where
  "network_v4_prefix addr prefix_len =
     (if prefix_len > 32 then Inl (Exception ''std::out_of_range'' ''prefix length too large'')
      else Inr \<lparr>net_address = addr, prefix_length = prefix_len\<rparr>)"

text \<open>The cases of the \<open>switch\<close> on a byte of a netmask fall through: what they add, and whether it goes on.\<close>

definition mask_byte :: "byte \<Rightarrow> (uint16 \<times> bool) option" where
  "mask_byte b =
     (if b = 255 then Some (8, False) else if b = 254 then Some (7, True) else if b = 252 then Some (6, True)
      else if b = 248 then Some (5, True) else if b = 240 then Some (4, True) else if b = 224 then Some (3, True)
      else if b = 192 then Some (2, True) else if b = 128 then Some (1, True) else if b = 0 then Some (0, True)
      else None)"

fun mask_loop :: "byte list \<Rightarrow> bool \<Rightarrow> uint16 \<Rightarrow> uint16 result" where
  "mask_loop [] finished n = Inr n"
| "mask_loop (b # bs) finished n =
     (if finished
      then (if b \<noteq> 0 then Inl (Exception ''std::invalid_argument'' ''non-contiguous netmask'')
            else mask_loop bs finished n)
      else (case mask_byte b of
          None \<Rightarrow> Inl (Exception ''std::out_of_range'' ''non-contiguous netmask'')
        | Some (k, stop) \<Rightarrow> mask_loop bs stop (n + k)))"

definition network_v4_mask :: "address_v4 \<Rightarrow> address_v4 \<Rightarrow> network_v4 result" where
  "network_v4_mask addr m =
     bindR (mask_loop (to_bytes_v4 m) False 0) (\<lambda>n. Inr \<lparr>net_address = addr, prefix_length = n\<rparr>)"

definition netmask :: "network_v4 \<Rightarrow> address_v4" where
  "netmask net =
     address_v4_uint (if prefix_length net = 0 then 0
                      else push_bit (32 - unat (prefix_length net)) 0xffffffff)"

definition network :: "network_v4 \<Rightarrow> address_v4" where
  "network net = address_v4_uint (to_uint (net_address net) AND to_uint (netmask net))"

definition broadcast :: "network_v4 \<Rightarrow> address_v4" where
  "broadcast net = address_v4_uint (to_uint (network net) OR (to_uint (netmask net) XOR 0xFFFFFFFF))"

definition is_host :: "network_v4 \<Rightarrow> bool" where
  "is_host net \<longleftrightarrow> prefix_length net = 32"

text \<open>The range of hosts: its first address and the one behind its last.\<close>

definition hosts :: "network_v4 \<Rightarrow> address_v4 \<times> address_v4" where
  "hosts net =
     (if is_host net then (net_address net, address_v4_uint (to_uint (net_address net) + 1))
      else (address_v4_uint (to_uint (network net) + 1), broadcast net))"

definition canonical :: "network_v4 \<Rightarrow> network_v4 result" where
  "canonical net = network_v4_mask (network net) (netmask net)"

definition eq_network :: "network_v4 \<Rightarrow> network_v4 \<Rightarrow> bool" where
  "eq_network a b \<longleftrightarrow> eq_v4 (net_address a) (net_address b) \<and> prefix_length a = prefix_length b"

definition is_subnet_of :: "network_v4 \<Rightarrow> network_v4 \<Rightarrow> bool result" where
  "is_subnet_of net other =
     (if prefix_length other \<ge> prefix_length net then Inr False
      else bindR (network_v4_prefix (net_address net) (prefix_length other)) (\<lambda>me.
           bindR (canonical other) (\<lambda>c1. bindR (canonical me) (\<lambda>c2. Inr (eq_network c1 c2)))))"

section \<open>Networks as strings\<close>

text \<open>The decimal form of an unsigned number.\<close>

fun decimal :: "nat \<Rightarrow> string" where
  "decimal n = (if n < 10 then [char_of (48 + n)] else decimal (n div 10) @ [char_of (48 + n mod 10)])"

declare decimal.simps [simp del]

definition network_to_string :: "(address_v4 \<Rightarrow> string) \<Rightarrow> network_v4 \<Rightarrow> string" where
  "network_to_string print_v4 net = print_v4 (net_address net) @ ''/'' @ decimal (unat (prefix_length net))"

definition is_digit :: "char \<Rightarrow> bool" where
  "is_digit c \<longleftrightarrow> digit_value c \<noteq> None"

text \<open>The part before the slash goes to the parser as a C string.\<close>

definition make_network_v4 :: "os_addr \<Rightarrow> string \<Rightarrow> (network_v4 \<times> error_code) result" where
  "make_network_v4 os str =
     (let pos = length (takeWhile (\<lambda>c. c \<noteq> CHR ''/'') str)
      in if pos = length str then Inr (network_v4_default, Some Invalid_Argument)
         else if pos = length str - 1 then Inr (network_v4_default, Some Invalid_Argument)
         else if \<not> list_all is_digit (drop (pos + 1) str) then Inr (network_v4_default, Some Invalid_Argument)
         else bindR (make_address_v4 os (takeWhile (\<lambda>c. c \<noteq> CHR 0x00) (take pos str))) (\<lambda>(addr, ec).
           if ec \<noteq> None then Inr (network_v4_default, ec)
           else bindR (atoi (drop (pos + 1) str)) (\<lambda>prefix_len.
             if prefix_len < 0 \<or> prefix_len > 32 then Inr (network_v4_default, Some Invalid_Argument)
             else bindR (network_v4_prefix addr (word_of_int prefix_len)) (\<lambda>net. Inr (net, None)))))"

section \<open>Byte order\<close>

lemma le_nat_append: "le_nat (xs @ ys) = le_nat xs + 256 ^ length xs * le_nat ys"
  by (induction xs) (simp_all add: algebra_simps)

lemma nat_le_le_nat: "nat_le (length bs) (le_nat bs) = bs"
proof (induction bs)
  case (Cons b bs)
  have "unat b < 256" using unsigned_less [of b] by simp
  then have "(unat b + 256 * le_nat bs) mod 256 = unat b" "(unat b + 256 * le_nat bs) div 256 = le_nat bs"
    by simp_all
  then show ?case using Cons by simp
qed simp

lemma word_bytes_bytes_word: "length bs = 4 \<Longrightarrow> word_bytes (bytes_word bs) = bs"
  using nat_le_le_nat [of bs] le_nat_bound [of bs]
  by (simp add: word_bytes_def bytes_word_def unat_of_nat)

lemma bytes_word_word_bytes: "bytes_word (word_bytes w) = w"
proof -
  have "unat w < 256 ^ 4" using unsigned_less [of w] by simp
  then show ?thesis by (simp add: word_bytes_def bytes_word_def le_nat_nat_le del: power_numeral)
qed

lemma length_word_bytes [simp]: "length (word_bytes w) = 4"
  by (simp add: word_bytes_def)

lemma swap_swap:
  "host_to_network_long (network_to_host_long w) = w" "network_to_host_long (host_to_network_long w) = w"
  by (simp_all add: host_to_network_long_def network_to_host_long_def word_bytes_bytes_word bytes_word_word_bytes)

lemma to_uint_uint [simp]: "to_uint (address_v4_uint u) = u"
  by (simp add: to_uint_def address_v4_uint_def swap_swap)

lemma uint_to_uint [simp]: "address_v4_uint (to_uint a) = a"
  by (simp add: to_uint_def address_v4_uint_def swap_swap)

lemma to_uint_eq: "to_uint a = to_uint b \<longleftrightarrow> a = b"
  by (metis uint_to_uint)

lemma to_bytes_bytes: "length bs = 4 \<Longrightarrow> to_bytes_v4 (address_v4_bytes bs) = bs"
  by (simp add: to_bytes_v4_def address_v4_bytes_def word_bytes_bytes_word)

lemma bytes_to_bytes: "address_v4_bytes (to_bytes_v4 a) = a"
  by (simp add: to_bytes_v4_def address_v4_bytes_def bytes_word_word_bytes)

text \<open>The bytes are in network order: the value is read from the last to the first.\<close>

lemma to_uint_bytes: "to_uint a = of_nat (le_nat (rev (to_bytes_v4 a)))"
  by (simp add: to_uint_def network_to_host_long_def to_bytes_v4_def bytes_word_def)

lemma to_bytes_uint: "to_bytes_v4 a = rev (nat_le 4 (unat (to_uint a)))"
proof -
  have "word_bytes (bytes_word (rev (word_bytes (s_addr a)))) = rev (word_bytes (s_addr a))"
    by (rule word_bytes_bytes_word) simp
  then show ?thesis
    by (simp add: to_uint_def network_to_host_long_def to_bytes_v4_def word_bytes_def [of "bytes_word _"])
qed

lemma memcmp_le_nat:
  "length xs = length ys \<Longrightarrow> memcmp xs ys < 0 \<longleftrightarrow> le_nat (rev xs) < le_nat (rev ys)"
proof (induction xs ys rule: list_induct2)
  case (Cons x xs y ys)
  have b: "le_nat (rev xs) < 256 ^ length xs" "le_nat (rev ys) < 256 ^ length xs"
    using le_nat_bound [of "rev xs"] le_nat_bound [of "rev ys"] Cons.hyps by simp_all
  show ?case
  proof (cases "x = y")
    case False
    let ?k = "256 ^ length xs"
    have step: "?k * a + ?k \<le> ?k * c" if "a < c" for a c :: nat
    proof -
      have "?k * Suc a \<le> ?k * c" by (rule mult_le_mono2) (use that in simp)
      then show ?thesis by simp
    qed
    show ?thesis
    proof (cases "x < y")
      case True
      then have "?k * unat x + ?k \<le> ?k * unat y" using step by (simp add: word_less_nat_alt)
      then have "le_nat (rev xs) + ?k * unat x < le_nat (rev ys) + ?k * unat y" using b by linarith
      then show ?thesis using True False Cons.hyps by (simp add: le_nat_append)
    next
      case ge: False
      then have "unat y < unat x" using False by (simp add: word_less_nat_alt) (metis linorder_neqE_nat word_unat_eq_iff)
      then have "?k * unat y + ?k \<le> ?k * unat x" by (rule step)
      then have "\<not> le_nat (rev xs) + ?k * unat x < le_nat (rev ys) + ?k * unat y" using b by linarith
      then show ?thesis using ge False Cons.hyps by (simp add: le_nat_append)
    qed
  qed (use Cons in \<open>simp add: le_nat_append\<close>)
qed simp

section \<open>Properties of addresses\<close>

text \<open>C19: IPv4 addresses convert without loss and keep their order: number and address are inverse,
  four bytes and address are inverse, the bytes of a number are its bytes from the highest on, the
  order of addresses is the order of their bytes, and an address mapped into IPv6 comes back, by
  both ways the library has.\<close>

theorem address_v4_roundtrips:
  "to_uint (address_v4_uint u) = u \<and> address_v4_uint (to_uint a) = a \<and>
   to_bytes_v4 (address_v4_bytes [b0, b1, b2, b3]) = [b0, b1, b2, b3] \<and>
   address_v4_bytes (to_bytes_v4 a) = a \<and>
   to_bytes_v4 (address_v4_uint u) = rev (nat_le 4 (unat u)) \<and>
   (less_v4 a b \<longleftrightarrow> memcmp (to_bytes_v4 a) (to_bytes_v4 b) < 0) \<and>
   make_address_v4_mapped (v4_mapped a) = Inr a \<and> to_v4_of_v6 (v4_mapped a) = Inr a"
proof -
  have "less_v4 a b \<longleftrightarrow> le_nat (rev (to_bytes_v4 a)) < le_nat (rev (to_bytes_v4 b))"
    using le_nat_bound [of "rev (to_bytes_v4 a)"] le_nat_bound [of "rev (to_bytes_v4 b)"]
    by (simp add: less_v4_def to_uint_bytes word_less_nat_alt unat_of_nat to_bytes_v4_def)
  also have "\<dots> \<longleftrightarrow> memcmp (to_bytes_v4 a) (to_bytes_v4 b) < 0"
    by (rule memcmp_le_nat [symmetric]) (simp add: to_bytes_v4_def)
  finally have o: "less_v4 a b \<longleftrightarrow> memcmp (to_bytes_v4 a) (to_bytes_v4 b) < 0" .
  have l: "length (to_bytes_v4 a) = 4" by (simp add: to_bytes_v4_def)
  have m: "is_v4_mapped (v4_mapped a)" "take 4 (drop 12 (s6_addr (v4_mapped a))) = to_bytes_v4 a"
    using l by (simp_all add: v4_mapped_def address_v6_bytes_def is_v4_mapped_def replicate_numeral nth_append)
  show ?thesis
    using o m to_bytes_uint [of "address_v4_uint u"]
    by (simp add: to_bytes_bytes bytes_to_bytes make_address_v4_mapped_def
        to_v4_of_v6_def to_bytes_v6_def)
qed

section \<open>Netmasks\<close>

text \<open>The netmask of a prefix length, as a number.\<close>

definition mask_word :: "nat \<Rightarrow> uint32" where
  "mask_word n = (if n = 0 then 0 else push_bit (32 - n) 0xffffffff)"

lemma nat_le_numeral: "nat_le (numeral k) v = of_nat (v mod 256) # nat_le (pred_numeral k) (v div 256)"
  by (subst numeral_eq_Suc, rule nat_le.simps)

lemma to_33: "[0..<33] =
    [0, 1, 2, 3, 4, 5, 6, 7, 8, 9, 10, 11, 12, 13, 14, 15, 16, 17, 18, 19, 20, 21, 22, 23, 24, 25, 26, 27, 28, 29, 30, 31, 32]"
  by (simp add: upt_conv_Cons)

lemma mask_loop_masks: "\<forall>n \<in> set [0..<33]. mask_loop (rev (nat_le 4 (unat (mask_word n)))) False 0 = Inr (of_nat n)"
  unfolding to_33 by (simp add: nat_le_numeral mask_word_def mask_byte_def)

lemma mask_loop_finished: "mask_loop bs True n = Inr k \<longleftrightarrow> k = n \<and> (\<forall>b \<in> set bs. b = 0)"
  by (induction bs) auto

lemma mask_step: "mask_loop (b # bs) False n = Inr p \<longleftrightarrow>
   b = 255 \<and> mask_loop bs False (n + 8) = Inr p \<or>
   (\<exists>k. (b, k) \<in> {(254, 7), (252, 6), (248, 5), (240, 4), (224, 3), (192, 2), (128, 1), (0, 0)} \<and>
      p = n + k \<and> (\<forall>c \<in> set bs. c = 0))"
  by (auto simp: mask_byte_def mask_loop_finished)

lemma mask_loop_inv: "mask_loop [b0, b1, b2, b3] False 0 = Inr p \<Longrightarrow>
   p \<le> 32 \<and> [b0, b1, b2, b3] = rev (nat_le 4 (unat (mask_word (unat p))))"
  unfolding mask_step
  by (elim disjE conjE exE insertE; simp add: nat_le_numeral mask_word_def)

lemma to_uint_netmask: "to_uint (netmask net) = mask_word (unat (prefix_length net))"
  by (simp add: netmask_def mask_word_def unat_eq_0)

lemma mask_iff:
  "network_v4_mask a m = Inr net \<longleftrightarrow> net_address net = a \<and> prefix_length net \<le> 32 \<and> m = netmask net"
proof
  assume r: "network_v4_mask a m = Inr net"
  have "length (to_bytes_v4 m) = 4" by (simp add: to_bytes_v4_def)
  then obtain b0 b1 b2 b3 where b: "to_bytes_v4 m = [b0, b1, b2, b3]"
    by (auto simp: length_Suc_conv numeral_eq_Suc)
  have "mask_loop [b0, b1, b2, b3] False 0 = Inr (prefix_length net)" "net_address net = a"
    using r b by (auto simp: network_v4_mask_def bindR_Inr_iff)
  moreover from mask_loop_inv [OF this(1)] have "prefix_length net \<le> 32"
    "to_bytes_v4 m = to_bytes_v4 (netmask net)"
    using b by (simp_all add: to_bytes_uint to_uint_netmask)
  then have "m = netmask net" "prefix_length net \<le> 32" by (metis bytes_to_bytes)+
  ultimately show "net_address net = a \<and> prefix_length net \<le> 32 \<and> m = netmask net" by blast
next
  assume r: "net_address net = a \<and> prefix_length net \<le> 32 \<and> m = netmask net"
  then have "unat (prefix_length net) < 33" by (simp add: word_le_nat_alt)
  then have "mask_loop (to_bytes_v4 m) False 0 = Inr (prefix_length net)"
    using r mask_loop_masks by (simp add: to_bytes_uint to_uint_netmask)
  then show "network_v4_mask a m = Inr net" using r by (cases net) (simp add: network_v4_mask_def)
qed

text \<open>A netmask stands for a prefix length. The constructor from an address and a netmask
  succeeds exactly on the 33 contiguous masks, and then its prefix length is at most 32 and the one
  whose netmask was given; on any other mask it throws.\<close>

lemma netmask_prefix_length:
  "network_v4_mask a m = Inr net \<longleftrightarrow> net_address net = a \<and> prefix_length net \<le> 32 \<and> m = netmask net"
  by (rule mask_iff)

section \<open>Subnets\<close>

text \<open>The addresses of a network.\<close>

definition members :: "network_v4 \<Rightarrow> address_v4 set" where
  "members net = {x. to_uint x AND to_uint (netmask net) = to_uint (network net)}"

lemma mask_word_push: "n \<le> 32 \<Longrightarrow> mask_word n = push_bit (32 - n) (- 1)"
proof (cases n)
  case 0
  then show ?thesis by (simp add: mask_word_def) (rule bit_word_eqI, simp add: bit_simps)
next
  case (Suc k)
  have e: "(0xffffffff :: uint32) = - 1" by simp
  show ?thesis unfolding mask_word_def e Suc by (simp only: nat.distinct if_False)
qed

lemma mask_word_and: "n \<le> k \<Longrightarrow> k \<le> 32 \<Longrightarrow> mask_word k AND mask_word n = mask_word n"
  unfolding mask_word_push by (rule bit_word_eqI) (auto simp: mask_word_push bit_simps)

lemma canonical_ok:
  "prefix_length net \<le> 32 \<Longrightarrow>
     canonical net = Inr \<lparr>net_address = network net, prefix_length = prefix_length net\<rparr>"
  unfolding canonical_def mask_iff by (simp add: netmask_def)

lemma network_eq:
  "prefix_length a = prefix_length b \<Longrightarrow> eq_v4 (network a) (network b) \<longleftrightarrow>
     to_uint (net_address a) AND mask_word (unat (prefix_length b)) =
     to_uint (net_address b) AND mask_word (unat (prefix_length b))"
proof -
  assume p: "prefix_length a = prefix_length b"
  have "eq_v4 x y \<longleftrightarrow> to_uint x = to_uint y" for x y
    by (simp add: eq_v4_def to_uint_eq) (metis address_v4.equality unit.exhaust)
  then show ?thesis using p by (simp add: network_def to_uint_netmask)
qed

text \<open>A network is a subnet of another exactly if its prefix is longer and all its addresses
  are addresses of the other.\<close>

lemma subnet_iff_contained:
  assumes "prefix_length a \<le> 32" "prefix_length b \<le> 32"
  shows "is_subnet_of a b = Inr (prefix_length b < prefix_length a \<and> members a \<subseteq> members b)"
proof (cases "prefix_length b < prefix_length a")
  case True
  let ?ma = "mask_word (unat (prefix_length a))" and ?mb = "mask_word (unat (prefix_length b))"
  let ?me = "\<lparr>net_address = net_address a, prefix_length = prefix_length b\<rparr>"
  have "?ma AND ?mb = ?mb"
    by (rule mask_word_and) (use True assms(1) in \<open>simp_all add: word_less_nat_alt word_le_nat_alt\<close>)
  then have mb: "x AND ?mb = (x AND ?ma) AND ?mb" for x by (metis and.assoc)
  have n: "\<not> prefix_length a \<le> prefix_length b" "\<not> 32 < prefix_length b"
    using True assms by (simp_all add: not_le)
  have s: "is_subnet_of a b = Inr (to_uint (net_address b) AND ?mb = to_uint (net_address a) AND ?mb)"
    using n assms network_eq [of b ?me]
    by (simp add: is_subnet_of_def network_v4_prefix_def canonical_ok eq_network_def)
  have "members a \<subseteq> members b \<longleftrightarrow> to_uint (net_address b) AND ?mb = to_uint (net_address a) AND ?mb"
  proof
    assume "members a \<subseteq> members b"
    moreover have "net_address a \<in> members a" by (simp add: members_def network_def)
    ultimately have "net_address a \<in> members b" by blast
    then show "to_uint (net_address b) AND ?mb = to_uint (net_address a) AND ?mb"
      by (simp add: members_def network_def to_uint_netmask)
  next
    assume e: "to_uint (net_address b) AND ?mb = to_uint (net_address a) AND ?mb"
    show "members a \<subseteq> members b"
    proof
      fix x assume "x \<in> members a"
      then have "to_uint x AND ?ma = to_uint (net_address a) AND ?ma"
        by (simp add: members_def network_def to_uint_netmask)
      then have "to_uint x AND ?mb = to_uint (net_address a) AND ?mb" using mb by metis
      then show "x \<in> members b" using e by (simp add: members_def network_def to_uint_netmask)
    qed
  qed
  then show ?thesis using s True by simp
qed (simp add: is_subnet_of_def not_less)

lemma subnet_iff_contained_witness:
  "is_subnet_of \<lparr>net_address = address_v4_uint 0x0A010203, prefix_length = 24\<rparr>
      \<lparr>net_address = address_v4_uint 0x0A000000, prefix_length = 8\<rparr> =
    Inr (members \<lparr>net_address = address_v4_uint 0x0A010203, prefix_length = 24\<rparr> \<subseteq>
         members \<lparr>net_address = address_v4_uint 0x0A000000, prefix_length = 8\<rparr>)"
  using subnet_iff_contained [of "\<lparr>net_address = address_v4_uint 0x0A010203, prefix_length = 24\<rparr>"
      "\<lparr>net_address = address_v4_uint 0x0A000000, prefix_length = 8\<rparr>"] by simp

end
