(* ===== verification/Asio_Buffer_Copy.thy ===== *)
theory Asio_Buffer_Copy
  imports Asio_Buffer
begin

text \<open>
  \<open>asio::buffer_copy\<close>, buffer.hpp: copying between sequences of buffers. Memory is a function from addresses
  to bytes. There is one function for each combination of one and many buffers; each copies as
  many bytes as both sides have, as if each side was one range.
\<close>

section \<open>Copying\<close>

type_synonym memory = "nat \<Rightarrow> byte"

text \<open>\<open>memcpy\<close> of overlapping ranges is undefined.\<close>

definition memcpy :: "memory \<Rightarrow> nat \<Rightarrow> nat \<Rightarrow> nat \<Rightarrow> memory result" where
  "memcpy mem target source n =
     (if target < source + n \<and> source < target + n then Inl Overlapping_Copy
      else Inr (\<lambda>a. if target \<le> a \<and> a < target + n then mem (source + (a - target)) else mem a))"

definition buffer_copy_1 :: "memory \<Rightarrow> buffer \<Rightarrow> buffer \<Rightarrow> (memory \<times> nat) result" where
  "buffer_copy_1 mem target source =
     (let n = (if buf_size target < buf_size source then buf_size target else buf_size source)
      in if n > 0 then bindR (memcpy mem (buf_data target) (buf_data source) n) (\<lambda>mem'. Inr (mem', n))
         else Inr (mem, n))"

definition buffer_copy_one_one :: "memory \<Rightarrow> buffer \<Rightarrow> buffer \<Rightarrow> nat \<Rightarrow> (memory \<times> nat) result" where
  "buffer_copy_one_one mem target source max_bytes = buffer_copy_1 mem target (buffer_limit source max_bytes)"

text \<open>From many buffers to one. \<open>operator+=\<close> moves the start of the target.\<close>

fun copy_from_many :: "memory \<Rightarrow> buffer \<Rightarrow> buffer list \<Rightarrow> nat \<Rightarrow> (memory \<times> nat) result" where
  "copy_from_many mem target [] tot = Inr (mem, tot)"
| "copy_from_many mem target (s # ss) tot =
     (if buf_size target = 0 then Inr (mem, tot)
      else bindR (buffer_copy_1 mem target s) (\<lambda>(mem', n).
             copy_from_many mem' (buffer_plus target n) ss (add_size tot n)))"

definition buffer_copy_one_many :: "memory \<Rightarrow> buffer \<Rightarrow> buffer list \<Rightarrow> nat \<Rightarrow> (memory \<times> nat) result" where
  "buffer_copy_one_many mem target sources max_bytes = copy_from_many mem (buffer_limit target max_bytes) sources 0"

fun copy_to_many :: "memory \<Rightarrow> buffer list \<Rightarrow> buffer \<Rightarrow> nat \<Rightarrow> (memory \<times> nat) result" where
  "copy_to_many mem [] source tot = Inr (mem, tot)"
| "copy_to_many mem (t # ts) source tot =
     (if buf_size source = 0 then Inr (mem, tot)
      else bindR (buffer_copy_1 mem t source) (\<lambda>(mem', n).
             copy_to_many mem' ts (buffer_plus source n) (add_size tot n)))"

definition buffer_copy_many_one :: "memory \<Rightarrow> buffer list \<Rightarrow> buffer \<Rightarrow> nat \<Rightarrow> (memory \<times> nat) result" where
  "buffer_copy_many_one mem targets source max_bytes = copy_to_many mem targets (buffer_limit source max_bytes) 0"

text \<open>
  Between many buffers, with and without a maximum. The iterators are what is left of the two lists,
  with the offsets in their first buffers.
\<close>

definition next_buffers :: "buffer list \<Rightarrow> nat \<Rightarrow> nat \<Rightarrow> buffer \<Rightarrow> buffer list \<times> nat" where
  "next_buffers bs offset n b = (if n = buf_size b then (tl bs, 0) else (bs, offset + n))"

partial_function (option) copy_many :: "memory \<Rightarrow> buffer list \<Rightarrow> nat \<Rightarrow> buffer list \<Rightarrow> nat \<Rightarrow> nat \<Rightarrow>
    (memory \<times> nat) result option" where
  "copy_many mem ts t_offset ss s_offset tot =
     (if ts = [] \<or> ss = [] then Some (Inr (mem, tot))
      else (let target = buffer_plus (hd ts) t_offset;
                source = buffer_plus (hd ss) s_offset
            in case buffer_copy_1 mem target source of
                 Inl e \<Rightarrow> Some (Inl e)
               | Inr (mem', n) \<Rightarrow>
                   copy_many mem' (fst (next_buffers ts t_offset n target)) (snd (next_buffers ts t_offset n target))
                     (fst (next_buffers ss s_offset n source)) (snd (next_buffers ss s_offset n source))
                     (add_size tot n)))"

definition buffer_copy_many_many :: "memory \<Rightarrow> buffer list \<Rightarrow> buffer list \<Rightarrow> (memory \<times> nat) result option" where
  "buffer_copy_many_many mem targets sources = copy_many mem targets 0 sources 0 0"

partial_function (option) copy_many_max :: "nat \<Rightarrow> memory \<Rightarrow> buffer list \<Rightarrow> nat \<Rightarrow> buffer list \<Rightarrow> nat \<Rightarrow> nat \<Rightarrow>
    (memory \<times> nat) result option" where
  "copy_many_max max_bytes mem ts t_offset ss s_offset tot =
     (if tot = max_bytes \<or> ts = [] \<or> ss = [] then Some (Inr (mem, tot))
      else (let target = buffer_plus (hd ts) t_offset;
                source = buffer_plus (hd ss) s_offset
            in case buffer_copy_1 mem target (buffer_limit source (max_bytes - tot)) of
                 Inl e \<Rightarrow> Some (Inl e)
               | Inr (mem', n) \<Rightarrow>
                   copy_many_max max_bytes mem' (fst (next_buffers ts t_offset n target)) (snd (next_buffers ts t_offset n target))
                     (fst (next_buffers ss s_offset n source)) (snd (next_buffers ss s_offset n source))
                     (add_size tot n)))"

definition buffer_copy_many_many_max :: "memory \<Rightarrow> buffer list \<Rightarrow> buffer list \<Rightarrow> nat \<Rightarrow> (memory \<times> nat) result option" where
  "buffer_copy_many_many_max mem targets sources max_bytes = copy_many_max max_bytes mem targets 0 sources 0 0"

section \<open>What is copied\<close>

text \<open>Byte by byte, from the one list of addresses to the other.\<close>

fun copied :: "memory \<Rightarrow> nat list \<Rightarrow> nat list \<Rightarrow> memory" where
  "copied mem (t # ts) (s # ss) = copied (mem(t := mem s)) ts ss"
| "copied mem _ _ = mem"

lemma copied_Nil [simp]: "copied mem [] ss = mem" "copied mem ts [] = mem"
  by (cases ss; simp) (cases ts; simp)

lemma copied_append:
  "length ts1 = length ss1 \<Longrightarrow> copied mem (ts1 @ ts2) (ss1 @ ss2) = copied (copied mem ts1 ss1) ts2 ss2"
  by (induction mem ts1 ss1 rule: copied.induct) auto

lemma copied_other: "a \<notin> set ts \<Longrightarrow> copied mem ts ss a = mem a"
  by (induction mem ts ss rule: copied.induct) auto

lemma copied_nth:
  "distinct ts \<Longrightarrow> set ts \<inter> set ss = {} \<Longrightarrow> i < length ts \<Longrightarrow> i < length ss \<Longrightarrow>
     copied mem ts ss (ts ! i) = mem (ss ! i)"
proof (induction mem ts ss arbitrary: i rule: copied.induct)
  case (1 mem t ts s ss)
  show ?case
  proof (cases i)
    case 0
    then show ?thesis using 1 by (simp add: copied_other)
  next
    case (Suc j)
    have "ss ! j \<noteq> t" using 1 Suc nth_mem [of j ss] by auto
    then show ?thesis using 1 Suc by (simp add: fun_upd_def)
  qed
qed auto

lemma copied_split:
  "copied mem (a @ x) (b @ y) =
     copied (copied mem a b) (drop (min (length a) (length b)) a @ x) (drop (min (length a) (length b)) b @ y)"
  by (induction mem a b rule: copied.induct) (auto simp: fun_upd_def)

lemma copied_take: "copied mem (take n ts) ss = copied mem ts (take n ss)"
proof (induction n arbitrary: mem ts ss)
  case (Suc n)
  then show ?case by (cases ts; cases ss) (auto simp: fun_upd_def)
qed simp

lemma memcpy_ok:
  assumes "set [t ..< t + n] \<inter> set [s ..< s + n] = {}"
  shows "memcpy mem t s n = Inr (copied mem [t ..< t + n] [s ..< s + n])"
proof -
  have "\<not> (t < s + n \<and> s < t + n) \<or> n = 0"
  proof (rule ccontr)
    assume a: "\<not> (\<not> (t < s + n \<and> s < t + n) \<or> n = 0)"
    then have "max t s \<in> set [t ..< t + n] \<inter> set [s ..< s + n]" by (auto simp: max_def)
    then show False using assms by blast
  qed
  moreover have "copied mem [t ..< t + n] [s ..< s + n] a = (if t \<le> a \<and> a < t + n then mem (s + (a - t)) else mem a)" for a
  proof (cases "t \<le> a \<and> a < t + n")
    case True
    then have "a - t < n" by arith
    then show ?thesis using copied_nth [OF _ assms, of "a - t" mem] True by simp
  qed (auto simp: copied_other)
  ultimately show ?thesis by (auto simp: memcpy_def fun_eq_iff)
qed

lemma copy_1_ok:
  assumes "set (addresses t) \<inter> set (addresses s) = {}"
  shows "buffer_copy_1 mem t s = Inr (copied mem (addresses t) (addresses s), min (buf_size t) (buf_size s))"
proof -
  define n where "n = min (buf_size t) (buf_size s)"
  have n: "take n (addresses t) = [buf_data t ..< buf_data t + n]" "take n (addresses s) = [buf_data s ..< buf_data s + n]"
    by (simp_all add: n_def addresses_def take_upt)
  have "set [buf_data t ..< buf_data t + n] \<inter> set [buf_data s ..< buf_data s + n] = {}"
    using assms set_take_subset [of n "addresses t"] set_take_subset [of n "addresses s"] unfolding n by blast
  from memcpy_ok [OF this, of mem] have m: "memcpy mem (buf_data t) (buf_data s) n = Inr (copied mem (take n (addresses t)) (take n (addresses s)))"
    by (simp add: n)
  have "copied mem (take n (addresses t)) (take n (addresses s)) = copied mem (take n (addresses t)) (addresses s)"
    by (simp add: copied_take)
  also have "\<dots> = copied mem (addresses t) (addresses s)"
    by (cases "buf_size t \<le> buf_size s") (simp add: n_def, simp add: n_def copied_take)
  finally have c: "copied mem (take n (addresses t)) (take n (addresses s)) = copied mem (addresses t) (addresses s)" .
  have "buffer_copy_1 mem t s = (if n > 0 then bindR (memcpy mem (buf_data t) (buf_data s) n) (\<lambda>mem'. Inr (mem', n)) else Inr (mem, n))"
    by (simp add: buffer_copy_1_def n_def min_def Let_def)
  moreover have "copied mem (addresses t) (addresses s) = mem" if "n = 0"
    using that c by simp
  ultimately show ?thesis by (simp add: m c n_def [symmetric])
qed

lemma from_many_ok:
  "set (addresses t) \<inter> set (all_addresses ss) = {} \<Longrightarrow> tot + buf_size t < 2 ^ 64 \<Longrightarrow>
     copy_from_many mem t ss tot = Inr (copied mem (addresses t) (all_addresses ss), tot + min (buf_size t) (length (all_addresses ss)))"
proof (induction ss arbitrary: mem t tot)
  case (Cons s ss)
  show ?case
  proof (cases "buf_size t = 0")
    case True
    then show ?thesis by (simp add: addresses_def)
  next
    case False
    let ?n = "min (buf_size t) (buf_size s)"
    have d: "set (addresses t) \<inter> set (addresses s) = {}" "set (addresses (buffer_plus t ?n)) \<inter> set (all_addresses ss) = {}"
      using Cons.prems(1) set_drop_subset [of ?n "addresses t"] by auto
    have "copied mem (addresses t @ []) (addresses s @ all_addresses ss) =
        copied (copied mem (addresses t) (addresses s)) (drop ?n (addresses t) @ []) (drop ?n (addresses s) @ all_addresses ss)"
      using copied_split [of mem "addresses t" "[]" "addresses s" "all_addresses ss"] by simp
    moreover have "drop ?n (addresses t) = [] \<or> drop ?n (addresses s) = []" by (auto simp: min_def)
    ultimately have "copied (copied mem (addresses t) (addresses s)) (drop ?n (addresses t)) (all_addresses ss) =
        copied mem (addresses t) (addresses s @ all_addresses ss)" by auto
    moreover have "tot + ?n + min (buf_size t - ?n) (length (all_addresses ss)) =
        tot + min (buf_size t) (buf_size s + length (all_addresses ss))" by arith
    moreover have "tot + ?n + (buf_size t - ?n) < 2 ^ 64" "add_size tot ?n = tot + ?n"
      using Cons.prems(2) by (simp_all add: add_size_def)
    ultimately show ?thesis
      using Cons.IH [OF d(2), of "tot + ?n" "copied mem (addresses t) (addresses s)"] False
      by (simp add: copy_1_ok [OF d(1)])
  qed
qed simp

lemma to_many_ok:
  "set (all_addresses ts) \<inter> set (addresses s) = {} \<Longrightarrow> tot + buf_size s < 2 ^ 64 \<Longrightarrow>
     copy_to_many mem ts s tot = Inr (copied mem (all_addresses ts) (addresses s), tot + min (length (all_addresses ts)) (buf_size s))"
proof (induction ts arbitrary: mem s tot)
  case (Cons t ts)
  show ?case
  proof (cases "buf_size s = 0")
    case True
    then show ?thesis by (simp add: addresses_def)
  next
    case False
    let ?n = "min (buf_size t) (buf_size s)"
    have d: "set (addresses t) \<inter> set (addresses s) = {}" "set (all_addresses ts) \<inter> set (addresses (buffer_plus s ?n)) = {}"
      using Cons.prems(1) set_drop_subset [of ?n "addresses s"] by auto
    have "copied mem (addresses t @ all_addresses ts) (addresses s @ []) =
        copied (copied mem (addresses t) (addresses s)) (drop ?n (addresses t) @ all_addresses ts) (drop ?n (addresses s) @ [])"
      using copied_split [of mem "addresses t" "all_addresses ts" "addresses s" "[]"] by simp
    moreover have "drop ?n (addresses t) = [] \<or> drop ?n (addresses s) = []" by (auto simp: min_def)
    ultimately have "copied (copied mem (addresses t) (addresses s)) (all_addresses ts) (drop ?n (addresses s)) =
        copied mem (addresses t @ all_addresses ts) (addresses s)" by auto
    moreover have "tot + ?n + min (length (all_addresses ts)) (buf_size s - ?n) =
        tot + min (buf_size t + length (all_addresses ts)) (buf_size s)" by arith
    moreover have "tot + ?n + (buf_size s - ?n) < 2 ^ 64" "add_size tot ?n = tot + ?n"
      using Cons.prems(2) by (simp_all add: add_size_def)
    ultimately show ?thesis
      using Cons.IH [OF d(2), of "tot + ?n" "copied mem (addresses t) (addresses s)"] False
      by (simp add: copy_1_ok [OF d(1)])
  qed
qed simp

lemma next_rest:
  assumes "n \<le> buf_size (buffer_plus b off)" "next_buffers (b # bs) off n (buffer_plus b off) = (bs', off')"
  shows "rest_from off' bs' = drop n (drop off (addresses b)) @ all_addresses bs"
    "length bs' < length (b # bs) \<longleftrightarrow> n = buf_size (buffer_plus b off)" "length bs' \<le> length (b # bs)"
proof -
  have "n \<noteq> buf_size (buffer_plus b off) \<Longrightarrow> rest_from (off + n) (b # bs) = drop n (drop off (addresses b)) @ all_addresses bs"
    by (simp add: add.commute)
  then show "rest_from off' bs' = drop n (drop off (addresses b)) @ all_addresses bs"
    using assms by (auto simp: next_buffers_def split: if_splits)
qed (use assms in \<open>auto simp: next_buffers_def split: if_splits\<close>)

lemma drop_take_append: "n \<le> length b \<Longrightarrow> drop n (take j b) @ take (j - length b) y = take (j - n) (drop n b @ y)"
  by (simp add: drop_take)

lemma copy_many_max_ok:
  assumes "set (rest_from to ts) \<inter> set (rest_from so ss) = {}" "tot \<le> k" "k < 2 ^ 64"
  shows "copy_many_max k mem ts to ss so tot =
    Some (Inr (copied mem (rest_from to ts) (take (k - tot) (rest_from so ss)),
      tot + min (length (rest_from to ts)) (min (length (rest_from so ss)) (k - tot))))"
  using assms
proof (induction "length ts + length ss + (if tot = k then 0 else 1)" arbitrary: mem ts to ss so tot rule: less_induct)
  case less
  show ?case
  proof (cases "tot = k \<or> ts = [] \<or> ss = []")
    case True
    then show ?thesis by (subst copy_many_max.simps) auto
  next
    case False
    then obtain t ts1 s ss1 where l: "ts = t # ts1" "ss = s # ss1" by (meson neq_Nil_conv)
    let ?a = "buffer_plus t to" let ?b = "buffer_limit (buffer_plus s so) (k - tot)"
    define n where "n = min (buf_size ?a) (buf_size ?b)"
    obtain ts' to' where t': "next_buffers (t # ts1) to n ?a = (ts', to')" by fastforce
    obtain ss' so' where s': "next_buffers (s # ss1) so n (buffer_plus s so) = (ss', so')" by fastforce
    have n': "n = min (buf_size t - to) (min (buf_size s - so) (k - tot))" by (simp add: n_def)
    have n: "n \<le> buf_size ?a" "n \<le> buf_size (buffer_plus s so)" "tot + n \<le> k" using less.prems(2) by (auto simp: n_def)
    note T = next_rest [OF n(1) t'] note S = next_rest [OF n(2) s']
    have sub: "set (rest_from to' ts') \<subseteq> set (rest_from to ts)" "set (rest_from so' ss') \<subseteq> set (rest_from so ss)"
      "set (addresses ?a) \<subseteq> set (rest_from to ts)" "set (addresses ?b) \<subseteq> set (rest_from so ss)"
      using set_drop_subset [of n "drop to (addresses t)"] set_drop_subset [of n "drop so (addresses s)"]
        set_take_subset [of "k - tot" "drop so (addresses s)"] by (auto simp: l T(1) S(1) simp del: drop_drop)
    have d: "set (addresses ?a) \<inter> set (addresses ?b) = {}" "set (rest_from to' ts') \<inter> set (rest_from so' ss') = {}"
      using sub less.prems(1) by blast+
    have "length ts' < length ts \<or> length ss' < length ss \<or> tot + n = k"
      using T(2) S(2) l less.prems(2) by (auto simp: n_def min_def)
    then have m: "length ts' + length ss' + (if tot + n = k then 0 else 1) < length ts + length ss + (if tot = k then 0 else 1)"
      using T(3) S(3) l False by (auto split: if_splits)
    have "drop n (addresses ?b) @ take (k - tot - buf_size (buffer_plus s so)) (all_addresses ss1) =
        take (k - tot - n) (rest_from so' ss')"
      using drop_take_append [of n "drop so (addresses s)" "k - tot" "all_addresses ss1"] n(2) by (simp add: S(1))
    then have c: "copied (copied mem (addresses ?a) (addresses ?b)) (rest_from to' ts') (take (k - (tot + n)) (rest_from so' ss')) =
        copied mem (rest_from to ts) (take (k - tot) (rest_from so ss))"
      using copied_split [of mem "addresses ?a" "all_addresses ts1" "addresses ?b"
          "take (k - tot - buf_size (buffer_plus s so)) (all_addresses ss1)"] T(1) l
      by (simp flip: n')
    have le: "n \<le> length (rest_from to ts)" "n \<le> length (rest_from so ss)" using n by (auto simp: l)
    have len: "length (rest_from to' ts') = length (rest_from to ts) - n" "length (rest_from so' ss') = length (rest_from so ss) - n"
      using n by (auto simp: T(1) S(1) l)
    have e: "tot + n + min (length (rest_from to' ts')) (min (length (rest_from so' ss')) (k - (tot + n))) =
        tot + min (length (rest_from to ts)) (min (length (rest_from so ss)) (k - tot))"
      unfolding len using n(3) le by linarith
    have c1: "buffer_copy_1 mem ?a ?b = Inr (copied mem (addresses ?a) (addresses ?b), n)"
      by (simp only: copy_1_ok [OF d(1)] n_def)
    have "add_size tot n = tot + n" using less.prems(3) n(3) by (simp add: add_size_def)
    then have "copy_many_max k mem ts to ss so tot =
        copy_many_max k (copied mem (addresses ?a) (addresses ?b)) ts' to' ss' so' (tot + n)"
      using False unfolding l
      by (subst copy_many_max.simps)
        (simp only: Let_def c1 t' s' list.sel list.distinct if_False sum.case prod.case fst_conv snd_conv simp_thms)
    then show ?thesis using less.hyps [OF m d(2) n(3) less.prems(3), of "copied mem (addresses ?a) (addresses ?b)"] c e by simp
  qed
qed

lemma copy_1_number: "buffer_copy_1 mem t s = Inr (mem', n) \<Longrightarrow> n = min (buf_size t) (buf_size s)"
  by (auto simp: buffer_copy_1_def Let_def min_def bindR_Inr_iff split: if_splits)

lemma limit_more: "buf_size b \<le> k \<Longrightarrow> buffer_limit b k = b"
  by (simp add: buffer_limit_def)

text \<open>A maximum that is not reached makes no difference.\<close>

lemma copy_many_no_max:
  "tot + length (rest_from so ss) < k \<Longrightarrow> k < 2 ^ 64 \<Longrightarrow>
     copy_many mem ts to ss so tot = copy_many_max k mem ts to ss so tot"
proof (induction "length ts + length ss" arbitrary: mem ts to ss so tot rule: less_induct)
  case less
  show ?case
  proof (cases "ts = [] \<or> ss = []")
    case True
    then show ?thesis by (subst copy_many.simps, subst copy_many_max.simps) auto
  next
    case False
    then obtain t ts1 s ss1 where l: "ts = t # ts1" "ss = s # ss1" by (meson neq_Nil_conv)
    let ?a = "buffer_plus t to" let ?b = "buffer_plus s so"
    have b: "buffer_limit ?b (k - tot) = ?b" using less.prems(1) by (intro limit_more) (simp add: l)
    have "tot \<noteq> k" using less.prems(1) by simp
    show ?thesis
    proof (cases "buffer_copy_1 mem ?a ?b")
      case (Inl e)
      then show ?thesis using \<open>tot \<noteq> k\<close>
        by (subst copy_many.simps, subst copy_many_max.simps) (simp add: l b Let_def)
    next
      case (Inr r)
      obtain mem' n where r: "r = (mem', n)" by (cases r)
      have n: "n = min (buf_size ?a) (buf_size ?b)" using Inr r copy_1_number by blast
      obtain ts' to' where t': "next_buffers (t # ts1) to n ?a = (ts', to')" by fastforce
      obtain ss' so' where s': "next_buffers (s # ss1) so n ?b = (ss', so')" by fastforce
      have le: "n \<le> buf_size ?a" "n \<le> buf_size ?b" using n by simp_all
      note T = next_rest [OF le(1) t'] note S = next_rest [OF le(2) s']
      have "length ts' < length ts \<or> length ss' < length ss" using T(2) S(2) l n by (auto simp: min_def)
      then have m: "length ts' + length ss' < length ts + length ss" using T(3) S(3) l by auto
      have len: "tot + n + length (rest_from so' ss') = tot + length (rest_from so ss)"
        using le(2) by (simp add: S(1) l)
      have "add_size tot n = tot + n" using len less.prems by (simp add: add_size_def)
      then show ?thesis
        using less.hyps [OF m, of "tot + n" so' mem' to'] len less.prems \<open>tot \<noteq> k\<close> Inr r t' s'
        by (subst copy_many.simps, subst copy_many_max.simps) (simp add: l b Let_def)
    qed
  qed
qed

section \<open>Property\<close>

text \<open>What is promised of a copy: the number of bytes both sides have, up to the maximum; these are moved to
  their places, and nothing else changes.\<close>

definition copy_promise :: "memory \<Rightarrow> nat list \<Rightarrow> nat list \<Rightarrow> nat \<Rightarrow> (memory \<times> nat) result \<Rightarrow> bool" where
  "copy_promise mem T S k r \<longleftrightarrow>
     (case r of Inl _ \<Rightarrow> False
      | Inr (mem', n) \<Rightarrow> n = min (length T) (min (length S) k) \<and>
          map mem' (take n T) = map mem (take n S) \<and> (\<forall>a. a \<notin> set (take n T) \<longrightarrow> mem' a = mem a))"

lemma copy_promiseI:
  assumes "distinct T" "set T \<inter> set S = {}"
  shows "copy_promise mem T S k (Inr (copied mem T (take k S), min (length T) (min (length S) k)))"
proof -
  define n where "n = min (length T) (min (length S) k)"
  have "copied mem (take n T) (take n S) = copied mem T (take n S)" by (simp add: copied_take)
  also have "\<dots> = copied mem T (take k S)"
  proof (cases "length T \<le> min (length S) k")
    case True
    then have "take n S = take (length T) (take k S)" by (simp add: n_def)
    then show ?thesis using copied_take [of mem "length T" T "take k S"] by simp
  next
    case False
    then have "n = min (length S) k" unfolding n_def by linarith
    then show ?thesis by (metis min.commute take_all_iff take_take nle_le order_refl)
  qed
  finally have c: "copied mem T (take k S) = copied mem (take n T) (take n S)" ..
  have l: "length (take n T) = n" "length (take n S) = n" by (simp_all add: n_def)
  have d: "distinct (take n T)" "set (take n T) \<inter> set (take n S) = {}"
    using assms set_take_subset [of n T] set_take_subset [of n S] by (auto dest: in_set_takeD)
  have "map (copied mem (take n T) (take n S)) (take n T) = map mem (take n S)"
    using copied_nth [OF d] l by (intro nth_equalityI) auto
  then show ?thesis
    using copied_other [of _ "take n T" mem "take n S"] unfolding copy_promise_def c n_def [symmetric] by simp
qed

text \<open>C29: between buffers that do not overlap, \<open>buffer_copy\<close> copies byte by byte as if each side was one
  range, for one and many buffers on each side, with a maximum and without.\<close>

theorem buffer_copy_copies:
  assumes "distinct (all_addresses ts)" "set (all_addresses ts) \<inter> set (all_addresses ss) = {}"
    and "length (all_addresses ts) < 2 ^ 63" "length (all_addresses ss) < 2 ^ 63" "k < 2 ^ 64"
    and "t \<in> set ts" "s \<in> set ss"
  shows "copy_promise mem (addresses t) (addresses s) k (buffer_copy_one_one mem t s k) \<and>
    copy_promise mem (addresses t) (all_addresses ss) k (buffer_copy_one_many mem t ss k) \<and>
    copy_promise mem (all_addresses ts) (addresses s) k (buffer_copy_many_one mem ts s k) \<and>
    (\<exists>r. buffer_copy_many_many_max mem ts ss k = Some r \<and> copy_promise mem (all_addresses ts) (all_addresses ss) k r) \<and>
    (\<exists>r. buffer_copy_many_many mem ts ss = Some r \<and>
      copy_promise mem (all_addresses ts) (all_addresses ss) (length (all_addresses ss)) r)"
proof (intro conjI)
  have sub: "set (addresses t) \<subseteq> set (all_addresses ts)" "set (addresses s) \<subseteq> set (all_addresses ss)"
    "length (addresses t) \<le> length (all_addresses ts)" "length (addresses s) \<le> length (all_addresses ss)"
    "distinct (addresses t)"
    using assms(6,7) by (auto simp: all_addresses_def length_concat comp_def addresses_def intro!: member_le_sum_list)
  note I = copy_promiseI [of _ _ mem k]
  have d1: "set (addresses t) \<inter> set (addresses s) = {}" "set (addresses t) \<inter> set (addresses (buffer_limit s k)) = {}"
    using sub assms(2) by (auto dest: in_set_takeD)
  show "copy_promise mem (addresses t) (addresses s) k (buffer_copy_one_one mem t s k)"
    using I [OF sub(5) d1(1)] by (simp add: buffer_copy_one_one_def copy_1_ok [OF d1(2)])
  have d2: "set (addresses t) \<inter> set (all_addresses ss) = {}" "set (addresses (buffer_limit t k)) \<inter> set (all_addresses ss) = {}"
    using sub assms(2) by (auto dest: in_set_takeD)
  have m: "min (min a k) b = min a (min b k)" for a b :: nat by linarith
  show "copy_promise mem (addresses t) (all_addresses ss) k (buffer_copy_one_many mem t ss k)"
    using I [OF sub(5) d2(1)] from_many_ok [OF d2(2), of 0 mem] sub(3) assms(3)
    by (simp add: buffer_copy_one_many_def copied_take m)
  have d3: "set (all_addresses ts) \<inter> set (addresses s) = {}" "set (all_addresses ts) \<inter> set (addresses (buffer_limit s k)) = {}"
    using sub assms(2) by (auto dest: in_set_takeD)
  show "copy_promise mem (all_addresses ts) (addresses s) k (buffer_copy_many_one mem ts s k)"
    using I [OF assms(1) d3(1)] to_many_ok [OF d3(2), of 0 mem] sub(4) assms(4)
    by (simp add: buffer_copy_many_one_def)
  show "\<exists>r. buffer_copy_many_many_max mem ts ss k = Some r \<and> copy_promise mem (all_addresses ts) (all_addresses ss) k r"
    using I [OF assms(1,2)] copy_many_max_ok [of 0 ts 0 ss 0 k mem] assms(2,5)
    by (simp add: buffer_copy_many_many_max_def)
  have e: "min (length (all_addresses ss)) 18446744073709551615 = length (all_addresses ss)"
    "take 18446744073709551615 (all_addresses ss) = all_addresses ss" using assms(4) by simp_all
  have "buffer_copy_many_many mem ts ss = copy_many_max (2 ^ 64 - 1) mem ts 0 ss 0 0"
    unfolding buffer_copy_many_many_def by (rule copy_many_no_max) (use assms(4) in simp_all)
  then show "\<exists>r. buffer_copy_many_many mem ts ss = Some r \<and>
      copy_promise mem (all_addresses ts) (all_addresses ss) (length (all_addresses ss)) r"
    using copy_promiseI [OF assms(1,2), of mem "length (all_addresses ss)"]
      copy_many_max_ok [of 0 ts 0 ss 0 "2 ^ 64 - 1" mem] assms(2) by (simp add: e del: min_less_iff_conj)
qed

theorem buffer_copy_copies_witness:
  "\<exists>mem' n. buffer_copy_many_many_max (\<lambda>a. of_nat a) [\<lparr>buf_data = 10, buf_size = 2\<rparr>, \<lparr>buf_data = 20, buf_size = 3\<rparr>]
     [\<lparr>buf_data = 30, buf_size = 4\<rparr>] 3 = Some (Inr (mem', n)) \<and> map mem' [10, 11, 20] = [30, 31, 32]"
proof -
  have "\<exists>r. buffer_copy_many_many_max (\<lambda>a. of_nat a) [\<lparr>buf_data = 10, buf_size = 2\<rparr>, \<lparr>buf_data = 20, buf_size = 3\<rparr>]
     [\<lparr>buf_data = 30, buf_size = 4\<rparr>] 3 = Some r \<and> copy_promise (\<lambda>a. of_nat a) [10, 11, 20, 21, 22] [30, 31, 32, 33] 3 r"
    using buffer_copy_copies [of "[\<lparr>buf_data = 10, buf_size = 2\<rparr>, \<lparr>buf_data = 20, buf_size = 3\<rparr>]"
        "[\<lparr>buf_data = 30, buf_size = 4\<rparr>]" 3 "\<lparr>buf_data = 10, buf_size = 2\<rparr>" "\<lparr>buf_data = 30, buf_size = 4\<rparr>" "\<lambda>a. of_nat a"]
    by (simp add: addresses_def)
  then obtain r where r: "buffer_copy_many_many_max (\<lambda>a. of_nat a) [\<lparr>buf_data = 10, buf_size = 2\<rparr>, \<lparr>buf_data = 20, buf_size = 3\<rparr>]
     [\<lparr>buf_data = 30, buf_size = 4\<rparr>] 3 = Some r" "copy_promise (\<lambda>a. of_nat a) [10, 11, 20, 21, 22] [30, 31, 32, 33] 3 r" by blast
  then obtain mem' n where "r = Inr (mem', n)" by (cases r) (auto simp: copy_promise_def)
  moreover from this have "map mem' (take 3 [10, 11, 20, 21, 22]) = map (\<lambda>a. of_nat a) (take 3 [30, 31, 32, 33])"
    using r(2) by (auto simp: copy_promise_def)
  ultimately show ?thesis using r(1) by simp
qed

end
