(* ===== verification/Asio_Dynamic.thy ===== *)
theory Asio_Dynamic
  imports Prelude
begin

text \<open>
  Buffers of the bundled asio that grow: \<open>dynamic_string_buffer\<close> (buffer.hpp), with the operations of both
  versions of its interface. The locale \<open>dynamic_buffer\<close> is what reading into a growing buffer relies on.
\<close>

section \<open>The contract\<close>

text \<open>
  The bytes in the buffer; room for more is prepared, filled by the stream and committed. \<open>commit\<close>
  has the number of bytes that were prepared, and those that were read.
\<close>

record 'b dyn_ops =
  d_data :: "'b \<Rightarrow> byte list"
  d_size :: "'b \<Rightarrow> nat"
  d_max :: "'b \<Rightarrow> nat"
  d_capacity :: "'b \<Rightarrow> nat"
  d_prepare :: "'b \<Rightarrow> nat \<Rightarrow> 'b result"
  d_commit :: "'b \<Rightarrow> nat \<Rightarrow> byte list \<Rightarrow> 'b result"

locale dynamic_buffer =
  fixes D :: "'b dyn_ops"
    and inv :: "'b \<Rightarrow> bool"
    and contents :: "'b \<Rightarrow> byte list"
  assumes data: "inv b \<Longrightarrow> d_data D b = contents b"
    and sizes: "inv b \<Longrightarrow> d_size D b = length (contents b) \<and> length (contents b) \<le> d_max D b \<and> d_size D b \<le> d_capacity D b"
    and filled: "inv b \<Longrightarrow> n \<le> d_max D b - length (contents b) \<Longrightarrow> length bs \<le> n \<Longrightarrow>
      \<exists>b1 b2. d_prepare D b n = Inr b1 \<and> d_commit D b1 n bs = Inr b2 \<and> inv b2 \<and>
        contents b2 = contents b @ bs \<and> d_max D b2 = d_max D b"

definition length_error :: "string \<Rightarrow> fault" where
  "length_error what = Exception ''std::length_error'' what"

section \<open>Strings\<close>

text \<open>
  The size is not set before \<open>prepare\<close> is called, which starts the behaviour of version 1. How the
  capacity of a string grows is up to the library: \<open>grow\<close> of the old capacity and the new size.
\<close>

definition size_unset :: nat where
  "size_unset = 2 ^ 64 - 1"

record dynamic_string =
  string_bytes :: "byte list"
  string_capacity :: nat
  string_size :: nat
  string_max :: nat

definition dynamic_string_new :: "byte list \<Rightarrow> nat \<Rightarrow> nat \<Rightarrow> dynamic_string" where
  "dynamic_string_new s cap maximum_size =
     \<lparr>string_bytes = s, string_capacity = cap, string_size = size_unset, string_max = maximum_size\<rparr>"

definition resize :: "byte list \<Rightarrow> nat \<Rightarrow> byte list" where
  "resize s n = take n s @ replicate (n - length s) 0"

definition ds_resize :: "(nat \<Rightarrow> nat \<Rightarrow> nat) \<Rightarrow> dynamic_string \<Rightarrow> nat \<Rightarrow> dynamic_string" where
  "ds_resize grow d n = d\<lparr>string_bytes := resize (string_bytes d) n,
     string_capacity := (if n \<le> string_capacity d then string_capacity d else grow (string_capacity d) n)\<rparr>"

definition ds_size :: "dynamic_string \<Rightarrow> nat" where
  "ds_size d = (if string_size d \<noteq> size_unset then string_size d else min (length (string_bytes d)) (string_max d))"

definition ds_capacity :: "dynamic_string \<Rightarrow> nat" where
  "ds_capacity d = min (string_capacity d) (string_max d)"

definition ds_data :: "dynamic_string \<Rightarrow> byte list" where
  "ds_data d = take (string_size d) (string_bytes d)"

definition ds_data_range :: "dynamic_string \<Rightarrow> nat \<Rightarrow> nat \<Rightarrow> byte list" where
  "ds_data_range d pos n = take n (drop pos (take (string_max d) (string_bytes d)))"

definition ds_prepare :: "(nat \<Rightarrow> nat \<Rightarrow> nat) \<Rightarrow> dynamic_string \<Rightarrow> nat \<Rightarrow> dynamic_string result" where
  "ds_prepare grow d n =
     (if ds_size d > string_max d \<or> string_max d - ds_size d < n
      then Inl (length_error ''dynamic_string_buffer too long'')
      else (let d1 = (if string_size d = size_unset then d\<lparr>string_size := length (string_bytes d)\<rparr> else d)
            in Inr (ds_resize grow d1 (string_size d1 + n))))"

definition ds_commit :: "(nat \<Rightarrow> nat \<Rightarrow> nat) \<Rightarrow> dynamic_string \<Rightarrow> nat \<Rightarrow> dynamic_string" where
  "ds_commit grow d n =
     (let d1 = d\<lparr>string_size := string_size d + min n (length (string_bytes d) - string_size d)\<rparr>
      in ds_resize grow d1 (string_size d1))"

definition ds_grow :: "(nat \<Rightarrow> nat \<Rightarrow> nat) \<Rightarrow> dynamic_string \<Rightarrow> nat \<Rightarrow> dynamic_string result" where
  "ds_grow grow d n =
     (if ds_size d > string_max d \<or> string_max d - ds_size d < n
      then Inl (length_error ''dynamic_string_buffer too long'')
      else Inr (ds_resize grow d (ds_size d + n)))"

definition ds_shrink :: "(nat \<Rightarrow> nat \<Rightarrow> nat) \<Rightarrow> dynamic_string \<Rightarrow> nat \<Rightarrow> dynamic_string" where
  "ds_shrink grow d n = ds_resize grow d (if n > ds_size d then 0 else ds_size d - n)"

definition ds_consume :: "dynamic_string \<Rightarrow> nat \<Rightarrow> dynamic_string" where
  "ds_consume d n =
     (if string_size d \<noteq> size_unset
      then (let consume_length = min n (string_size d)
            in d\<lparr>string_bytes := drop consume_length (string_bytes d), string_size := string_size d - consume_length\<rparr>)
      else d\<lparr>string_bytes := drop n (string_bytes d)\<rparr>)"

text \<open>The stream writes at a position, the start of the range it was given.\<close>

definition ds_put :: "dynamic_string \<Rightarrow> nat \<Rightarrow> byte list \<Rightarrow> dynamic_string" where
  "ds_put d pos bs = d\<lparr>string_bytes := take pos (string_bytes d) @ bs @ drop (pos + length bs) (string_bytes d)\<rparr>"

definition string_ops_v1 :: "(nat \<Rightarrow> nat \<Rightarrow> nat) \<Rightarrow> dynamic_string dyn_ops" where
  "string_ops_v1 grow = \<lparr>d_data = ds_data, d_size = ds_size, d_max = string_max, d_capacity = ds_capacity,
     d_prepare = ds_prepare grow,
     d_commit = (\<lambda>d n bs. Inr (ds_commit grow (ds_put d (string_size d) bs) (length bs)))\<rparr>"

text \<open>In version 2, the position is the size before \<open>grow\<close>.\<close>

definition string_ops_v2 :: "(nat \<Rightarrow> nat \<Rightarrow> nat) \<Rightarrow> dynamic_string dyn_ops" where
  "string_ops_v2 grow = \<lparr>d_data = (\<lambda>d. ds_data_range d 0 (ds_size d)), d_size = ds_size, d_max = string_max,
     d_capacity = ds_capacity, d_prepare = ds_grow grow,
     d_commit = (\<lambda>d n bs. Inr (ds_shrink grow (ds_put d (ds_size d - n) bs) (n - length bs)))\<rparr>"

definition string_ok :: "dynamic_string \<Rightarrow> bool" where
  "string_ok d \<longleftrightarrow> length (string_bytes d) \<le> string_max d \<and> string_max d < size_unset \<and>
     length (string_bytes d) \<le> string_capacity d"

text \<open>Version 1, new or from the first \<open>prepare\<close> on, and version 2.\<close>

definition string_v1 :: "dynamic_string \<Rightarrow> bool" where
  "string_v1 d \<longleftrightarrow> string_ok d \<and> (string_size d = length (string_bytes d) \<or> string_size d = size_unset)"

definition string_v2 :: "dynamic_string \<Rightarrow> bool" where
  "string_v2 d \<longleftrightarrow> string_ok d \<and> string_size d = size_unset"

lemma resize_more: "length s \<le> n \<Longrightarrow> resize s n = s @ replicate (n - length s) 0"
  by (simp add: resize_def)

lemma resize_less: "n \<le> length s \<Longrightarrow> resize s n = take n s"
  by (simp add: resize_def)

lemma string_v1_buffer:
  assumes "\<And>c n. n \<le> grow c n"
  shows "dynamic_buffer (string_ops_v1 grow) string_v1 string_bytes"
proof
  show "\<exists>b1 b2. d_prepare (string_ops_v1 grow) b n = Inr b1 \<and> d_commit (string_ops_v1 grow) b1 n bs = Inr b2 \<and>
      string_v1 b2 \<and> string_bytes b2 = string_bytes b @ bs \<and> d_max (string_ops_v1 grow) b2 = d_max (string_ops_v1 grow) b"
    if a: "string_v1 b" "n \<le> d_max (string_ops_v1 grow) b - length (string_bytes b)" "length bs \<le> n" for b n bs
  proof -
    let ?s = "string_bytes b"
    have n: "string_size b = length ?s \<or> string_size b = size_unset" "length ?s \<noteq> size_unset"
      "length ?s + n \<le> string_max b" "string_max b < size_unset"
      using a by (auto simp: string_v1_def string_ok_def string_ops_v1_def)
    define b1 where "b1 = ds_resize grow (b\<lparr>string_size := length ?s\<rparr>) (length ?s + n)"
    have 1: "ds_prepare grow b n = Inr b1"
    proof (cases "string_size b = size_unset")
      case True
      then show ?thesis using n by (simp add: ds_prepare_def ds_size_def b1_def Let_def)
    next
      case False
      then have "b\<lparr>string_size := length ?s\<rparr> = b" using n(1) by (cases b) simp
      then have "b1 = ds_resize grow b (length ?s + n)" by (simp only: b1_def)
      moreover have "\<not> string_max b - length ?s < n" using n(3) by arith
      ultimately show ?thesis using False n by (simp add: ds_prepare_def ds_size_def)
    qed
    have b1: "string_bytes b1 = ?s @ replicate n 0" "string_size b1 = length ?s" "string_max b1 = string_max b"
      "length ?s + n \<le> string_capacity b1"
      using n a(1) assms [of "length ?s + n" "string_capacity b"] by (simp_all add: b1_def ds_resize_def resize_more)
    define p where "p = ds_put b1 (length ?s) bs"
    have p: "string_bytes p = ?s @ bs @ replicate (n - length bs) 0" "string_size p = length ?s"
      "string_max p = string_max b" "string_capacity p = string_capacity b1"
      using a(3) by (simp_all add: p_def ds_put_def b1)
    let ?c = "ds_commit grow p (length bs)"
    have "string_size ?c = length ?s + length bs" "string_bytes ?c = ?s @ bs" "string_max ?c = string_max b"
      "length ?s + length bs \<le> string_capacity ?c"
      using a(3) b1(4) assms [of "length ?s + length bs" "string_capacity p"]
      by (simp_all add: ds_commit_def ds_resize_def Let_def p resize_less)
    then show ?thesis using 1 n a(3) b1(2)
      by (auto simp: string_ops_v1_def string_v1_def string_ok_def p_def)
  qed
qed (auto simp: string_ops_v1_def string_v1_def string_ok_def ds_data_def ds_size_def ds_capacity_def)

lemma string_v2_buffer:
  assumes "\<And>c n. n \<le> grow c n"
  shows "dynamic_buffer (string_ops_v2 grow) string_v2 string_bytes"
proof
  show "\<exists>b1 b2. d_prepare (string_ops_v2 grow) b n = Inr b1 \<and> d_commit (string_ops_v2 grow) b1 n bs = Inr b2 \<and>
      string_v2 b2 \<and> string_bytes b2 = string_bytes b @ bs \<and> d_max (string_ops_v2 grow) b2 = d_max (string_ops_v2 grow) b"
    if a: "string_v2 b" "n \<le> d_max (string_ops_v2 grow) b - length (string_bytes b)" "length bs \<le> n" for b n bs
  proof -
    let ?s = "string_bytes b"
    have n: "string_size b = size_unset" "length ?s + n \<le> string_max b" "string_max b < size_unset" "ds_size b = length ?s"
      using a by (auto simp: string_v2_def string_ok_def string_ops_v2_def ds_size_def)
    define b1 where "b1 = ds_resize grow b (length ?s + n)"
    have 1: "ds_grow grow b n = Inr b1" using n by (simp add: ds_grow_def b1_def)
    have b1: "string_bytes b1 = ?s @ replicate n 0" "string_size b1 = size_unset" "string_max b1 = string_max b"
      "length ?s + n \<le> string_capacity b1" "ds_size b1 = length ?s + n"
      using n assms [of "length ?s + n" "string_capacity b"] by (simp_all add: b1_def ds_resize_def resize_more ds_size_def)
    define p where "p = ds_put b1 (length ?s) bs"
    have p: "string_bytes p = ?s @ bs @ replicate (n - length bs) 0" "string_size p = size_unset"
      "string_max p = string_max b" "string_capacity p = string_capacity b1"
      using a(3) by (simp_all add: p_def ds_put_def b1)
    have s: "ds_size p = length ?s + n" using n a(3) by (simp add: ds_size_def p)
    let ?c = "ds_shrink grow p (n - length bs)"
    have "\<not> length ?s + n < n - length bs" by arith
    then have sh: "?c = ds_resize grow p (length ?s + length bs)" using a(3) by (simp add: ds_shrink_def s)
    have "string_size ?c = size_unset" "string_bytes ?c = ?s @ bs" "string_max ?c = string_max b"
      "length ?s + length bs \<le> string_capacity ?c"
      using a(3) b1(4) assms [of "length ?s + length bs" "string_capacity p"]
      by (simp_all add: sh ds_resize_def p resize_less)
    then show ?thesis using 1 n a(3) b1(5)
      by (auto simp: string_ops_v2_def string_v2_def string_ok_def p_def)
  qed
qed (auto simp: string_ops_v2_def string_v2_def string_ok_def ds_data_range_def ds_size_def ds_capacity_def)

end
