(* ===== verification/Asio_Streambuf.thy ===== *)
theory Asio_Streambuf
  imports Asio_Dynamic
begin

text \<open>
  \<open>basic_streambuf\<close> of the bundled asio, basic\_streambuf.hpp: a vector with a part to read from, the get area,
  before a part to write to, the put area. It is a queue of bytes with a bound; and where a request
  exceeds the bound, the bytes that are in it are damaged.
\<close>

section \<open>State and operations\<close>

text \<open>
  The pointers of the standard library's buffer as indexes: \<open>gptr\<close>, \<open>egptr\<close>, \<open>pptr\<close> and \<open>epptr\<close>. \<open>eback\<close> is
  always the start. How the vector's capacity grows is up to the library.
\<close>

record streambuf =
  sb_max :: nat
  sb_buffer :: "byte list"
  sb_capacity :: nat
  g_next :: nat
  g_end :: nat
  p_next :: nat
  p_end :: nat

definition buffer_delta :: nat where
  "buffer_delta = 128"

definition streambuf_new :: "nat \<Rightarrow> nat \<Rightarrow> streambuf" where
  "streambuf_new cap maximum_size =
     (let pend = min maximum_size buffer_delta
      in \<lparr>sb_max = maximum_size, sb_buffer = replicate (max pend 1) 0, sb_capacity = max cap (max pend 1),
          g_next = 0, g_end = 0, p_next = 0, p_end = pend\<rparr>)"

definition sb_size :: "streambuf \<Rightarrow> nat" where
  "sb_size b = p_next b - g_next b"

definition sb_data :: "streambuf \<Rightarrow> byte list" where
  "sb_data b = take (p_next b - g_next b) (drop (g_next b) (sb_buffer b))"

text \<open>\<open>reserve\<close>, with the buffer as it is left when it throws.\<close>

definition sb_reserve :: "(nat \<Rightarrow> nat \<Rightarrow> nat) \<Rightarrow> streambuf \<Rightarrow> nat \<Rightarrow> streambuf \<times> unit result" where
  "sb_reserve grow b n =
     (if n \<le> p_end b - p_next b then (b, Inr ())
      else (let gnext = g_next b;
                pnext = (if gnext > 0 then p_next b - gnext else p_next b);
                buf = (if gnext > 0 then take pnext (drop gnext (sb_buffer b)) @ drop pnext (sb_buffer b) else sb_buffer b)
            in if n > p_end b - pnext
               then (if n \<le> sb_max b \<and> pnext \<le> sb_max b - n
                     then (let pend = pnext + n; len = max pend 1
                           in (b\<lparr>sb_buffer := resize buf len,
                                 sb_capacity := (if len \<le> sb_capacity b then sb_capacity b else grow (sb_capacity b) len),
                                 g_next := 0, g_end := pnext, p_next := pnext, p_end := pend\<rparr>, Inr ()))
                     else (b\<lparr>sb_buffer := buf\<rparr>, Inl (length_error ''asio::streambuf too long'')))
               else (b\<lparr>sb_buffer := buf, g_next := 0, g_end := pnext, p_next := pnext\<rparr>, Inr ())))"

definition sb_prepare :: "(nat \<Rightarrow> nat \<Rightarrow> nat) \<Rightarrow> streambuf \<Rightarrow> nat \<Rightarrow> streambuf \<times> unit result" where
  "sb_prepare grow b n = sb_reserve grow b n"

text \<open>\<open>pbump\<close> and \<open>gbump\<close> take an \<open>int\<close>.\<close>

definition to_int32 :: "nat \<Rightarrow> int" where
  "to_int32 n = (int n + 2 ^ 31) mod 2 ^ 32 - 2 ^ 31"

definition bump :: "nat \<Rightarrow> nat \<Rightarrow> nat result" where
  "bump p n = (if int p + to_int32 n < 0 then Inl Out_Of_Bounds else Inr (nat (int p + to_int32 n)))"

definition sb_commit :: "streambuf \<Rightarrow> nat \<Rightarrow> streambuf result" where
  "sb_commit b n = bindR (bump (p_next b) (min n (p_end b - p_next b))) (\<lambda>p. Inr (b\<lparr>p_next := p, g_end := p\<rparr>))"

definition sb_consume :: "streambuf \<Rightarrow> nat \<Rightarrow> streambuf result" where
  "sb_consume b n =
     (let b1 = (if g_end b < p_next b then b\<lparr>g_end := p_next b\<rparr> else b);
          n1 = (if g_next b1 + n > p_next b1 then p_next b1 - g_next b1 else n)
      in bindR (bump (g_next b1) n1) (\<lambda>g. Inr (b1\<lparr>g_next := g\<rparr>)))"

text \<open>The stream writes from \<open>pptr\<close> on. \<open>underflow\<close> and \<open>overflow\<close>; \<open>None\<close> is the end of the file.\<close>

definition sb_put :: "streambuf \<Rightarrow> byte list \<Rightarrow> streambuf" where
  "sb_put b bs = b\<lparr>sb_buffer := take (p_next b) (sb_buffer b) @ bs @ drop (p_next b + length bs) (sb_buffer b)\<rparr>"

definition sb_underflow :: "streambuf \<Rightarrow> streambuf \<times> byte option" where
  "sb_underflow b =
     (if g_next b < p_next b then (b\<lparr>g_end := p_next b\<rparr>, Some (sb_buffer b ! g_next b)) else (b, None))"

definition sb_store :: "streambuf \<Rightarrow> byte \<Rightarrow> streambuf" where
  "sb_store b c = b\<lparr>sb_buffer := (sb_buffer b)[p_next b := c], p_next := p_next b + 1\<rparr>"

definition sb_overflow :: "(nat \<Rightarrow> nat \<Rightarrow> nat) \<Rightarrow> streambuf \<Rightarrow> byte option \<Rightarrow> streambuf \<times> unit result" where
  "sb_overflow grow b c =
     (case c of
        None \<Rightarrow> (b, Inr ())
      | Some x \<Rightarrow>
          (let size = p_next b - g_next b;
               r = (if p_next b = p_end b
                    then (if size < sb_max b \<and> sb_max b - size < buffer_delta
                          then sb_reserve grow b (sb_max b - size)
                          else sb_reserve grow b buffer_delta)
                    else (b, Inr ()))
           in case r of (b1, Inl e) \<Rightarrow> (b1, Inl e) | (b1, Inr _) \<Rightarrow> (sb_store b1 x, Inr ())))"

text \<open>\<open>sputc\<close> and \<open>sbumpc\<close> of the standard library, which call them.\<close>

definition sb_sputc :: "(nat \<Rightarrow> nat \<Rightarrow> nat) \<Rightarrow> streambuf \<Rightarrow> byte \<Rightarrow> streambuf \<times> unit result" where
  "sb_sputc grow b c = (if p_next b < p_end b then (sb_store b c, Inr ()) else sb_overflow grow b (Some c))"

definition sb_sbumpc :: "streambuf \<Rightarrow> streambuf \<times> byte option" where
  "sb_sbumpc b =
     (if g_next b < g_end b then (b\<lparr>g_next := g_next b + 1\<rparr>, Some (sb_buffer b ! g_next b))
      else (case sb_underflow b of
          (b1, None) \<Rightarrow> (b1, None)
        | (b1, Some c) \<Rightarrow> (b1\<lparr>g_next := g_next b1 + 1\<rparr>, Some c)))"

definition streambuf_ops :: "(nat \<Rightarrow> nat \<Rightarrow> nat) \<Rightarrow> streambuf dyn_ops" where
  "streambuf_ops grow = \<lparr>d_data = sb_data, d_size = sb_size, d_max = sb_max, d_capacity = sb_capacity,
     d_prepare = (\<lambda>b n. case sb_prepare grow b n of (_, Inl e) \<Rightarrow> Inl e | (b1, Inr _) \<Rightarrow> Inr b1),
     d_commit = (\<lambda>b n bs. sb_commit (sb_put b bs) (length bs))\<rparr>"

section \<open>A queue of bytes\<close>

text \<open>With less than 2 GiB; see \<open>commit_wraps\<close> for more.\<close>

definition sb_inv :: "streambuf \<Rightarrow> bool" where
  "sb_inv b \<longleftrightarrow> g_next b \<le> g_end b \<and> g_end b \<le> p_next b \<and> p_next b \<le> p_end b \<and> p_end b \<le> sb_max b \<and>
     length (sb_buffer b) = max (p_end b) 1 \<and> length (sb_buffer b) \<le> sb_capacity b \<and> sb_max b < 2 ^ 31"

lemma bump_small: "n < 2 ^ 31 \<Longrightarrow> bump p n = Inr (p + n)"
  by (simp add: bump_def to_int32_def nat_add_distrib)

lemma sb_inv_new: "maximum_size < 2 ^ 31 \<Longrightarrow> sb_inv (streambuf_new cap maximum_size)"
  by (simp add: sb_inv_def streambuf_new_def Let_def)

lemma sb_data_length: "sb_inv b \<Longrightarrow> length (sb_data b) = sb_size b"
  by (auto simp: sb_inv_def sb_data_def sb_size_def)

lemma take_resize: "k \<le> length s \<Longrightarrow> k \<le> n \<Longrightarrow> take k (resize s n) = take k s"
  by (simp add: resize_def min_def)

lemma reserve_ok:
  assumes "sb_inv b" "n \<le> sb_max b - sb_size b" "\<And>c k. k \<le> grow c k"
  shows "\<exists>b'. sb_reserve grow b n = (b', Inr ()) \<and> sb_inv b' \<and> sb_data b' = sb_data b \<and> sb_max b' = sb_max b \<and>
    n \<le> p_end b' - p_next b'"
proof (cases "n \<le> p_end b - p_next b")
  case True
  then show ?thesis using assms(1) by (simp add: sb_reserve_def)
next
  case False
  define pnext where "pnext = p_next b - g_next b"
  define buf where "buf = take pnext (drop (g_next b) (sb_buffer b)) @ drop pnext (sb_buffer b)"
  have i: "g_next b \<le> p_next b" "p_next b \<le> p_end b" "p_end b \<le> sb_max b" "length (sb_buffer b) = max (p_end b) 1"
    "length (sb_buffer b) \<le> sb_capacity b" "sb_max b < 2 ^ 31" using assms(1) by (auto simp: sb_inv_def)
  have b: "length buf = length (sb_buffer b)" "take pnext buf = sb_data b"
    using i by (auto simp: buf_def pnext_def sb_data_def)
  have g0: "g_next b = 0 \<Longrightarrow> buf = sb_buffer b" "g_next b = 0 \<Longrightarrow> pnext = p_next b" by (simp_all add: buf_def pnext_def)
  have p: "pnext \<le> sb_max b - n" "n \<le> sb_max b" using assms(2) i by (auto simp: pnext_def sb_size_def)
  have pl: "pnext \<le> length buf" using i b(1) by (simp add: pnext_def)
  show ?thesis
  proof (cases "n > p_end b - pnext")
    case True
    let ?b = "b\<lparr>sb_buffer := resize buf (max (pnext + n) 1),
       sb_capacity := (if max (pnext + n) 1 \<le> sb_capacity b then sb_capacity b else grow (sb_capacity b) (max (pnext + n) 1)),
       g_next := 0, g_end := pnext, p_next := pnext, p_end := pnext + n\<rparr>"
    have "sb_reserve grow b n = (?b, Inr ())"
      using False True p g0 by (auto simp: sb_reserve_def Let_def buf_def [symmetric] pnext_def [symmetric])
    moreover have "sb_inv ?b" using i p assms(3) [of "max (pnext + n) 1" "sb_capacity b"] by (auto simp: sb_inv_def resize_def)
    moreover have "sb_data ?b = sb_data b" using take_resize [of pnext buf "max (pnext + n) 1"] b pl
      by (simp add: sb_data_def)
    ultimately show ?thesis by auto
  next
    case f: False
    let ?b = "b\<lparr>sb_buffer := buf, g_next := 0, g_end := pnext, p_next := pnext\<rparr>"
    have "sb_reserve grow b n = (?b, Inr ())"
      using False f g0 by (auto simp: sb_reserve_def Let_def buf_def [symmetric] pnext_def [symmetric])
    moreover have "sb_inv ?b" using i b by (auto simp: sb_inv_def pnext_def)
    moreover have "sb_data ?b = sb_data b" using b by (simp add: sb_data_def)
    ultimately show ?thesis using f by auto
  qed
qed

lemma put_data:
  assumes "sb_inv b" "length bs \<le> p_end b - p_next b"
  shows "sb_inv (sb_put b bs)" "\<exists>b'. sb_commit (sb_put b bs) (length bs) = Inr b' \<and> sb_inv b' \<and>
    sb_data b' = sb_data b @ bs \<and> sb_max b' = sb_max b"
proof -
  have i: "g_next b \<le> p_next b" "p_next b \<le> p_end b" "p_end b \<le> sb_max b" "length (sb_buffer b) = max (p_end b) 1"
    "sb_max b < 2 ^ 31" using assms(1) by (auto simp: sb_inv_def)
  have l: "length bs < 2 ^ 31" using assms(2) i by simp
  have n: "min (length bs) (p_end b - p_next b) = length bs" using assms(2) by simp
  let ?p = "sb_put b bs"
  show "sb_inv ?p" using assms by (auto simp: sb_inv_def sb_put_def)
  let ?c = "?p\<lparr>p_next := p_next b + length bs, g_end := p_next b + length bs\<rparr>"
  have "sb_commit ?p (length bs) = Inr ?c"
    using n bump_small [OF l, of "p_next b"] by (simp add: sb_commit_def sb_put_def)
  moreover have "sb_inv ?c" using assms by (auto simp: sb_inv_def sb_put_def)
  moreover have "sb_data ?c = sb_data b @ bs"
    using i assms(2) by (simp add: sb_data_def sb_put_def drop_take)
  moreover have "sb_max ?c = sb_max b" by (simp add: sb_put_def)
  ultimately show "\<exists>b'. sb_commit (sb_put b bs) (length bs) = Inr b' \<and> sb_inv b' \<and>
      sb_data b' = sb_data b @ bs \<and> sb_max b' = sb_max b" by blast
qed

lemma streambuf_buffer:
  assumes "\<And>c n. n \<le> grow c n"
  shows "dynamic_buffer (streambuf_ops grow) sb_inv sb_data"
proof
  show "\<exists>b1 b2. d_prepare (streambuf_ops grow) b n = Inr b1 \<and> d_commit (streambuf_ops grow) b1 n bs = Inr b2 \<and>
      sb_inv b2 \<and> sb_data b2 = sb_data b @ bs \<and> d_max (streambuf_ops grow) b2 = d_max (streambuf_ops grow) b"
    if a: "sb_inv b" "n \<le> d_max (streambuf_ops grow) b - length (sb_data b)" "length bs \<le> n" for b n bs
  proof -
    obtain b1 where b1: "sb_reserve grow b n = (b1, Inr ())" "sb_inv b1" "sb_data b1 = sb_data b"
      "sb_max b1 = sb_max b" "n \<le> p_end b1 - p_next b1"
      using reserve_ok [where grow = grow, OF a(1) _ assms, of n] a(2) sb_data_length [OF a(1)] by (auto simp: streambuf_ops_def)
    then obtain b2 where "sb_commit (sb_put b1 bs) (length bs) = Inr b2" "sb_inv b2" "sb_data b2 = sb_data b1 @ bs"
      "sb_max b2 = sb_max b1" using put_data(2) [of b1 bs] a(3) by auto
    then show ?thesis using b1 by (auto simp: streambuf_ops_def sb_prepare_def)
  qed
qed (auto simp: streambuf_ops_def sb_data_length sb_inv_def sb_size_def)

lemma store_ok:
  assumes "sb_inv b" "p_next b < p_end b"
  shows "sb_inv (sb_store b c)" "sb_data (sb_store b c) = sb_data b @ [c]" "sb_max (sb_store b c) = sb_max b"
proof -
  have i: "g_next b \<le> p_next b" "p_next b < length (sb_buffer b)" using assms by (auto simp: sb_inv_def)
  show "sb_inv (sb_store b c)" "sb_max (sb_store b c) = sb_max b" using assms by (auto simp: sb_inv_def sb_store_def)
  have "take (p_next b + 1 - g_next b) (drop (g_next b) ((sb_buffer b)[p_next b := c])) =
      take (p_next b - g_next b) (drop (g_next b) (sb_buffer b)) @ [c]"
    using i by (simp add: Suc_diff_le take_Suc_conv_app_nth drop_update_swap)
  then show "sb_data (sb_store b c) = sb_data b @ [c]" by (simp add: sb_data_def sb_store_def)
qed

lemma sputc_ok:
  assumes "sb_inv b" "sb_size b < sb_max b" "\<And>c k. k \<le> grow c k"
  shows "\<exists>b'. sb_sputc grow b c = (b', Inr ()) \<and> sb_inv b' \<and> sb_data b' = sb_data b @ [c] \<and> sb_max b' = sb_max b"
proof (cases "p_next b < p_end b")
  case True
  then show ?thesis using store_ok [OF assms(1) True] by (simp add: sb_sputc_def)
next
  case False
  then have e: "p_next b = p_end b" using assms(1) by (simp add: sb_inv_def)
  define n where "n = (if sb_max b - sb_size b < buffer_delta then sb_max b - sb_size b else buffer_delta)"
  have n: "n \<le> sb_max b - sb_size b" "0 < n" using assms(2) by (simp_all add: n_def buffer_delta_def)
  obtain b1 where b1: "sb_reserve grow b n = (b1, Inr ())" "sb_inv b1" "sb_data b1 = sb_data b" "sb_max b1 = sb_max b"
    "n \<le> p_end b1 - p_next b1" using reserve_ok [where grow = grow, OF assms(1) n(1) assms(3)] by blast
  have "sb_overflow grow b (Some c) = (sb_store b1 c, Inr ())"
    using b1(1) e assms(2) unfolding n_def by (auto simp: sb_overflow_def Let_def sb_size_def split: if_splits)
  then show ?thesis using store_ok [OF b1(2), of c] b1 n(2) False by (simp add: sb_sputc_def)
qed

lemma consume_ok:
  assumes "sb_inv b"
  shows "\<exists>b'. sb_consume b n = Inr b' \<and> sb_inv b' \<and> sb_data b' = drop n (sb_data b) \<and> sb_max b' = sb_max b"
proof -
  have i: "g_next b \<le> p_next b" "p_next b \<le> sb_max b" "sb_max b < 2 ^ 31" using assms by (auto simp: sb_inv_def)
  define b1 where "b1 = (if g_end b < p_next b then b\<lparr>g_end := p_next b\<rparr> else b)"
  define k where "k = (if g_next b + n > p_next b then p_next b - g_next b else n)"
  have b1: "sb_inv b1" "g_next b1 = g_next b" "p_next b1 = p_next b" "sb_buffer b1 = sb_buffer b" "sb_max b1 = sb_max b"
    "g_end b1 = p_next b"
    using assms by (auto simp: b1_def sb_inv_def)
  have k: "k < 2 ^ 31" "g_next b + k \<le> p_next b" using i by (auto simp: k_def)
  have "sb_consume b n = Inr (b1\<lparr>g_next := g_next b + k\<rparr>)"
  proof -
    have "sb_consume b n = bindR (bump (g_next b1) (if g_next b1 + n > p_next b1 then p_next b1 - g_next b1 else n))
        (\<lambda>g. Inr (b1\<lparr>g_next := g\<rparr>))"
      by (simp only: sb_consume_def Let_def b1_def)
    then show ?thesis using bump_small [OF k(1), of "g_next b"] by (simp only: b1(2,3) k_def [symmetric] bindR_simps)
  qed
  moreover have "sb_inv (b1\<lparr>g_next := g_next b + k\<rparr>)" using b1 k by (auto simp: sb_inv_def)
  moreover have "sb_data (b1\<lparr>g_next := g_next b + k\<rparr>) = drop n (sb_data b)"
    using i by (auto simp: sb_data_def b1 k_def drop_take add.commute)
  ultimately show ?thesis using b1(5) by auto
qed

lemma sbumpc_ok:
  assumes "sb_inv b"
  shows "case sb_sbumpc b of (b', c) \<Rightarrow> sb_inv b' \<and> sb_max b' = sb_max b \<and>
    (case sb_data b of [] \<Rightarrow> c = None \<and> sb_data b' = [] | x # xs \<Rightarrow> c = Some x \<and> sb_data b' = xs)"
proof (cases "g_next b < p_next b")
  case True
  then have l: "g_next b < length (sb_buffer b)" using assms by (auto simp: sb_inv_def)
  then have d: "sb_data b = sb_buffer b ! g_next b # take (p_next b - Suc (g_next b)) (drop (Suc (g_next b)) (sb_buffer b))"
    using True by (simp add: sb_data_def Cons_nth_drop_Suc [symmetric] take_Cons' Suc_diff_Suc)
  have g: "g_end b \<le> p_next b" using assms by (simp add: sb_inv_def)
  show ?thesis
    using assms True d g by (auto simp: sb_sbumpc_def sb_underflow_def sb_inv_def sb_data_def)
next
  case False
  then have "sb_data b = []" "\<not> g_next b < g_end b" using assms by (auto simp: sb_data_def sb_inv_def)
  then show ?thesis using assms False by (simp add: sb_sbumpc_def sb_underflow_def)
qed

lemma prepare_refused:
  assumes "sb_inv b" "sb_max b - sb_size b < n"
  shows "snd (sb_prepare grow b n) = Inl (length_error ''asio::streambuf too long'')"
proof -
  have i: "g_next b \<le> p_next b" "p_next b \<le> p_end b" "p_end b \<le> sb_max b" using assms(1) by (auto simp: sb_inv_def)
  have "\<not> n \<le> p_end b - p_next b" "p_end b - (p_next b - g_next b) < n"
    "\<not> (n \<le> sb_max b \<and> p_next b - g_next b \<le> sb_max b - n)"
    using assms(2) i by (auto simp: sb_size_def)
  then show ?thesis by (auto simp: sb_prepare_def sb_reserve_def Let_def)
qed

section \<open>Properties\<close>



text \<open>
  A request that is refused does not leave the buffer as it was: where some bytes were already read,
  the others are moved to the front before the length is checked, and the pointers are not. With a
  maximum of 4, after \<open>abcd\<close> and one byte consumed, a refused \<open>prepare\<close> turns \<open>bcd\<close> into \<open>cdd\<close>.
\<close>

lemma refused_prepare_damages:
  "let b = \<lparr>sb_max = 4, sb_buffer = [97, 98, 99, 100], sb_capacity = 4, g_next = 1, g_end = 4, p_next = 4, p_end = 4\<rparr>
   in sb_inv b \<and> sb_data b = [98, 99, 100] \<and>
      (case sb_prepare grow b 2 of (b', r) \<Rightarrow> r = Inl (length_error ''asio::streambuf too long'') \<and> sb_data b' = [99, 100, 100])"
  by (simp add: sb_inv_def sb_data_def sb_prepare_def sb_reserve_def Let_def)

text \<open>The cast to \<open>int\<close> makes a commit of 2 GiB go back by as much.\<close>

lemma commit_wraps: "bump p (2 ^ 31) = (if p < 2 ^ 31 then Inl Out_Of_Bounds else Inr (p - 2 ^ 31))"
  by (auto simp: bump_def to_int32_def nat_diff_distrib)

end
