(* ===== verification/Asio_Read_Until.thy ===== *)
theory Asio_Read_Until
  imports Asio_Streambuf "HOL-Library.Sublist"
begin

text \<open>
  Reading up to a delimiter, impl/read\_until.hpp of the bundled asio: the search that remembers where a
  match may start, \<open>partial_search\<close>, the loops of \<open>read_until\<close> and the handlers of \<open>async_read_until\<close>, for a
  character, a string or a condition, and for growing buffers of both versions.
\<close>

section \<open>Searching\<close>

text \<open>The inner loop of \<open>partial_search\<close>: how far the delimiter matches here.\<close>

datatype search_result = Full | Partial | Mismatch

fun search_here :: "byte list \<Rightarrow> byte list \<Rightarrow> bool \<Rightarrow> search_result" where
  "search_here xs [] moved = Full"
| "search_here [] (y # ys) moved = (if moved then Partial else Mismatch)"
| "search_here (x # xs) (y # ys) moved = (if x \<noteq> y then Mismatch else search_here xs ys True)"

text \<open>The position is that of the iterator in the whole data.\<close>

fun partial_search :: "byte list \<Rightarrow> byte list \<Rightarrow> nat \<Rightarrow> nat \<times> bool" where
  "partial_search [] delim i = (i, False)"
| "partial_search (x # xs) delim i =
     (case search_here (x # xs) delim False of
        Full \<Rightarrow> (i, True)
      | Partial \<Rightarrow> (i, False)
      | Mismatch \<Rightarrow> partial_search xs delim (i + 1))"

fun find_char :: "byte list \<Rightarrow> byte \<Rightarrow> nat \<Rightarrow> nat" where
  "find_char [] c i = i"
| "find_char (x # xs) c i = (if x = c then i else find_char xs c (i + 1))"

text \<open>A look at the data from a position: the end of the match, or where the next search starts.\<close>

type_synonym look = "byte list \<Rightarrow> nat \<Rightarrow> nat + nat"

definition look_char :: "byte \<Rightarrow> look" where
  "look_char delim data pos =
     (let iter = find_char (drop pos data) delim pos
      in if iter \<noteq> length data then Inl (iter + 1) else Inr (length data))"

definition look_string :: "byte list \<Rightarrow> look" where
  "look_string delim data pos =
     (case partial_search (drop pos data) delim pos of (iter, full) \<Rightarrow>
        if iter \<noteq> length data then (if full then Inl (iter + length delim) else Inr iter)
        else Inr (length data))"

text \<open>A condition returns a position, and whether it matched.\<close>

definition look_condition :: "(byte list \<Rightarrow> nat \<Rightarrow> nat \<times> bool) \<Rightarrow> look" where
  "look_condition match_condition data pos =
     (case match_condition data pos of (iter, matched) \<Rightarrow>
        if matched then Inl iter else if iter \<noteq> length data then Inr iter else Inr (length data))"

section \<open>Reading\<close>

datatype 'e until_error = Not_Found | Read_Error 'e

text \<open>A stream returns its state, an error and at most as many bytes as there is room for.\<close>

type_synonym ('s, 'e) reader = "'s \<Rightarrow> nat \<Rightarrow> 's \<times> 'e option \<times> byte list"

definition bytes_to_read :: "'b dyn_ops \<Rightarrow> 'b \<Rightarrow> nat" where
  "bytes_to_read D b = min (max 512 (d_capacity D b - d_size D b)) (min 65536 (d_max D b - d_size D b))"

text \<open>\<open>read_until\<close>: the stream, the buffer, and the error and the number of bytes or an exception.\<close>

partial_function (option) read_until_loop :: "'b dyn_ops \<Rightarrow> look \<Rightarrow> ('s, 'e) reader \<Rightarrow> 's \<Rightarrow> 'b \<Rightarrow> nat \<Rightarrow>
    ('s \<times> 'b \<times> ('e until_error option \<times> nat) result) option" where
  "read_until_loop D look read_some s b search_position =
     (case look (d_data D b) search_position of
        Inl k \<Rightarrow> Some (s, b, Inr (None, k))
      | Inr next \<Rightarrow>
          (if d_size D b = d_max D b then Some (s, b, Inr (Some Not_Found, 0))
           else (case d_prepare D b (bytes_to_read D b) of
               Inl e \<Rightarrow> Some (s, b, Inl e)
             | Inr b1 \<Rightarrow>
                 (case read_some s (bytes_to_read D b) of (s', ec, bs) \<Rightarrow>
                    (case d_commit D b1 (bytes_to_read D b) bs of
                       Inl e \<Rightarrow> Some (s', b1, Inl e)
                     | Inr b2 \<Rightarrow>
                         (case ec of
                            Some e \<Rightarrow> Some (s', b2, Inr (Some (Read_Error e), 0))
                          | None \<Rightarrow> read_until_loop D look read_some s' b2 next))))))"

definition read_until :: "'b dyn_ops \<Rightarrow> look \<Rightarrow> ('s, 'e) reader \<Rightarrow> 's \<Rightarrow> 'b \<Rightarrow>
    ('s \<times> 'b \<times> ('e until_error option \<times> nat) result) option" where
  "read_until D look read_some s b = read_until_loop D look read_some s b 0"

text \<open>
  The handler of \<open>async_read_until\<close>. The search position is \<open>None\<close> for \<open>not_found\<close>. A call starts a read, here
  with the number of bytes prepared, or calls the user's handler with an error and a number.
\<close>

datatype 'e until_step =
    Read_Some nat
  | Until_Done "'e until_error option" nat
  | Until_Fault fault

record 'b until_op =
  until_buffers :: 'b
  search_position :: "nat option"
  asked :: nat

definition until_search :: "'b dyn_ops \<Rightarrow> look \<Rightarrow> 'b \<Rightarrow> nat \<Rightarrow> nat option \<times> nat" where
  "until_search D look b pos =
     (case look (d_data D b) pos of
        Inl k \<Rightarrow> (Some k, 0)
      | Inr next \<Rightarrow>
          (if d_size D b = d_max D b then (None, 0) else (Some next, bytes_to_read D b)))"

definition until_result :: "'e option \<Rightarrow> nat option \<Rightarrow> 'e until_step" where
  "until_result ec pos =
     (case pos of
        None \<Rightarrow> Until_Done (Some Not_Found) 0
      | Some k \<Rightarrow> (case ec of None \<Rightarrow> Until_Done None k | Some e \<Rightarrow> Until_Done (Some (Read_Error e)) 0))"

text \<open>The search, and the next read; \<open>start\<close> is whether the call is the first, which reads in any case.\<close>

definition until_next :: "'b dyn_ops \<Rightarrow> look \<Rightarrow> bool \<Rightarrow> 'b until_op \<Rightarrow> 'e option \<Rightarrow> 'b until_op \<times> 'e until_step" where
  "until_next D look start op ec =
     (case until_search D look (until_buffers op) (the (search_position op)) of (pos, n) \<Rightarrow>
        if \<not> start \<and> n = 0 then (op\<lparr>search_position := pos\<rparr>, until_result ec pos)
        else (case d_prepare D (until_buffers op) n of
            Inl e \<Rightarrow> (op\<lparr>search_position := pos\<rparr>, Until_Fault e)
          | Inr b1 \<Rightarrow> (op\<lparr>until_buffers := b1, search_position := pos, asked := n\<rparr>, Read_Some n)))"

definition until_start :: "'b dyn_ops \<Rightarrow> look \<Rightarrow> 'b \<Rightarrow> 'b until_op \<times> 'e until_step" where
  "until_start D look b = until_next D look True \<lparr>until_buffers = b, search_position = Some 0, asked = 0\<rparr> None"

text \<open>A read has ended, with the bytes that the stream has put into the buffer.\<close>

definition until_continue :: "'b dyn_ops \<Rightarrow> look \<Rightarrow> 'e option \<Rightarrow> byte list \<Rightarrow> 'b until_op \<Rightarrow> 'b until_op \<times> 'e until_step" where
  "until_continue D look ec bs op =
     (case d_commit D (until_buffers op) (asked op) bs of
        Inl e \<Rightarrow> (op, Until_Fault e)
      | Inr b1 \<Rightarrow>
          (let op1 = op\<lparr>until_buffers := b1\<rparr>
           in if ec \<noteq> None \<or> bs = [] then (op1, until_result ec (search_position op1))
              else until_next D look False op1 ec))"

section \<open>What a search finds\<close>

text \<open>The end of the first occurrence of a delimiter.\<close>

definition first_end :: "byte list \<Rightarrow> byte list \<Rightarrow> nat \<Rightarrow> bool" where
  "first_end delim data k \<longleftrightarrow>
     (\<exists>i. k = i + length delim \<and> prefix delim (drop i data) \<and> (\<forall>j < i. \<not> prefix delim (drop j data)))"

text \<open>No occurrence starts before a position, however the data goes on.\<close>

definition ruled_out :: "byte list \<Rightarrow> byte list \<Rightarrow> nat \<Rightarrow> bool" where
  "ruled_out delim data pos \<longleftrightarrow> (\<forall>j < pos. delim \<parallel> drop j data)"

text \<open>
  A search is right if what it finds is what it should, if there is nothing when it finds nothing, and if the
  position it returns leaves nothing out.
\<close>

locale matcher =
  fixes look :: look
    and found :: "byte list \<Rightarrow> nat \<Rightarrow> bool"
    and clear :: "byte list \<Rightarrow> nat \<Rightarrow> bool"
  assumes clear_0: "clear data 0"
    and look_found: "clear data pos \<Longrightarrow> pos \<le> length data \<Longrightarrow> look data pos = Inl k \<Longrightarrow> found data k"
    and look_next: "clear data pos \<Longrightarrow> pos \<le> length data \<Longrightarrow> look data pos = Inr next \<Longrightarrow>
      next \<le> length data \<and> clear (data @ rest) next \<and> \<not> found data k"

lemma search_here_iff:
  "search_here xs d m = Full \<longleftrightarrow> prefix d xs"
  "search_here xs d m = Partial \<longleftrightarrow> strict_prefix xs d \<and> (m \<or> xs \<noteq> [])"
  by (induction xs d m rule: search_here.induct) (auto simp: strict_prefix_def)

lemma search_here_Mismatch: "search_here xs d m = Mismatch \<Longrightarrow> xs \<noteq> [] \<Longrightarrow> d \<parallel> xs"
  using search_here_iff [of xs d m] by (auto simp: parallel_def strict_prefix_def)

lemma partial_search_ok:
  "partial_search xs d i = (j, full) \<Longrightarrow> i \<le> j \<and> j \<le> i + length xs \<and> (\<forall>q < j - i. d \<parallel> drop q xs) \<and>
     (full \<longrightarrow> j \<noteq> i + length xs \<and> prefix d (drop (j - i) xs)) \<and>
     (\<not> full \<longrightarrow> j = i + length xs \<or> strict_prefix (drop (j - i) xs) d)"
proof (induction xs d i rule: partial_search.induct)
  case (2 x xs d i)
  show ?case
  proof (cases "search_here (x # xs) d False")
    case Mismatch
    have p: "d \<parallel> x # xs" by (rule search_here_Mismatch [OF Mismatch]) simp
    have "partial_search xs d (i + 1) = (j, full)" using 2(2) Mismatch by simp
    note i = 2(1) [OF Mismatch this]
    have "i + 1 \<le> j" using i by blast
    then have j: "j - i = Suc (j - (i + 1))" by arith
    have "d \<parallel> drop q (x # xs)" if "q < j - i" for q
      using p i that j by (cases q) auto
    then show ?thesis using i j by auto
  qed (use 2(2) search_here_iff [of "x # xs" d False] in auto)
qed auto

lemma find_char_search: "partial_search xs [c] i = (find_char xs c i, find_char xs c i \<noteq> i + length xs)"
proof (induction xs arbitrary: i)
  case (Cons x xs)
  have "find_char ys c k \<le> k + length ys" for ys k by (induction ys arbitrary: k) (auto, metis add_Suc_right add_Suc)
  then show ?case using Cons [of "i + 1"] by auto
qed simp

lemma look_char_string: "pos \<le> length data \<Longrightarrow> look_char c data pos = look_string [c] data pos"
  by (simp add: look_char_def look_string_def find_char_search Let_def)

lemma string_matcher: "delim \<noteq> [] \<Longrightarrow> matcher (look_string delim) (first_end delim) (ruled_out delim)"
proof
  fix data rest :: "byte list" and pos k "next" :: nat
  assume d: "delim \<noteq> []"
  show "ruled_out delim data 0" by (simp add: ruled_out_def)
  assume c: "ruled_out delim data pos" "pos \<le> length data"
  obtain j full where j: "partial_search (drop pos data) delim pos = (j, full)" by fastforce
  note s = partial_search_ok [OF j]
  have out: "delim \<parallel> drop q data" if "q < j" for q
  proof (cases "q < pos")
    case False
    then have "q - pos < j - pos" "drop (q - pos) (drop pos data) = drop q data" using that by simp_all
    then show ?thesis using s by metis
  qed (use c(1) in \<open>simp add: ruled_out_def\<close>)
  have not: "\<not> prefix delim (drop q data)" if "q < j" for q using out [OF that] by (simp add: parallel_def)
  show "first_end delim data k" if "look_string delim data pos = Inl k"
  proof -
    have "full" "k = j + length delim" using that by (auto simp: look_string_def j split: if_splits)
    then show ?thesis using s not c(2) by (auto simp: first_end_def intro!: exI [of _ j])
  qed
  show "next \<le> length data \<and> ruled_out delim (data @ rest) next \<and> \<not> first_end delim data k"
    if l: "look_string delim data pos = Inr next"
  proof -
    have n: "next = j" "\<not> full" "j \<le> length data" using l s c(2) by (auto simp: look_string_def j split: if_splits)
    have "ruled_out delim (data @ rest) next"
      unfolding ruled_out_def
    proof (intro allI impI)
      fix q assume q: "q < next"
      then have "drop q (data @ rest) = drop q data @ rest" using n by simp
      then show "delim \<parallel> drop q (data @ rest)"
        using parallel_append [OF out, of q "[]" rest] q n(1) by simp
    qed
    moreover have "\<not> prefix delim (drop i data)" for i
    proof (cases "i < j")
      case False
      show ?thesis
      proof
        assume p: "prefix delim (drop i data)"
        then have "length delim \<le> length data - i" using prefix_length_le by fastforce
        moreover have "j = length data \<or> length data - j < length delim"
          using s n c(2) prefix_length_less [of "drop j data" delim] by auto
        ultimately show False using False d by (cases delim) auto
      qed
    qed (use not in blast)
    ultimately show ?thesis using n by (auto simp: first_end_def)
  qed
qed

lemma char_matcher: "matcher (look_char c) (first_end [c]) (ruled_out [c])"
proof -
  have "matcher (look_string [c]) (first_end [c]) (ruled_out [c])" by (rule string_matcher) simp
  then show ?thesis by (simp add: matcher_def look_char_string)
qed

section \<open>What reading up to a match does\<close>

locale until = matcher look found clear + dynamic_buffer D inv contents
  for look :: look and found clear and D :: "'b dyn_ops" and inv contents
begin

lemma room:
  assumes "inv b" "d_size D b \<noteq> d_max D b"
  shows "0 < bytes_to_read D b" "bytes_to_read D b \<le> d_max D b - length (contents b)"
  using sizes [OF assms(1)] assms(2) by (auto simp: bytes_to_read_def)

lemma until_loop_ok:
  assumes "\<And>s n s' e bs. read_some s n = (s', e, bs) \<Longrightarrow>
      length bs \<le> n \<and> log s' = log s @ bs \<and> (0 < n \<and> e = None \<longrightarrow> bs \<noteq> [])"
    and "inv b" "clear (contents b) pos" "pos \<le> length (contents b)"
  shows "\<exists>s' b' e n. read_until_loop D look read_some s b pos = Some (s', b', Inr (e, n)) \<and> inv b' \<and>
    (\<exists>bs. contents b' = contents b @ bs \<and> log s' = log s @ bs) \<and>
    (case e of None \<Rightarrow> found (contents b') n
     | Some Not_Found \<Rightarrow> n = 0 \<and> length (contents b') = d_max D b \<and> (\<forall>k. \<not> found (contents b') k)
     | Some (Read_Error x) \<Rightarrow> n = 0 \<and> (\<exists>s1 k bs. read_some s1 k = (s', Some x, bs)))"
  using assms(2-)
proof (induction "d_max D b - length (contents b)" arbitrary: s b pos rule: less_induct)
  case less
  note d = data [OF less.prems(1)] note sz = sizes [OF less.prems(1)]
  show ?case
  proof (cases "look (contents b) pos")
    case (Inl k)
    then show ?thesis using look_found [OF less.prems(2,3) Inl] less.prems(1)
      by (subst read_until_loop.simps) (auto simp: d)
  next
    case (Inr p)
    note nx = look_next [OF less.prems(2,3) Inr]
    show ?thesis
    proof (cases "d_size D b = d_max D b")
      case True
      then show ?thesis using nx less.prems(1) sz Inr by (subst read_until_loop.simps) (auto simp: d)
    next
      case False
      note r = room [OF less.prems(1) False]
      obtain s1 e bs where rd: "read_some s (bytes_to_read D b) = (s1, e, bs)" by (metis prod_cases3)
      note st = assms(1) [OF rd]
      have "length bs \<le> bytes_to_read D b" using st by blast
      from filled [OF less.prems(1) r(2) this] obtain b1 b2 where b: "d_prepare D b (bytes_to_read D b) = Inr b1"
        "d_commit D b1 (bytes_to_read D b) bs = Inr b2" "inv b2" "contents b2 = contents b @ bs" "d_max D b2 = d_max D b"
        by blast
      show ?thesis
      proof (cases e)
        case (Some x)
        then have "read_until_loop D look read_some s b pos = Some (s1, b2, Inr (Some (Read_Error x), 0))"
          using Inr False b rd by (subst read_until_loop.simps) (simp add: d)
        then show ?thesis using b st Some rd by auto
      next
        case None
        then have "bs \<noteq> []" using st r(1) by blast
        then have m: "d_max D b2 - length (contents b2) < d_max D b - length (contents b)"
          using sizes [OF b(3)] b(4,5) by (cases bs) auto
        have "p \<le> length (contents b)" "clear (contents b @ bs) p" using nx by blast+
        then have c: "clear (contents b2) p" "p \<le> length (contents b2)" by (simp_all add: b(4))
        have l: "read_until_loop D look read_some s b pos = read_until_loop D look read_some s1 b2 p"
          using Inr False b rd None by (subst read_until_loop.simps) (simp add: d)
        obtain s' b' e' n bs' where i: "read_until_loop D look read_some s1 b2 p = Some (s', b', Inr (e', n))" "inv b'"
          "contents b' = contents b2 @ bs'" "log s' = log s1 @ bs'"
          "case e' of None \<Rightarrow> found (contents b') n
            | Some Not_Found \<Rightarrow> n = 0 \<and> length (contents b') = d_max D b2 \<and> (\<forall>k. \<not> found (contents b') k)
            | Some (Read_Error x) \<Rightarrow> n = 0 \<and> (\<exists>s1 k bs. read_some s1 k = (s', Some x, bs))"
          using less.hyps [OF m b(3) c, of s1] by blast
        have "contents b' = contents b @ (bs @ bs')" "log s' = log s @ (bs @ bs')" using i(3,4) b(4) st by simp_all
        then show ?thesis
          by (intro exI [of _ s'] exI [of _ b'] exI [of _ e'] exI [of _ n] conjI exI [of _ "bs @ bs'"])
            (use i(1,2) i(5) [unfolded b(5)] l in simp_all)
      qed
    qed
  qed
qed

end

text \<open>
  The reads of an asynchronous operation end with the given results, as long as there are some: an error and
  the bytes read. None has more bytes than were asked for, and none is empty without an error if any were.
\<close>

fun until_run :: "'b dyn_ops \<Rightarrow> look \<Rightarrow> 'b until_op \<times> 'e until_step \<Rightarrow> ('e option \<times> byte list) list \<Rightarrow>
    'b until_op \<times> 'e until_step" where
  "until_run D look (op, Read_Some n) ((ec, bs) # rs) = until_run D look (until_continue D look ec bs op) rs"
| "until_run D look st rs = st"

fun honest_reads :: "'b dyn_ops \<Rightarrow> look \<Rightarrow> 'b until_op \<times> 'e until_step \<Rightarrow> ('e option \<times> byte list) list \<Rightarrow> bool" where
  "honest_reads D look (op, Read_Some n) ((ec, bs) # rs) \<longleftrightarrow>
     length bs \<le> n \<and> (0 < n \<and> ec = None \<longrightarrow> bs \<noteq> []) \<and> honest_reads D look (until_continue D look ec bs op) rs"
| "honest_reads D look st rs = True"

text \<open>The result for the handler, with the bytes that are in the buffer then.\<close>

definition until_outcome :: "(byte list \<Rightarrow> nat \<Rightarrow> bool) \<Rightarrow> nat \<Rightarrow> byte list \<Rightarrow> 'e until_error option \<Rightarrow> nat \<Rightarrow> bool" where
  "until_outcome found maximum data e n \<longleftrightarrow>
     (case e of None \<Rightarrow> found data n
      | Some Not_Found \<Rightarrow> n = 0 \<and> length data = maximum \<and> (\<forall>k. \<not> found data k)
      | Some (Read_Error x) \<Rightarrow> n = 0)"

context until
begin

text \<open>A read is under way: of a buffer \<open>b\<close>, and with a search position that fits it.\<close>

definition reading :: "'b \<Rightarrow> 'b until_op \<Rightarrow> nat \<Rightarrow> bool" where
  "reading b op n \<longleftrightarrow> inv b \<and> d_prepare D b n = Inr (until_buffers op) \<and> n \<le> d_max D b - length (contents b) \<and> asked op = n \<and>
     (if n = 0 then (case search_position op of None \<Rightarrow> length (contents b) = d_max D b \<and> (\<forall>k. \<not> found (contents b) k)
                     | Some k \<Rightarrow> found (contents b) k)
      else (\<exists>p. search_position op = Some p \<and> p \<le> length (contents b) \<and> (\<forall>rest. clear (contents b @ rest) p)))"

lemma next_ok:
  assumes "inv b" "until_buffers op = b" "search_position op = Some p" "p \<le> length (contents b)" "clear (contents b) p"
  shows "case until_next D look start op ec of (op', st) \<Rightarrow>
    (case st of
       Read_Some n \<Rightarrow> reading b op' n \<and> (n = 0 \<longrightarrow> start)
     | Until_Done e n \<Rightarrow> \<not> start \<and> until_buffers op' = b \<and> (ec = None \<longrightarrow> until_outcome found (d_max D b) (contents b) e n)
     | Until_Fault f \<Rightarrow> False)"
proof -
  note d = data [OF assms(1)] note sz = sizes [OF assms(1)]
  have z: "\<exists>b1. d_prepare D b 0 = Inr b1" using filled [OF assms(1), of 0 "[]"] by auto
  show ?thesis
  proof (cases "look (contents b) p")
    case (Inl k)
    then have "found (contents b) k" using look_found [OF assms(5,4)] by blast
    then show ?thesis using Inl z assms(1-3)
      by (auto simp: until_next_def until_search_def d until_result_def until_outcome_def reading_def split: option.split)
  next
    case (Inr q)
    note nx = look_next [OF assms(5,4) Inr]
    have no: "\<not> found (contents b) k" for k using nx by blast
    show ?thesis
    proof (cases "d_size D b = d_max D b")
      case True
      then show ?thesis using Inr z assms(1-3) no sz
        by (auto simp: until_next_def until_search_def d until_result_def until_outcome_def reading_def)
    next
      case False
      note r = room [OF assms(1) False]
      obtain b1 where "d_prepare D b (bytes_to_read D b) = Inr b1" using filled [OF assms(1) r(2), of "[]"] by auto
      moreover have "q \<le> length (contents b)" "\<And>rest. clear (contents b @ rest) q" using nx by blast+
      ultimately show ?thesis using Inr False r assms(1-3)
        by (auto simp: until_next_def until_search_def d reading_def)
    qed
  qed
qed

lemma run_reading:
  assumes "reading b op n" "honest_reads D look (op, Read_Some n) rs"
  shows "\<exists>op' st bs m. until_run D look (op, Read_Some n) rs = (op', st) \<and> bs = concat (map snd (take m rs)) \<and>
    (case st of
       Read_Some k \<Rightarrow> m = length rs \<and> length rs \<le> length bs
     | Until_Done e k \<Rightarrow> inv (until_buffers op') \<and> contents (until_buffers op') = contents b @ bs \<and>
         until_outcome found (d_max D b) (contents b @ bs) e k
     | Until_Fault f \<Rightarrow> False)"
  using assms
proof (induction rs arbitrary: b op n)
  case Nil
  then show ?case by (auto intro!: exI [of _ 0])
next
  case (Cons r rs)
  obtain ec bs where r: "r = (ec, bs)" by (cases r)
  note rd = Cons.prems(1) [unfolded reading_def]
  have h: "length bs \<le> n" "0 < n \<and> ec = None \<longrightarrow> bs \<noteq> []" "honest_reads D look (until_continue D look ec bs op) rs"
    using Cons.prems(2) by (simp_all add: r)
  obtain b2 where b2: "d_commit D (until_buffers op) n bs = Inr b2" "inv b2" "contents b2 = contents b @ bs" "d_max D b2 = d_max D b"
    using filled [of b n bs] rd h(1) by auto
  let ?op = "op\<lparr>until_buffers := b2\<rparr>"
  show ?case
  proof (cases "ec \<noteq> None \<or> bs = []")
    case True
    then have c: "until_continue D look ec bs op = (?op, until_result ec (search_position op))"
      using rd b2(1) by (auto simp: until_continue_def Let_def)
    obtain e k where e: "until_result ec (search_position op) = Until_Done e k"
      by (cases "search_position op"; cases ec) (auto simp: until_result_def)
    have "until_outcome found (d_max D b) (contents b @ bs) e k"
    proof (cases "n = 0")
      case True
      then show ?thesis using rd h(1) e by (auto simp: until_result_def until_outcome_def split: option.splits)
    next
      case False
      then obtain x where "ec = Some x" using True h(2) by auto
      then show ?thesis using rd e False by (auto simp: until_result_def until_outcome_def)
    qed
    then show ?thesis using b2 c e by (intro exI [of _ ?op] exI [of _ "Until_Done e k"] exI [of _ bs] exI [of _ 1]) (simp add: r)
  next
    case False
    then have "0 < n" using h(1) by (cases bs) auto
    then obtain p where p: "search_position op = Some p" "p \<le> length (contents b)" "\<And>rest. clear (contents b @ rest) p"
      using rd by auto
    have c: "until_continue D look ec bs op = until_next D look False ?op ec"
      using False rd b2(1) by (auto simp: until_continue_def Let_def)
    obtain op2 st where st: "until_next D look False ?op ec = (op2, st)" by fastforce
    have n: "case st of Read_Some n \<Rightarrow> reading b2 op2 n \<and> n \<noteq> 0
       | Until_Done e n \<Rightarrow> until_buffers op2 = b2 \<and> until_outcome found (d_max D b) (contents b @ bs) e n
       | Until_Fault f \<Rightarrow> False"
      using next_ok [of b2 ?op p False ec] b2 p st False by (auto split: until_step.splits)
    show ?thesis
    proof (cases st)
      case (Read_Some k)
      have "reading b2 op2 k" "honest_reads D look (op2, Read_Some k) rs" using n h(3) by (simp_all add: c st Read_Some)
      from Cons.IH [OF this] obtain op' st' m where i: "until_run D look (op2, Read_Some k) rs = (op', st')"
        "case st' of
           Read_Some j \<Rightarrow> m = length rs \<and> length rs \<le> length (concat (map snd (take m rs)))
         | Until_Done e j \<Rightarrow> inv (until_buffers op') \<and> contents (until_buffers op') = contents b2 @ concat (map snd (take m rs)) \<and>
             until_outcome found (d_max D b2) (contents b2 @ concat (map snd (take m rs))) e j
         | Until_Fault f \<Rightarrow> False" by blast
      have "bs \<noteq> []" using False by blast
      then show ?thesis using i n b2
        by (intro exI [of _ op'] exI [of _ st'] exI [of _ "bs @ concat (map snd (take m rs))"] exI [of _ "Suc m"])
          (auto simp: r c st Read_Some Suc_le_eq neq_Nil_conv split: until_step.splits)
    next
      case (Until_Done e k)
      then show ?thesis using n b2 by (intro exI [of _ op2] exI [of _ st] exI [of _ bs] exI [of _ 1]) (simp add: r c st)
    qed (use n in simp)
  qed
qed

lemma async_until_ok:
  fixes rs :: "('e option \<times> byte list) list"
  assumes "inv b" "honest_reads D look (until_start D look b) rs"
  shows "\<exists>op' st bs m. until_run D look (until_start D look b) rs = (op', st) \<and> bs = concat (map snd (take m rs)) \<and>
    (case st of
       Read_Some k \<Rightarrow> m = length rs \<and> length rs \<le> length bs
     | Until_Done e k \<Rightarrow> contents (until_buffers op') = contents b @ bs \<and>
         until_outcome found (d_max D b) (contents b @ bs) e k
     | Until_Fault f \<Rightarrow> False)"
proof -
  obtain op and st :: "'e until_step" where s: "until_start D look b = (op, st)" by fastforce
  then have u: "until_next D look True \<lparr>until_buffers = b, search_position = Some 0, asked = 0\<rparr> None = (op, st)"
    by (simp add: until_start_def)
  have "case st of Read_Some n \<Rightarrow> reading b op n | _ \<Rightarrow> False"
    using next_ok [OF assms(1), of "\<lparr>until_buffers = b, search_position = Some 0, asked = 0\<rparr>" 0 True "None :: 'e option"]
    by (auto simp: u clear_0 split: until_step.splits)
  then obtain k where k: "st = Read_Some k" "reading b op k" by (cases st) auto
  have "honest_reads D look (op, Read_Some k) rs" using assms(2) s k(1) by simp
  from run_reading [OF k(2) this] obtain op' st' bs m where "until_run D look (op, Read_Some k) rs = (op', st')"
    "bs = concat (map snd (take m rs))"
    "case st' of
       Read_Some j \<Rightarrow> m = length rs \<and> length rs \<le> length bs
     | Until_Done e j \<Rightarrow> inv (until_buffers op') \<and> contents (until_buffers op') = contents b @ bs \<and>
         until_outcome found (d_max D b) (contents b @ bs) e j
     | Until_Fault f \<Rightarrow> False" by blast
  then show ?thesis unfolding s k(1)
    by (intro exI [of _ op'] exI [of _ st'] exI [of _ bs] exI [of _ m]) (auto split: until_step.splits)
qed

end

section \<open>Properties\<close>

lemma string_until_v1: "delim \<noteq> [] \<Longrightarrow> (\<And>c n. n \<le> grow c n) \<Longrightarrow>
    until (look_string delim) (first_end delim) (ruled_out delim) (string_ops_v1 grow) string_v1 string_bytes"
  by (intro until.intro string_matcher string_v1_buffer)

lemma string_until_v2: "delim \<noteq> [] \<Longrightarrow> (\<And>c n. n \<le> grow c n) \<Longrightarrow>
    until (look_string delim) (first_end delim) (ruled_out delim) (string_ops_v2 grow) string_v2 string_bytes"
  by (intro until.intro string_matcher string_v2_buffer)

lemma streambuf_until: "delim \<noteq> [] \<Longrightarrow> (\<And>c n. n \<le> grow c n) \<Longrightarrow>
    until (look_string delim) (first_end delim) (ruled_out delim) (streambuf_ops grow) sb_inv sb_data"
  by (intro until.intro string_matcher streambuf_buffer)

lemma streambuf_until_char: "(\<And>c n. n \<le> grow c n) \<Longrightarrow>
    until (look_char c) (first_end [c]) (ruled_out [c]) (streambuf_ops grow) sb_inv sb_data"
  by (intro until.intro char_matcher streambuf_buffer)

text \<open>The stream: what it has delivered is its log, and it delivers something or an error.\<close>

definition delivers :: "('s, 'e) reader \<Rightarrow> ('s \<Rightarrow> byte list) \<Rightarrow> bool" where
  "delivers read_some log \<longleftrightarrow>
     (\<forall>s n. case read_some s n of (s', e, bs) \<Rightarrow>
        length bs \<le> n \<and> log s' = log s @ bs \<and> (0 < n \<and> e = None \<longrightarrow> bs \<noteq> []))"

lemma deliversD: "delivers read_some log \<Longrightarrow> read_some s n = (s', e, bs) \<Longrightarrow>
    length bs \<le> n \<and> log s' = log s @ bs \<and> (0 < n \<and> e = None \<longrightarrow> bs \<noteq> [])"
proof -
  assume a: "delivers read_some log" and r: "read_some s n = (s', e, bs)"
  have "\<forall>s n. case read_some s n of (s', e, bs) \<Rightarrow>
      length bs \<le> n \<and> log s' = log s @ bs \<and> (0 < n \<and> e = None \<longrightarrow> bs \<noteq> [])"
    using a unfolding delivers_def .
  from spec [OF spec [OF this, of s], of n] show ?thesis unfolding r prod.case .
qed

lemma ops_max [simp]:
  "d_max (string_ops_v1 grow) = string_max" "d_max (string_ops_v2 grow) = string_max" "d_max (streambuf_ops grow) = sb_max"
  by (simp_all add: string_ops_v1_def string_ops_v2_def streambuf_ops_def)

text \<open>
  What is promised: the operation returns. The buffer holds what it held and what the stream has delivered,
  and nothing is lost behind the match. Without an error, the number is the end of the first
  occurrence in it; \<open>not_found\<close> means that the buffer is full and has none.
\<close>

definition until_promise :: "(byte list \<Rightarrow> nat \<Rightarrow> bool) \<Rightarrow> ('b \<Rightarrow> byte list) \<Rightarrow> nat \<Rightarrow> ('s \<Rightarrow> byte list) \<Rightarrow> 's \<Rightarrow> 'b \<Rightarrow>
    ('s \<times> 'b \<times> ('e until_error option \<times> nat) result) option \<Rightarrow> bool" where
  "until_promise found contents maximum log s b r \<longleftrightarrow>
     (\<exists>s' b' e n bs. r = Some (s', b', Inr (e, n)) \<and> contents b' = contents b @ bs \<and> log s' = log s @ bs \<and>
        until_outcome found maximum (contents b') e n)"

context until
begin

lemma promise:
  assumes "delivers read_some log" "inv b"
  shows "until_promise found contents (d_max D b) log s b (read_until D look read_some s b)"
proof -
  from until_loop_ok [of read_some log b 0 s, OF deliversD [OF assms(1)] assms(2) clear_0] obtain s' b' e n bs where
    "read_until_loop D look read_some s b 0 = Some (s', b', Inr (e, n))" "contents b' = contents b @ bs" "log s' = log s @ bs"
    "case e of None \<Rightarrow> found (contents b') n
     | Some Not_Found \<Rightarrow> n = 0 \<and> length (contents b') = d_max D b \<and> (\<forall>k. \<not> found (contents b') k)
     | Some (Read_Error x) \<Rightarrow> n = 0 \<and> (\<exists>s1 k bs. read_some s1 k = (s', Some x, bs))" by blast
  then show ?thesis
    by (auto simp: until_promise_def read_until_def until_outcome_def split: option.splits until_error.splits)
qed

end


text \<open>A stream that delivers a list, byte by byte.\<close>

definition byte_stream :: "(byte list \<times> byte list, unit) reader" where
  "byte_stream s n =
     (case s of (done, rest) \<Rightarrow>
        (case rest of [] \<Rightarrow> (s, Some (), []) | x # xs \<Rightarrow> if n = 0 then (s, None, []) else ((done @ [x], xs), None, [x])))"


text \<open>\<open>async_read_until\<close> keeps the same promise through its handlers, for every way in which its reads end,
  if no read of more than 0 bytes ends with none and without an error. It ends after at most one
  read more than there are bytes, and no prepared area is ever refused.\<close>

lemma async_read_until_first_occurrence:
  assumes "delim \<noteq> []" "\<forall>c n. n \<le> grow c n" "sb_inv b"
    and "honest_reads (streambuf_ops grow) (look_string delim) (until_start (streambuf_ops grow) (look_string delim) b) rs"
  shows "\<exists>op st bs m. until_run (streambuf_ops grow) (look_string delim)
      (until_start (streambuf_ops grow) (look_string delim) b) rs = (op, st) \<and> bs = concat (map snd (take m rs)) \<and>
    (case st of
       Read_Some k \<Rightarrow> m = length rs \<and> length rs \<le> length bs
     | Until_Done e k \<Rightarrow> sb_data (until_buffers op) = sb_data b @ bs \<and>
         until_outcome (first_end delim) (sb_max b) (sb_data b @ bs) e k
     | Until_Fault f \<Rightarrow> False)"
proof -
  have "until (look_string delim) (first_end delim) (ruled_out delim) (streambuf_ops grow) sb_inv sb_data"
    using assms(1,2) by (intro streambuf_until) auto
  from until.async_until_ok [OF this assms(3,4)] show ?thesis unfolding ops_max .
qed

lemma async_read_until_first_occurrence_witness:
  "let D = streambuf_ops (\<lambda>c n. n); b = streambuf_new 0 64; rs = [(Some (), [])] :: (unit option \<times> byte list) list
   in \<exists>op st bs m. until_run D (look_string [13, 10]) (until_start D (look_string [13, 10]) b) rs = (op, st) \<and>
      bs = concat (map snd (take m rs)) \<and>
      (case st of
         Read_Some k \<Rightarrow> m = length rs \<and> length rs \<le> length bs
       | Until_Done e k \<Rightarrow> sb_data (until_buffers op) = sb_data b @ bs \<and>
           until_outcome (first_end [13, 10]) (sb_max b) (sb_data b @ bs) e k
       | Until_Fault f \<Rightarrow> False)"
  unfolding Let_def
proof (rule async_read_until_first_occurrence)
  have "honest_reads D look st [(Some (), [])]" for D :: "streambuf dyn_ops" and look and st :: "streambuf until_op \<times> unit until_step"
    by (cases st; cases "snd st"; cases "until_continue D look (Some ()) [] (fst st)"; cases "snd (until_continue D look (Some ()) [] (fst st))") auto
  then show "honest_reads (streambuf_ops (\<lambda>c n. n)) (look_string [13, 10])
      (until_start (streambuf_ops (\<lambda>c n. n)) (look_string [13, 10]) (streambuf_new 0 64)) [(Some (), [])]" .
qed (simp_all add: sb_inv_new)

end
