(* ===== verification/Spec2Isabelle.thy ===== *)
theory Spec2Isabelle
  imports Descriptor_Safety Socket_Props Socket_Mode Socket_Stream Deadline_Props Epoll_Edge Strand_Props Asio_Strand_List Ring_Callback Manager_Props Scheduler_Ops Asio_Op_Queue Asio_Network Asio_Timer_Set
    Asio_Transfer Asio_Buffer_Copy Asio_Read_Until
begin

text \<open>
  A verification of PSS\_Client, a C++ client library for TCP, UDP and serial lines on top of a
  bundled copy of asio, with its test program.

  \<^bold>\<open>The program\<close>

  A user of the library (pss\_tcp\_client) calls the functions of framework.h. They work on one
  \<open>CClient_Manager\<close> (client\_manager.h), which owns the clients by their ids and an io thread, and on
  one \<open>TMS\<close> (tms.hpp), which owns the logic threads and, through \<open>TimerMgr\<close> (TimerManager.hpp),
  the timers. A client, \<open>CASIOClient\<close>, \<open>CASIOUDPClient\<close> or \<open>CASIOTTYClient\<close>, starts asynchronous
  operations of asio; their handlers run on the io thread, give the received bytes to the user's
  packet format (\<open>ipacket_format\<close>) and post each packet as a message to the client's logic
  thread, \<open>CLogicTasK\<close>, whose queue is \<open>CMessageQueue\<close> (ThreadQueue.h). There it goes to the user's
  \<open>ipacket_dispose\<close>. Lost connections are reported, and taken up again, by messages and by a timer.
  The test program (pss\_tcp\_client\_test) has a packet format over a ring buffer
  (\<open>jnk0le::Ringbuffer\<close>) and a packet handler that calls back into the library. The io thread runs
  asio's scheduler, behind \<open>io_context\<close>.

  \<^bold>\<open>The theories\<close>

  \<^item> \<open>Prelude\<close>: machine integers, faults of C++ (an out-of-bounds access, a signed overflow, an
    exception, ...), the result type of operations that may fault, bytes, shared lemmas.
    \<open>Std_Map\<close>: \<open>std::map\<close>, with the locale \<open>ordered_map\<close>.
  \<^item> \<open>Ring_Buffer\<close> (ring\_buffer.hpp): one definition per member function over the two indexes and the
    array, the invariant, and its refinement to the list of unread elements (locale
    \<open>fifo_buffer\<close>). \<open>Pss_Common\<close> (pss\_common.h, IOClient.h).
  \<^item> \<open>Packet_Format\<close> (packet\_format.cpp): \<open>format_recv_buffer\<close>, its loop \<open>recv_loop\<close>, and
    \<open>format_send_buffer\<close>. \<open>Packet_Stream\<close>: a parser of a byte stream, and that the ring-based
    code implements it. \<open>Packet_Props\<close>: the properties.
  \<^item> \<open>Timer_Manager\<close> (TimerManager.hpp): timers, the priority queue, and the timer thread as a step
    function with a program counter, interleaved with adding, cancelling and closing threads.
    \<open>Timer_Props\<close>: the invariants, the locale \<open>timer_queue\<close>, the properties.
  \<^item> \<open>Message_Queue\<close> (ThreadQueue.h), with the locale \<open>message_fifo\<close>; \<open>Logic_Task\<close> (\<open>CLogicTasK\<close>);
    \<open>TMS\<close> and \<open>TMS_Props\<close> (\<open>TMS\<close>): logic threads and timers by index, the callbacks of timers,
    closing, step by step where a call blocks.
  \<^item> \<open>IO_Client\<close>: what the clients share. \<open>TCP_Client\<close>, \<open>UDP_Client\<close>, \<open>TTY_Client\<close>: one definition
    per function and per handler. \<open>IO_System\<close>: a client with its handlers, messages and callers
    interleaved, and the locale \<open>connection\<close>, interpreted on all three. \<open>IO_Props\<close>.
  \<^item> \<open>Client_Manager\<close> and \<open>Framework\<close>: the manager with its clients in a store that keeps track of
    what holds them alive, the module's functions, the test program's handler. \<open>Manager_Props\<close>.
  \<^item> \<open>Asio_Serial\<close> (serial\_port\_base.ipp): serial options and their flags in a \<open>termios\<close>.
  \<^item> \<open>Asio_Sys\<close>: the system's calls on descriptors as functions of a world, the state bits, and the loops
    around a call. \<open>Asio_Descriptor_Ops\<close> (descriptor\_ops.ipp), \<open>Asio_Socket_Ops\<close> and \<open>Asio_Socket_IO\<close>
    (socket\_ops.ipp): one definition per function, blocking and non-blocking.
  \<^item> \<open>Asio_Reactive_Ops\<close> (reactive\_socket\_*\_op.hpp, descriptor\_*\_op.hpp, buffer\_sequence\_adapter.hpp): what the
    operations of the reactor do. \<open>Asio_Socket_Service\<close> (reactive\_socket\_service\_base.ipp and .hpp),
    \<open>Asio_Descriptor_Service\<close> (reactive\_descriptor\_service.ipp and .hpp, reactive\_serial\_port\_service.ipp): how
    sockets, descriptors and serial ports are opened, moved and closed, and their operations started, on the
    reactor. \<open>Socket_Props\<close>, \<open>Socket_Mode\<close>, \<open>Socket_Stream\<close>, \<open>Descriptor_Safety\<close>: their properties.
  \<^item> \<open>Asio_Scheduler\<close> (detail/scheduler.ipp, posix\_event.hpp): \<open>run\<close>, \<open>run_one\<close>, \<open>wait_one\<close>, \<open>poll\<close>,
    \<open>poll_one\<close>, posting and stopping, for any number of threads. \<open>Scheduler_Wake\<close>,
    \<open>Scheduler_Work\<close>, \<open>Scheduler_Ops\<close>: its invariants. \<open>Asio_Op_Queue\<close> (op\_queue.hpp): the linked
    queue behind the lists of the scheduler's model, with the locale \<open>op_fifo\<close>.
  \<^item> \<open>Asio_Time\<close> (chrono\_time\_traits.hpp), \<open>Asio_Timer_Queue\<close> (timer\_queue.hpp) with its lemmas in
    \<open>Timer_Heap\<close> and \<open>Timer_Queue_Props\<close>, and \<open>Asio_Timer_Set\<close> (timer\_queue\_set.ipp): the timers of a
    reactor, in a heap and a linked list.
  \<^item> \<open>Asio_Buffer\<close> (detail/consuming\_buffers.hpp): sequences of buffers and the window of them that
    the next call of a stream gets. \<open>Asio_Transfer\<close> (impl/read.hpp, write.hpp, read\_at.hpp,
    write\_at.hpp, completion\_condition.hpp): the composed reads and writes, as loops and as handlers.
    \<open>Asio_Buffer_Copy\<close> (buffer.hpp): \<open>buffer\_copy\<close> between sequences of buffers in memory.
  \<^item> \<open>Asio_Dynamic\<close> (buffer.hpp), \<open>Asio_Streambuf\<close> (basic\_streambuf.hpp): the dynamic buffers over a
    string and over a \<open>streambuf\<close>, with a locale of what a read into them relies on.
    \<open>Asio_Read_Until\<close> (impl/read\_until.hpp): reading up to a delimiter, with \<open>partial\_search\<close>.
  \<^item> \<open>Asio_Strand\<close> (detail/impl/strand\_executor\_service.ipp and .hpp, strand\_service.ipp): strands, their
    handlers interleaved with the threads that submit to them, with the lemmas in
    \<open>Strand_Props\<close>. \<open>Asio_Object_Pool\<close> (detail/object\_pool.hpp) and \<open>Asio_Strand_List\<close>: the linked lists
    that own descriptors and strands.
  \<^item> \<open>Asio_Error\<close> (error.hpp), \<open>Asio_Epoll\<close> (detail/impl/epoll\_reactor.ipp): the reactor's descriptors,
    their queues of operations and the events. \<open>Epoll_Props\<close>: the reactor with any sockets, step by
    step. \<open>Epoll_Edge\<close>: the same with a system that reports readiness only once.
  \<^item> \<open>Epoll_Timers\<close> (epoll\_reactor.ipp and .hpp, deadline\_timer\_service.hpp): the reactor's timers and the
    service of timers on top of the timer queues. \<open>Deadline_Props\<close>: what its users rely on.
  \<^item> \<open>Asio_Address\<close>, \<open>Asio_Network\<close> (ip/impl/address*.ipp, network\_v4.ipp): addresses and networks.

  A class is a record with the fields of the class, a member function a definition with the name
  of the function (a suffix or prefix where two classes share one). A \<open>size_t\<close>, \<open>uint32_t\<close> and so on
  is a word of its width; a C++ \<open>int\<close> whose overflow is undefined is a number with the overflow as
  a fault. Threads are steps: what a thread does under a lock is one step, and a wait for a
  condition variable ends it.

  \<^bold>\<open>What is shown\<close>

  \<^item> Packets: as long as they do not cross the end of the ring's array, the packet format is a
    parser of the byte stream, whatever the reads; what is sent is received; and the inputs that
    make the code read out of bounds.
  \<^item> Timers: a one-shot timer fires at most once and a cancelled one never, in every
    interleaving; no timer is lost, late or out of turn if adding takes the lock that it does
    not take in the code; and the interleavings in which the code loses a timer, a wake-up, a
    delay or a close.
  \<^item> Logic threads: messages are run in order and once, closing ends the thread, what a closed
    timer and a closed logic do.
  \<^item> Clients: a TCP client delivers the packets of its stream in order and reports the end of the
    connection; and the runs in which a closed client comes back, a freed client is called, a
    serial client cannot connect, closing hangs.
  \<^item> asio: the scheduler loses neither an operation nor a wake-up, held work keeps it running
    and \<open>stop\<close> ends it; its linked queue is a list; a timer queue is a map from timers to
    expiries and operations, which come out in order, and the waits fit it; a timer's waits end when
    its current expiry is reached or changed; a strand runs its handlers one at a time, in order, and
    loses none; the reactor serves the operations of a descriptor in order, loses and doubles none, and
    forgets none while the system reports an edge once, with the exception of a read behind the end of a
    stream; a composed read or write
    transfers the bytes in order, whatever the stream does; a \<open>streambuf\<close> is a queue of bytes with a
    bound; \<open>read\_until\<close> finds the first delimiter however the input is cut; serial options,
    addresses, netmasks and subnets mean what they say.
  \<^item> Sockets and descriptors: the outcomes that an asynchronous receive or send can have; an asynchronous
    operation is performed on a descriptor in non-blocking mode only, whatever modes the user sets; a blocking
    composed write through a socket sends a prefix of its bytes and all of them unless it reports an error;
    opening, moving, closing and destroying sockets and serial ports in any order leaks no descriptor and
    closes none twice; and the object of the reactor that a failed open leaves behind.

  Loops are total: the packet loop ends because each round consumes a packet (a measure), the
  destructor of the linked queue is shown to end on every well-formed queue, and threads are
  driven by lists of steps of any length, so no bound or fuel limits a theorem.

  \<^bold>\<open>What is assumed and what is not modelled\<close>

  The operations of the sockets and of the reactor complete with any result asio documents, at any
  time; the packet format of a client, the texts of errors and the system's parser of addresses are
  parameters. Memory is sequentially consistent, and unsynchronised accesses, which the code has
  in the map of logics and in the fields of timers, are no steps of their own. Elements with equal
  keys leave a priority queue in the order they entered it. Allocation does not fail.

  What an operation does on a descriptor, epoll, the timer descriptor and the clock are parameters of the
  reactor and of the timers.

  Not modelled: what is only printed; the singletons, time stamps and the main of the test program;
  the Windows branches of asio; of asio's scheduler, runs nested in handlers, switched-off locking
  and pending exceptions; regular
  expressions in \<open>read\_until\<close>, buffers over a vector; of the reactor, forks and the creation of its
  descriptors; and the rest of asio (its sockets, the other reactors,
  executors other than strands, resolvers and TLS), on which the clients rely through the results of the operations only.
\<close>

end
